(* ===== verification/Prelude.thy ===== *)
theory Prelude
  imports Main "HOL-Library.Word"
begin

text \<open>
  Shared vocabulary of the development: the machine types of the Go sources, byte orders
  (\<open>encoding/binary\<close>), slices and \<open>copy\<close>, instants and durations (package \<open>time\<close>), and
  the generic lemmas the components use.  Go's \<open>byte\<close>, \<open>uint16\<close>, \<open>uint32\<close> and \<open>uint64\<close> are
  words of that width; a slice or array of bytes is a list of bytes; an \<open>int64\<close> is an
  \<open>int\<close> kept in range by \<open>int64\<close>.
\<close>

unbundle bit_operations_syntax

named_theorems byte_simps \<open>lengths and round trips of the byte encodings\<close>
named_theorems time_simps \<open>instants, durations and their constants\<close>

type_synonym byte = "8 word"
type_synonym u16 = "16 word"
type_synonym u32 = "32 word"
type_synonym u64 = "64 word"
type_synonym bytes = "byte list"

subsection \<open>Byte orders\<close>

primrec le_nat :: "bytes \<Rightarrow> nat" where
  "le_nat [] = 0"
| "le_nat (b # bs) = unat b + 256 * le_nat bs"

definition be_nat :: "bytes \<Rightarrow> nat" where
  "be_nat bs = le_nat (rev bs)"

primrec le_bytes :: "nat \<Rightarrow> nat \<Rightarrow> bytes" where
  "le_bytes 0 x = []"
| "le_bytes (Suc k) x = word_of_nat (x mod 256) # le_bytes k (x div 256)"

definition be_bytes :: "nat \<Rightarrow> nat \<Rightarrow> bytes" where
  "be_bytes k x = rev (le_bytes k x)"

lemma length_le_bytes [simp, byte_simps]: "length (le_bytes k x) = k"
  by (induction k arbitrary: x) auto

lemma length_be_bytes [simp, byte_simps]: "length (be_bytes k x) = k"
  by (simp add: be_bytes_def)

lemma unat_byte_lt [simp]: "unat (b :: byte) < 256"
  using unsigned_less [of b, where ?'a = nat] by simp

lemma unat_byte_of_nat [simp]: "unat (word_of_nat (x mod 256) :: byte) = x mod 256"
  by (simp add: unat_of_nat)

lemma le_nat_le_bytes [byte_simps]: "le_nat (le_bytes k x) = x mod 256 ^ k"
  by (induction k arbitrary: x) (auto simp: mod_mult2_eq)

lemma le_bytes_le_nat [byte_simps]: "length bs = k \<Longrightarrow> le_bytes k (le_nat bs) = bs"
proof (induction bs arbitrary: k)
  case Nil
  then show ?case by simp
next
  case (Cons b bs)
  then obtain k' where k: "k = Suc k'" "length bs = k'" by auto
  have "(unat b + 256 * le_nat bs) mod 256 = unat b"
    and "(unat b + 256 * le_nat bs) div 256 = le_nat bs"
    by simp_all
  then show ?case using k Cons.IH [of k'] by simp
qed

lemma le_nat_lt: "le_nat bs < 256 ^ length bs"
proof (induction bs)
  case Nil
  then show ?case by simp
next
  case (Cons b bs)
  have "unat b + 256 * le_nat bs < 256 * (le_nat bs + 1)" by simp
  also have "\<dots> \<le> 256 * 256 ^ length bs" using Cons.IH by simp
  finally show ?case by simp
qed

lemma be_nat_be_bytes [byte_simps]: "be_nat (be_bytes k x) = x mod 256 ^ k"
  by (simp add: be_nat_def be_bytes_def le_nat_le_bytes)

lemma be_bytes_be_nat [byte_simps]: "length bs = k \<Longrightarrow> be_bytes k (be_nat bs) = bs"
  by (simp add: be_nat_def be_bytes_def le_bytes_le_nat)

lemma be_nat_lt: "be_nat bs < 256 ^ length bs"
  using le_nat_lt [of "rev bs"] by (simp add: be_nat_def)

lemma le_nat_append: "le_nat (xs @ ys) = le_nat xs + 256 ^ length xs * le_nat ys"
  by (induction xs) (auto simp: algebra_simps)

lemma be_nat_append: "be_nat (xs @ ys) = be_nat xs * 256 ^ length ys + be_nat ys"
  by (simp add: be_nat_def le_nat_append algebra_simps)

lemma be_nat_Nil [simp]: "be_nat [] = 0"
  by (simp add: be_nat_def)

lemma be_nat_Cons: "be_nat (b # bs) = unat b * 256 ^ length bs + be_nat bs"
  using be_nat_append [of "[b]" bs] by (simp add: be_nat_def)

text \<open>\<open>binary.LittleEndian\<close> and \<open>binary.BigEndian\<close>: readers take a prefix of their slice,
  writers give the bytes they store.  Callers check the length first, as the code does.\<close>

definition LE_Uint32 :: "bytes \<Rightarrow> u32" where
  "LE_Uint32 b = word_of_nat (le_nat (take 4 b))"

definition LE_Uint64 :: "bytes \<Rightarrow> u64" where
  "LE_Uint64 b = word_of_nat (le_nat (take 8 b))"

definition BE_Uint16 :: "bytes \<Rightarrow> u16" where
  "BE_Uint16 b = word_of_nat (be_nat (take 2 b))"

definition BE_Uint32 :: "bytes \<Rightarrow> u32" where
  "BE_Uint32 b = word_of_nat (be_nat (take 4 b))"

definition BE_Uint64 :: "bytes \<Rightarrow> u64" where
  "BE_Uint64 b = word_of_nat (be_nat (take 8 b))"

definition LE_PutUint32 :: "u32 \<Rightarrow> bytes" where
  "LE_PutUint32 w = le_bytes 4 (unat w)"

definition LE_PutUint64 :: "u64 \<Rightarrow> bytes" where
  "LE_PutUint64 w = le_bytes 8 (unat w)"

definition BE_PutUint16 :: "u16 \<Rightarrow> bytes" where
  "BE_PutUint16 w = be_bytes 2 (unat w)"

definition BE_PutUint32 :: "u32 \<Rightarrow> bytes" where
  "BE_PutUint32 w = be_bytes 4 (unat w)"

definition BE_PutUint64 :: "u64 \<Rightarrow> bytes" where
  "BE_PutUint64 w = be_bytes 8 (unat w)"

lemma length_Put [simp, byte_simps]:
  "length (LE_PutUint32 w) = 4" "length (LE_PutUint64 x) = 8"
  "length (BE_PutUint16 y) = 2" "length (BE_PutUint32 w) = 4" "length (BE_PutUint64 x) = 8"
  by (simp_all add: LE_PutUint32_def LE_PutUint64_def BE_PutUint16_def BE_PutUint32_def
      BE_PutUint64_def)

lemma unat_mod_size: "unat (w :: 'a::len word) mod 2 ^ LENGTH('a) = unat w"
  using unsigned_less [of w, where ?'a = nat] by simp

lemma unat_succ:
  fixes i hi :: "'a::len word"
  assumes "i < hi"
  shows "unat (i + 1) = Suc (unat i)"
proof -
  have "unat i < unat hi" using assms by (simp add: word_less_nat_alt)
  moreover have "unat hi < 2 ^ LENGTH('a)" by simp
  ultimately have "Suc (unat i) mod 2 ^ LENGTH('a) = Suc (unat i)" by (intro mod_less) linarith
  then show ?thesis by (simp add: unat_word_ariths)
qed

lemma LE_Uint32_Put [simp, byte_simps]: "LE_Uint32 (LE_PutUint32 w @ r) = w"
  using unat_mod_size [of w]
  by (simp add: LE_Uint32_def LE_PutUint32_def le_nat_le_bytes)

lemma LE_Uint64_Put [simp, byte_simps]: "LE_Uint64 (LE_PutUint64 w @ r) = w"
  using unat_mod_size [of w]
  by (simp add: LE_Uint64_def LE_PutUint64_def le_nat_le_bytes)

lemma BE_Uint16_Put [simp, byte_simps]: "BE_Uint16 (BE_PutUint16 w @ r) = w"
  using unat_mod_size [of w]
  by (simp add: BE_Uint16_def BE_PutUint16_def be_nat_be_bytes)

lemma BE_Uint32_Put [simp, byte_simps]: "BE_Uint32 (BE_PutUint32 w @ r) = w"
  using unat_mod_size [of w]
  by (simp add: BE_Uint32_def BE_PutUint32_def be_nat_be_bytes)

lemma BE_Uint64_Put [simp, byte_simps]: "BE_Uint64 (BE_PutUint64 w @ r) = w"
  using unat_mod_size [of w]
  by (simp add: BE_Uint64_def BE_PutUint64_def be_nat_be_bytes)

lemma LE_PutUint32_Uint32 [byte_simps]: "length b = 4 \<Longrightarrow> LE_PutUint32 (LE_Uint32 b) = b"
  using le_nat_lt [of b] by (simp add: LE_Uint32_def LE_PutUint32_def unat_of_nat byte_simps)

lemma LE_PutUint64_Uint64 [byte_simps]: "length b = 8 \<Longrightarrow> LE_PutUint64 (LE_Uint64 b) = b"
  using le_nat_lt [of b] by (simp add: LE_Uint64_def LE_PutUint64_def unat_of_nat byte_simps)

subsection \<open>Slices\<close>

text \<open>\<open>b[lo:hi]\<close> of a slice, and \<open>copy(dst[off:], src)\<close>, which copies as many bytes as fit.\<close>

definition slice :: "nat \<Rightarrow> nat \<Rightarrow> 'a list \<Rightarrow> 'a list" where
  "slice lo hi b = take (hi - lo) (drop lo b)"

definition go_copy :: "'a list \<Rightarrow> nat \<Rightarrow> 'a list \<Rightarrow> 'a list" where
  "go_copy dst off src = take off dst @ take (length dst - off) src @ drop (off + length src) dst"

lemma length_slice [simp, byte_simps]: "hi \<le> length b \<Longrightarrow> length (slice lo hi b) = hi - lo"
  by (simp add: slice_def)

lemma length_go_copy [simp, byte_simps]: "off \<le> length dst \<Longrightarrow> length (go_copy dst off src) = length dst"
  by (simp add: go_copy_def)

lemma slice_append [simp, byte_simps]:
  "slice lo hi (xs @ ys) =
    (if length xs \<le> lo then slice (lo - length xs) (hi - length xs) ys
     else if hi \<le> length xs then slice lo hi xs
     else drop lo xs @ take (hi - length xs) ys)"
  by (auto simp: slice_def)

lemma slice_all [simp, byte_simps]: "slice 0 n b = take n b"
  by (simp add: slice_def)

lemma sorted_le_last: "sorted xs \<Longrightarrow> x \<in> set xs \<Longrightarrow> x \<le> last xs"
  by (induction xs) (auto split: if_splits)

subsection \<open>Instants and durations\<close>

text \<open>A \<open>time.Time\<close> is a count of nanoseconds since Go's zero time (January 1 of year 1), so
  that \<open>time.Time{}\<close> is 0.  A \<open>time.Duration\<close> is an \<open>int64\<close>; \<open>Sub\<close> and \<open>Since\<close> saturate.\<close>

type_synonym instant = int
type_synonym duration = int

definition int64 :: "int \<Rightarrow> int" where
  "int64 x = signed_take_bit 63 x"

definition Second :: duration where
  "Second = 1000000000"

definition Millisecond :: duration where
  "Millisecond = 1000000"

definition maxDuration :: duration where
  "maxDuration = 2 ^ 63 - 1"

definition minDuration :: duration where
  "minDuration = - (2 ^ 63)"

definition time_sub :: "instant \<Rightarrow> instant \<Rightarrow> duration" where
  "time_sub t u = max minDuration (min maxDuration (t - u))"

definition unixOffset :: int where
  "unixOffset = 62135596800"

definition Unix :: "instant \<Rightarrow> int" where
  "Unix t = t div Second - unixOffset"

definition Nanosecond :: "instant \<Rightarrow> int" where
  "Nanosecond t = t mod Second"

definition UnixNano :: "instant \<Rightarrow> int" where
  "UnixNano t = int64 (t - unixOffset * Second)"

lemma int64_id: "- (2 ^ 63) \<le> x \<Longrightarrow> x < 2 ^ 63 \<Longrightarrow> int64 x = x"
  by (simp add: int64_def signed_take_bit_int_eq_self)

lemma time_sub_exact: "\<bar>t - u\<bar> < 2 ^ 63 \<Longrightarrow> time_sub t u = t - u"
  by (auto simp: time_sub_def minDuration_def maxDuration_def max_def min_def)

lemma time_sub_gt_iff: "d < maxDuration \<Longrightarrow> minDuration \<le> d \<Longrightarrow> time_sub t u > d \<longleftrightarrow> t - u > d"
  by (auto simp: time_sub_def)

end
