(* ===== verification/Replay.thy ===== *)
theory Replay
  imports Prelude
begin

text \<open>
  Package \<open>replay\<close> (replay/replay.go): the sliding-window anti-replay filter of RFC 6479.
  The record \<open>Filter\<close> is the Go struct, \<open>Reset\<close> and \<open>ValidateCounter\<close> its two methods, and
  \<open>clearBlocks\<close> the loop inside the second.  The abstract filter remembers the set of all
  accepted counters; \<open>filter_rel\<close> relates the ring of bit blocks to it, and the locale
  \<open>replay_guard\<close> is the contract the receive path relies on.
\<close>

subsection \<open>The filter of the code\<close>

definition blockBitLog :: nat where
  "blockBitLog = 6"

definition blockBits :: nat where
  "blockBits = 2 ^ blockBitLog"

definition ringBlocks :: nat where
  "ringBlocks = 2 ^ 7"

definition windowSize :: nat where
  "windowSize = (ringBlocks - 1) * blockBits"

definition blockMask :: u64 where
  "blockMask = word_of_nat (ringBlocks - 1)"

definition bitMask :: u64 where
  "bitMask = word_of_nat (blockBits - 1)"

lemmas replay_consts =
  blockBitLog_def blockBits_def ringBlocks_def windowSize_def blockMask_def bitMask_def

record Filter =
  flast :: u64
  fring :: "u64 list"

definition emptyFilter :: Filter where
  "emptyFilter = \<lparr>flast = 0, fring = replicate ringBlocks 0\<rparr>"

definition Reset :: "Filter \<Rightarrow> Filter" where
  "Reset f = f\<lparr>flast := 0, fring := (fring f)[0 := 0]\<rparr>"

text \<open>\<open>for i := current + 1; i <= current+diff; i++\<close>.  The bound is below \<open>2 ^ 59\<close>, so the
  test \<open>i = hi\<close> ends the loop exactly where Go's comparison after the increment does.\<close>

function clearBlocks :: "u64 \<Rightarrow> u64 \<Rightarrow> u64 list \<Rightarrow> u64 list" where
  "clearBlocks i hi r =
     (if i \<le> hi then
        let r' = r[unat (i AND blockMask) := 0]
        in if i = hi then r' else clearBlocks (i + 1) hi r'
      else r)"
  by pat_completeness auto
termination
proof (relation "measure (\<lambda>(i, hi, r). unat (hi - i))")
  show "wf (measure (\<lambda>(i, hi, r :: u64 list). unat (hi - i)))" by simp
next
  fix i hi :: u64 and r r' :: "u64 list"
  assume "i \<le> hi" "i \<noteq> hi"
  then have lt: "i < hi" by simp
  then have ne: "hi - i \<noteq> 0" by simp
  have "unat (hi - (i + 1)) = unat ((hi - i) - 1)" by (simp add: algebra_simps)
  also have "\<dots> = unat (hi - i) - 1" using ne by (simp add: unat_minus_one)
  also have "\<dots> < unat (hi - i)" using ne by (simp add: unat_gt_0)
  finally show "((i + 1, hi, r'), (i, hi, r)) \<in> measure (\<lambda>(i, hi, r). unat (hi - i))"
    by simp
qed

declare clearBlocks.simps [simp del]

text \<open>The two halves of \<open>ValidateCounter\<close>: moving the window, and the check-and-set of a bit.\<close>

definition moveWindow :: "u64 \<Rightarrow> Filter \<Rightarrow> Filter" where
  "moveWindow counter f =
     (let indexBlock = drop_bit blockBitLog counter;
          current = drop_bit blockBitLog (flast f);
          diff = indexBlock - current;
          diff = (if diff > word_of_nat ringBlocks then word_of_nat ringBlocks else diff)
      in f\<lparr>flast := counter, fring := clearBlocks (current + 1) (current + diff) (fring f)\<rparr>)"

definition checkAndSet :: "u64 \<Rightarrow> Filter \<Rightarrow> bool \<times> Filter" where
  "checkAndSet counter f =
     (let indexBlock = drop_bit blockBitLog counter AND blockMask;
          indexBit = counter AND bitMask;
          old = fring f ! unat indexBlock;
          new = old OR push_bit (unat indexBit) 1
      in (old \<noteq> new, f\<lparr>fring := (fring f)[unat indexBlock := new]\<rparr>))"

definition ValidateCounter :: "Filter \<Rightarrow> u64 \<Rightarrow> u64 \<Rightarrow> bool \<times> Filter" where
  "ValidateCounter f counter limit =
     (if counter \<ge> limit then (False, f)
      else if counter > flast f then checkAndSet counter (moveWindow counter f)
      else if flast f - counter > word_of_nat windowSize then (False, f)
      else checkAndSet counter f)"

subsection \<open>Index arithmetic\<close>

lemma unat_and_blockMask: "unat (i AND blockMask) = unat i mod 128"
proof -
  have "blockMask = mask 7" by (simp add: replay_consts mask_eq_exp_minus_1)
  then have "unat (i AND blockMask) = unat (take_bit 7 i)" by (simp add: take_bit_eq_mask)
  then show ?thesis by (simp add: take_bit_eq_mod unat_mod_distrib)
qed

lemma unat_and_bitMask: "unat (i AND bitMask) = unat i mod 64"
proof -
  have "bitMask = mask 6" by (simp add: replay_consts mask_eq_exp_minus_1)
  then have "unat (i AND bitMask) = unat (take_bit 6 i)" by (simp add: take_bit_eq_mask)
  then show ?thesis by (simp add: take_bit_eq_mod unat_mod_distrib)
qed

lemma unat_block: "unat (drop_bit blockBitLog (c :: u64)) = unat c div 64"
  by (simp add: replay_consts drop_bit_eq_div unat_div_distrib)

lemma unat_u64_lt: "unat (c :: u64) < 2 ^ 64"
  using unsigned_less [of c, where ?'a = nat] by simp

lemma clearBlocks_spec:
  assumes "length r = 128"
  shows "length (clearBlocks i hi r) = 128 \<and>
    (\<forall>k < 128. clearBlocks i hi r ! k =
      (if \<exists>n. unat i \<le> n \<and> n \<le> unat hi \<and> n mod 128 = k then 0 else r ! k))"
  using assms
proof (induction i hi r rule: clearBlocks.induct)
  case (1 i hi r)
  let ?r = "r[unat (i AND blockMask) := 0]"
  show ?case
  proof (cases "i < hi")
    case True
    then have le: "i \<le> hi" and ne: "i \<noteq> hi" by auto
    have Suc: "unat (i + 1) = Suc (unat i)"
      using True by (rule unat_succ)
    have IH: "length (clearBlocks (i + 1) hi ?r) = 128 \<and>
      (\<forall>k < 128. clearBlocks (i + 1) hi ?r ! k =
        (if \<exists>n. Suc (unat i) \<le> n \<and> n \<le> unat hi \<and> n mod 128 = k then 0 else ?r ! k))"
      using "1.IH" [OF le refl ne] "1.prems" Suc by simp
    have lt: "unat i \<le> unat hi" using True by (simp add: word_less_nat_alt)
    have split: "(\<exists>n. unat i \<le> n \<and> n \<le> unat hi \<and> n mod 128 = k) \<longleftrightarrow>
        unat i mod 128 = k \<or> (\<exists>n. Suc (unat i) \<le> n \<and> n \<le> unat hi \<and> n mod 128 = k)" for k
    proof
      assume "\<exists>n. unat i \<le> n \<and> n \<le> unat hi \<and> n mod 128 = k"
      then obtain n where "unat i \<le> n" "n \<le> unat hi" "n mod 128 = k" by blast
      then show "unat i mod 128 = k \<or> (\<exists>n. Suc (unat i) \<le> n \<and> n \<le> unat hi \<and> n mod 128 = k)"
        by (cases "n = unat i") (auto intro: exI [of _ n])
    next
      assume "unat i mod 128 = k \<or> (\<exists>n. Suc (unat i) \<le> n \<and> n \<le> unat hi \<and> n mod 128 = k)"
      then show "\<exists>n. unat i \<le> n \<and> n \<le> unat hi \<and> n mod 128 = k"
        using lt by (auto dest: Suc_leD)
    qed
    have "clearBlocks i hi r = clearBlocks (i + 1) hi ?r"
      using le ne by (simp add: clearBlocks.simps [of i hi r] Let_def)
    moreover have "?r ! k = (if unat i mod 128 = k then 0 else r ! k)" if "k < 128" for k
      using "1.prems" that by (simp add: unat_and_blockMask nth_list_update)
    ultimately show ?thesis
      using IH by (auto simp: split)
  next
    case False
    show ?thesis
    proof (cases "i = hi")
      case True
      then have "clearBlocks i hi r = ?r" by (simp add: clearBlocks.simps [of hi hi r])
      moreover have "(\<exists>n. unat i \<le> n \<and> n \<le> unat hi \<and> n mod 128 = k) \<longleftrightarrow> unat i mod 128 = k" for k
        using True by auto
      ultimately show ?thesis
        using "1.prems" by (auto simp: unat_and_blockMask nth_list_update)
    next
      case ne: False
      with False have "\<not> i \<le> hi" by auto
      then have "clearBlocks i hi r = r" by (simp add: clearBlocks.simps [of i hi r])
      moreover have "unat hi < unat i" using \<open>\<not> i \<le> hi\<close> by (simp add: word_less_nat_alt not_le)
      ultimately show ?thesis using "1.prems" by auto
    qed
  qed
qed

lemmas clearBlocks_length = clearBlocks_spec [THEN conjunct1]
lemmas clearBlocks_nth = clearBlocks_spec [THEN conjunct2, rule_format]

subsection \<open>The abstract filter and the refinement relation\<close>

text \<open>The abstract filter is the highest counter accepted so far and the set of all accepted
  counters; it accepts a counter below the limit that was not accepted before and is not
  more than \<open>windowSize\<close> behind the highest.\<close>

definition spec_accepts :: "nat \<times> nat set \<Rightarrow> nat \<Rightarrow> nat \<Rightarrow> bool" where
  "spec_accepts a c limit \<longleftrightarrow> c < limit \<and> c \<notin> snd a \<and> fst a \<le> c + windowSize"

definition spec_step :: "nat \<times> nat set \<Rightarrow> nat \<Rightarrow> nat \<Rightarrow> nat \<times> nat set" where
  "spec_step a c limit = (if spec_accepts a c limit then (max (fst a) c, insert c (snd a)) else a)"

definition filter_rel :: "Filter \<Rightarrow> nat \<times> nat set \<Rightarrow> bool" where
  "filter_rel f a \<longleftrightarrow>
     length (fring f) = 128 \<and> unat (flast f) = fst a \<and> (\<forall>x \<in> snd a. x \<le> fst a) \<and>
     (\<forall>b j. b \<le> fst a div 64 \<longrightarrow> fst a div 64 < b + 128 \<longrightarrow> j < 64 \<longrightarrow>
        bit (fring f ! (b mod 128)) j = (64 * b + j \<in> snd a))"

lemma filter_relD:
  assumes "filter_rel f a"
  shows "length (fring f) = 128" "unat (flast f) = fst a" "x \<in> snd a \<Longrightarrow> x \<le> fst a"
    "b \<le> fst a div 64 \<Longrightarrow> fst a div 64 < b + 128 \<Longrightarrow> j < 64 \<Longrightarrow>
       bit (fring f ! (b mod 128)) j = (64 * b + j \<in> snd a)"
  using assms unfolding filter_rel_def by blast+

lemma same_slot:
  fixes b b' :: nat
  assumes "b mod 128 = b' mod 128" "b < b' + 128" "b' < b + 128"
  shows "b = b'"
proof -
  have "128 dvd (b' - b)" "128 dvd (b - b')"
    using assms(1) by (metis mod_eq_dvd_iff_nat nat_le_linear diff_is_0_eq dvd_0_right)+
  moreover have "b' - b < 128" "b - b' < 128" using assms(2,3) by linarith+
  ultimately have "b' - b = 0" "b - b' = 0" by (metis gr0I nat_dvd_not_less)+
  then show ?thesis by simp
qed

lemma bit_or_push: "j < 64 \<Longrightarrow> bit (w OR push_bit j (1 :: u64)) n \<longleftrightarrow> bit w n \<or> n = j"
  unfolding set_bit_eq_or [symmetric] bit_set_bit_iff by auto

lemma set_bit_old_new: "j < 64 \<Longrightarrow> (old \<noteq> old OR push_bit j (1 :: u64)) = (\<not> bit old j)"
  by (metis bit_eqI bit_or_push)

lemma checkAndSet_refines:
  assumes rel: "filter_rel f (l, S)" and c: "unat c \<le> l" "l \<le> unat c + windowSize"
  shows "fst (checkAndSet c f) = (unat c \<notin> S)"
    and "filter_rel (snd (checkAndSet c f)) (l, insert (unat c) S)"
proof -
  let ?b = "unat c div 64" and ?j = "unat c mod 64"
  note rel' = filter_relD [OF rel, simplified]
  have j: "?j < 64" by simp
  have win: "?b \<le> l div 64" "l div 64 < ?b + 128"
    using c by (simp_all add: div_le_mono replay_consts)
  have idx: "unat (drop_bit blockBitLog c AND blockMask) = ?b mod 128"
    by (simp add: unat_and_blockMask unat_block)
  have bit: "bit (fring f ! (?b mod 128)) ?j = (unat c \<in> S)"
    using rel'(4) [OF win j] by simp
  show "fst (checkAndSet c f) = (unat c \<notin> S)"
    using bit by (simp add: checkAndSet_def Let_def idx unat_and_bitMask set_bit_old_new [OF j]
        del: push_bit_of_1)
  have ring: "fring (snd (checkAndSet c f)) =
      (fring f)[?b mod 128 := fring f ! (?b mod 128) OR push_bit ?j 1]"
    by (simp add: checkAndSet_def Let_def idx unat_and_bitMask del: push_bit_of_1)
  have "bit (fring (snd (checkAndSet c f)) ! (b mod 128)) j = (64 * b + j \<in> insert (unat c) S)"
    if b: "b \<le> l div 64" "l div 64 < b + 128" "j < 64" for b j
  proof (cases "b mod 128 = ?b mod 128")
    case True
    moreover have "b < ?b + 128" "?b < b + 128" using b(1,2) win by linarith+
    ultimately have "b = ?b" by (rule same_slot)
    moreover have "64 * ?b + j = unat c \<longleftrightarrow> j = ?j"
      by (metis add_left_cancel mult_div_mod_eq)
    ultimately show ?thesis
      using rel'(1) rel'(4) [OF b] by (auto simp: ring bit_or_push [OF j] simp del: push_bit_of_1)
  next
    case False
    moreover have "(64 * b + j) div 64 = b" using b(3) by simp
    ultimately have "64 * b + j \<noteq> unat c" by metis
    then show ?thesis using False rel'(4) [OF b] by (simp add: ring del: push_bit_of_1)
  qed
  moreover have "flast (snd (checkAndSet c f)) = flast f"
    by (simp add: checkAndSet_def Let_def)
  ultimately show "filter_rel (snd (checkAndSet c f)) (l, insert (unat c) S)"
    using rel'(1-3) c by (auto simp: filter_rel_def ring simp del: push_bit_of_1)
qed

lemma moveWindow_refines:
  assumes rel: "filter_rel f (l, S)" and c: "l < unat c"
  shows "filter_rel (moveWindow c f) (unat c, S)"
proof -
  note rel' = filter_relD [OF rel, simplified]
  define cur where "cur = l div 64"
  define nb where "nb = unat c div 64"
  define d where "d = min (nb - cur) 128"
  let ?cur = "drop_bit blockBitLog (flast f)" and ?nb = "drop_bit blockBitLog c"
  define w where "w = (if ?nb - ?cur > word_of_nat ringBlocks then word_of_nat ringBlocks else ?nb - ?cur)"
  have le: "cur \<le> nb" using c by (simp add: cur_def nb_def div_le_mono)
  have small: "nb < 2 ^ 58" using unat_u64_lt [of c] by (simp add: nb_def less_mult_imp_div_less)
  have ucur: "unat ?cur = cur" using rel'(2) by (simp add: unat_block cur_def)
  have unb: "unat ?nb = nb" by (simp add: unat_block nb_def)
  have "unat (?nb - ?cur) = nb - cur" using le ucur unb by (simp add: unat_sub word_le_nat_alt)
  then have uw: "unat w = d"
    by (auto simp: w_def d_def word_less_nat_alt replay_consts)
  have lo: "unat (?cur + 1) = cur + 1" and hi: "unat (?cur + w) = cur + d"
    using small le uw ucur by (simp_all add: unat_word_ariths d_def)
  have ring: "fring (moveWindow c f) = clearBlocks (?cur + 1) (?cur + w) (fring f)"
    and last: "flast (moveWindow c f) = c"
    by (simp_all add: moveWindow_def Let_def w_def)
  note nth = clearBlocks_nth [OF rel'(1), of _ "?cur + 1" "?cur + w", unfolded lo hi]
  have "bit (fring (moveWindow c f) ! (b mod 128)) j = (64 * b + j \<in> S)"
    if b: "b \<le> nb" "nb < b + 128" "j < 64" for b j
  proof (cases "b \<le> cur")
    case True
    have "\<not> (\<exists>n. cur + 1 \<le> n \<and> n \<le> cur + d \<and> n mod 128 = b mod 128)"
    proof
      assume "\<exists>n. cur + 1 \<le> n \<and> n \<le> cur + d \<and> n mod 128 = b mod 128"
      then obtain n where n: "cur + 1 \<le> n" "n \<le> cur + d" "n mod 128 = b mod 128" by blast
      have "d \<le> nb - cur" by (simp add: d_def)
      with n le b True have "n < b + 128" "b < n + 128" by linarith+
      with n(3) have "n = b" by (rule same_slot)
      with n True show False by simp
    qed
    then have "fring (moveWindow c f) ! (b mod 128) = fring f ! (b mod 128)"
      by (auto simp: ring nth)
    then show ?thesis using rel'(4) [of b j] True b le by (simp add: cur_def)
  next
    case False
    have "\<exists>n. cur + 1 \<le> n \<and> n \<le> cur + d \<and> n mod 128 = b mod 128"
    proof (cases "nb - cur \<le> 128")
      case True
      then have "d = nb - cur" by (simp add: d_def)
      then show ?thesis using False b le by (intro exI [of _ b]) simp
    next
      case big: False
      then have "d = 128" by (simp add: d_def)
      define r where "r = (b - (cur + 1)) mod 128"
      have "(cur + 1 + r) mod 128 = (cur + 1 + (b - (cur + 1))) mod 128"
        unfolding r_def by (rule mod_add_right_eq)
      also have "\<dots> = b mod 128" using False by simp
      finally show ?thesis
        using \<open>d = 128\<close> by (intro exI [of _ "cur + 1 + r"]) (simp add: r_def)
    qed
    then have "fring (moveWindow c f) ! (b mod 128) = 0" by (simp add: ring nth)
    moreover have "l < 64 * b + j" using False by (simp add: cur_def not_le div_less_iff_less_mult)
    ultimately show ?thesis using rel'(3) [of "64 * b + j"] by (auto simp: not_le)
  qed
  moreover have "\<forall>x \<in> S. x \<le> unat c" using rel'(3) c by fastforce
  ultimately show ?thesis
    using clearBlocks_length [OF rel'(1)] by (simp add: filter_rel_def last ring nb_def)
qed

lemma ValidateCounter_refines:
  assumes rel: "filter_rel f a" and v: "ValidateCounter f c limit = (ok, f')"
  shows "ok = spec_accepts a (unat c) (unat limit)"
    and "filter_rel f' (spec_step a (unat c) (unat limit))"
proof -
  obtain l S where a: "a = (l, S)" by (cases a)
  note rel' = filter_relD [OF rel, unfolded a, simplified]
  consider (limit) "c \<ge> limit" | (new) "c < limit" "c > flast f"
    | (old) "c < limit" "c \<le> flast f" "flast f - c > word_of_nat windowSize"
    | (in_window) "c < limit" "c \<le> flast f" "flast f - c \<le> word_of_nat windowSize"
    by force
  then have "ok = spec_accepts a (unat c) (unat limit) \<and>
    filter_rel f' (spec_step a (unat c) (unat limit))"
  proof cases
    case limit
    then show ?thesis
      using v rel by (auto simp: ValidateCounter_def spec_accepts_def spec_step_def word_le_nat_alt)
  next
    case new
    then have gt: "l < unat c" using rel'(2) by (simp add: word_less_nat_alt)
    note mv = moveWindow_refines [OF rel [unfolded a] gt]
    have "(ok, f') = checkAndSet c (moveWindow c f)"
      using v new by (auto simp: ValidateCounter_def split: if_splits)
    moreover have "spec_accepts a (unat c) (unat limit)"
      using gt new rel'(3) by (fastforce simp: spec_accepts_def a word_less_nat_alt)
    moreover have "unat c \<notin> S" using gt rel'(3) by fastforce
    ultimately show ?thesis
      using checkAndSet_refines [OF mv] gt by (auto simp: spec_step_def a max_def prod_eq_iff)
  next
    case old
    then have "unat (flast f - c) = l - unat c" using rel'(2) by (simp add: unat_sub)
    then have "\<not> l \<le> unat c + windowSize"
      using old by (simp add: word_less_nat_alt replay_consts)
    then show ?thesis
      using v rel old by (auto simp: ValidateCounter_def spec_accepts_def spec_step_def a
          split: if_splits)
  next
    case in_window
    then have "unat (flast f - c) = l - unat c" "unat c \<le> l"
      using rel'(2) by (simp_all add: unat_sub word_le_nat_alt)
    then have win: "unat c \<le> l" "l \<le> unat c + windowSize"
      using in_window by (simp_all add: word_le_nat_alt replay_consts)
    have "(ok, f') = checkAndSet c f"
      using v in_window by (auto simp: ValidateCounter_def split: if_splits)
    then have "ok = (unat c \<notin> S)" "filter_rel f' (l, insert (unat c) S)"
      using checkAndSet_refines [OF rel [unfolded a] win] by (auto simp: prod_eq_iff)
    then show ?thesis
      using win in_window(1)
      by (auto simp: spec_accepts_def spec_step_def a max_def word_less_nat_alt insert_absorb)
  qed
  then show "ok = spec_accepts a (unat c) (unat limit)"
    and "filter_rel f' (spec_step a (unat c) (unat limit))" by blast+
qed

lemma filter_rel_Reset: "length (fring f) = 128 \<Longrightarrow> filter_rel (Reset f) (0, {})"
  by (auto simp: filter_rel_def Reset_def)

subsection \<open>The contract of a replay guard\<close>

text \<open>Runs of a guard over a list of counters under one limit: the counters it accepts, in
  order, and the guard it ends in.\<close>

primrec accepted :: "('f \<Rightarrow> 'c \<Rightarrow> 'c \<Rightarrow> bool \<times> 'f) \<Rightarrow> 'f \<Rightarrow> 'c \<Rightarrow> 'c list \<Rightarrow> 'c list" where
  "accepted validate f limit [] = []"
| "accepted validate f limit (c # cs) =
     (case validate f c limit of (ok, f') \<Rightarrow>
        (if ok then [c] else []) @ accepted validate f' limit cs)"

primrec after_all :: "('f \<Rightarrow> 'c \<Rightarrow> 'c \<Rightarrow> bool \<times> 'f) \<Rightarrow> 'f \<Rightarrow> 'c \<Rightarrow> 'c list \<Rightarrow> 'f" where
  "after_all validate f limit [] = f"
| "after_all validate f limit (c # cs) = after_all validate (snd (validate f c limit)) limit cs"

text \<open>What the receive path uses of the filter: a relation to the abstract filter that every
  call keeps and that determines the verdict.\<close>

locale replay_guard =
  fixes validate :: "'f \<Rightarrow> 'c \<Rightarrow> 'c \<Rightarrow> bool \<times> 'f"
    and num :: "'c \<Rightarrow> nat"
    and rel :: "'f \<Rightarrow> nat \<times> nat set \<Rightarrow> bool"
  assumes validate_verdict:
      "rel f a \<Longrightarrow> validate f c limit = (ok, f') \<Longrightarrow> ok = spec_accepts a (num c) (num limit)"
    and validate_rel:
      "rel f a \<Longrightarrow> validate f c limit = (ok, f') \<Longrightarrow> rel f' (spec_step a (num c) (num limit))"
begin

lemma accepted_fresh:
  "rel f a \<Longrightarrow> distinct (map num (accepted validate f limit cs)) \<and>
     set (map num (accepted validate f limit cs)) \<inter> snd a = {} \<and>
     (\<forall>c \<in> set (accepted validate f limit cs). num c < num limit)"
proof (induction cs arbitrary: f a)
  case Nil
  then show ?case by simp
next
  case (Cons c cs)
  obtain ok f' where v: "validate f c limit = (ok, f')" by (cases "validate f c limit")
  note verdict = validate_verdict [OF Cons.prems v]
  note IH = Cons.IH [OF validate_rel [OF Cons.prems v]]
  show ?case
  proof (cases ok)
    case True
    then have "spec_accepts a (num c) (num limit)" using verdict by simp
    then show ?thesis
      using IH True v by (auto simp: spec_step_def spec_accepts_def)
  next
    case False
    then show ?thesis using IH verdict v by (simp add: spec_step_def)
  qed
qed

lemma accepted_once: "rel f a \<Longrightarrow> distinct (accepted validate f limit cs)"
  using accepted_fresh distinct_map by blast

lemma after_all_rel:
  "rel f a \<Longrightarrow> rel (after_all validate f limit cs)
     (fold max (map num (accepted validate f limit cs)) (fst a),
      snd a \<union> num ` set (accepted validate f limit cs))"
proof (induction cs arbitrary: f a)
  case Nil
  then show ?case by simp
next
  case (Cons c cs)
  obtain ok f' where v: "validate f c limit = (ok, f')" by (cases "validate f c limit")
  have step: "spec_step a (num c) (num limit) =
      (if ok then (max (fst a) (num c), insert (num c) (snd a)) else a)"
    using validate_verdict [OF Cons.prems v] by (simp add: spec_step_def)
  show ?case
    using Cons.IH [OF validate_rel [OF Cons.prems v]] v step
    by (cases ok) (simp_all add: max.commute)
qed

lemma verdict_after:
  assumes "rel f (0, {})"
  shows "fst (validate (after_all validate f limit cs) c limit) \<longleftrightarrow>
    num c < num limit \<and> num c \<notin> num ` set (accepted validate f limit cs) \<and>
    fold max (map num (accepted validate f limit cs)) 0 \<le> num c + windowSize"
  using validate_verdict [OF after_all_rel [OF assms]]
  by (cases "validate (after_all validate f limit cs) c limit") (auto simp: spec_accepts_def)

end

interpretation rf: replay_guard ValidateCounter unat filter_rel
  by unfold_locales (fact ValidateCounter_refines)+

subsection \<open>Properties of the filter\<close>

text \<open>C10.  No replay: whatever counters are presented to a filter after \<open>Reset\<close>, in whatever
  order, no counter is accepted twice and none at or above the limit is accepted.\<close>

theorem replay_never_twice:
  assumes "length (fring f) = ringBlocks"
  shows "distinct (accepted ValidateCounter (Reset f) limit cs) \<and>
    (\<forall>c \<in> set (accepted ValidateCounter (Reset f) limit cs). c < limit)"
proof -
  have rel: "filter_rel (Reset f) (0, {})"
    using assms by (intro filter_rel_Reset) (simp add: replay_consts)
  show ?thesis
    using rf.accepted_once [OF rel] rf.accepted_fresh [OF rel] by (auto simp: word_less_nat_alt)
qed

lemma replay_example:
  "accepted ValidateCounter (Reset emptyFilter) 9000 [3, 3, 8200, 3, 72, 71, 9000] = [3, 8200, 72]"
  by code_simp

theorem replay_never_twice_witness:
  "distinct (accepted ValidateCounter (Reset emptyFilter) 9000 [3, 3, 8200, 3, 72, 71, 9000]) \<and>
   accepted ValidateCounter (Reset emptyFilter) 9000 [3, 3, 8200, 3, 72, 71, 9000] \<noteq> []"
  using replay_never_twice [of emptyFilter 9000 "[3, 3, 8200, 3, 72, 71, 9000]"] replay_example
  by (simp add: emptyFilter_def)

text \<open>C7.  Exact verdict: after any sequence of calls on a reset filter, a counter is accepted
  if and only if it is below the limit, was not accepted before, and lies at most
  \<open>windowSize\<close> behind the highest accepted counter.  In particular a fresh counter inside the
  window is never dropped, although \<open>Reset\<close> clears only the first block of the ring.\<close>

theorem replay_exact_verdict:
  assumes "length (fring f) = ringBlocks"
  shows "fst (ValidateCounter (after_all ValidateCounter (Reset f) limit cs) c limit) \<longleftrightarrow>
    c < limit \<and> c \<notin> set (accepted ValidateCounter (Reset f) limit cs) \<and>
    fold max (map unat (accepted ValidateCounter (Reset f) limit cs)) 0 \<le> unat c + windowSize"
proof -
  have rel: "filter_rel (Reset f) (0, {})"
    using assms by (intro filter_rel_Reset) (simp add: replay_consts)
  show ?thesis
    using rf.verdict_after [OF rel]
    by (auto simp: word_less_nat_alt simp flip: word_unat_eq_iff)
qed

theorem replay_exact_verdict_witness:
  "let f = after_all ValidateCounter (Reset emptyFilter) 9000 [3, 3, 8200, 3, 72, 71, 9000]
   in fst (ValidateCounter f 73 9000) \<and> \<not> fst (ValidateCounter f 71 9000)"
  using replay_exact_verdict [of emptyFilter 9000 "[3, 3, 8200, 3, 72, 71, 9000]"] replay_example
  by (simp add: emptyFilter_def replay_consts)

end
