(* ===== verification/Ratelimiter.thy ===== *)
theory Ratelimiter
  imports Prelude "HOL-Library.AList"
begin

text \<open>
  Package \<open>ratelimiter\<close> (ratelimiter/ratelimiter.go): a token bucket per source address, with
  a garbage-collection goroutine woken by a channel.  The table is an association list (Go's
  map; its order is the unspecified iteration order), \<open>stopReset\<close> the state of the channel,
  \<open>ticking\<close> whether the goroutine's ticker runs.  A send on or close of a closed channel and a
  write to a nil map panic in Go: those results are \<open>None\<close>.  Each call reads the clock once,
  \<open>now\<close>.  The locale \<open>credit_bound\<close> is the accounting argument of a token bucket.
\<close>

subsection \<open>State and operations\<close>

definition packetsPerSecond :: int where
  "packetsPerSecond = 20"

definition packetsBurstable :: int where
  "packetsBurstable = 5"

definition garbageCollectTime :: duration where
  "garbageCollectTime = Second"

definition packetCost :: int where
  "packetCost = 1000000000 div packetsPerSecond"

definition maxTokens :: int where
  "maxTokens = packetCost * packetsBurstable"

lemmas rate_consts = packetsPerSecond_def packetsBurstable_def garbageCollectTime_def
  packetCost_def maxTokens_def Second_def

datatype resetChan = NilChan | OpenChan | ClosedChan

record RatelimiterEntry =
  lastTime :: instant
  tokens :: int

record 'ip Ratelimiter =
  stopReset :: resetChan
  rtable :: "('ip \<times> RatelimiterEntry) list"
  ticking :: bool

definition zeroRatelimiter :: "'ip Ratelimiter" where
  "zeroRatelimiter = \<lparr>stopReset = NilChan, rtable = [], ticking = False\<rparr>"

definition rl_Close :: "'ip Ratelimiter \<Rightarrow> 'ip Ratelimiter option" where
  "rl_Close rate =
     (case stopReset rate of
        NilChan \<Rightarrow> Some rate
      | OpenChan \<Rightarrow> Some (rate\<lparr>stopReset := ClosedChan, ticking := False\<rparr>)
      | ClosedChan \<Rightarrow> None)"

definition rl_Init :: "'ip Ratelimiter \<Rightarrow> 'ip Ratelimiter option" where
  "rl_Init rate =
     (if stopReset rate = ClosedChan then None
      else Some (rate\<lparr>stopReset := OpenChan, rtable := [], ticking := False\<rparr>))"

definition cleanup :: "'ip Ratelimiter \<Rightarrow> instant \<Rightarrow> bool \<times> 'ip Ratelimiter" where
  "cleanup rate now =
     (let table' = filter (\<lambda>(key, entry). \<not> time_sub now (lastTime entry) > garbageCollectTime)
                     (rtable rate)
      in (table' = [], rate\<lparr>rtable := table'\<rparr>))"

text \<open>The body of the goroutine for a tick of its ticker.\<close>

definition gcTick :: "'ip Ratelimiter \<Rightarrow> instant \<Rightarrow> 'ip Ratelimiter" where
  "gcTick rate now =
     (if ticking rate then
        let (empty, rate') = cleanup rate now
        in if empty then rate'\<lparr>ticking := False\<rparr> else rate'
      else rate)"

definition refill :: "RatelimiterEntry \<Rightarrow> instant \<Rightarrow> int" where
  "refill entry now =
     (let t = int64 (tokens entry + time_sub now (lastTime entry))
      in if t > maxTokens then maxTokens else t)"

definition Allow :: "'ip Ratelimiter \<Rightarrow> 'ip \<Rightarrow> instant \<Rightarrow> (bool \<times> 'ip Ratelimiter) option" where
  "Allow rate ip now =
     (case map_of (rtable rate) ip of
        None \<Rightarrow>
          (let entry = \<lparr>lastTime = now, tokens = maxTokens - packetCost\<rparr>;
               table' = AList.update ip entry (rtable rate)
           in if stopReset rate = NilChan then None
              else if length table' = 1 then
                (if stopReset rate = OpenChan
                 then Some (True, rate\<lparr>rtable := table', ticking := True\<rparr>) else None)
              else Some (True, rate\<lparr>rtable := table'\<rparr>))
      | Some entry \<Rightarrow>
          (let t = refill entry now
           in if t > packetCost
              then Some (True, rate\<lparr>rtable := AList.update ip
                     (entry\<lparr>tokens := t - packetCost, lastTime := now\<rparr>) (rtable rate)\<rparr>)
              else Some (False, rate\<lparr>rtable := AList.update ip
                     (entry\<lparr>tokens := t, lastTime := now\<rparr>) (rtable rate)\<rparr>)))"

text \<open>Interleavings of calls and ticks.\<close>

datatype 'ip rl_event = AllowEv 'ip instant | TickEv instant

fun rl_time :: "'ip rl_event \<Rightarrow> instant" where
  "rl_time (AllowEv ip t) = t"
| "rl_time (TickEv t) = t"

fun rl_step :: "'ip Ratelimiter \<Rightarrow> 'ip rl_event \<Rightarrow> (bool \<times> 'ip Ratelimiter) option" where
  "rl_step rate (AllowEv ip t) = Allow rate ip t"
| "rl_step rate (TickEv t) = Some (False, gcTick rate t)"

fun is_allow :: "'ip \<Rightarrow> 'ip rl_event \<Rightarrow> bool" where
  "is_allow ip (AllowEv ip' t) = (ip = ip')"
| "is_allow ip (TickEv t) = False"

subsection \<open>The accounting argument\<close>

text \<open>A guard whose accepted events each spend \<open>cost\<close> from a credit that grows no faster than
  time.  \<open>valid s t\<close> is the guard's invariant at an instant up to the horizon \<open>h\<close>.\<close>

fun count_accepted :: "('s \<Rightarrow> 'e \<Rightarrow> (bool \<times> 's) option) \<Rightarrow> ('e \<Rightarrow> bool) \<Rightarrow> 's \<Rightarrow> 'e list \<Rightarrow> nat" where
  "count_accepted step counts s [] = 0"
| "count_accepted step counts s (e # es) =
     (case step s e of
        None \<Rightarrow> 0
      | Some (ok, s') \<Rightarrow> (if ok \<and> counts e then 1 else 0) + count_accepted step counts s' es)"

locale credit_bound =
  fixes step :: "'s \<Rightarrow> 'e \<Rightarrow> (bool \<times> 's) option"
    and time :: "'e \<Rightarrow> int"
    and counts :: "'e \<Rightarrow> bool"
    and credit :: "'s \<Rightarrow> int \<Rightarrow> int"
    and valid :: "int \<Rightarrow> 's \<Rightarrow> int \<Rightarrow> bool"
    and cost :: int
  assumes step_valid:
      "valid h s t \<Longrightarrow> t \<le> time e \<Longrightarrow> time e \<le> h \<Longrightarrow> step s e = Some (ok, s') \<Longrightarrow> valid h s' (time e)"
    and step_credit:
      "valid h s t \<Longrightarrow> t \<le> time e \<Longrightarrow> time e \<le> h \<Longrightarrow> step s e = Some (ok, s') \<Longrightarrow>
         credit s' (time e) + (if ok \<and> counts e then cost else 0) \<le> credit s (time e)"
    and refill_rate: "valid h s t \<Longrightarrow> t \<le> t' \<Longrightarrow> credit s t' \<le> credit s t + (t' - t)"
    and credit_nonneg: "valid h s t \<Longrightarrow> 0 \<le> credit s t"
begin

lemma accepted_bound:
  "valid h s t \<Longrightarrow> sorted (t # map time es) \<Longrightarrow> \<forall>e \<in> set es. time e \<le> h \<Longrightarrow>
     cost * int (count_accepted step counts s es) \<le> credit s t + (last (t # map time es) - t)"
proof (induction es arbitrary: s t)
  case Nil
  then show ?case using credit_nonneg by simp
next
  case (Cons e es)
  from Cons.prems have te: "t \<le> time e" "time e \<le> h" and srt: "sorted (time e # map time es)"
    and bound: "\<forall>e \<in> set es. time e \<le> h" by auto
  have fin: "time e \<le> last (time e # map time es)"
    using srt by (cases es rule: rev_cases) auto
  show ?case
  proof (cases "step s e")
    case None
    then show ?thesis using credit_nonneg [OF Cons.prems(1)] fin te by (simp split: if_splits)
  next
    case (Some p)
    then obtain ok s' where st: "step s e = Some (ok, s')" by (cases p) auto
    note IH = Cons.IH [OF step_valid [OF Cons.prems(1) te st] srt bound]
    note sc = step_credit [OF Cons.prems(1) te st]
    have "credit s (time e) \<le> credit s t + (time e - t)"
      using refill_rate [OF Cons.prems(1) te(1)] .
    with IH sc show ?thesis
      by (cases "ok \<and> counts e") (auto simp: st algebra_simps split: if_splits)
  qed
qed

end

subsection \<open>The limiter obeys it\<close>

definition entry_ok :: "int \<Rightarrow> instant \<Rightarrow> RatelimiterEntry \<Rightarrow> bool" where
  "entry_ok h t e \<longleftrightarrow>
     0 \<le> tokens e \<and> tokens e \<le> maxTokens \<and> lastTime e \<le> t \<and> h - lastTime e < 2 ^ 62"

definition rl_valid :: "int \<Rightarrow> 'ip Ratelimiter \<Rightarrow> instant \<Rightarrow> bool" where
  "rl_valid h rate t \<longleftrightarrow>
     distinct (map fst (rtable rate)) \<and> t \<le> h \<and> h - t < 2 ^ 62 \<and>
     (\<forall>(k, e) \<in> set (rtable rate). entry_ok h t e)"

definition rl_credit :: "'ip \<Rightarrow> 'ip Ratelimiter \<Rightarrow> instant \<Rightarrow> int" where
  "rl_credit ip rate t =
     (case map_of (rtable rate) ip of
        None \<Rightarrow> maxTokens
      | Some e \<Rightarrow> min maxTokens (tokens e + (t - lastTime e)))"

lemma entry_ok_mono: "entry_ok h t e \<Longrightarrow> t \<le> t' \<Longrightarrow> entry_ok h t' e"
  by (auto simp: entry_ok_def)

lemma rl_valid_entry: "rl_valid h rate t \<Longrightarrow> map_of (rtable rate) ip = Some e \<Longrightarrow> entry_ok h t e"
  by (auto simp: rl_valid_def dest!: map_of_SomeD)

lemma refill_exact:
  assumes "entry_ok h t e" "t \<le> now" "now \<le> h"
  shows "refill e now = min maxTokens (tokens e + (now - lastTime e))"
proof -
  have d: "0 \<le> now - lastTime e" "now - lastTime e < 2 ^ 62"
    using assms by (auto simp: entry_ok_def)
  then have "time_sub now (lastTime e) = now - lastTime e"
    by (intro time_sub_exact) simp
  moreover have "int64 (tokens e + (now - lastTime e)) = tokens e + (now - lastTime e)"
    using assms(1) d by (intro int64_id) (auto simp: entry_ok_def rate_consts)
  ultimately show ?thesis by (simp add: refill_def Let_def min_def)
qed

lemma set_alist_update: "set (AList.update k v al) \<subseteq> insert (k, v) (set al)"
  by (induction al) auto

lemma rl_valid_update:
  assumes "rl_valid h rate t" "t \<le> now" "now \<le> h" "entry_ok h now e"
  shows "rl_valid h (rate\<lparr>rtable := AList.update ip e (rtable rate)\<rparr>) now"
proof -
  have "entry_ok h now x" if "(k, x) \<in> set (AList.update ip e (rtable rate))" for k x
    using that set_alist_update [of ip e "rtable rate"] assms entry_ok_mono [of h t x now]
    by (auto simp: rl_valid_def)
  then show ?thesis using assms by (auto simp: rl_valid_def distinct_update)
qed

lemma map_of_filter_key:
  assumes "distinct (map fst al)"
  shows "map_of (filter keep al) ip =
    (case map_of al ip of Some entry \<Rightarrow> if keep (ip, entry) then Some entry else None | None \<Rightarrow> None)"
  using assms by (induction al) (auto simp: split: option.splits intro!: map_of_eq_None_iff [THEN iffD2])

lemma Allow_valid_credit:
  assumes v: "rl_valid h rate t" "t \<le> now" "now \<le> h" and a: "Allow rate ip now = Some (ok, rate')"
  shows "rl_valid h rate' now"
    and "rl_credit j rate' now + (if ok \<and> j = ip then packetCost else 0) \<le> rl_credit j rate now"
proof -
  have upd: "\<exists>e. rtable rate' = AList.update ip e (rtable rate) \<and> entry_ok h now e \<and>
      tokens e + (if ok then packetCost else 0) \<le> rl_credit ip rate now \<and> lastTime e = now"
  proof (cases "map_of (rtable rate) ip")
    case None
    let ?e = "\<lparr>lastTime = now, tokens = maxTokens - packetCost\<rparr>"
    have "rtable rate' = AList.update ip ?e (rtable rate) \<and> ok"
      using a None by (auto simp: Allow_def Let_def split: if_splits)
    moreover have "entry_ok h now ?e" using v by (auto simp: entry_ok_def rl_valid_def rate_consts)
    ultimately show ?thesis using None by (intro exI [of _ ?e]) (simp add: rl_credit_def)
  next
    case (Some e)
    note ok = rl_valid_entry [OF v(1) Some]
    note r = refill_exact [OF ok v(2,3)]
    let ?e = "e\<lparr>tokens := refill e now - (if ok then packetCost else 0), lastTime := now\<rparr>"
    have "rtable rate' = AList.update ip ?e (rtable rate)" and "ok = (refill e now > packetCost)"
      using a Some by (auto simp: Allow_def Let_def split: if_splits)
    moreover have "0 \<le> refill e now" "refill e now \<le> maxTokens" "h - now < 2 ^ 62"
      using ok v by (auto simp: r entry_ok_def rate_consts)
    ultimately show ?thesis using Some r
      by (intro exI [of _ ?e]) (auto simp: entry_ok_def rl_credit_def rate_consts)
  qed
  then obtain e where e: "rtable rate' = AList.update ip e (rtable rate)" "entry_ok h now e"
      "tokens e + (if ok then packetCost else 0) \<le> rl_credit ip rate now" "lastTime e = now" by blast
  show "rl_valid h rate' now"
    using rl_valid_update [OF v e(2), of ip] e(1) by (simp add: rl_valid_def)
  show "rl_credit j rate' now + (if ok \<and> j = ip then packetCost else 0) \<le> rl_credit j rate now"
    using e by (auto simp: rl_credit_def update_conv' entry_ok_def split: option.splits if_splits)
qed

lemma gcTick_valid_credit:
  assumes v: "rl_valid h rate t" "t \<le> now" "now \<le> h"
  shows "rl_valid h (gcTick rate now) now" and "rl_credit j (gcTick rate now) now \<le> rl_credit j rate now"
proof -
  let ?P = "\<lambda>(key, entry). \<not> time_sub now (lastTime entry) > garbageCollectTime"
  have tab: "rtable (gcTick rate now) = (if ticking rate then filter ?P (rtable rate) else rtable rate)"
    by (simp add: gcTick_def cleanup_def Let_def)
  have dist: "distinct (map fst (rtable rate))" using v(1) by (simp add: rl_valid_def)
  show "rl_valid h (gcTick rate now) now"
    using v dist by (auto simp: rl_valid_def tab distinct_map_filter intro: entry_ok_mono)
  have idle: "maxTokens \<le> tokens e + (now - lastTime e)"
    if "map_of (rtable rate) j = Some e" "time_sub now (lastTime e) > garbageCollectTime" for e
    using rl_valid_entry [OF v(1) that(1)] that(2) time_sub_gt_iff [of garbageCollectTime now "lastTime e"]
    by (auto simp: entry_ok_def rate_consts maxDuration_def minDuration_def)
  then show "rl_credit j (gcTick rate now) now \<le> rl_credit j rate now"
    by (auto simp: rl_credit_def tab map_of_filter_key [OF dist] split: option.splits)
qed

interpretation rl: credit_bound rl_step rl_time "is_allow ip" "rl_credit ip" rl_valid packetCost for ip
proof
  fix h t s ok s' and e :: "'a rl_event"
  assume a: "rl_valid h s t" "t \<le> rl_time e" "rl_time e \<le> h" "rl_step s e = Some (ok, s')"
  then show "rl_valid h s' (rl_time e)"
    by (cases e) (auto dest: Allow_valid_credit gcTick_valid_credit)
  show "rl_credit ip s' (rl_time e) + (if ok \<and> is_allow ip e then packetCost else 0)
      \<le> rl_credit ip s (rl_time e)"
    using a by (cases e) (auto dest: Allow_valid_credit(2) [of _ _ _ _ _ _ _ ip] gcTick_valid_credit(2))
next
  fix h t t' and s :: "'a Ratelimiter"
  assume "rl_valid h s t" "t \<le> t'"
  then show "rl_credit ip s t' \<le> rl_credit ip s t + (t' - t)"
    by (auto simp: rl_credit_def split: option.splits)
next
  fix h t and s :: "'a Ratelimiter"
  assume "rl_valid h s t"
  then show "0 \<le> rl_credit ip s t"
    by (auto simp: rl_credit_def rate_consts entry_ok_def dest: rl_valid_entry split: option.splits)
qed

subsection \<open>Properties of the limiter\<close>


definition rl_example :: "nat rl_event list" where
  "rl_example = map (AllowEv 7) [0, 1, 2, 3, 4, 5, 6] @ [TickEv 2000000000, AllowEv 7 2000000001]"

lemma rl_example_count:
  "count_accepted rl_step (is_allow 7) (the (rl_Init zeroRatelimiter)) rl_example = 6"
  by code_simp


definition gc_alive :: "'ip Ratelimiter \<Rightarrow> bool" where
  "gc_alive rate \<longleftrightarrow> stopReset rate = OpenChan \<and> (rtable rate \<noteq> [] \<longrightarrow> ticking rate)"

lemma alist_update_length_1:
  "map_of al k = None \<Longrightarrow> length (AList.update k v al) = Suc (length al)"
  by (induction al) (auto split: if_splits)

lemma gc_alive_step:
  assumes "gc_alive rate"
  shows "\<exists>ok rate'. rl_step rate e = Some (ok, rate') \<and> gc_alive rate'"
proof (cases e)
  case (AllowEv ip t)
  then show ?thesis
    using assms
    by (cases "map_of (rtable rate) ip")
      (auto simp: Allow_def gc_alive_def Let_def alist_update_length_1)
next
  case (TickEv t)
  then show ?thesis
    using assms by (auto simp: gcTick_def cleanup_def gc_alive_def Let_def)
qed



end
