(* ===== verification/Tai64n.thy ===== *)
theory Tai64n
  imports Prelude
begin

text \<open>
  Package \<open>tai64n\<close> (tai64n/tai64n.go): the 12-byte timestamps of handshake initiations.
  \<open>stamp\<close> encodes seconds and whitened nanoseconds big-endian; \<open>After\<close> compares the bytes.
  The lemmas relate the byte order to the order of the instants.
\<close>

type_synonym Timestamp = bytes

definition TimestampSize :: nat where
  "TimestampSize = 12"

definition base :: u64 where
  "base = 0x400000000000000a"

definition whitenerMask :: u32 where
  "whitenerMask = 0x1000000 - 1"

definition stamp :: "instant \<Rightarrow> Timestamp" where
  "stamp t =
     (let secs = base + word_of_int (Unix t);
          nano = word_of_int (Nanosecond t) AND NOT whitenerMask
      in BE_PutUint64 secs @ BE_PutUint32 nano)"

text \<open>\<open>bytes.Compare\<close>: lexicographic, a proper prefix is smaller.\<close>

fun bytes_Compare :: "bytes \<Rightarrow> bytes \<Rightarrow> int" where
  "bytes_Compare [] [] = 0"
| "bytes_Compare [] (b # bs) = -1"
| "bytes_Compare (a # as) [] = 1"
| "bytes_Compare (a # as) (b # bs) =
     (if a < b then -1 else if b < a then 1 else bytes_Compare as bs)"

definition After :: "Timestamp \<Rightarrow> Timestamp \<Rightarrow> bool" where
  "After t1 t2 \<longleftrightarrow> bytes_Compare t1 t2 > 0"

subsection \<open>Byte order is numeric order\<close>

lemma bytes_Compare_be_nat:
  "length as = length bs \<Longrightarrow> bytes_Compare as bs > 0 \<longleftrightarrow> be_nat as > be_nat bs"
proof (induction as bs rule: bytes_Compare.induct)
  case (4 a as b bs)
  then have len: "length as = length bs" by simp
  have lt: "be_nat as < 256 ^ length bs" "be_nat bs < 256 ^ length bs"
    using be_nat_lt [of as] be_nat_lt [of bs] len by auto
  have step: "x * 256 ^ length bs + m < y * 256 ^ length bs + n"
    if "x < y" "m < 256 ^ length bs" for x y m n :: nat
  proof -
    have "x * 256 ^ length bs + m < (x + 1) * 256 ^ length bs" using that(2) by simp
    also have "\<dots> \<le> y * 256 ^ length bs" using that(1) by (intro mult_right_mono) auto
    finally show ?thesis by simp
  qed
  consider "a < b" | "b < a" | "a = b" by (cases a b rule: linorder_cases) auto
  then show ?case
  proof cases
    case 1
    then have "unat a < unat b" by (simp add: word_less_nat_alt)
    then show ?thesis
      using 1 step [of "unat a" "unat b" "be_nat as" "be_nat bs"] lt len by (simp add: be_nat_Cons)
  next
    case 2
    then have "unat b < unat a" by (simp add: word_less_nat_alt)
    moreover have "\<not> a < b" using 2 by simp
    ultimately show ?thesis
      using 2 step [of "unat b" "unat a" "be_nat bs" "be_nat as"] lt len by (simp add: be_nat_Cons)
  next
    case 3
    then show ?thesis using 4 len by (simp add: be_nat_Cons)
  qed
qed auto

lemma length_stamp [simp]: "length (stamp t) = TimestampSize"
  by (simp add: stamp_def TimestampSize_def Let_def)

definition tick_ns :: int where
  "tick_ns = 2 ^ 24"

definition in_range :: "instant \<Rightarrow> bool" where
  "in_range t \<longleftrightarrow> \<bar>Unix t\<bar> < 2 ^ 62"

lemma unat_whitened:
  assumes "0 \<le> n" "n < 1000000000"
  shows "int (unat (word_of_int n AND NOT whitenerMask)) = tick_ns * (n div tick_ns)"
proof -
  let ?w = "word_of_int n :: u32"
  have m: "whitenerMask = mask 24" by (simp add: whitenerMask_def mask_eq_exp_minus_1)
  have "(?w AND NOT (mask 24)) + take_bit 24 ?w = ?w"
    by (subst disjunctive_add) (auto simp: bit_simps intro!: bit_eqI)
  then have eq: "?w AND NOT (mask 24) = ?w - take_bit 24 ?w" by (simp add: eq_diff_eq)
  have "uint ?w = n" using assms by (simp add: uint_word_of_int_eq take_bit_int_eq_self)
  then have n: "unat ?w = nat n" by (simp flip: nat_uint_eq)
  have le: "take_bit 24 ?w \<le> ?w"
    by (simp add: word_le_nat_alt take_bit_eq_mod unat_mod_distrib)
  have "unat (?w - take_bit 24 ?w) = unat ?w - unat ?w mod 2 ^ 24"
    using le by (simp add: unat_sub take_bit_eq_mod unat_mod_distrib)
  then have "unat (?w - take_bit 24 ?w) = nat n - nat n mod 2 ^ 24" by (simp only: n)
  then show ?thesis
    using assms(1) eq m by (simp add: tick_ns_def of_nat_diff of_nat_mod flip: minus_mod_eq_mult_div)
qed

lemma be_nat_stamp:
  assumes "in_range t"
  shows "int (be_nat (stamp t)) =
    (0x400000000000000a + Unix t) * 2 ^ 32 + tick_ns * (Nanosecond t div tick_ns)"
proof -
  let ?s = "base + word_of_int (Unix t)" and ?n = "word_of_int (Nanosecond t) AND NOT whitenerMask"
  have "uint ?s = 0x400000000000000a + Unix t"
    using assms by (simp add: in_range_def base_def uint_word_ariths uint_word_of_int_eq
        take_bit_int_eq_self mod_add_right_eq) (simp add: take_bit_eq_mod mod_add_right_eq)
  then have s: "int (unat ?s) = 0x400000000000000a + Unix t"
    using assms by (simp add: in_range_def abs_if flip: nat_uint_eq split: if_splits)
  have n: "int (unat ?n) = tick_ns * (Nanosecond t div tick_ns)"
    by (rule unat_whitened) (simp_all add: Nanosecond_def Second_def)
  have "be_nat (stamp t) = unat ?s mod 256 ^ 8 * 256 ^ 4 + unat ?n mod 256 ^ 4"
    by (simp add: stamp_def Let_def be_nat_append BE_PutUint64_def BE_PutUint32_def be_nat_be_bytes)
  also have "\<dots> = unat ?s * 2 ^ 32 + unat ?n"
    using unat_mod_size [of ?s] unat_mod_size [of ?n] by simp
  finally show ?thesis using s n by simp
qed

subsection \<open>Properties\<close>

text \<open>Order of timestamps: for instants within the range of the encoding, a later or equal
  instant never yields an earlier timestamp, and instants at least one whitened tick
  (\<open>2 ^ 24\<close> ns) apart yield strictly increasing timestamps.  The responder's replay check
  therefore rejects re-sent initiations and accepts the initiator's next one.\<close>

theorem stamp_order:
  assumes "in_range t" "in_range u" "t \<le> u"
  shows "\<not> After (stamp t) (stamp u) \<and> (t + tick_ns \<le> u \<longrightarrow> After (stamp u) (stamp t))"
proof -
  have cmp: "After (stamp a) (stamp b) \<longleftrightarrow> be_nat (stamp a) > be_nat (stamp b)" for a b
    unfolding After_def by (rule bytes_Compare_be_nat) simp
  let ?f = "\<lambda>t. tick_ns * (Nanosecond t div tick_ns)"
  have f: "0 \<le> ?f x" "?f x < 2 ^ 32" for x
  proof -
    have "0 \<le> Nanosecond x" "Nanosecond x < 2 ^ 30" by (simp_all add: Nanosecond_def Second_def)
    then show "0 \<le> ?f x" "?f x < 2 ^ 32" by (simp_all add: tick_ns_def)
  qed
  note be = be_nat_stamp [OF assms(1)] be_nat_stamp [OF assms(2)]
  have secs: "Unix t \<le> Unix u" using assms(3) by (simp add: Unix_def Second_def zdiv_mono1)
  show ?thesis
  proof (cases "Unix t = Unix u")
    case True
    then have "Nanosecond u - Nanosecond t = u - t"
      by (simp add: Unix_def Nanosecond_def minus_div_mult_eq_mod [symmetric])
    then have "?f t \<le> ?f u" "t + tick_ns \<le> u \<Longrightarrow> ?f t < ?f u"
      using assms(3) by (simp_all add: tick_ns_def zdiv_mono1)
    then show ?thesis using be True by (auto simp: cmp simp flip: of_nat_less_iff [where 'a = int])
  next
    case False
    then have "Unix t + 1 \<le> Unix u" using secs by simp
    then have "int (be_nat (stamp t)) < int (be_nat (stamp u))"
      using f [of t] f [of u] by (simp add: be algebra_simps)
    then show ?thesis by (simp add: cmp)
  qed
qed

theorem stamp_order_witness:
  "\<not> After (stamp 63000000000000000001) (stamp 63000000000000000002) \<and>
   After (stamp 63000000000020000000) (stamp 63000000000000000001)"
  using stamp_order [of 63000000000000000001 63000000000000000002]
    stamp_order [of 63000000000000000001 63000000000020000000]
  by (simp add: in_range_def Unix_def unixOffset_def Second_def tick_ns_def)

end
