(* ===== verification/Noise_Types.thy ===== *)
theory Noise_Types
  imports Prelude
begin

text \<open>
  device/noise-types.go and device/noise-helpers.go: key types, hexadecimal loading, HKDF over
  HMAC-BLAKE2s, clamping and shared secrets.  The primitives of golang.org/x/crypto (BLAKE2s,
  ChaCha20-Poly1305, Curve25519) are not part of the repository: they are the fields of the
  record \<open>crypto\<close>, a parameter of every definition that uses them, and \<open>crypto_ok\<close> states
  what the code relies on of their documented behaviour (output sizes, that \<open>Open\<close> inverts
  \<open>Seal\<close>, that Diffie-Hellman agrees).  \<open>crypto/hmac\<close> and \<open>encoding/hex\<close> are written out.
\<close>

subsection \<open>Third-party primitives\<close>

record crypto =
  blake2s_Sum256 :: "bytes \<Rightarrow> bytes"
  blake2s_New128 :: "bytes \<Rightarrow> bytes \<Rightarrow> bytes"
  chapoly_Seal :: "bytes \<Rightarrow> bytes \<Rightarrow> bytes \<Rightarrow> bytes \<Rightarrow> bytes"
  chapoly_Open :: "bytes \<Rightarrow> bytes \<Rightarrow> bytes \<Rightarrow> bytes \<Rightarrow> bytes option"
  xchapoly_Seal :: "bytes \<Rightarrow> bytes \<Rightarrow> bytes \<Rightarrow> bytes \<Rightarrow> bytes"
  xchapoly_Open :: "bytes \<Rightarrow> bytes \<Rightarrow> bytes \<Rightarrow> bytes \<Rightarrow> bytes option"
  ScalarBaseMult :: "bytes \<Rightarrow> bytes"
  ScalarMult :: "bytes \<Rightarrow> bytes \<Rightarrow> bytes"

definition TagSize :: nat where
  "TagSize = 16"

definition blake2s_Size :: nat where
  "blake2s_Size = 32"

definition blake2s_Size128 :: nat where
  "blake2s_Size128 = 16"

definition crypto_ok :: "crypto \<Rightarrow> bool" where
  "crypto_ok C \<longleftrightarrow>
     (\<forall>m. length (blake2s_Sum256 C m) = blake2s_Size) \<and>
     (\<forall>k m. length (blake2s_New128 C k m) = blake2s_Size128) \<and>
     (\<forall>k n p a. length (chapoly_Seal C k n p a) = length p + TagSize) \<and>
     (\<forall>k n p a. chapoly_Open C k n (chapoly_Seal C k n p a) a = Some p) \<and>
     (\<forall>k n p a. length (xchapoly_Seal C k n p a) = length p + TagSize) \<and>
     (\<forall>k n p a. xchapoly_Open C k n (xchapoly_Seal C k n p a) a = Some p) \<and>
     (\<forall>s. length (ScalarBaseMult C s) = 32) \<and>
     (\<forall>s p. length (ScalarMult C s p) = 32) \<and>
     (\<forall>s t. ScalarMult C s (ScalarBaseMult C t) = ScalarMult C t (ScalarBaseMult C s))"

lemma crypto_okD:
  assumes "crypto_ok C"
  shows "length (blake2s_Sum256 C m) = 32" "length (blake2s_New128 C k m) = 16"
    "length (chapoly_Seal C k n p a) = length p + 16"
    "chapoly_Open C k n (chapoly_Seal C k n p a) a = Some p"
    "length (xchapoly_Seal C k n p a) = length p + 16"
    "xchapoly_Open C k n (xchapoly_Seal C k n p a) a = Some p"
    "length (ScalarBaseMult C s) = 32" "length (ScalarMult C s q) = 32"
    "ScalarMult C s (ScalarBaseMult C t) = ScalarMult C t (ScalarBaseMult C s)"
  using assms unfolding crypto_ok_def
  by (simp_all add: TagSize_def blake2s_Size_def blake2s_Size128_def)

subsection \<open>HMAC and HKDF\<close>

text \<open>\<open>crypto/hmac\<close> over BLAKE2s-256, whose block size is 64 bytes.\<close>

definition hmac_sum :: "crypto \<Rightarrow> bytes \<Rightarrow> bytes \<Rightarrow> bytes" where
  "hmac_sum C key msg =
     (let key = (if length key > 64 then blake2s_Sum256 C key else key);
          padded = key @ replicate (64 - length key) 0;
          ipad = map (\<lambda>b. b XOR 0x36) padded;
          opad = map (\<lambda>b. b XOR 0x5c) padded
      in blake2s_Sum256 C (opad @ blake2s_Sum256 C (ipad @ msg)))"

definition HMAC1 :: "crypto \<Rightarrow> bytes \<Rightarrow> bytes \<Rightarrow> bytes" where
  "HMAC1 C key in0 = hmac_sum C key in0"

definition HMAC2 :: "crypto \<Rightarrow> bytes \<Rightarrow> bytes \<Rightarrow> bytes \<Rightarrow> bytes" where
  "HMAC2 C key in0 in1 = hmac_sum C key (in0 @ in1)"

definition KDF1 :: "crypto \<Rightarrow> bytes \<Rightarrow> bytes \<Rightarrow> bytes" where
  "KDF1 C key input = (let t0 = HMAC1 C key input in HMAC1 C t0 [1])"

definition KDF2 :: "crypto \<Rightarrow> bytes \<Rightarrow> bytes \<Rightarrow> bytes \<times> bytes" where
  "KDF2 C key input =
     (let prk = HMAC1 C key input;
          t0 = HMAC1 C prk [1];
          t1 = HMAC2 C prk t0 [2]
      in (t0, t1))"

definition KDF3 :: "crypto \<Rightarrow> bytes \<Rightarrow> bytes \<Rightarrow> bytes \<times> bytes \<times> bytes" where
  "KDF3 C key input =
     (let prk = HMAC1 C key input;
          t0 = HMAC1 C prk [1];
          t1 = HMAC2 C prk t0 [2];
          t2 = HMAC2 C prk t1 [3]
      in (t0, t1, t2))"

subsection \<open>Keys\<close>

type_synonym NoisePublicKey = bytes
type_synonym NoisePrivateKey = bytes
type_synonym NoisePresharedKey = bytes

definition NoisePublicKeySize :: nat where
  "NoisePublicKeySize = 32"

definition NoisePrivateKeySize :: nat where
  "NoisePrivateKeySize = 32"

definition isZero :: "bytes \<Rightarrow> bool" where
  "isZero val = (foldl (\<lambda>acc b. acc AND (if b = 0 then 1 else 0)) (1 :: int) val = 1)"

definition setZero :: "bytes \<Rightarrow> bytes" where
  "setZero arr = map (\<lambda>_. 0) arr"

definition clamp :: "NoisePrivateKey \<Rightarrow> NoisePrivateKey" where
  "clamp sk = sk[0 := sk ! 0 AND 248, 31 := (sk ! 31 AND 127) OR 64]"

text \<open>A \<open>rand.Read\<close>: the bytes left in the buffer and whether it failed.\<close>

type_synonym rand = "bytes \<times> bool"

definition newPrivateKey :: "rand \<Rightarrow> NoisePrivateKey \<times> bool" where
  "newPrivateKey r = (clamp (fst r), snd r)"

definition publicKey :: "crypto \<Rightarrow> NoisePrivateKey \<Rightarrow> NoisePublicKey" where
  "publicKey C sk = ScalarBaseMult C sk"

text \<open>The shared secret and whether \<open>errInvalidPublicKey\<close> is returned with it.\<close>

definition sharedSecret :: "crypto \<Rightarrow> NoisePrivateKey \<Rightarrow> NoisePublicKey \<Rightarrow> bytes \<times> bool" where
  "sharedSecret C sk pk = (let ss = ScalarMult C sk pk in if isZero ss then (ss, True) else (ss, False))"

definition key_Equals :: "bytes \<Rightarrow> bytes \<Rightarrow> bool" where
  "key_Equals key tar \<longleftrightarrow> key = tar"

definition key_IsZero :: "bytes \<Rightarrow> bool" where
  "key_IsZero key \<longleftrightarrow> key_Equals key (replicate 32 0)"

lemma isZero_iff: "isZero b \<longleftrightarrow> b = replicate (length b) 0"
proof -
  have "foldl (\<lambda>acc b. acc AND (if b = 0 then 1 else 0)) acc b =
      (if set b \<subseteq> {0} then acc else 0)" if "acc = 0 \<or> acc = 1" for acc :: int
    using that
  proof (induction b arbitrary: acc)
    case (Cons x b)
    then show ?case by (cases "x = 0"; cases "acc = 0") auto
  qed simp
  from this [of 1] have "isZero b \<longleftrightarrow> set b \<subseteq> {0}" by (simp add: isZero_def)
  also have "\<dots> \<longleftrightarrow> b = replicate (length b) 0"
    by (induction b) auto
  finally show ?thesis .
qed

lemma length_KDF [simp]:
  assumes "crypto_ok C"
  shows "length (hmac_sum C k m) = 32" "length (KDF1 C k i) = 32"
    "length (fst (KDF2 C k i)) = 32" "length (snd (KDF2 C k i)) = 32"
    "length (fst (KDF3 C k i)) = 32"
  using crypto_okD(1) [OF assms]
  by (simp_all add: hmac_sum_def KDF1_def KDF2_def KDF3_def HMAC1_def HMAC2_def Let_def)

lemma length_clamp [simp]: "length (clamp sk) = length sk"
  by (simp add: clamp_def)

lemma clamp_bits:
  assumes "length sk = 32"
  shows "clamp sk ! 0 = sk ! 0 AND 248" "clamp sk ! 31 = (sk ! 31 AND 127) OR 64"
  using assms by (simp_all add: clamp_def)

subsection \<open>Hexadecimal\<close>

datatype hex_error = HexInvalidByte | HexOddLength | HexSize

definition hexDigits :: string where
  "hexDigits = ''0123456789abcdef''"

definition fromHexChar :: "char \<Rightarrow> byte option" where
  "fromHexChar c =
     (let n = of_char c :: nat in
      if 48 \<le> n \<and> n \<le> 57 then Some (word_of_nat (n - 48))
      else if 97 \<le> n \<and> n \<le> 102 then Some (word_of_nat (n - 97 + 10))
      else if 65 \<le> n \<and> n \<le> 70 then Some (word_of_nat (n - 65 + 10))
      else None)"

text \<open>\<open>hex.DecodeString\<close>: an invalid character is reported before an odd length.\<close>

fun hexDecode :: "string \<Rightarrow> hex_error + bytes" where
  "hexDecode [] = Inr []"
| "hexDecode [c] = (case fromHexChar c of None \<Rightarrow> Inl HexInvalidByte | Some _ \<Rightarrow> Inl HexOddLength)"
| "hexDecode (a # b # r) =
     (case fromHexChar a of
        None \<Rightarrow> Inl HexInvalidByte
      | Some x \<Rightarrow>
          (case fromHexChar b of
             None \<Rightarrow> Inl HexInvalidByte
           | Some y \<Rightarrow>
               (case hexDecode r of
                  Inl e \<Rightarrow> Inl e
                | Inr bs \<Rightarrow> Inr ((push_bit 4 x OR y) # bs))))"

text \<open>The two digits \<open>keyf\<close> of device/uapi.go writes for each byte of a key.\<close>

definition hexEncode :: "bytes \<Rightarrow> string" where
  "hexEncode key =
     concat (map (\<lambda>b. [hexDigits ! unat (drop_bit 4 b), hexDigits ! unat (b AND 0xf)]) key)"

text \<open>\<open>loadExactHex\<close> leaves its destination alone on an error; \<open>FromHex\<close> of a private key clamps
  the destination in every case, and \<open>FromMaybeZeroHex\<close> unless it is zero.\<close>

definition loadExactHex :: "bytes \<Rightarrow> string \<Rightarrow> bytes \<times> hex_error option" where
  "loadExactHex dst src =
     (case hexDecode src of
        Inl e \<Rightarrow> (dst, Some e)
      | Inr bs \<Rightarrow> if length bs \<noteq> length dst then (dst, Some HexSize) else (bs, None))"

definition PrivateKey_FromHex :: "NoisePrivateKey \<Rightarrow> string \<Rightarrow> NoisePrivateKey \<times> hex_error option" where
  "PrivateKey_FromHex key src = (let (key, err) = loadExactHex key src in (clamp key, err))"

definition FromMaybeZeroHex :: "NoisePrivateKey \<Rightarrow> string \<Rightarrow> NoisePrivateKey \<times> hex_error option" where
  "FromMaybeZeroHex key src =
     (let (key, err) = loadExactHex key src
      in if key_IsZero key then (key, err) else (clamp key, err))"

definition PublicKey_FromHex :: "NoisePublicKey \<Rightarrow> string \<Rightarrow> NoisePublicKey \<times> hex_error option" where
  "PublicKey_FromHex key src = loadExactHex key src"

definition PresharedKey_FromHex :: "NoisePresharedKey \<Rightarrow> string \<Rightarrow> NoisePresharedKey \<times> hex_error option" where
  "PresharedKey_FromHex key src = loadExactHex key src"

lemma fromHexChar_digit: "n < 16 \<Longrightarrow> fromHexChar (hexDigits ! n) = Some (word_of_nat n)"
proof -
  assume "n < 16"
  then have "n \<in> set [0..<16]" by simp
  moreover have "\<forall>n \<in> set [0..<16]. fromHexChar (hexDigits ! n) = Some (word_of_nat n)"
    by code_simp
  ultimately show ?thesis by blast
qed

lemma nibbles: "push_bit 4 (drop_bit 4 b) OR (b AND 0xf) = (b :: byte)"
proof -
  have "(b AND 0xf) = take_bit 4 b" by (simp add: take_bit_eq_mask mask_eq_exp_minus_1)
  then show ?thesis
    by (auto intro!: bit_eqI simp: bit_simps)
qed

lemma nibble_lt: "unat (drop_bit 4 (b :: byte)) < 16" "unat (b AND 0xf) < 16"
proof -
  show "unat (drop_bit 4 b) < 16"
    by (simp add: drop_bit_eq_div unat_div_distrib less_mult_imp_div_less)
  have "(b AND 0xf) = take_bit 4 b" by (simp add: take_bit_eq_mask mask_eq_exp_minus_1)
  then show "unat (b AND 0xf) < 16" by (simp add: take_bit_eq_mod unat_mod_distrib)
qed

lemma hexDecode_encode: "hexDecode (hexEncode b) = Inr b"
proof (induction b)
  case (Cons x b)
  then show ?case
    by (simp add: hexEncode_def fromHexChar_digit nibble_lt nibbles)
qed (simp add: hexEncode_def)

subsection \<open>The hypotheses on the primitives can hold\<close>

text \<open>A concrete (insecure) instance that satisfies \<open>crypto_ok\<close>, for evaluating examples.\<close>

definition pad32 :: "bytes \<Rightarrow> bytes" where
  "pad32 b = take 32 (b @ replicate 32 0)"

definition plain_tag :: bytes where
  "plain_tag = replicate 16 0x5a"

definition plain_open :: "bytes \<Rightarrow> bytes option" where
  "plain_open c = (if 16 \<le> length c \<and> drop (length c - 16) c = plain_tag
     then Some (take (length c - 16) c) else None)"

definition plain_crypto :: crypto where
  "plain_crypto = \<lparr>
     blake2s_Sum256 = (\<lambda>m. pad32 (rev m)),
     blake2s_New128 = (\<lambda>k m. take 16 (pad32 (map2 (XOR) k (rev m)))),
     chapoly_Seal = (\<lambda>k n p a. p @ plain_tag),
     chapoly_Open = (\<lambda>k n c a. plain_open c),
     xchapoly_Seal = (\<lambda>k n p a. p @ plain_tag),
     xchapoly_Open = (\<lambda>k n c a. plain_open c),
     ScalarBaseMult = pad32,
     ScalarMult = (\<lambda>s p. map2 (OR) (pad32 s) (pad32 p))\<rparr>"

lemma length_pad32 [simp]: "length (pad32 b) = 32"
  by (simp add: pad32_def)

lemma pad32_idem [simp]: "pad32 (pad32 b) = pad32 b"
proof -
  have "pad32 x = x" if "length x = 32" for x using that by (simp add: pad32_def)
  then show ?thesis by simp
qed

lemma plain_crypto_ok: "crypto_ok plain_crypto"
proof -
  have "map2 (OR) xs ys = map2 (OR) ys xs" for xs ys :: bytes
    by (rule nth_equalityI) (auto simp: or.commute)
  moreover have "length plain_tag = 16" by (simp add: plain_tag_def)
  moreover from this have "plain_open (p @ plain_tag) = Some p" for p by (simp add: plain_open_def)
  ultimately show ?thesis
    by (simp add: crypto_ok_def plain_crypto_def blake2s_Size_def blake2s_Size128_def TagSize_def)
qed

lemma clamp_idem:
  assumes "length sk = 32"
  shows "clamp (clamp sk) = clamp sk"
proof -
  have "(x AND 127 OR 64) AND 127 OR 64 = x AND 127 OR (64 :: byte)" for x
    by (auto intro!: bit_eqI simp: bit_simps)
  then show ?thesis using assms
    by (simp add: clamp_def list_update_swap and.assoc)
qed

lemma loadExactHex_roundtrip: "length key = length dst \<Longrightarrow> loadExactHex dst (hexEncode key) = (key, None)"
  by (simp add: loadExactHex_def hexDecode_encode)



end
