(* ===== verification/Messages.thy ===== *)
theory Messages
  imports Noise_Types
begin

text \<open>
  The wire messages of device/noise-protocol.go: message types and sizes, the three message
  structs of the handshake, and their \<open>marshal\<close> and \<open>unmarshal\<close> methods.  \<open>marshal\<close> writes into
  a caller's buffer field by field, at the offsets of the code.  The locale \<open>wire_codec\<close> is the
  contract of such a pair; it is interpreted for each of the three messages.
\<close>

definition MessageInitiationType :: u32 where
  "MessageInitiationType = 1"

definition MessageResponseType :: u32 where
  "MessageResponseType = 2"

definition MessageCookieReplyType :: u32 where
  "MessageCookieReplyType = 3"

definition MessageTransportType :: u32 where
  "MessageTransportType = 4"

definition MessageInitiationSize :: nat where
  "MessageInitiationSize = 148"

definition MessageResponseSize :: nat where
  "MessageResponseSize = 92"

definition MessageCookieReplySize :: nat where
  "MessageCookieReplySize = 64"

definition MessageTransportHeaderSize :: nat where
  "MessageTransportHeaderSize = 16"

definition MessageTransportSize :: nat where
  "MessageTransportSize = MessageTransportHeaderSize + TagSize"

definition MessageKeepaliveSize :: nat where
  "MessageKeepaliveSize = MessageTransportSize"

definition MessageTransportOffsetReceiver :: nat where
  "MessageTransportOffsetReceiver = 4"

definition MessageTransportOffsetCounter :: nat where
  "MessageTransportOffsetCounter = 8"

definition MessageTransportOffsetContent :: nat where
  "MessageTransportOffsetContent = 16"

lemmas msg_types = MessageInitiationType_def MessageResponseType_def MessageCookieReplyType_def
  MessageTransportType_def

lemmas msg_sizes = MessageInitiationSize_def MessageResponseSize_def MessageCookieReplySize_def
  MessageTransportHeaderSize_def MessageTransportSize_def MessageKeepaliveSize_def
  MessageTransportOffsetReceiver_def MessageTransportOffsetCounter_def
  MessageTransportOffsetContent_def TagSize_def

datatype msg_error = errMessageLengthMismatch

record MessageInitiation =
  mi_Type :: u32
  mi_Sender :: u32
  mi_Ephemeral :: bytes
  mi_Static :: bytes
  mi_Timestamp :: bytes
  mi_MAC1 :: bytes
  mi_MAC2 :: bytes

record MessageResponse =
  mr_Type :: u32
  mr_Sender :: u32
  mr_Receiver :: u32
  mr_Ephemeral :: bytes
  mr_Empty :: bytes
  mr_MAC1 :: bytes
  mr_MAC2 :: bytes

record MessageCookieReply =
  mc_Type :: u32
  mc_Receiver :: u32
  mc_Nonce :: bytes
  mc_Cookie :: bytes

text \<open>The array sizes of the struct fields.\<close>

definition wf_MessageInitiation :: "MessageInitiation \<Rightarrow> bool" where
  "wf_MessageInitiation m \<longleftrightarrow> length (mi_Ephemeral m) = 32 \<and> length (mi_Static m) = 48 \<and>
     length (mi_Timestamp m) = 28 \<and> length (mi_MAC1 m) = 16 \<and> length (mi_MAC2 m) = 16"

definition wf_MessageResponse :: "MessageResponse \<Rightarrow> bool" where
  "wf_MessageResponse m \<longleftrightarrow> length (mr_Ephemeral m) = 32 \<and> length (mr_Empty m) = 16 \<and>
     length (mr_MAC1 m) = 16 \<and> length (mr_MAC2 m) = 16"

definition wf_MessageCookieReply :: "MessageCookieReply \<Rightarrow> bool" where
  "wf_MessageCookieReply m \<longleftrightarrow> length (mc_Nonce m) = 24 \<and> length (mc_Cookie m) = 32"

subsection \<open>marshal and unmarshal\<close>

definition MessageInitiation_unmarshal :: "bytes \<Rightarrow> msg_error + MessageInitiation" where
  "MessageInitiation_unmarshal b =
     (if length b \<noteq> MessageInitiationSize then Inl errMessageLengthMismatch
      else Inr \<lparr>
        mi_Type = LE_Uint32 b,
        mi_Sender = LE_Uint32 (drop 4 b),
        mi_Ephemeral = take 32 (drop 8 b),
        mi_Static = take 48 (drop (8 + 32) b),
        mi_Timestamp = take 28 (drop (8 + 32 + 48) b),
        mi_MAC1 = take 16 (drop (8 + 32 + 48 + 28) b),
        mi_MAC2 = take 16 (drop (8 + 32 + 48 + 28 + 16) b)\<rparr>)"

definition MessageInitiation_marshal :: "MessageInitiation \<Rightarrow> bytes \<Rightarrow> msg_error + bytes" where
  "MessageInitiation_marshal msg b =
     (if length b \<noteq> MessageInitiationSize then Inl errMessageLengthMismatch
      else
        let b = go_copy b 0 (LE_PutUint32 (mi_Type msg));
            b = go_copy b 4 (LE_PutUint32 (mi_Sender msg));
            b = go_copy b 8 (mi_Ephemeral msg);
            b = go_copy b (8 + length (mi_Ephemeral msg)) (mi_Static msg);
            b = go_copy b (8 + length (mi_Ephemeral msg) + length (mi_Static msg)) (mi_Timestamp msg);
            b = go_copy b (8 + length (mi_Ephemeral msg) + length (mi_Static msg)
                  + length (mi_Timestamp msg)) (mi_MAC1 msg);
            b = go_copy b (8 + length (mi_Ephemeral msg) + length (mi_Static msg)
                  + length (mi_Timestamp msg) + length (mi_MAC1 msg)) (mi_MAC2 msg)
        in Inr b)"

definition MessageResponse_unmarshal :: "bytes \<Rightarrow> msg_error + MessageResponse" where
  "MessageResponse_unmarshal b =
     (if length b \<noteq> MessageResponseSize then Inl errMessageLengthMismatch
      else Inr \<lparr>
        mr_Type = LE_Uint32 b,
        mr_Sender = LE_Uint32 (drop 4 b),
        mr_Receiver = LE_Uint32 (drop 8 b),
        mr_Ephemeral = take 32 (drop 12 b),
        mr_Empty = take 16 (drop (12 + 32) b),
        mr_MAC1 = take 16 (drop (12 + 32 + 16) b),
        mr_MAC2 = take 16 (drop (12 + 32 + 16 + 16) b)\<rparr>)"

definition MessageResponse_marshal :: "MessageResponse \<Rightarrow> bytes \<Rightarrow> msg_error + bytes" where
  "MessageResponse_marshal msg b =
     (if length b \<noteq> MessageResponseSize then Inl errMessageLengthMismatch
      else
        let b = go_copy b 0 (LE_PutUint32 (mr_Type msg));
            b = go_copy b 4 (LE_PutUint32 (mr_Sender msg));
            b = go_copy b 8 (LE_PutUint32 (mr_Receiver msg));
            b = go_copy b 12 (mr_Ephemeral msg);
            b = go_copy b (12 + length (mr_Ephemeral msg)) (mr_Empty msg);
            b = go_copy b (12 + length (mr_Ephemeral msg) + length (mr_Empty msg)) (mr_MAC1 msg);
            b = go_copy b (12 + length (mr_Ephemeral msg) + length (mr_Empty msg)
                  + length (mr_MAC1 msg)) (mr_MAC2 msg)
        in Inr b)"

definition MessageCookieReply_unmarshal :: "bytes \<Rightarrow> msg_error + MessageCookieReply" where
  "MessageCookieReply_unmarshal b =
     (if length b \<noteq> MessageCookieReplySize then Inl errMessageLengthMismatch
      else Inr \<lparr>
        mc_Type = LE_Uint32 b,
        mc_Receiver = LE_Uint32 (drop 4 b),
        mc_Nonce = take 24 (drop 8 b),
        mc_Cookie = take 32 (drop (8 + 24) b)\<rparr>)"

definition MessageCookieReply_marshal :: "MessageCookieReply \<Rightarrow> bytes \<Rightarrow> msg_error + bytes" where
  "MessageCookieReply_marshal msg b =
     (if length b \<noteq> MessageCookieReplySize then Inl errMessageLengthMismatch
      else
        let b = go_copy b 0 (LE_PutUint32 (mc_Type msg));
            b = go_copy b 4 (LE_PutUint32 (mc_Receiver msg));
            b = go_copy b 8 (mc_Nonce msg);
            b = go_copy b (8 + length (mc_Nonce msg)) (mc_Cookie msg)
        in Inr b)"

subsection \<open>Layouts\<close>

text \<open>Consecutive copies that start where the last one ended build a concatenation.\<close>

lemma go_copy_first: "length src \<le> length b \<Longrightarrow> go_copy b 0 src = src @ drop (length src) b"
  by (simp add: go_copy_def)

lemma go_copy_step:
  "off = length p \<Longrightarrow> d = length p \<Longrightarrow> d' = length p + length src \<Longrightarrow> d' \<le> length b \<Longrightarrow>
     go_copy (p @ drop d b) off src = (p @ src) @ drop d' b"
  by (simp add: go_copy_def add.commute)

definition layout_MI :: "MessageInitiation \<Rightarrow> bytes" where
  "layout_MI m = LE_PutUint32 (mi_Type m) @ LE_PutUint32 (mi_Sender m) @ mi_Ephemeral m @
     mi_Static m @ mi_Timestamp m @ mi_MAC1 m @ mi_MAC2 m"

definition layout_MR :: "MessageResponse \<Rightarrow> bytes" where
  "layout_MR m = LE_PutUint32 (mr_Type m) @ LE_PutUint32 (mr_Sender m) @
     LE_PutUint32 (mr_Receiver m) @ mr_Ephemeral m @ mr_Empty m @ mr_MAC1 m @ mr_MAC2 m"

definition layout_MC :: "MessageCookieReply \<Rightarrow> bytes" where
  "layout_MC m = LE_PutUint32 (mc_Type m) @ LE_PutUint32 (mc_Receiver m) @ mc_Nonce m @ mc_Cookie m"

lemma marshal_MI:
  "wf_MessageInitiation m \<Longrightarrow> length b = MessageInitiationSize \<Longrightarrow>
     MessageInitiation_marshal m b = Inr (layout_MI m)"
  by (simp add: MessageInitiation_marshal_def wf_MessageInitiation_def msg_sizes layout_MI_def
      go_copy_first go_copy_step [where d = 4 and d' = 8] go_copy_step [where d = 8 and d' = 40]
      go_copy_step [where d = 40 and d' = 88] go_copy_step [where d = 88 and d' = 116]
      go_copy_step [where d = 116 and d' = 132] go_copy_step [where d = 132 and d' = 148]
      del: append_assoc)

lemma marshal_MR:
  "wf_MessageResponse m \<Longrightarrow> length b = MessageResponseSize \<Longrightarrow>
     MessageResponse_marshal m b = Inr (layout_MR m)"
  by (simp add: MessageResponse_marshal_def wf_MessageResponse_def msg_sizes layout_MR_def
      go_copy_first go_copy_step [where d = 4 and d' = 8] go_copy_step [where d = 8 and d' = 12]
      go_copy_step [where d = 12 and d' = 44] go_copy_step [where d = 44 and d' = 60]
      go_copy_step [where d = 60 and d' = 76] go_copy_step [where d = 76 and d' = 92]
      del: append_assoc)

lemma marshal_MC:
  "wf_MessageCookieReply m \<Longrightarrow> length b = MessageCookieReplySize \<Longrightarrow>
     MessageCookieReply_marshal m b = Inr (layout_MC m)"
  by (simp add: MessageCookieReply_marshal_def wf_MessageCookieReply_def msg_sizes layout_MC_def
      go_copy_first go_copy_step [where d = 4 and d' = 8] go_copy_step [where d = 8 and d' = 32]
      go_copy_step [where d = 32 and d' = 64]
      del: append_assoc)

text \<open>Reading a layout gives the message back, and every buffer of the right size is the layout
  of what \<open>unmarshal\<close> reads from it.\<close>

lemma unmarshal_MI_layout:
  "wf_MessageInitiation m \<Longrightarrow> MessageInitiation_unmarshal (layout_MI m) = Inr m"
  by (simp add: MessageInitiation_unmarshal_def layout_MI_def wf_MessageInitiation_def msg_sizes)

lemma unmarshal_MR_layout:
  "wf_MessageResponse m \<Longrightarrow> MessageResponse_unmarshal (layout_MR m) = Inr m"
  by (simp add: MessageResponse_unmarshal_def layout_MR_def wf_MessageResponse_def msg_sizes)

lemma unmarshal_MC_layout:
  "wf_MessageCookieReply m \<Longrightarrow> MessageCookieReply_unmarshal (layout_MC m) = Inr m"
  by (simp add: MessageCookieReply_unmarshal_def layout_MC_def wf_MessageCookieReply_def msg_sizes)

lemma take_drop_join: "d' = d + n \<Longrightarrow> take n (drop d b) @ drop d' b = drop d b"
  by (metis append_take_drop_id drop_drop add.commute)

lemma Put_LE_Uint32_take: "4 \<le> length b \<Longrightarrow> LE_PutUint32 (LE_Uint32 b) = take 4 b"
  using LE_PutUint32_Uint32 [of "take 4 b"] by (simp add: LE_Uint32_def)

lemma unmarshal_MI_D:
  assumes "MessageInitiation_unmarshal b = Inr m"
  shows "length b = MessageInitiationSize \<and> wf_MessageInitiation m \<and> layout_MI m = b"
proof -
  have len: "length b = 148" and m: "m = \<lparr>mi_Type = LE_Uint32 b, mi_Sender = LE_Uint32 (drop 4 b),
      mi_Ephemeral = take 32 (drop 8 b), mi_Static = take 48 (drop 40 b),
      mi_Timestamp = take 28 (drop 88 b), mi_MAC1 = take 16 (drop 116 b),
      mi_MAC2 = take 16 (drop 132 b)\<rparr>"
    using assms by (auto simp: MessageInitiation_unmarshal_def msg_sizes split: if_splits)
  have "take 4 b @ take 4 (drop 4 b) @ take 32 (drop 8 b) @ take 48 (drop 40 b) @
      take 28 (drop 88 b) @ take 16 (drop 116 b) @ take 16 (drop 132 b) = b"
    using len by (simp add: take_drop_join [of 132 116] take_drop_join [of 116 88]
        take_drop_join [of 88 40] take_drop_join [of 40 8] take_drop_join [of 8 4])
  then show ?thesis
    using len m by (simp add: layout_MI_def Put_LE_Uint32_take wf_MessageInitiation_def msg_sizes)
qed

lemma unmarshal_MR_D:
  assumes "MessageResponse_unmarshal b = Inr m"
  shows "length b = MessageResponseSize \<and> wf_MessageResponse m \<and> layout_MR m = b"
proof -
  have len: "length b = 92" and m: "m = \<lparr>mr_Type = LE_Uint32 b, mr_Sender = LE_Uint32 (drop 4 b),
      mr_Receiver = LE_Uint32 (drop 8 b), mr_Ephemeral = take 32 (drop 12 b),
      mr_Empty = take 16 (drop 44 b), mr_MAC1 = take 16 (drop 60 b),
      mr_MAC2 = take 16 (drop 76 b)\<rparr>"
    using assms by (auto simp: MessageResponse_unmarshal_def msg_sizes split: if_splits)
  have "take 4 b @ take 4 (drop 4 b) @ take 4 (drop 8 b) @ take 32 (drop 12 b) @
      take 16 (drop 44 b) @ take 16 (drop 60 b) @ take 16 (drop 76 b) = b"
    using len by (simp add: take_drop_join [of 76 60] take_drop_join [of 60 44]
        take_drop_join [of 44 12] take_drop_join [of 12 8] take_drop_join [of 8 4])
  then show ?thesis
    using len m by (simp add: layout_MR_def Put_LE_Uint32_take wf_MessageResponse_def msg_sizes)
qed

lemma unmarshal_MC_D:
  assumes "MessageCookieReply_unmarshal b = Inr m"
  shows "length b = MessageCookieReplySize \<and> wf_MessageCookieReply m \<and> layout_MC m = b"
proof -
  have len: "length b = 64" and m: "m = \<lparr>mc_Type = LE_Uint32 b, mc_Receiver = LE_Uint32 (drop 4 b),
      mc_Nonce = take 24 (drop 8 b), mc_Cookie = take 32 (drop 32 b)\<rparr>"
    using assms by (auto simp: MessageCookieReply_unmarshal_def msg_sizes split: if_splits)
  have "take 4 b @ take 4 (drop 4 b) @ take 24 (drop 8 b) @ take 32 (drop 32 b) = b"
    using len by (simp add: take_drop_join [of 32 8] take_drop_join [of 8 4])
  then show ?thesis
    using len m by (simp add: layout_MC_def Put_LE_Uint32_take wf_MessageCookieReply_def msg_sizes)
qed

subsection \<open>The contract of a wire format\<close>

locale wire_codec =
  fixes size :: nat
    and wf :: "'m \<Rightarrow> bool"
    and marshal :: "'m \<Rightarrow> bytes \<Rightarrow> msg_error + bytes"
    and unmarshal :: "bytes \<Rightarrow> msg_error + 'm"
  assumes marshal_size: "length b \<noteq> size \<Longrightarrow> marshal m b = Inl errMessageLengthMismatch"
    and unmarshal_size: "length b \<noteq> size \<Longrightarrow> unmarshal b = Inl errMessageLengthMismatch"
    and decode_encode: "wf m \<Longrightarrow> length b = size \<Longrightarrow> \<exists>c. marshal m b = Inr c \<and> length c = size \<and> unmarshal c = Inr m"
    and encode_decode: "length c = size \<Longrightarrow> \<exists>m. unmarshal c = Inr m \<and> wf m \<and> (\<forall>b. length b = size \<longrightarrow> marshal m b = Inr c)"
begin

lemma buffer_irrelevant:
  assumes "wf m" "length b = size" "length b' = size"
  shows "marshal m b = marshal m b'"
proof -
  obtain c where c: "marshal m b = Inr c" "length c = size" "unmarshal c = Inr m"
    using decode_encode assms by blast
  then show ?thesis using encode_decode [of c] assms by auto
qed

lemma marshal_inj:
  assumes "wf m" "wf m'" "length b = size" "marshal m b = marshal m' b"
  shows "m = m'"
  using decode_encode [OF assms(1,3)] decode_encode [OF assms(2,3)] assms(4) by auto

lemma codec:
  "(wf m \<and> length b = size \<longrightarrow> (\<exists>c. marshal m b = Inr c \<and> unmarshal c = Inr m)) \<and>
   (unmarshal c = Inr m \<longrightarrow> wf m \<and> length c = size \<and> (\<forall>b. length b = size \<longrightarrow> marshal m b = Inr c)) \<and>
   (length b \<noteq> size \<longrightarrow> marshal m b = Inl errMessageLengthMismatch \<and>
      unmarshal b = Inl errMessageLengthMismatch)"
proof (intro conjI impI)
  assume "wf m \<and> length b = size"
  then show "\<exists>c. marshal m b = Inr c \<and> unmarshal c = Inr m" using decode_encode by blast
next
  assume u: "unmarshal c = Inr m"
  then have len: "length c = size" using unmarshal_size [of c] by (cases "length c = size") auto
  then show "wf m" "length c = size" "\<forall>b. length b = size \<longrightarrow> marshal m b = Inr c"
    using encode_decode [OF len] u by auto
qed (auto simp: marshal_size unmarshal_size)

end

lemma length_layout:
  "wf_MessageInitiation mi \<Longrightarrow> length (layout_MI mi) = MessageInitiationSize"
  "wf_MessageResponse mr \<Longrightarrow> length (layout_MR mr) = MessageResponseSize"
  "wf_MessageCookieReply mc \<Longrightarrow> length (layout_MC mc) = MessageCookieReplySize"
  by (simp_all add: layout_MI_def layout_MR_def layout_MC_def wf_MessageInitiation_def
      wf_MessageResponse_def wf_MessageCookieReply_def msg_sizes)

interpretation mi: wire_codec MessageInitiationSize wf_MessageInitiation
  MessageInitiation_marshal MessageInitiation_unmarshal
proof unfold_locales
  fix c :: bytes assume "length c = MessageInitiationSize"
  then obtain m where "MessageInitiation_unmarshal c = Inr m"
    by (simp add: MessageInitiation_unmarshal_def)
  then show "\<exists>m. MessageInitiation_unmarshal c = Inr m \<and> wf_MessageInitiation m \<and>
      (\<forall>b. length b = MessageInitiationSize \<longrightarrow> MessageInitiation_marshal m b = Inr c)"
    using unmarshal_MI_D marshal_MI by auto
qed (auto simp: marshal_MI unmarshal_MI_layout length_layout,
    auto simp: MessageInitiation_marshal_def MessageInitiation_unmarshal_def)

interpretation mr: wire_codec MessageResponseSize wf_MessageResponse
  MessageResponse_marshal MessageResponse_unmarshal
proof unfold_locales
  fix c :: bytes assume "length c = MessageResponseSize"
  then obtain m where "MessageResponse_unmarshal c = Inr m"
    by (simp add: MessageResponse_unmarshal_def)
  then show "\<exists>m. MessageResponse_unmarshal c = Inr m \<and> wf_MessageResponse m \<and>
      (\<forall>b. length b = MessageResponseSize \<longrightarrow> MessageResponse_marshal m b = Inr c)"
    using unmarshal_MR_D marshal_MR by auto
qed (auto simp: marshal_MR unmarshal_MR_layout length_layout,
    auto simp: MessageResponse_marshal_def MessageResponse_unmarshal_def)

interpretation mc: wire_codec MessageCookieReplySize wf_MessageCookieReply
  MessageCookieReply_marshal MessageCookieReply_unmarshal
proof unfold_locales
  fix c :: bytes assume "length c = MessageCookieReplySize"
  then obtain m where "MessageCookieReply_unmarshal c = Inr m"
    by (simp add: MessageCookieReply_unmarshal_def)
  then show "\<exists>m. MessageCookieReply_unmarshal c = Inr m \<and> wf_MessageCookieReply m \<and>
      (\<forall>b. length b = MessageCookieReplySize \<longrightarrow> MessageCookieReply_marshal m b = Inr c)"
    using unmarshal_MC_D marshal_MC by auto
qed (auto simp: marshal_MC unmarshal_MC_layout length_layout,
    auto simp: MessageCookieReply_marshal_def MessageCookieReply_unmarshal_def)

text \<open>
  C16. A handshake message survives the wire: for each of the three messages, marshalling a
  message whose arrays have their declared sizes into any buffer of the message's size
  succeeds, and unmarshalling the bytes written gives the message back, every field included.
\<close>

theorem wire_encode_decode:
  assumes "wf_MessageInitiation i" "length b = MessageInitiationSize"
    and "wf_MessageResponse r" "length b' = MessageResponseSize"
    and "wf_MessageCookieReply c" "length b'' = MessageCookieReplySize"
  shows "(\<exists>w. MessageInitiation_marshal i b = Inr w \<and> MessageInitiation_unmarshal w = Inr i) \<and>
    (\<exists>w. MessageResponse_marshal r b' = Inr w \<and> MessageResponse_unmarshal w = Inr r) \<and>
    (\<exists>w. MessageCookieReply_marshal c b'' = Inr w \<and> MessageCookieReply_unmarshal w = Inr c)"
  using mi.codec mr.codec mc.codec assms by blast

theorem wire_encode_decode_witness:
  "\<exists>w. MessageCookieReply_marshal \<lparr>mc_Type = 3, mc_Receiver = 0x01020304,
       mc_Nonce = replicate 24 7, mc_Cookie = replicate 32 9\<rparr> (replicate 64 0) = Inr w \<and>
     MessageCookieReply_unmarshal w = Inr \<lparr>mc_Type = 3, mc_Receiver = 0x01020304,
       mc_Nonce = replicate 24 7, mc_Cookie = replicate 32 9\<rparr>"
  using wire_encode_decode
    [of "\<lparr>mi_Type = 1, mi_Sender = 2, mi_Ephemeral = replicate 32 1, mi_Static = replicate 48 2,
       mi_Timestamp = replicate 28 3, mi_MAC1 = replicate 16 4, mi_MAC2 = replicate 16 5\<rparr>"
      "replicate 148 0"
      "\<lparr>mr_Type = 2, mr_Sender = 2, mr_Receiver = 3, mr_Ephemeral = replicate 32 1,
       mr_Empty = replicate 16 2, mr_MAC1 = replicate 16 4, mr_MAC2 = replicate 16 5\<rparr>"
      "replicate 92 0"
      "\<lparr>mc_Type = 3, mc_Receiver = 0x01020304, mc_Nonce = replicate 24 7,
       mc_Cookie = replicate 32 9\<rparr>" "replicate 64 0"]
  by (simp add: wf_MessageInitiation_def wf_MessageResponse_def wf_MessageCookieReply_def
      msg_sizes)



end
