(* ===== verification/Index_Table.thy ===== *)
theory Index_Table
  imports Messages
begin

text \<open>
  device/indextable.go and the pointer structure of device/keypair.go.  Peers, handshakes and
  keypairs are pointers in the code; here the table is polymorphic in their identities.  The
  loop of \<open>NewIndexForHandshake\<close> runs over a list of iterations, each with the random bytes it
  draws and with what other goroutines do to the table while this one holds no lock, so that the
  second check under the write lock has a meaning.
\<close>

record ('p, 'h, 'k) IndexTableEntry =
  ite_peer :: "'p option"
  ite_handshake :: "'h option"
  ite_keypair :: "'k option"

type_synonym ('p, 'h, 'k) IndexTable = "u32 \<rightharpoonup> ('p, 'h, 'k) IndexTableEntry"

definition randUint32 :: "rand \<Rightarrow> u32 \<times> bool" where
  "randUint32 r = (LE_Uint32 (fst r), snd r)"

definition it_Init :: "('p, 'h, 'k) IndexTable" where
  "it_Init = Map.empty"

definition it_Delete :: "('p, 'h, 'k) IndexTable \<Rightarrow> u32 \<Rightarrow> ('p, 'h, 'k) IndexTable" where
  "it_Delete table index = table(index := None)"

definition SwapIndexForKeypair ::
  "('p, 'h, 'k) IndexTable \<Rightarrow> u32 \<Rightarrow> 'k option \<Rightarrow> ('p, 'h, 'k) IndexTable" where
  "SwapIndexForKeypair table index keypair =
     (case table index of
        None \<Rightarrow> table
      | Some entry \<Rightarrow> table(index \<mapsto>
          \<lparr>ite_peer = ite_peer entry, ite_handshake = None, ite_keypair = keypair\<rparr>))"

definition it_Lookup :: "('p, 'h, 'k) IndexTable \<Rightarrow> u32 \<Rightarrow> ('p, 'h, 'k) IndexTableEntry" where
  "it_Lookup table i = (case table i of
       Some entry \<Rightarrow> entry
     | None \<Rightarrow> \<lparr>ite_peer = None, ite_handshake = None, ite_keypair = None\<rparr>)"

text \<open>One iteration of the loop: its random draw, and the changes that other goroutines make
  before the read lock and between the two locks.\<close>

record ('p, 'h, 'k) iteration =
  draw :: rand
  before :: "('p, 'h, 'k) IndexTable \<Rightarrow> ('p, 'h, 'k) IndexTable"
  between :: "('p, 'h, 'k) IndexTable \<Rightarrow> ('p, 'h, 'k) IndexTable"

text \<open>\<open>None\<close>: the iterations given did not end the loop.\<close>

fun NewIndexForHandshake ::
  "('p, 'h, 'k) IndexTable \<Rightarrow> 'p \<Rightarrow> 'h \<Rightarrow> ('p, 'h, 'k) iteration list \<Rightarrow>
     (u32 \<times> bool \<times> ('p, 'h, 'k) IndexTable) option" where
  "NewIndexForHandshake table peer handshake [] = None"
| "NewIndexForHandshake table peer handshake (it # its) =
     (let (index, err) = randUint32 (draw it);
          table = before it table
      in if err then Some (index, True, table)
         else if table index \<noteq> None then NewIndexForHandshake (between it table) peer handshake its
         else
           let table = between it table
           in if table index \<noteq> None then NewIndexForHandshake table peer handshake its
              else Some (index, False, table(index \<mapsto>
                \<lparr>ite_peer = Some peer, ite_handshake = Some handshake, ite_keypair = None\<rparr>)))"

text \<open>The loop when no other goroutine touches the table.\<close>

definition alone :: "rand \<Rightarrow> ('p, 'h, 'k) iteration" where
  "alone r = \<lparr>draw = r, before = id, between = id\<rparr>"

subsection \<open>Allocation is exclusive\<close>

text \<open>The table at the write lock of the last iteration: what the other goroutines made of it.\<close>

definition seen :: "('p, 'h, 'k) IndexTable \<Rightarrow> ('p, 'h, 'k) iteration list \<Rightarrow> ('p, 'h, 'k) IndexTable" where
  "seen table its = fold (\<lambda>it t. between it (before it t)) its table"

lemma NewIndex_fresh:
  assumes "NewIndexForHandshake table peer handshake its = Some (index, False, table')"
  shows "\<exists>k < length its. seen table (take (Suc k) its) index = None \<and>
    index = LE_Uint32 (fst (draw (its ! k))) \<and>
    table' = (seen table (take (Suc k) its))(index \<mapsto>
      \<lparr>ite_peer = Some peer, ite_handshake = Some handshake, ite_keypair = None\<rparr>)"
  using assms
proof (induction its arbitrary: table)
  case Nil
  then show ?case by simp
next
  case (Cons it its)
  let ?t = "between it (before it table)" and ?i = "LE_Uint32 (fst (draw it))"
  have ok: "\<not> snd (draw it)" using Cons.prems by (auto simp: randUint32_def)
  show ?case
  proof (cases "before it table ?i = None \<and> ?t ?i = None")
    case True
    then show ?thesis using Cons.prems ok
      by (intro exI [of _ 0]) (auto simp: randUint32_def Let_def seen_def)
  next
    case False
    then have "NewIndexForHandshake ?t peer handshake its = Some (index, False, table')"
      using Cons.prems ok by (auto simp: randUint32_def Let_def split: if_splits)
    from Cons.IH [OF this] obtain k where "k < length its"
      "seen ?t (take (Suc k) its) index = None" "index = LE_Uint32 (fst (draw (its ! k)))"
      "table' = (seen ?t (take (Suc k) its))(index \<mapsto>
        \<lparr>ite_peer = Some peer, ite_handshake = Some handshake, ite_keypair = None\<rparr>)"
      by blast
    then show ?thesis by (intro exI [of _ "Suc k"]) (simp add: seen_def)
  qed
qed

lemma NewIndex_terminates:
  assumes "r \<in> set rs" "table (LE_Uint32 (fst r)) = None" "\<forall>x\<in>set rs. \<not> snd x"
  shows "\<exists>index table'. NewIndexForHandshake table peer handshake (map alone rs)
    = Some (index, False, table') \<and> table index = None \<and>
      table' = table(index \<mapsto>
        \<lparr>ite_peer = Some peer, ite_handshake = Some handshake, ite_keypair = None\<rparr>)"
  using assms by (induction rs) (auto simp: alone_def randUint32_def)

lemma free_index_exists:
  fixes table :: "('p, 'h, 'k) IndexTable"
  assumes "card (dom table) < 2 ^ 32"
  shows "\<exists>bs. length bs = 4 \<and> table (LE_Uint32 bs) = None"
proof -
  have "dom table \<noteq> UNIV"
  proof
    assume "dom table = UNIV"
    then have "card (dom table) = 2 ^ 32" by (simp add: card_word)
    with assms show False by simp
  qed
  then obtain i where i: "table i = None" by (auto simp: dom_def)
  have "LE_Uint32 (LE_PutUint32 i) = i" using LE_Uint32_Put [of i "[]"] by simp
  then show ?thesis using i by (intro exI [of _ "LE_PutUint32 i"]) simp
qed

text \<open>What the goroutines of a device do to the shared table, one lock section at a time.
  An allocation is the write-locked part of \<open>NewIndexForHandshake\<close>.\<close>

datatype ('p, 'h, 'k) it_action =
    Alloc 'p 'h "('p, 'h, 'k) iteration"
  | Swap u32 "'k option"
  | Del u32

fun it_step :: "('p, 'h, 'k) IndexTable \<Rightarrow> ('p, 'h, 'k) it_action \<Rightarrow> ('p, 'h, 'k) IndexTable" where
  "it_step t (Alloc p h it) =
     (case NewIndexForHandshake t p h [it] of Some (_, False, t') \<Rightarrow> t' | _ \<Rightarrow> t)"
| "it_step t (Swap i k) = SwapIndexForKeypair t i k"
| "it_step t (Del i) = it_Delete t i"

subsection \<open>The contract of the table\<close>

text \<open>What the handshake code relies on: an index once reserved keeps its peer until it is
  deleted, whatever happens to other indices.\<close>

locale index_table =
  fixes peer_at :: "'t \<Rightarrow> u32 \<Rightarrow> 'p option"
    and step :: "'t \<Rightarrow> 'a \<Rightarrow> 't"
    and ok :: "'a \<Rightarrow> bool"
    and frees :: "'a \<Rightarrow> u32 \<Rightarrow> bool"
  assumes keeps_owner:
    "peer_at t i = Some p \<Longrightarrow> ok a \<Longrightarrow> \<not> frees a i \<Longrightarrow> peer_at (step t a) i = Some p"
begin

lemma owner_kept:
  "peer_at t i = Some p \<Longrightarrow> list_all (\<lambda>a. ok a \<and> \<not> frees a i) as \<Longrightarrow>
     peer_at (fold (\<lambda>a t. step t a) as t) i = Some p"
  by (induction as arbitrary: t) (auto simp: keeps_owner)

end

definition it_ok :: "('p, 'h, 'k) it_action \<Rightarrow> bool" where
  "it_ok a = (case a of Alloc _ _ it \<Rightarrow> before it = id \<and> between it = id | _ \<Rightarrow> True)"

definition it_frees :: "('p, 'h, 'k) it_action \<Rightarrow> u32 \<Rightarrow> bool" where
  "it_frees a i = (case a of Del j \<Rightarrow> j = i | _ \<Rightarrow> False)"

interpretation itab: index_table "\<lambda>t i. ite_peer (it_Lookup t i)" it_step it_ok it_frees
proof unfold_locales
  fix t :: "('p, 'h, 'k) IndexTable" and i p and a :: "('p, 'h, 'k) it_action"
  assume *: "ite_peer (it_Lookup t i) = Some p" "it_ok a" "\<not> it_frees a i"
  then obtain e where e: "t i = Some e" "ite_peer e = Some p"
    by (auto simp: it_Lookup_def split: option.splits)
  show "ite_peer (it_Lookup (it_step t a) i) = Some p"
  proof (cases a)
    case (Alloc q h it)
    then show ?thesis using * e
      by (auto simp: it_ok_def it_Lookup_def Let_def split: prod.splits option.splits bool.splits if_splits)
  next
    case (Swap j k)
    then show ?thesis using e
      by (auto simp: SwapIndexForKeypair_def it_Lookup_def split: option.splits)
  next
    case (Del j)
    then show ?thesis using * e by (auto simp: it_frees_def it_Delete_def it_Lookup_def)
  qed
qed

text \<open>
  C33. A session index is never handed out twice: when \<open>NewIndexForHandshake\<close> returns an index
  without error, that index was free in the table at the moment the entry was written, under
  whatever other goroutines did to the table between its random draw, its first check and its
  second check; the entry written is the peer's and its handshake's, and no other index changes.
\<close>

theorem index_allocation_exclusive:
  assumes "NewIndexForHandshake table peer handshake its = Some (index, False, table')"
  shows "\<exists>k < length its. seen table (take (Suc k) its) index = None \<and>
      it_Lookup table' index =
        \<lparr>ite_peer = Some peer, ite_handshake = Some handshake, ite_keypair = None\<rparr> \<and>
      (\<forall>i. i \<noteq> index \<longrightarrow> it_Lookup table' i = it_Lookup (seen table (take (Suc k) its)) i)"
  using NewIndex_fresh [OF assms] by (auto simp: it_Lookup_def)

text \<open>The first index drawn is taken by another goroutine between the two checks; the loop
  goes on and reserves the second.\<close>

theorem index_allocation_exclusive_witness:
  "\<exists>t' :: (nat, nat, nat) IndexTable. NewIndexForHandshake it_Init 1 1
       [\<lparr>draw = ([1, 0, 0, 0], False), before = id,
         between = (\<lambda>t. t(1 \<mapsto> \<lparr>ite_peer = Some 9, ite_handshake = Some 9, ite_keypair = None\<rparr>))\<rparr>,
        alone ([2, 0, 0, 0], False)] = Some (2, False, t') \<and>
     it_Lookup t' 2 = \<lparr>ite_peer = Some 1, ite_handshake = Some 1, ite_keypair = None\<rparr>"
proof -
  have run: "\<exists>t' :: (nat, nat, nat) IndexTable. NewIndexForHandshake it_Init 1 1
       [\<lparr>draw = ([1, 0, 0, 0], False), before = id,
         between = (\<lambda>t. t(1 \<mapsto> \<lparr>ite_peer = Some 9, ite_handshake = Some 9, ite_keypair = None\<rparr>))\<rparr>,
        alone ([2, 0, 0, 0], False)] = Some (2, False, t')"
    by (simp add: it_Init_def alone_def randUint32_def LE_Uint32_def)
  then show ?thesis using index_allocation_exclusive by metis
qed

text \<open>
  C34. Allocation ends: as long as fewer than \<open>2 ^ 32\<close> indices are in use there are random bytes
  for which \<open>NewIndexForHandshake\<close> returns a free index, and it does so on every sequence of draws
  without a read error that contains such bytes.
\<close>

theorem index_allocation_terminates:
  fixes table :: "('p, 'h, 'k) IndexTable"
  assumes "card (dom table) < 2 ^ 32"
  shows "\<exists>bs. length bs = 4 \<and> (\<forall>rs. (bs, False) \<in> set rs \<and> (\<forall>r\<in>set rs. \<not> snd r) \<longrightarrow>
    (\<exists>index table'. NewIndexForHandshake table peer handshake (map alone rs)
       = Some (index, False, table') \<and> index \<notin> dom table))"
proof -
  obtain bs where bs: "length bs = 4" "table (LE_Uint32 bs) = None"
    using free_index_exists [OF assms] by blast
  show ?thesis
  proof (intro exI [of _ bs] conjI allI impI bs(1))
    fix rs assume "(bs, False) \<in> set rs \<and> (\<forall>r\<in>set rs. \<not> snd r)"
    then show "\<exists>index table'. NewIndexForHandshake table peer handshake (map alone rs)
       = Some (index, False, table') \<and> index \<notin> dom table"
      using NewIndex_terminates [of "(bs, False)" rs table peer handshake] bs by auto
  qed
qed

theorem index_allocation_terminates_witness:
  "\<exists>bs. length bs = 4 \<and> (\<exists>index t'. NewIndexForHandshake
      ([5 \<mapsto> \<lparr>ite_peer = Some 1, ite_handshake = None, ite_keypair = Some 1\<rparr>] ::
         (nat, nat, nat) IndexTable) (2::nat) (2::nat) [alone (bs, False)]
      = Some (index, False, t') \<and> index \<noteq> 5)"
proof -
  have "card (dom ([5 \<mapsto> \<lparr>ite_peer = Some 1, ite_handshake = None, ite_keypair = Some 1\<rparr>] ::
         (nat, nat, nat) IndexTable)) < 2 ^ 32" by simp
  from index_allocation_terminates [OF this, of 2 2]
  obtain bs :: bytes where "length bs = 4"
    and all: "\<forall>rs. (bs, False) \<in> set rs \<and> (\<forall>r\<in>set rs. \<not> snd r) \<longrightarrow>
      (\<exists>index table'. NewIndexForHandshake
      ([5 \<mapsto> \<lparr>ite_peer = Some 1, ite_handshake = None, ite_keypair = Some 1\<rparr>] ::
         (nat, nat, nat) IndexTable) (2::nat) (2::nat) (map alone rs)
       = Some (index, False, table') \<and> index \<notin> dom [5 \<mapsto> \<lparr>ite_peer = Some (1::nat), ite_handshake = None :: nat option, ite_keypair = Some (1::nat)\<rparr>])"
    by blast
  from all [rule_format, of "[(bs, False)]"] \<open>length bs = 4\<close> show ?thesis by auto
qed

text \<open>
  C35. An index keeps its owner: from the moment an index is in the table for a peer, no
  sequence of allocations, keypair swaps and deletions of other indices by any goroutine gives
  it to another peer.
\<close>

theorem index_owner_stable:
  assumes "ite_peer (it_Lookup t i) = Some p"
    and "list_all (\<lambda>a. it_ok a \<and> \<not> it_frees a i) as"
  shows "ite_peer (it_Lookup (fold (\<lambda>a t. it_step t a) as t) i) = Some p"
  using itab.owner_kept [OF assms] .

theorem index_owner_stable_witness:
  "ite_peer (it_Lookup (fold (\<lambda>a t. it_step t a)
      [Swap 5 (Some (1::nat)), Alloc (2::nat) (2::nat) (alone ([5, 0, 0, 0], False)), Del 6]
      [5 \<mapsto> \<lparr>ite_peer = Some 1, ite_handshake = Some 1, ite_keypair = None\<rparr>]) 5) = Some 1"
  by (rule index_owner_stable) (simp_all add: it_Lookup_def it_ok_def it_frees_def alone_def)

end
