(* ===== verification/Cookie.thy ===== *)
theory Cookie
  imports Messages
begin

text \<open>
  device/constants.go and device/cookie.go: the responder's \<open>CookieChecker\<close> and the initiator's
  \<open>CookieGenerator\<close>.  A \<open>None\<close> result is a panic: every method slices the two 16-byte macs off the end
  of its message, which panics on a message shorter than 32 bytes.  The current time and the
  random bytes are arguments.
\<close>

subsection \<open>Constants\<close>

definition RekeyAfterMessages :: u64 where
  "RekeyAfterMessages = 2 ^ 60"

definition RejectAfterMessages :: u64 where
  "RejectAfterMessages = word_of_nat (2 ^ 64 - 2 ^ 13 - 1)"

definition RekeyAfterTime :: duration where
  "RekeyAfterTime = Second * 120"

definition RekeyAttemptTime :: duration where
  "RekeyAttemptTime = Second * 90"

definition RekeyTimeout :: duration where
  "RekeyTimeout = Second * 5"

definition MaxTimerHandshakes :: nat where
  "MaxTimerHandshakes = 90 div 5"

definition RekeyTimeoutJitterMaxMs :: nat where
  "RekeyTimeoutJitterMaxMs = 334"

definition RejectAfterTime :: duration where
  "RejectAfterTime = Second * 180"

definition KeepaliveTimeout :: duration where
  "KeepaliveTimeout = Second * 10"

definition CookieRefreshTime :: duration where
  "CookieRefreshTime = Second * 120"

definition HandshakeInitationRate :: duration where
  "HandshakeInitationRate = Second div 50"

definition PaddingMultiple :: nat where
  "PaddingMultiple = 16"

definition UnderLoadAfterTime :: duration where
  "UnderLoadAfterTime = Second"

definition MaxPeers :: nat where
  "MaxPeers = 2 ^ 16"

definition ascii :: "string \<Rightarrow> bytes" where
  "ascii s = map of_char s"

definition WGLabelMAC1 :: bytes where
  "WGLabelMAC1 = ascii ''mac1----''"

definition WGLabelCookie :: bytes where
  "WGLabelCookie = ascii ''cookie--''"

subsection \<open>State\<close>

record CookieChecker =
  cc_mac1_key :: bytes
  cc_secret :: bytes
  cc_secretSet :: instant
  cc_encryptionKey :: bytes

record CookieGenerator =
  cg_mac1_key :: bytes
  cg_cookie :: bytes
  cg_cookieSet :: instant
  cg_hasLastMAC1 :: bool
  cg_lastMAC1 :: bytes
  cg_encryptionKey :: bytes

definition zeroCookieChecker :: CookieChecker where
  "zeroCookieChecker = \<lparr>cc_mac1_key = replicate 32 0, cc_secret = replicate 32 0, cc_secretSet = 0,
     cc_encryptionKey = replicate 32 0\<rparr>"

definition zeroCookieGenerator :: CookieGenerator where
  "zeroCookieGenerator = \<lparr>cg_mac1_key = replicate 32 0, cg_cookie = replicate 16 0, cg_cookieSet = 0,
     cg_hasLastMAC1 = False, cg_lastMAC1 = replicate 16 0, cg_encryptionKey = replicate 32 0\<rparr>"

subsection \<open>The checker\<close>

definition CookieChecker_Init :: "crypto \<Rightarrow> CookieChecker \<Rightarrow> NoisePublicKey \<Rightarrow> CookieChecker" where
  "CookieChecker_Init C st pk = st\<lparr>
     cc_mac1_key := blake2s_Sum256 C (WGLabelMAC1 @ pk),
     cc_encryptionKey := blake2s_Sum256 C (WGLabelCookie @ pk),
     cc_secretSet := 0\<rparr>"

definition CheckMAC1 :: "crypto \<Rightarrow> CookieChecker \<Rightarrow> bytes \<Rightarrow> bool option" where
  "CheckMAC1 C st msg =
     (if length msg < 2 * blake2s_Size128 then None
      else
        let size = length msg;
            smac2 = size - blake2s_Size128;
            smac1 = smac2 - blake2s_Size128;
            mac1 = blake2s_New128 C (cc_mac1_key st) (take smac1 msg)
        in Some (mac1 = slice smac1 smac2 msg))"

definition CheckMAC2 :: "crypto \<Rightarrow> CookieChecker \<Rightarrow> instant \<Rightarrow> bytes \<Rightarrow> bytes \<Rightarrow> bool option" where
  "CheckMAC2 C st now msg src =
     (if time_sub now (cc_secretSet st) > CookieRefreshTime then Some False
      else if length msg < blake2s_Size128 then None
      else
        let cookie = blake2s_New128 C (cc_secret st) src;
            smac2 = length msg - blake2s_Size128;
            mac2 = blake2s_New128 C cookie (take smac2 msg)
        in Some (mac2 = drop smac2 msg))"

text \<open>The checker after the call, and the reply or the failure of \<open>rand.Read\<close> (\<open>None\<close>).  \<open>r1\<close> is
  the draw of the secret, \<open>r2\<close> that of the nonce, \<open>now1\<close> and \<open>now2\<close> the two readings of the clock.\<close>

definition CreateReply ::
  "crypto \<Rightarrow> CookieChecker \<Rightarrow> instant \<Rightarrow> instant \<Rightarrow> rand \<Rightarrow> rand \<Rightarrow> bytes \<Rightarrow> u32 \<Rightarrow> bytes \<Rightarrow>
     (CookieChecker \<times> MessageCookieReply option) option" where
  "CreateReply C st now1 now2 r1 r2 msg recv src =
     (let refresh = time_sub now1 (cc_secretSet st) > CookieRefreshTime;
          st1 = (if refresh then st\<lparr>cc_secret := fst r1\<rparr> else st)
      in if refresh \<and> snd r1 then Some (st1, None)
         else
           let st2 = (if refresh then st1\<lparr>cc_secretSet := now2\<rparr> else st1);
               cookie = blake2s_New128 C (cc_secret st2) src
           in if snd r2 then Some (st2, None)
              else if length msg < 2 * blake2s_Size128 then None
              else
                let size = length msg;
                    smac2 = size - blake2s_Size128;
                    smac1 = smac2 - blake2s_Size128
                in Some (st2, Some \<lparr>mc_Type = MessageCookieReplyType, mc_Receiver = recv,
                     mc_Nonce = fst r2,
                     mc_Cookie = xchapoly_Seal C (cc_encryptionKey st2) (fst r2) cookie
                       (slice smac1 smac2 msg)\<rparr>))"

subsection \<open>The generator\<close>

definition CookieGenerator_Init :: "crypto \<Rightarrow> CookieGenerator \<Rightarrow> NoisePublicKey \<Rightarrow> CookieGenerator" where
  "CookieGenerator_Init C st pk = st\<lparr>
     cg_mac1_key := blake2s_Sum256 C (WGLabelMAC1 @ pk),
     cg_encryptionKey := blake2s_Sum256 C (WGLabelCookie @ pk),
     cg_cookieSet := 0\<rparr>"

definition ConsumeReply ::
  "crypto \<Rightarrow> CookieGenerator \<Rightarrow> instant \<Rightarrow> MessageCookieReply \<Rightarrow> CookieGenerator \<times> bool" where
  "ConsumeReply C st now msg =
     (if \<not> cg_hasLastMAC1 st then (st, False)
      else case xchapoly_Open C (cg_encryptionKey st) (mc_Nonce msg) (mc_Cookie msg) (cg_lastMAC1 st) of
          None \<Rightarrow> (st, False)
        | Some cookie \<Rightarrow> (st\<lparr>cg_cookieSet := now, cg_cookie := cookie\<rparr>, True))"

text \<open>\<open>AddMacs\<close> writes its two macs into the message.\<close>

definition AddMacs :: "crypto \<Rightarrow> CookieGenerator \<Rightarrow> instant \<Rightarrow> bytes \<Rightarrow> (CookieGenerator \<times> bytes) option" where
  "AddMacs C st now msg =
     (if length msg < 2 * blake2s_Size128 then None
      else
        let size = length msg;
            smac2 = size - blake2s_Size128;
            smac1 = smac2 - blake2s_Size128;
            msg = go_copy msg smac1 (blake2s_New128 C (cg_mac1_key st) (take smac1 msg));
            st = st\<lparr>cg_lastMAC1 := slice smac1 smac2 msg, cg_hasLastMAC1 := True\<rparr>
        in if time_sub now (cg_cookieSet st) > CookieRefreshTime then Some (st, msg)
           else Some (st, go_copy msg smac2 (blake2s_New128 C (cg_cookie st) (take smac2 msg))))"

subsection \<open>Lemmas\<close>

lemma AddMacs_shape:
  assumes C: "crypto_ok C" and len: "length msg = n + 32"
  shows "AddMacs C st now msg = Some
     (let m1 = blake2s_New128 C (cg_mac1_key st) (take n msg);
          st' = st\<lparr>cg_lastMAC1 := m1, cg_hasLastMAC1 := True\<rparr>
      in if time_sub now (cg_cookieSet st) > CookieRefreshTime
         then (st', take n msg @ m1 @ drop (n + 16) msg)
         else (st', take n msg @ m1 @ blake2s_New128 C (cg_cookie st) (take n msg @ m1)))"
  using len crypto_okD(2) [OF C]
  by (simp add: AddMacs_def Let_def go_copy_def slice_def blake2s_Size128_def)

lemma AddMacs_total:
  assumes "crypto_ok C" "32 \<le> length msg"
  shows "\<exists>g' msg'. AddMacs C g now msg = Some (g', msg') \<and> length msg' = length msg"
proof -
  obtain n where len: "length msg = n + 32" using assms(2) by (metis add.commute le_Suc_ex)
  then show ?thesis using AddMacs_shape [OF assms(1) len, of g now] crypto_okD(2) [OF assms(1)]
    by (cases "time_sub now (cg_cookieSet g) > CookieRefreshTime") (simp_all add: Let_def)
qed

lemma CheckMAC1_shape:
  assumes "length body = n" "length m1 = 16" "length m2 = 16"
  shows "CheckMAC1 C st (body @ m1 @ m2) = Some (blake2s_New128 C (cc_mac1_key st) body = m1)"
  using assms by (simp add: CheckMAC1_def Let_def blake2s_Size128_def)

lemma CheckMAC2_shape:
  assumes "time_sub now (cc_secretSet st) \<le> CookieRefreshTime" "length m2 = 16"
  shows "CheckMAC2 C st now (pre @ m2) src =
    Some (blake2s_New128 C (blake2s_New128 C (cc_secret st) src) pre = m2)"
  using assms by (simp add: CheckMAC2_def Let_def blake2s_Size128_def)

subsection \<open>Properties\<close>

text \<open>
  Every message a peer sends passes the first check: whatever the message (at least the two
  macs long), cookie and clock, \<open>AddMacs\<close> of a generator initialised with the responder's public
  key gives a message of the same length with the same body that \<open>CheckMAC1\<close> of a checker
  initialised with that key accepts, and remembers the mac it put there.
\<close>

theorem AddMacs_passes_CheckMAC1:
  assumes "crypto_ok C" "32 \<le> length msg"
  shows "\<exists>g' msg'. AddMacs C (CookieGenerator_Init C g pk) now msg = Some (g', msg') \<and>
    length msg' = length msg \<and> take (length msg - 32) msg' = take (length msg - 32) msg \<and>
    CheckMAC1 C (CookieChecker_Init C c pk) msg' = Some True \<and>
    cg_hasLastMAC1 g' \<and> cg_lastMAC1 g' = slice (length msg - 32) (length msg - 16) msg'"
proof -
  define n where "n = length msg - 32"
  have len: "length msg = n + 32" using assms(2) by (simp add: n_def)
  note m = crypto_okD(2) [OF assms(1)]
  show ?thesis
    using AddMacs_shape [OF assms(1) len, of "CookieGenerator_Init C g pk" now] len m
    by (cases "time_sub now 0 > CookieRefreshTime")
      (simp_all add: Let_def CookieGenerator_Init_def CookieChecker_Init_def CheckMAC1_shape)
qed

theorem AddMacs_passes_CheckMAC1_witness:
  "\<exists>g' msg'. AddMacs plain_crypto (CookieGenerator_Init plain_crypto zeroCookieGenerator (replicate 32 7))
      5 (replicate 148 1) = Some (g', msg') \<and> length msg' = 148 \<and>
    CheckMAC1 plain_crypto (CookieChecker_Init plain_crypto zeroCookieChecker (replicate 32 7)) msg' = Some True"
  using AddMacs_passes_CheckMAC1 [OF plain_crypto_ok, of "replicate 148 1" zeroCookieGenerator "replicate 32 7" 5
      zeroCookieChecker] by auto



text \<open>
  C15. An expired cookie secret opens nothing and an expired cookie is not used: more than two
  minutes after the secret was set (and from the start, before any reply was made) \<open>CheckMAC2\<close> refuses
  every message, and \<open>AddMacs\<close> with a cookie older than that leaves the second mac as it was.
\<close>

theorem cookie_expiry:
  assumes "crypto_ok C" "32 \<le> length msg"
    and "now - cc_secretSet c > CookieRefreshTime" "now - cg_cookieSet g > CookieRefreshTime"
  shows "CheckMAC2 C c now msg src = Some False \<and>
    (\<exists>g' msg'. AddMacs C g now msg = Some (g', msg') \<and>
       drop (length msg - 16) msg' = drop (length msg - 16) msg)"
proof -
  define n where "n = length msg - 32"
  have len: "length msg = n + 32" using assms(2) by (simp add: n_def)
  have late: "time_sub now x > CookieRefreshTime" if "now - x > CookieRefreshTime" for x
    using that by (subst time_sub_gt_iff) (simp_all add: CookieRefreshTime_def Second_def maxDuration_def minDuration_def)
  show ?thesis
    using AddMacs_shape [OF assms(1) len, of g now] len late [OF assms(3)] late [OF assms(4)]
      crypto_okD(2) [OF assms(1)]
    by (simp add: CheckMAC2_def Let_def add.commute)
qed

theorem cookie_expiry_witness:
  "CheckMAC2 plain_crypto (CookieChecker_Init plain_crypto zeroCookieChecker []) (121 * Second)
     (replicate 148 0) [] = Some False"
  using cookie_expiry [OF plain_crypto_ok, of "replicate 148 0" "121 * Second"
      "CookieChecker_Init plain_crypto zeroCookieChecker []" zeroCookieGenerator "[]"]
  by (simp add: CookieChecker_Init_def CookieRefreshTime_def Second_def zeroCookieGenerator_def)

end
