(* ===== verification/Allowed_IPs.thy ===== *)
theory Allowed_IPs
  imports Prelude "HOL-Library.Monad_Syntax"
begin

text \<open>
  device/allowedips.go: the radix trie that maps address prefixes to peers.  The heap of
  \<open>trieEntry\<close> structs is a tree; a \<open>parentIndirection\<close> (a pointer to a child slot) is the path
  to that slot, so that \<open>*parentBit\<close> is \<open>get\<close>, an assignment to it is \<open>put\<close>, and the parent
  entry is the path without its last step.  \<open>None\<close> is a panic (an index out of range, or the
  explicit ones).  A peer's \<open>trieEntries\<close> list is kept per peer, its elements named by the bits
  and the cidr of their entry; an entry is in the list of its peer exactly when \<open>perPeerElem\<close> is
  set, which is when its peer is set.

  The reference is a partial map from bit strings to peers with longest-prefix lookup.  The
  locale \<open>prefix_table\<close> is the contract the device relies on.
\<close>

subsection \<open>Bit strings\<close>

definition leadingZeros :: "'a::len word \<Rightarrow> nat" where
  "leadingZeros x = length (takeWhile (\<lambda>i. \<not> bit x i) (rev [0..<LENGTH('a)]))"

definition commonBits :: "bytes \<Rightarrow> bytes \<Rightarrow> nat option" where
  "commonBits ip1 ip2 =
     (if length ip1 = 4 then
        if length ip2 < 4 then None
        else Some (leadingZeros (BE_Uint32 ip1 XOR BE_Uint32 ip2))
      else if length ip1 = 16 then
        if length ip2 < 8 then None
        else
          let x = BE_Uint64 ip1 XOR BE_Uint64 ip2 in
          if x \<noteq> 0 then Some (leadingZeros x)
          else if length ip2 < 16 then None
          else Some (64 + leadingZeros (BE_Uint64 (drop 8 ip1) XOR BE_Uint64 (drop 8 ip2)))
      else None)"

text \<open>\<open>choose\<close> of an entry with this cidr: \<open>bitAtByte = cidr / 8\<close>, \<open>bitAtShift = 7 - cidr % 8\<close>.\<close>

definition choose_bit :: "nat \<Rightarrow> bytes \<Rightarrow> bool option" where
  "choose_bit cidr ip =
     (if cidr div 8 < length ip
      then Some (drop_bit (7 - cidr mod 8) (ip ! (cidr div 8)) AND 1 \<noteq> 0)
      else None)"

text \<open>\<open>net.CIDRMask\<close>: no mask for a prefix longer than the address.\<close>

definition CIDRMask :: "nat \<Rightarrow> nat \<Rightarrow> bytes" where
  "CIDRMask ones bits =
     (if (bits \<noteq> 32 \<and> bits \<noteq> 128) \<or> ones > bits then []
      else map (\<lambda>i. if 8 * (i + 1) \<le> ones then 0xff else NOT (drop_bit (ones - 8 * i) 0xff))
             [0..<bits div 8])"

definition maskSelf :: "nat \<Rightarrow> bytes \<Rightarrow> bytes" where
  "maskSelf cidr bits =
     (let mask = CIDRMask cidr (8 * length bits)
      in map2 (AND) bits mask @ drop (length mask) bits)"

text \<open>For the specification: an address as the string of its bits, most significant first.\<close>

definition ipbits :: "bytes \<Rightarrow> bool list" where
  "ipbits ip = map (\<lambda>i. bit (ip ! (i div 8)) (7 - i mod 8)) [0..<8 * length ip]"

fun lcp :: "'a list \<Rightarrow> 'a list \<Rightarrow> nat" where
  "lcp (x # xs) (y # ys) = (if x = y then Suc (lcp xs ys) else 0)"
| "lcp _ _ = 0"

subsection \<open>The trie\<close>

datatype 'p trieEntry =
    Nil_entry
  | Entry (epeer: "'p option") (ecidr: nat) (ebits: bytes) (child0: "'p trieEntry") (child1: "'p trieEntry")

type_synonym path = "bool list"

fun child :: "'p trieEntry \<Rightarrow> bool \<Rightarrow> 'p trieEntry" where
  "child (Entry p c b l r) d = (if d then r else l)"
| "child Nil_entry d = Nil_entry"

fun set_child :: "'p trieEntry \<Rightarrow> bool \<Rightarrow> 'p trieEntry \<Rightarrow> 'p trieEntry" where
  "set_child (Entry p c b l r) d x = (if d then Entry p c b l x else Entry p c b x r)"
| "set_child Nil_entry d x = Nil_entry"

fun get :: "'p trieEntry \<Rightarrow> path \<Rightarrow> 'p trieEntry" where
  "get t [] = t"
| "get t (d # ds) = get (child t d) ds"

fun put :: "'p trieEntry \<Rightarrow> path \<Rightarrow> 'p trieEntry \<Rightarrow> 'p trieEntry" where
  "put t [] x = x"
| "put t (d # ds) x = set_child t d (put (child t d) ds x)"

fun set_peer :: "'p trieEntry \<Rightarrow> 'p option \<Rightarrow> 'p trieEntry" where
  "set_peer (Entry p c b l r) q = Entry q c b l r"
| "set_peer Nil_entry q = Nil_entry"

text \<open>A peer's \<open>trieEntries\<close>, each element named by the bits and cidr of its entry.\<close>

type_synonym 'p peerEntries = "'p \<Rightarrow> (bytes \<times> nat) list"

definition addToPeerEntries :: "'p trieEntry \<Rightarrow> 'p peerEntries \<Rightarrow> 'p peerEntries" where
  "addToPeerEntries node pe = (case epeer node of
       Some p \<Rightarrow> pe(p := pe p @ [(ebits node, ecidr node)])
     | None \<Rightarrow> pe)"

definition removeFromPeerEntries :: "'p trieEntry \<Rightarrow> 'p peerEntries \<Rightarrow> 'p peerEntries" where
  "removeFromPeerEntries node pe = (case epeer node of
       Some p \<Rightarrow> pe(p := remove1 (ebits node, ecidr node) (pe p))
     | None \<Rightarrow> pe)"

text \<open>The loop of \<open>nodePlacement\<close>: the path of the last entry on the way whose prefix covers
  the one sought (\<open>None\<close> is the nil parent), and whether it is that prefix.\<close>

fun nodePlacement :: "'p trieEntry \<Rightarrow> bytes \<Rightarrow> nat \<Rightarrow> (path option \<times> bool) option" where
  "nodePlacement Nil_entry ip cidr = Some (None, False)"
| "nodePlacement (Entry p c b l r) ip cidr =
     (if c > cidr then Some (None, False)
      else do {
        common \<leftarrow> commonBits b ip;
        if common < c then Some (None, False)
        else if c = cidr then Some (Some [], True)
        else do {
          bit \<leftarrow> choose_bit c ip;
          (parent, exact) \<leftarrow> nodePlacement (if bit then r else l) ip cidr;
          Some (case parent of
              None \<Rightarrow> (Some [], False)
            | Some q \<Rightarrow> (Some (bit # q), exact))
        }
      })"

definition newEntry :: "bytes \<Rightarrow> nat \<Rightarrow> 'p option \<Rightarrow> 'p trieEntry" where
  "newEntry ip cidr peer = Entry peer cidr (maskSelf cidr ip) Nil_entry Nil_entry"

text \<open>\<open>insert\<close>, as a function of the root: \<open>at\<close> is the path of the slot that holds \<open>down\<close>.\<close>

definition trie_insert ::
  "'p trieEntry \<Rightarrow> 'p peerEntries \<Rightarrow> bytes \<Rightarrow> nat \<Rightarrow> 'p \<Rightarrow> ('p trieEntry \<times> 'p peerEntries) option" where
  "trie_insert root pe ip cidr peer =
     (if root = Nil_entry then
        let node = newEntry ip cidr (Some peer)
        in Some (node, addToPeerEntries node pe)
      else do {
        (node, exact) \<leftarrow> nodePlacement root ip cidr;
        if exact then
          let at = the node;
              old = get root at;
              pe = removeFromPeerEntries old pe;
              new = set_peer old (Some peer)
          in Some (put root at new, addToPeerEntries new pe)
        else
          let newNode = newEntry ip cidr (Some peer);
              pe = addToPeerEntries newNode pe
          in do {
            at \<leftarrow> (case node of
                None \<Rightarrow> Some []
              | Some n \<Rightarrow> do { bit \<leftarrow> choose_bit (ecidr (get root n)) ip; Some (n @ [bit]) });
            let down = get root at;
            if node \<noteq> None \<and> down = Nil_entry then Some (put root at newNode, pe)
            else do {
              common \<leftarrow> commonBits (ebits down) ip;
              let cidr = (if common < cidr then common else cidr);
              if ecidr newNode = cidr then do {
                bit \<leftarrow> choose_bit (ecidr newNode) (ebits down);
                let new = set_child newNode bit down;
                slot \<leftarrow> (case node of
                    None \<Rightarrow> Some []
                  | Some n \<Rightarrow> do { bit \<leftarrow> choose_bit (ecidr (get root n)) (ebits new); Some (n @ [bit]) });
                Some (put root slot new, pe)
              }
              else do {
                let glue = newEntry (ebits newNode) cidr None;
                bit \<leftarrow> choose_bit (ecidr glue) (ebits down);
                let glue = set_child glue bit down;
                bit \<leftarrow> choose_bit (ecidr glue) (ebits newNode);
                let glue = set_child glue bit newNode;
                slot \<leftarrow> (case node of
                    None \<Rightarrow> Some []
                  | Some n \<Rightarrow> do { bit \<leftarrow> choose_bit (ecidr (get root n)) (ebits glue); Some (n @ [bit]) });
                Some (put root slot glue, pe)
              }
            }
          }
      })"

text \<open>The loop of \<open>lookup\<close>, with its accumulator \<open>found\<close>; \<open>size\<close> is \<open>uint8(len(ip))\<close>.\<close>

fun trie_lookup :: "'p trieEntry \<Rightarrow> bytes \<Rightarrow> 'p option \<Rightarrow> 'p option option" where
  "trie_lookup Nil_entry ip found = Some found"
| "trie_lookup (Entry p c b l r) ip found = do {
     common \<leftarrow> commonBits b ip;
     if common < c then Some found
     else
       let found = (if p \<noteq> None then p else found) in
       if c div 8 = length ip mod 256 then Some found
       else do {
         bit \<leftarrow> choose_bit c ip;
         trie_lookup (if bit then r else l) ip found
       }
   }"

text \<open>\<open>remove\<close> of the entry in slot \<open>at\<close>.  A slot of the table itself has \<open>parentBitType\<close> 2.\<close>

definition trie_remove ::
  "'p trieEntry \<Rightarrow> 'p peerEntries \<Rightarrow> path \<Rightarrow> 'p trieEntry \<times> 'p peerEntries" where
  "trie_remove root pe at =
     (let node = get root at;
          pe = removeFromPeerEntries node pe;
          node = set_peer node None;
          root = put root at node
      in if child0 node \<noteq> Nil_entry \<and> child1 node \<noteq> Nil_entry then (root, pe)
         else
           let bit = (child0 node = Nil_entry);
               root = put root at (child node bit)
           in if child0 node \<noteq> Nil_entry \<or> child1 node \<noteq> Nil_entry \<or> at = [] then (root, pe)
              else
                let parent = get root (butlast at)
                in if epeer parent \<noteq> None then (root, pe)
                   else (put root (butlast at) (child parent (\<not> last at)), pe))"

subsection \<open>The table\<close>

text \<open>\<open>netip.Addr\<close> by its kind, and \<open>netip.Prefix\<close> with \<open>Bits()\<close> (-1 when it is invalid).\<close>

datatype addr = Addr_invalid | Addr4 bytes | Addr6 bytes

type_synonym prefix = "addr \<times> int"

definition uint8 :: "int \<Rightarrow> nat" where
  "uint8 i = nat (i mod 256)"

record 'p AllowedIPs =
  IPv4 :: "'p trieEntry"
  IPv6 :: "'p trieEntry"
  trieEntries :: "'p peerEntries"

definition emptyAllowedIPs :: "'p AllowedIPs" where
  "emptyAllowedIPs = \<lparr>IPv4 = Nil_entry, IPv6 = Nil_entry, trieEntries = (\<lambda>p. [])\<rparr>"

definition AddrFromSlice :: "bytes \<Rightarrow> addr" where
  "AddrFromSlice b = (if length b = 4 then Addr4 b else if length b = 16 then Addr6 b else Addr_invalid)"

text \<open>The prefixes that \<open>EntriesForPeer\<close> passes to its callback, when it never stops early.\<close>

definition EntriesForPeer :: "'p AllowedIPs \<Rightarrow> 'p \<Rightarrow> prefix list" where
  "EntriesForPeer table peer =
     map (\<lambda>(bits, cidr). (AddrFromSlice bits, int cidr)) (trieEntries table peer)"

definition AllowedIPs_Remove :: "'p AllowedIPs \<Rightarrow> prefix \<Rightarrow> 'p \<Rightarrow> 'p AllowedIPs option" where
  "AllowedIPs_Remove table pfx peer =
     (case fst pfx of
        Addr6 ip \<Rightarrow> do {
          (node, exact) \<leftarrow> nodePlacement (IPv6 table) ip (uint8 (snd pfx));
          case node of
            None \<Rightarrow> Some table
          | Some at \<Rightarrow>
              if \<not> exact \<or> epeer (get (IPv6 table) at) \<noteq> Some peer then Some table
              else let (t, pe) = trie_remove (IPv6 table) (trieEntries table) at
                   in Some (table\<lparr>IPv6 := t, trieEntries := pe\<rparr>)
        }
      | Addr4 ip \<Rightarrow> do {
          (node, exact) \<leftarrow> nodePlacement (IPv4 table) ip (uint8 (snd pfx));
          case node of
            None \<Rightarrow> Some table
          | Some at \<Rightarrow>
              if \<not> exact \<or> epeer (get (IPv4 table) at) \<noteq> Some peer then Some table
              else let (t, pe) = trie_remove (IPv4 table) (trieEntries table) at
                   in Some (table\<lparr>IPv4 := t, trieEntries := pe\<rparr>)
        }
      | Addr_invalid \<Rightarrow> None)"

text \<open>The slot of the entry that a list element points to.\<close>

fun locate :: "'p trieEntry \<Rightarrow> bytes \<times> nat \<Rightarrow> path option" where
  "locate Nil_entry k = None"
| "locate (Entry p c b l r) k =
     (if (b, c) = k then Some []
      else case locate l k of
          Some q \<Rightarrow> Some (False # q)
        | None \<Rightarrow> map_option (Cons True) (locate r k))"

definition remove_element :: "bytes \<times> nat \<Rightarrow> 'p AllowedIPs \<Rightarrow> 'p AllowedIPs" where
  "remove_element k table =
     (case (locate (IPv4 table) k, locate (IPv6 table) k) of
        (Some at, _) \<Rightarrow>
          let (t, pe) = trie_remove (IPv4 table) (trieEntries table) at
          in table\<lparr>IPv4 := t, trieEntries := pe\<rparr>
      | (None, Some at) \<Rightarrow>
          let (t, pe) = trie_remove (IPv6 table) (trieEntries table) at
          in table\<lparr>IPv6 := t, trieEntries := pe\<rparr>
      | (None, None) \<Rightarrow> table)"

definition RemoveByPeer :: "'p AllowedIPs \<Rightarrow> 'p \<Rightarrow> 'p AllowedIPs" where
  "RemoveByPeer table peer = fold remove_element (trieEntries table peer) table"

definition AllowedIPs_Insert :: "'p AllowedIPs \<Rightarrow> prefix \<Rightarrow> 'p \<Rightarrow> 'p AllowedIPs option" where
  "AllowedIPs_Insert table pfx peer =
     (case fst pfx of
        Addr6 ip \<Rightarrow> do {
          (t, pe) \<leftarrow> trie_insert (IPv6 table) (trieEntries table) ip (uint8 (snd pfx)) peer;
          Some (table\<lparr>IPv6 := t, trieEntries := pe\<rparr>)
        }
      | Addr4 ip \<Rightarrow> do {
          (t, pe) \<leftarrow> trie_insert (IPv4 table) (trieEntries table) ip (uint8 (snd pfx)) peer;
          Some (table\<lparr>IPv4 := t, trieEntries := pe\<rparr>)
        }
      | Addr_invalid \<Rightarrow> None)"

definition AllowedIPs_Lookup :: "'p AllowedIPs \<Rightarrow> bytes \<Rightarrow> 'p option option" where
  "AllowedIPs_Lookup table ip =
     (if length ip = 16 then trie_lookup (IPv6 table) ip None
      else if length ip = 4 then trie_lookup (IPv4 table) ip None
      else None)"

subsection \<open>Facts on bit strings\<close>

lemma length_ipbits [simp]: "length (ipbits ip) = 8 * length ip"
  by (simp add: ipbits_def)

lemma nth_ipbits: "i < 8 * length ip \<Longrightarrow> ipbits ip ! i = bit (ip ! (i div 8)) (7 - i mod 8)"
  by (simp add: ipbits_def)

lemma le_lcp_iff:
  "k \<le> lcp xs ys \<longleftrightarrow> k \<le> length xs \<and> k \<le> length ys \<and> (\<forall>i<k. xs ! i = ys ! i)"
proof (induction xs ys arbitrary: k rule: lcp.induct)
  case (1 x xs y ys)
  show ?case
  proof (cases k)
    case (Suc j)
    then show ?thesis using 1 by (auto simp: nth_Cons All_less_Suc2 split: nat.splits)
  qed simp
qed auto

lemma le_lcp_take:
  assumes "k \<le> length xs" "k \<le> length ys"
  shows "k \<le> lcp xs ys \<longleftrightarrow> take k xs = take k ys"
  using assms by (auto simp: le_lcp_iff list_eq_iff_nth_eq)

lemma le_takeWhile_iff:
  "k \<le> length (takeWhile P xs) \<longleftrightarrow> k \<le> length xs \<and> (\<forall>i<k. P (xs ! i))"
proof (induction xs arbitrary: k)
  case (Cons x xs)
  then show ?case by (cases k) (auto simp: nth_Cons All_less_Suc2 split: nat.splits)
qed auto

lemma nat_eq_by_le: "(\<And>k. k \<le> (m::nat) \<longleftrightarrow> k \<le> n) \<Longrightarrow> m = n"
  by (meson le_refl le_antisym)

lemma le_leadingZeros_iff:
  fixes x :: "'a::len word"
  shows "k \<le> leadingZeros x \<longleftrightarrow> k \<le> LENGTH('a) \<and> (\<forall>i<k. \<not> bit x (LENGTH('a) - 1 - i))"
  by (auto simp: leadingZeros_def le_takeWhile_iff rev_nth)

lemma bit_le_nat: "bit (le_nat bs) k \<longleftrightarrow> k div 8 < length bs \<and> bit (bs ! (k div 8)) (k mod 8)"
proof (induction bs arbitrary: k)
  case (Cons b bs)
  have or: "le_nat (b # bs) = or (unat b) (push_bit 8 (le_nat bs))"
  proof -
    have "take_bit 8 (unat b) = unat b" by (simp add: take_bit_eq_mod)
    then have "\<not> bit (unat b) i \<or> \<not> bit (push_bit 8 (le_nat bs)) i" for i
      by (metis bit_push_bit_iff bit_take_bit_iff not_le)
    then show ?thesis
      by (subst disjunctive_add [symmetric]) (auto simp: push_bit_eq_mult)
  qed
  show ?case
  proof (cases "k < 8")
    case True
    then show ?thesis by (simp add: or bit_or_iff bit_push_bit_iff bit_unsigned_iff del: le_nat.simps)
  next
    case False
    then have kd: "k div 8 = Suc ((k - 8) div 8)" "(k - 8) mod 8 = k mod 8"
      by (auto simp: le_div_geq le_mod_geq)
    have "\<not> bit (unat b) k"
      using False bit_imp_le_length [of b k] by (auto simp: bit_unsigned_iff)
    then show ?thesis using False Cons.IH [of "k - 8"] kd
      by (simp add: or bit_or_iff bit_push_bit_iff del: le_nat.simps)
  qed
qed simp

lemma be_pos: "r < 8 \<Longrightarrow> 8 * Suc (q + d) - 1 - (8 * q + r) = 8 * d + (7 - r :: nat)"
  by simp

lemma be_pos': "s < 8 \<Longrightarrow> (8 * a + s) div 8 = a \<and> (8 * a + s) mod 8 = (s :: nat)"
  by simp

lemma bit_be_nat:
  assumes "k < 8 * length bs"
  shows "bit (be_nat bs) (8 * length bs - 1 - k) \<longleftrightarrow> ipbits bs ! k"
proof -
  let ?n = "length bs" and ?j = "8 * length bs - 1 - k"
  have q: "k div 8 < ?n" using assms by (simp add: less_mult_imp_div_less mult.commute)
  obtain d where "?n = Suc (k div 8 + d)" using less_imp_Suc_add [OF q] by auto
  then have "?j = 8 * (?n - 1 - k div 8) + (7 - k mod 8)"
    using be_pos [of "k mod 8" "k div 8" d] by simp
  then have "?j div 8 = ?n - 1 - k div 8" "?j mod 8 = 7 - k mod 8"
    using be_pos' [of "7 - k mod 8" "?n - 1 - k div 8"] by simp_all
  moreover have "?n - 1 - k div 8 < ?n" using q by linarith
  ultimately show ?thesis using assms q by (auto simp: be_nat_def bit_le_nat rev_nth nth_ipbits)
qed

lemma bit_BE32: "k < 32 \<Longrightarrow> 4 \<le> length b \<Longrightarrow> bit (BE_Uint32 b) (31 - k) \<longleftrightarrow> ipbits b ! k"
  using bit_be_nat [of k "take 4 b"]
  by (auto simp: BE_Uint32_def bit_of_nat_iff nth_ipbits less_mult_imp_div_less)

lemma bit_BE64: "k < 64 \<Longrightarrow> 8 \<le> length b \<Longrightarrow> bit (BE_Uint64 b) (63 - k) \<longleftrightarrow> ipbits b ! k"
  using bit_be_nat [of k "take 8 b"]
  by (auto simp: BE_Uint64_def bit_of_nat_iff nth_ipbits less_mult_imp_div_less)

lemma leadingZeros_diff:
  fixes x y :: "'a::len word"
  assumes "\<And>i. i < LENGTH('a) \<Longrightarrow> bit x (LENGTH('a) - 1 - i) \<longleftrightarrow> a ! i"
    and "\<And>i. i < LENGTH('a) \<Longrightarrow> bit y (LENGTH('a) - 1 - i) \<longleftrightarrow> b ! i"
  shows "k \<le> leadingZeros (x XOR y) \<longleftrightarrow> k \<le> LENGTH('a) \<and> (\<forall>i<k. a ! i = b ! i)"
  using assms by (auto simp: le_leadingZeros_iff bit_xor_iff) 

lemma commonBits_v4:
  assumes "length a = 4" "length b = 4"
  shows "commonBits a b = Some (lcp (ipbits a) (ipbits b))"
proof -
  have "k \<le> leadingZeros (BE_Uint32 a XOR BE_Uint32 b) \<longleftrightarrow> k \<le> lcp (ipbits a) (ipbits b)" for k
    using assms leadingZeros_diff [of "BE_Uint32 a" "ipbits a" "BE_Uint32 b" "ipbits b" k]
    by (simp add: bit_BE32 le_lcp_iff)
  then show ?thesis using assms nat_eq_by_le by (simp add: commonBits_def)
qed

lemma ipbits_drop: "i < 64 \<Longrightarrow> length a = 16 \<Longrightarrow> ipbits (drop 8 a) ! i = ipbits a ! (64 + i)"
proof -
  assume "i < 64" "length a = 16"
  moreover have "(64 + i) div 8 = 8 + i div 8" "(64 + i) mod 8 = i mod 8" by presburger+
  ultimately show ?thesis by (simp add: nth_ipbits)
qed

lemma commonBits_v6:
  assumes "length a = 16" "length b = 16"
  shows "commonBits a b = Some (lcp (ipbits a) (ipbits b))"
proof -
  let ?x = "BE_Uint64 a XOR BE_Uint64 b"
  let ?y = "BE_Uint64 (drop 8 a) XOR BE_Uint64 (drop 8 b)"
  have hi: "k \<le> leadingZeros ?x \<longleftrightarrow> k \<le> 64 \<and> (\<forall>i<k. ipbits a ! i = ipbits b ! i)" for k
    using assms leadingZeros_diff [of "BE_Uint64 a" "ipbits a" "BE_Uint64 b" "ipbits b" k]
    by (simp add: bit_BE64)
  have lo: "k \<le> leadingZeros ?y \<longleftrightarrow>
      k \<le> 64 \<and> (\<forall>i<k. ipbits a ! (64 + i) = ipbits b ! (64 + i))" for k
    using assms leadingZeros_diff [of "BE_Uint64 (drop 8 a)" "ipbits (drop 8 a)"
        "BE_Uint64 (drop 8 b)" "ipbits (drop 8 b)" k]
    by (simp add: bit_BE64 ipbits_drop) (meson ipbits_drop less_le_trans assms)
  have zero: "?x = 0 \<longleftrightarrow> (\<forall>i<64. ipbits a ! i = ipbits b ! i)"
  proof -
    have "?x = 0 \<longleftrightarrow> 64 \<le> leadingZeros ?x"
    proof
      assume "64 \<le> leadingZeros ?x"
      then have up: "\<not> bit ?x (63 - i)" if "i < 64" for i
        using that by (auto simp: le_leadingZeros_iff)
      have "\<not> bit ?x i" if "i < 64" for i using that up [of "63 - i"] by simp
      then show "?x = 0" by (intro bit_eqI) (auto dest: bit_imp_le_length)
    qed (simp add: le_leadingZeros_iff)
    then show ?thesis by (simp add: hi)
  qed
  show ?thesis
  proof (cases "?x = 0")
    case True
    have "k \<le> 64 + leadingZeros ?y \<longleftrightarrow> k \<le> lcp (ipbits a) (ipbits b)" for k
    proof (cases "k \<le> 64")
      case False
      then obtain j where j: "k = 64 + j" using le_Suc_ex nat_le_linear by blast
      have "(\<forall>i<64 + j. ipbits a ! i = ipbits b ! i) \<longleftrightarrow>
          (\<forall>i<j. ipbits a ! (64 + i) = ipbits b ! (64 + i))"
        using True zero by (metis add_less_cancel_left le_Suc_ex not_less)
      then show ?thesis using assms by (auto simp: j le_lcp_iff lo)
    qed (use True zero assms in \<open>auto simp: le_lcp_iff\<close>)
    then show ?thesis using True assms nat_eq_by_le by (simp add: commonBits_def)
  next
    case False
    have "k \<le> leadingZeros ?x \<longleftrightarrow> k \<le> lcp (ipbits a) (ipbits b)" for k
      using False zero assms by (auto simp: le_lcp_iff hi)
    then show ?thesis using False assms nat_eq_by_le by (simp add: commonBits_def)
  qed
qed

lemma commonBits_lcp:
  "length a = n \<Longrightarrow> length b = n \<Longrightarrow> n = 4 \<or> n = 16 \<Longrightarrow> commonBits a b = Some (lcp (ipbits a) (ipbits b))"
  using commonBits_v4 commonBits_v6 by auto

lemma choose_bit_nth: "c < 8 * length ip \<Longrightarrow> choose_bit c ip = Some (ipbits ip ! c)"
  by (auto simp: choose_bit_def nth_ipbits less_mult_imp_div_less mult.commute and_one_eq
      bit_iff_odd_drop_bit odd_iff_mod_2_eq_one)

lemma CIDRMask_nth:
  assumes "c \<le> 8 * n" "n = 4 \<or> n = 16" "i < 8 * n"
  shows "bit (CIDRMask c (8 * n) ! (i div 8)) (7 - i mod 8) \<longleftrightarrow> i < c"
proof -
  let ?j = "i div 8" and ?r = "i mod 8"
  have r: "?r < 8" by simp
  have below: "r < 8 \<Longrightarrow> 8 * (q + 1) \<le> m \<Longrightarrow> 8 * q + r < (m :: nat)" for q r m by simp
  have j: "?j < n" using assms(3) by (simp add: less_mult_imp_div_less mult.commute)
  have m: "CIDRMask c (8 * n) ! ?j =
      (if 8 * (?j + 1) \<le> c then 0xff else NOT (drop_bit (c - 8 * ?j) 0xff))"
    using assms j by (auto simp: CIDRMask_def)
  have ff: "bit (0xff :: byte) k \<longleftrightarrow> k < 8" for k
  proof -
    have "(0xff :: byte) = mask 8" by (simp add: mask_eq_exp_minus_1)
    moreover have "bit (mask 8 :: byte) k \<longleftrightarrow> k < 8"
      by (simp only: bit_mask_iff possible_bit_word) simp
    ultimately show ?thesis by metis
  qed
  show ?thesis
  proof (cases "8 * (?j + 1) \<le> c")
    case True
    then have "i < c" using below [of ?r ?j c] r by simp
    then show ?thesis using m True ff by simp
  next
    case False
    have "bit (NOT (drop_bit (c - 8 * ?j) (0xff :: byte))) (7 - ?r) \<longleftrightarrow> \<not> c - 8 * ?j + (7 - ?r) < 8"
      by (simp only: bit_not_iff bit_drop_bit_eq o_def ff possible_bit_word) auto
    also have "\<dots> \<longleftrightarrow> ?r < c - 8 * ?j" using r by linarith
    also have "\<dots> \<longleftrightarrow> i < c" using less_diff_conv [of ?r c "8 * ?j"] by (simp add: add.commute)
    finally show ?thesis using m False by simp
  qed
qed

lemma length_CIDRMask: "c \<le> 8 * n \<Longrightarrow> n = 4 \<or> n = 16 \<Longrightarrow> length (CIDRMask c (8 * n)) = n"
  by (auto simp: CIDRMask_def)

lemma length_maskSelf:
  "length ip = 4 \<or> length ip = 16 \<Longrightarrow> c \<le> 8 * length ip \<Longrightarrow> length (maskSelf c ip) = length ip"
  by (simp add: maskSelf_def Let_def length_CIDRMask)

lemma ipbits_maskSelf:
  assumes "length ip = 4 \<or> length ip = 16" "c \<le> 8 * length ip"
  shows "ipbits (maskSelf c ip) = take c (ipbits ip) @ replicate (8 * length ip - c) False"
proof (rule nth_equalityI)
  show "length (ipbits (maskSelf c ip)) = length (take c (ipbits ip) @ replicate (8 * length ip - c) False)"
    using assms by (simp add: length_maskSelf)
  fix i assume "i < length (ipbits (maskSelf c ip))"
  then have i: "i < 8 * length ip" using assms by (simp add: length_maskSelf)
  then have j: "i div 8 < length ip" by (simp add: less_mult_imp_div_less mult.commute)
  have "ipbits (maskSelf c ip) ! i = (ipbits ip ! i \<and> i < c)"
    using assms i j CIDRMask_nth [OF assms(2,1) i]
    by (simp add: nth_ipbits length_maskSelf) (simp add: maskSelf_def Let_def length_CIDRMask bit_and_iff)
  then show "ipbits (maskSelf c ip) ! i = (take c (ipbits ip) @ replicate (8 * length ip - c) False) ! i"
    using assms i by (auto simp: nth_append)
qed

subsection \<open>The invariant and a recursive insertion\<close>

text \<open>In a subtree below the bits \<open>pre\<close>: entries have addresses of \<open>n\<close> bytes masked to their cidr,
  their prefixes extend \<open>pre\<close>, their children sit under their prefix and the next bit, and an
  entry without a peer has two children.\<close>

fun wf_trie :: "nat \<Rightarrow> bool list \<Rightarrow> 'p trieEntry \<Rightarrow> bool" where
  "wf_trie n pre Nil_entry = True"
| "wf_trie n pre (Entry p c b l r) =
     (length b = n \<and> c \<le> 8 * n \<and> length pre \<le> c \<and> take (length pre) (ipbits b) = pre \<and>
      ipbits b = take c (ipbits b) @ replicate (8 * n - c) False \<and>
      (p = None \<longrightarrow> l \<noteq> Nil_entry \<and> r \<noteq> Nil_entry) \<and>
      wf_trie n (take c (ipbits b) @ [False]) l \<and> wf_trie n (take c (ipbits b) @ [True]) r)"

text \<open>The entries that have a peer, and the prefixes they stand for.\<close>

fun nodes :: "'p trieEntry \<Rightarrow> (bytes \<times> nat \<times> 'p) set" where
  "nodes Nil_entry = {}"
| "nodes (Entry p c b l r) = (case p of Some q \<Rightarrow> {(b, c, q)} | None \<Rightarrow> {}) \<union> nodes l \<union> nodes r"

fun ins :: "'p trieEntry \<Rightarrow> bytes \<Rightarrow> nat \<Rightarrow> 'p \<Rightarrow> 'p trieEntry" where
  "ins Nil_entry ip cidr peer = newEntry ip cidr (Some peer)"
| "ins (Entry p c b l r) ip cidr peer =
     (let common = lcp (ipbits b) (ipbits ip) in
      if c \<le> cidr \<and> c \<le> common then
        if c = cidr then Entry (Some peer) c b l r
        else if ipbits ip ! c then Entry p c b l (ins r ip cidr peer)
        else Entry p c b (ins l ip cidr peer) r
      else if cidr \<le> common then
        set_child (newEntry ip cidr (Some peer)) (ipbits b ! cidr) (Entry p c b l r)
      else
        set_child
          (set_child (newEntry ip common None) (ipbits b ! common) (Entry p c b l r))
          (ipbits ip ! common) (newEntry ip cidr (Some peer)))"

text \<open>The change of the peers' lists: the entry of this prefix leaves the list of the peer that had
  it and joins the end of the new peer's.\<close>

fun peer_at :: "'p trieEntry \<Rightarrow> bytes \<Rightarrow> nat \<Rightarrow> 'p option" where
  "peer_at Nil_entry ip cidr = None"
| "peer_at (Entry p c b l r) ip cidr =
     (if c \<le> cidr \<and> c \<le> lcp (ipbits b) (ipbits ip) then
        if c = cidr then p
        else if ipbits ip ! c then peer_at r ip cidr
        else peer_at l ip cidr
      else None)"

definition ins_pe :: "'p option \<Rightarrow> 'p \<Rightarrow> bytes \<times> nat \<Rightarrow> 'p peerEntries \<Rightarrow> 'p peerEntries" where
  "ins_pe old peer k pe =
     (let pe = (case old of Some q \<Rightarrow> pe(q := remove1 k (pe q)) | None \<Rightarrow> pe)
      in pe(peer := pe peer @ [k]))"

lemma wf_trie_lcp:
  assumes "wf_trie n pre (Entry p c b l r)" "length ip = n" "take (length pre) (ipbits ip) = pre"
  shows "length pre \<le> lcp (ipbits b) (ipbits ip)"
proof -
  have "length pre \<le> length (ipbits ip)" using assms by auto
  then show ?thesis using assms by (simp add: le_lcp_take)
qed

text \<open>Where the two kinds of fork keep the invariant.\<close>

lemma take_eq_of_take: "k \<le> m \<Longrightarrow> take m xs = take m ys \<Longrightarrow> take k xs = take k ys"
  by (metis min.absorb1 take_take)

lemma wf_trie_rebase:
  "wf_trie n pre (Entry p c b l r) \<Longrightarrow> k \<le> c \<Longrightarrow> wf_trie n (take k (ipbits b)) (Entry p c b l r)"
  by (auto simp: min_def)

lemma newEntry_sel [simp]:
  "epeer (newEntry ip c p) = p" "ecidr (newEntry ip c p) = c" "ebits (newEntry ip c p) = maskSelf c ip"
  "newEntry ip c p \<noteq> Nil_entry"
  by (simp_all add: newEntry_def)

lemma take_maskSelf:
  "length ip = 4 \<or> length ip = 16 \<Longrightarrow> c \<le> 8 * length ip \<Longrightarrow> k \<le> c \<Longrightarrow>
     take k (ipbits (maskSelf c ip)) = take k (ipbits ip)"
  by (simp add: ipbits_maskSelf min_def)

lemma wf_newEntry:
  assumes "length ip = 4 \<or> length ip = 16" "c \<le> 8 * length ip" "k \<le> c"
  shows "wf_trie (length ip) (take k (ipbits ip)) (newEntry ip c (Some peer))"
  using assms by (auto simp: newEntry_def length_maskSelf ipbits_maskSelf min_def)

text \<open>A new entry above the old one.\<close>

lemma wf_above:
  assumes n: "length ip = 4 \<or> length ip = 16"
    and t: "wf_trie (length ip) pre (Entry p c b l r)"
    and lt: "cidr < c" and k: "k \<le> cidr" and tk: "take cidr (ipbits b) = take cidr (ipbits ip)"
  shows "wf_trie (length ip) (take k (ipbits ip))
    (set_child (newEntry ip cidr (Some peer)) (ipbits b ! cidr) (Entry p c b l r))"
proof -
  have c: "c \<le> 8 * length ip" and lb: "length b = length ip" using t by auto
  have q: "take cidr (ipbits ip) @ [ipbits b ! cidr] = take (Suc cidr) (ipbits b)"
    using lt c lb tk by (simp add: take_Suc_conv_app_nth)
  have w: "wf_trie (length ip) (take cidr (ipbits ip) @ [ipbits b ! cidr]) (Entry p c b l r)"
    unfolding q using wf_trie_rebase [OF t, of "Suc cidr"] lt by simp
  have m: "take cidr (ipbits (maskSelf cidr ip)) = take cidr (ipbits ip)"
    using n lt c by (simp add: take_maskSelf)
  have "wf_trie (length ip) (take k (ipbits ip)) (newEntry ip cidr (Some peer))"
    using n lt c k by (intro wf_newEntry) auto
  moreover have "min (8 * length ip) k = k" using k lt c by simp
  ultimately show ?thesis using w m by (cases "ipbits b ! cidr") (simp_all add: newEntry_def)
qed

text \<open>A new entry beside the old one, below an entry without a peer.\<close>

lemma wf_beside:
  assumes n: "length ip = 4 \<or> length ip = 16"
    and t: "wf_trie (length ip) pre (Entry p c b l r)"
    and lt: "m < c" "m < cidr" "cidr \<le> 8 * length ip" and k: "k \<le> m"
    and tm: "take m (ipbits b) = take m (ipbits ip)" and df: "ipbits b ! m \<noteq> ipbits ip ! m"
  shows "wf_trie (length ip) (take k (ipbits ip))
    (set_child (set_child (newEntry ip m None) (ipbits b ! m) (Entry p c b l r))
      (ipbits ip ! m) (newEntry ip cidr (Some peer)))"
proof -
  have c: "c \<le> 8 * length ip" and lb: "length b = length ip" using t by auto
  have qb: "take m (ipbits ip) @ [ipbits b ! m] = take (Suc m) (ipbits b)"
    using lt c lb tm by (simp add: take_Suc_conv_app_nth)
  have qi: "take m (ipbits ip) @ [ipbits ip ! m] = take (Suc m) (ipbits ip)"
    using lt by (simp add: take_Suc_conv_app_nth)
  have wb: "wf_trie (length ip) (take m (ipbits ip) @ [ipbits b ! m]) (Entry p c b l r)"
    unfolding qb using wf_trie_rebase [OF t, of "Suc m"] lt by simp
  have wi: "wf_trie (length ip) (take m (ipbits ip) @ [ipbits ip ! m]) (newEntry ip cidr (Some peer))"
    unfolding qi using n lt by (intro wf_newEntry) auto
  have mm: "take m (ipbits (maskSelf m ip)) = take m (ipbits ip)"
    using n lt c by (simp add: take_maskSelf)
  have "wf_trie (length ip) (take k (ipbits ip)) (newEntry ip m (Some peer))"
    using n lt c k by (intro wf_newEntry) auto
  moreover have "min (8 * length ip) k = k" using k lt c by simp
  ultimately show ?thesis using wb wi mm df
    by (cases "ipbits b ! m"; cases "ipbits ip ! m") (auto simp: newEntry_def)
qed

lemma lcp_differs: "lcp xs ys < length xs \<Longrightarrow> lcp xs ys < length ys \<Longrightarrow> xs ! lcp xs ys \<noteq> ys ! lcp xs ys"
  by (induction xs ys rule: lcp.induct) auto

lemma take_lcp: "take (lcp xs ys) xs = take (lcp xs ys) ys"
  by (induction xs ys rule: lcp.induct) auto

lemma ins_wf:
  assumes "n = 4 \<or> n = 16" "wf_trie n pre t" "length ip = n" "cidr \<le> 8 * n"
    "length pre \<le> cidr" "take (length pre) (ipbits ip) = pre"
  shows "wf_trie n pre (ins t ip cidr peer)"
  using assms(2-)
proof (induction t arbitrary: pre)
  case Nil_entry
  then show ?case using assms(1)
    by (auto simp: newEntry_def length_maskSelf ipbits_maskSelf min_def take_replicate)
next
  case (Entry p c b l r)
  let ?k = "lcp (ipbits b) (ipbits ip)"
  have b: "length b = n" "c \<le> 8 * n" "length pre \<le> c" "take (length pre) (ipbits b) = pre"
    using Entry.prems by auto
  have ni: "length ip = 4 \<or> length ip = 16" and wi: "wf_trie (length ip) pre (Entry p c b l r)"
    using Entry.prems assms(1) by auto
  have pk: "length pre \<le> ?k" using wf_trie_lcp Entry.prems by blast
  show ?case
  proof (cases "c \<le> cidr \<and> c \<le> ?k")
    case True
    then have tk: "take c (ipbits b) = take c (ipbits ip)"
      using b Entry.prems by (simp add: le_lcp_take)
    show ?thesis
    proof (cases "c = cidr")
      case True
      then show ?thesis using Entry.prems \<open>c \<le> cidr \<and> c \<le> ?k\<close> by simp
    next
      case False
      then have lt: "c < cidr" using True by simp
      then have nxt: "take (Suc c) (ipbits ip) = take c (ipbits b) @ [ipbits ip ! c]"
        using Entry.prems tk by (simp add: take_Suc_conv_app_nth)
      have len: "length (take c (ipbits b) @ [x]) = Suc c" for x using b by simp
      have nonnil: "ins x ip cidr peer \<noteq> Nil_entry" for x
        by (cases x) (auto simp: newEntry_def Let_def)
      show ?thesis
      proof (cases "ipbits ip ! c")
        case d: True
        have "wf_trie n (take c (ipbits b) @ [True]) (ins r ip cidr peer)"
          using Entry.IH(2) [of "take c (ipbits b) @ [True]"] Entry.prems lt nxt d len
          by simp
        then show ?thesis using Entry.prems True False d nonnil by (simp add: Let_def)
      next
        case d: False
        have "wf_trie n (take c (ipbits b) @ [False]) (ins l ip cidr peer)"
          using Entry.IH(1) [of "take c (ipbits b) @ [False]"] Entry.prems lt nxt d len
          by simp
        then show ?thesis using Entry.prems True False d nonnil by (simp add: Let_def)
      qed
    qed
  next
    case fork: False
    show ?thesis
    proof (cases "cidr \<le> ?k")
      case True
      then have tk: "take cidr (ipbits b) = take cidr (ipbits ip)"
        using b Entry.prems by (simp add: le_lcp_take)
      have lt: "cidr < c" using fork True by auto
      have "wf_trie n pre (set_child (newEntry ip cidr (Some peer)) (ipbits b ! cidr) (Entry p c b l r))"
        using wf_above [OF ni wi lt Entry.prems(4) tk] unfolding Entry.prems(2,5) .
      then show ?thesis using fork True by (simp add: Let_def)
    next
      case False
      then have lt: "?k < c" "?k < cidr" using fork by auto
      have df: "ipbits b ! ?k \<noteq> ipbits ip ! ?k"
        using lt b Entry.prems by (intro lcp_differs) auto
      have "wf_trie n pre (set_child (set_child (newEntry ip ?k None) (ipbits b ! ?k)
          (Entry p c b l r)) (ipbits ip ! ?k) (newEntry ip cidr (Some peer)))"
        using wf_beside [OF ni wi lt _ pk take_lcp df] Entry.prems(3)
        unfolding Entry.prems(2,5) by blast
      then show ?thesis using fork False by (auto simp: Let_def)
    qed
  qed
qed

subsection \<open>The code's insertion is the recursive one\<close>

lemma ipbits_inj: "length a = length b \<Longrightarrow> ipbits a = ipbits b \<Longrightarrow> a = b"
proof (rule nth_equalityI)
  fix i assume len: "length a = length b" and eq: "ipbits a = ipbits b" and i: "i < length a"
  show "a ! i = b ! i"
  proof (rule bit_word_eqI)
    fix k assume "k < LENGTH(8)"
    then have k: "k < 8" by simp
    let ?j = "8 * i + (7 - k)"
    have j: "?j < 8 * length a" "?j div 8 = i" "?j mod 8 = 7 - k"
      using i k be_pos' [of "7 - k" i] by auto
    have "ipbits a ! ?j = ipbits b ! ?j" using eq by simp
    then show "bit (a ! i) k = bit (b ! i) k" using j k len by (simp add: nth_ipbits)
  qed
qed

lemma maskSelf_twice:
  assumes "length ip = 4 \<or> length ip = 16" "c \<le> 8 * length ip" "m \<le> c"
  shows "maskSelf m (maskSelf c ip) = maskSelf m ip"
  using assms by (intro ipbits_inj) (simp_all add: length_maskSelf ipbits_maskSelf min_def)

lemma maskSelf_eq:
  assumes "length b = length ip" "length ip = 4 \<or> length ip = 16" "c \<le> 8 * length ip"
    and "ipbits b = take c (ipbits b) @ replicate (8 * length ip - c) False"
    and "take c (ipbits b) = take c (ipbits ip)"
  shows "maskSelf c ip = b"
  using assms by (intro ipbits_inj) (auto simp: length_maskSelf ipbits_maskSelf)

lemma set_child_set_child [simp]: "child (set_child (Entry p c b l r) d x) d = x"
  by simp

lemma newEntry_maskSelf:
  "length ip = 4 \<or> length ip = 16 \<Longrightarrow> c \<le> 8 * length ip \<Longrightarrow> m \<le> c \<Longrightarrow>
     newEntry (maskSelf c ip) m p = newEntry ip m p"
  by (simp add: newEntry_def maskSelf_twice)

lemma nth_maskSelf:
  "length ip = 4 \<or> length ip = 16 \<Longrightarrow> c \<le> 8 * length ip \<Longrightarrow> k < c \<Longrightarrow>
     ipbits (maskSelf c ip) ! k = ipbits ip ! k"
  by (simp add: ipbits_maskSelf nth_append)

lemma set_child_sel [simp]:
  "ecidr (set_child t d x) = ecidr t" "ebits (set_child t d x) = ebits t"
  by (cases t; simp)+

text \<open>Nothing above the new entry: it replaces the root.\<close>

lemma insert_fork:
  assumes n: "length ip = 4 \<or> length ip = 16" and cidr: "cidr \<le> 8 * length ip"
    and t: "t = Entry p c b l r" "wf_trie (length ip) pre t"
    and off: "\<not> (c \<le> cidr \<and> c \<le> lcp (ipbits b) (ipbits ip))"
  shows "nodePlacement t ip cidr = Some (None, False)"
    and "trie_insert t pe ip cidr peer =
      Some (ins t ip cidr peer, ins_pe (peer_at t ip cidr) peer (maskSelf cidr ip, cidr) pe)"
proof -
  let ?k = "lcp (ipbits b) (ipbits ip)"
  have b: "length b = length ip" "c \<le> 8 * length ip" using t by auto
  have cb: "commonBits b ip = Some ?k" using b n by (intro commonBits_lcp) auto
  show np: "nodePlacement t ip cidr = Some (None, False)" using t off cb by auto
  have pe: "addToPeerEntries (newEntry ip cidr (Some peer)) pe =
      ins_pe (peer_at t ip cidr) peer (maskSelf cidr ip, cidr) pe"
  proof -
    have "peer_at t ip cidr = None" using t off by auto
    then show ?thesis by (simp add: addToPeerEntries_def ins_pe_def)
  qed
  show "trie_insert t pe ip cidr peer =
      Some (ins t ip cidr peer, ins_pe (peer_at t ip cidr) peer (maskSelf cidr ip, cidr) pe)"
  proof (cases "cidr \<le> ?k")
    case True
    then have "cidr < c" using off by auto
    then have "choose_bit cidr b = Some (ipbits b ! cidr)" using b by (simp add: choose_bit_nth)
    then show ?thesis using True off np cb pe t
      by (auto simp: trie_insert_def Let_def)
  next
    case False
    then have lt: "?k < c" "?k < cidr" using off by auto
    have ch: "choose_bit ?k b = Some (ipbits b ! ?k)"
      "choose_bit ?k (maskSelf cidr ip) = Some (ipbits ip ! ?k)"
      using lt b n cidr by (simp_all add: choose_bit_nth length_maskSelf nth_maskSelf)
    show ?thesis using False off np cb pe t lt ch n cidr
      by (auto simp: trie_insert_def Let_def newEntry_maskSelf)
  qed
qed

text \<open>The new entry belongs below this one: the code's insertion is its insertion in the child.\<close>

lemma insert_descend:
  assumes n: "length ip = 4 \<or> length ip = 16" and cidr: "cidr \<le> 8 * length ip"
    and t: "t = Entry p c b l r" "wf_trie (length ip) pre t"
    and on: "c < cidr" "c \<le> lcp (ipbits b) (ipbits ip)"
    and x: "x = child t (ipbits ip ! c)" "x \<noteq> Nil_entry"
    and pos: "nodePlacement x ip cidr = Some (q, ex)"
  shows "trie_insert t pe ip cidr peer =
    map_option (\<lambda>(t', pe'). (set_child t (ipbits ip ! c) t', pe')) (trie_insert x pe ip cidr peer)"
proof -
  let ?d = "ipbits ip ! c"
  have b: "length b = length ip" "c \<le> 8 * length ip" using t by auto
  have cb: "commonBits b ip = Some (lcp (ipbits b) (ipbits ip))" using b n by (intro commonBits_lcp) auto
  have ch: "choose_bit c ip = Some ?d" using on cidr by (simp add: choose_bit_nth)
  have np: "nodePlacement t ip cidr = Some (case q of None \<Rightarrow> (Some [], False) | Some r \<Rightarrow> (Some (?d # r), ex))"
    using t on cb ch x pos by auto
  show ?thesis
  proof (cases q)
    case (Some r)
    then show ?thesis using np pos x t
      by (simp add: trie_insert_def Let_def split: Option.bind_splits) 
  next
    case None
    obtain p' c' b' l' r' where xe: "x = Entry p' c' b' l' r'" using x(2) by (cases x) auto
    let ?k = "lcp (ipbits b') (ipbits ip)"
    have tk: "take c (ipbits b) = take c (ipbits ip)" using on b by (simp add: le_lcp_take)
    have wx: "wf_trie (length ip) (take c (ipbits b) @ [?d]) x" using t x by auto
    moreover have "take (Suc c) (ipbits ip) = take c (ipbits b) @ [?d]"
      using on cidr tk by (simp add: take_Suc_conv_app_nth)
    ultimately have ck: "c < ?k" and b': "length b' = length ip" "c' \<le> 8 * length ip" "c < c'"
      using wf_trie_lcp [of "length ip" "take c (ipbits b) @ [?d]" p' c' b' l' r' ip] b xe by auto
    have cb': "commonBits b' ip = Some ?k" using b' n by (intro commonBits_lcp) auto
    have off: "\<not> (c' \<le> cidr \<and> c' \<le> ?k)"
    proof
      assume "c' \<le> cidr \<and> c' \<le> ?k"
      then show False using pos xe cb' None
        by (auto simp: split: Option.bind_splits if_splits option.splits)
    qed
    have kn: "?k \<le> 8 * length ip" using le_lcp_iff [of ?k "ipbits b'" "ipbits ip"] by simp
    have chd: "choose_bit c (maskSelf m ip) = Some ?d" if "c < m" "m \<le> 8 * length ip" for m
      using that n by (simp add: choose_bit_nth length_maskSelf nth_maskSelf)
    have root: "trie_insert x pe ip cidr peer =
      Some (ins x ip cidr peer, addToPeerEntries (newEntry ip cidr (Some peer)) pe)"
    proof -
      have "peer_at x ip cidr = None" using xe off by auto
      then show ?thesis using insert_fork(2) [OF n cidr xe wx off, of pe peer]
        by (simp add: addToPeerEntries_def ins_pe_def)
    qed
    show ?thesis
    proof (cases "cidr \<le> ?k")
      case True
      then have "cidr < c'" using off by auto
      then have "choose_bit cidr b' = Some (ipbits b' ! cidr)" using b' by (simp add: choose_bit_nth)
      then show ?thesis using True off np None cb' t root x xe ch chd on cidr
        by (auto simp: trie_insert_def Let_def)
    next
      case False
      then have lt: "?k < c'" "?k < cidr" using off by auto
      have "choose_bit ?k b' = Some (ipbits b' ! ?k)"
        "choose_bit ?k (maskSelf cidr ip) = Some (ipbits ip ! ?k)"
        using lt b' n cidr by (simp_all add: choose_bit_nth length_maskSelf nth_maskSelf)
      then show ?thesis using False off np None cb' t root x xe ch chd on cidr lt n ck kn
        by (auto simp: trie_insert_def Let_def newEntry_maskSelf)
    qed
  qed
qed

lemma nodePlacement_total:
  assumes "length ip = 4 \<or> length ip = 16" "cidr \<le> 8 * length ip" "wf_trie (length ip) pre t"
  shows "nodePlacement t ip cidr \<noteq> None"
  using assms(3)
proof (induction t arbitrary: pre)
  case (Entry p c b l r)
  have b: "length b = length ip" "c \<le> 8 * length ip" using Entry.prems by auto
  then have cb: "commonBits b ip = Some (lcp (ipbits b) (ipbits ip))"
    using assms by (intro commonBits_lcp) auto
  show ?case
  proof (cases "c < cidr \<and> c \<le> lcp (ipbits b) (ipbits ip)")
    case True
    then have "choose_bit c ip = Some (ipbits ip ! c)" using assms by (simp add: choose_bit_nth)
    then show ?thesis using True cb Entry.IH Entry.prems
      by (cases "ipbits ip ! c") (fastforce split: option.splits)+
  qed (use cb in auto)
qed simp

lemma trie_insert_ins:
  assumes "length ip = 4 \<or> length ip = 16" "cidr \<le> 8 * length ip" "wf_trie (length ip) pre t"
  shows "trie_insert t pe ip cidr peer =
    Some (ins t ip cidr peer, ins_pe (peer_at t ip cidr) peer (maskSelf cidr ip, cidr) pe)"
  using assms(3)
proof (induction t arbitrary: pre)
  case Nil_entry
  then show ?case
    by (simp add: trie_insert_def Let_def addToPeerEntries_def ins_pe_def fun_eq_iff)
next
  case (Entry p c b l r)
  let ?t = "Entry p c b l r" and ?k = "lcp (ipbits b) (ipbits ip)" and ?d = "ipbits ip ! c"
  have b: "length b = length ip" "c \<le> 8 * length ip" using Entry.prems by auto
  then have cb: "commonBits b ip = Some ?k" using assms by (intro commonBits_lcp) auto
  consider "\<not> (c \<le> cidr \<and> c \<le> ?k)" | "c = cidr" "c \<le> ?k" | "c < cidr" "c \<le> ?k" by linarith
  then show ?case
  proof cases
    case 1
    then show ?thesis using insert_fork(2) [OF assms(1,2) refl Entry.prems] by simp
  next
    case 2
    then have "take c (ipbits b) = take c (ipbits ip)" using b by (simp add: le_lcp_take)
    then have "maskSelf c ip = b"
      using b assms(1) Entry.prems by (intro maskSelf_eq) auto
    then show ?thesis using 2 cb
      by (auto simp: trie_insert_def Let_def ins_pe_def addToPeerEntries_def removeFromPeerEntries_def
          split: option.splits)
  next
    case 3
    have ch: "choose_bit c ip = Some ?d" using 3 assms by (simp add: choose_bit_nth)
    let ?x = "child ?t ?d"
    show ?thesis
    proof (cases "?x = Nil_entry")
      case True
      then have "nodePlacement ?t ip cidr = Some (Some [], False)" using 3 cb ch by auto
      then show ?thesis using True 3 ch
        by (auto simp: trie_insert_def Let_def addToPeerEntries_def ins_pe_def)
    next
      case False
      have wx: "wf_trie (length ip) (take c (ipbits b) @ [?d]) ?x"
        using Entry.prems by (cases ?d) simp_all
      obtain q ex where pos: "nodePlacement ?x ip cidr = Some (q, ex)"
        using nodePlacement_total [OF assms(1,2) wx] by auto
      have ih: "trie_insert ?x pe ip cidr peer =
        Some (ins ?x ip cidr peer, ins_pe (peer_at ?x ip cidr) peer (maskSelf cidr ip, cidr) pe)"
        using Entry.IH Entry.prems by (cases ?d) auto
      show ?thesis
        using insert_descend [OF assms(1,2) refl Entry.prems 3 refl False pos, of pe peer] ih 3
        by (cases ?d) (simp_all add: Let_def)
    qed
  qed
qed

text \<open>What is in the trie after an insertion.\<close>

lemma take_up:
  assumes "length pre \<le> k" "take (length pre) xs = pre" "take (Suc k) ys = take k xs @ [d]" "k \<le> length xs"
  shows "take (length pre) ys = pre"
proof -
  have "take (length pre) ys = take (length pre) (take (Suc k) ys)" using assms(1) by (simp add: min_def)
  also have "\<dots> = pre" unfolding assms(3) using assms by (simp add: min_def)
  finally show ?thesis .
qed

lemma nodes_wf:
  "wf_trie n pre t \<Longrightarrow> (b, c, q) \<in> nodes t \<Longrightarrow>
     length b = n \<and> c \<le> 8 * n \<and> length pre \<le> c \<and> take (length pre) (ipbits b) = pre \<and>
     ipbits b = take c (ipbits b) @ replicate (8 * n - c) False"
proof (induction t arbitrary: pre)
  case (Entry p c' b' l r)
  have up: "length pre \<le> c \<and> take (length pre) (ipbits b) = pre"
    if "Suc c' \<le> c" "take (Suc c') (ipbits b) = take c' (ipbits b') @ [d]" for d
    using that Entry.prems take_up [of pre c' "ipbits b'" "ipbits b" d] by simp
  from Entry.prems(2) consider "(b, c, q) = (b', c', q)" | "(b, c, q) \<in> nodes l" | "(b, c, q) \<in> nodes r"
    by (auto split: option.splits)
  then show ?case
  proof cases
    case 1
    then show ?thesis using Entry.prems by simp
  next
    case 2
    then show ?thesis using Entry.IH(1) [of "take c' (ipbits b') @ [False]"] Entry.prems up [of False]
      by simp
  next
    case 3
    then show ?thesis using Entry.IH(2) [of "take c' (ipbits b') @ [True]"] Entry.prems up [of True]
      by simp
  qed
qed simp

lemma nodes_below:
  assumes "wf_trie n pre (Entry p c b l r)" "(b', c', q) \<in> nodes (Entry p c b l r)"
  shows "c \<le> c' \<and> take c (ipbits b') = take c (ipbits b) \<and> length b' = n"
proof -
  have "wf_trie n (take c (ipbits b)) (Entry p c b l r)"
    using wf_trie_rebase [OF assms(1) order_refl] .
  from nodes_wf [OF this assms(2)] show ?thesis using assms(1) by auto
qed

lemma nodes_side:
  assumes "wf_trie n pre (Entry p c b l r)" "(b', c', q) \<in> nodes (child (Entry p c b l r) d)"
  shows "c < c' \<and> take c (ipbits b') = take c (ipbits b) \<and> ipbits b' ! c = d"
proof -
  have "wf_trie n (take c (ipbits b) @ [d]) (child (Entry p c b l r) d)" "length b = n" "c \<le> 8 * n"
    using assms(1) by auto
  with nodes_wf [OF this(1) assms(2)] have *: "Suc c \<le> c'" "c' \<le> 8 * n" "length b' = n"
      "take (Suc c) (ipbits b') = take c (ipbits b) @ [d]" by auto
  then have "c < length (ipbits b')" by simp
  then have "take (Suc c) (ipbits b') = take c (ipbits b') @ [ipbits b' ! c]"
    by (rule take_Suc_conv_app_nth)
  then show ?thesis using * by auto
qed

lemma nodes_ins:
  assumes "length ip = 4 \<or> length ip = 16" "cidr \<le> 8 * length ip" "wf_trie (length ip) pre t"
  shows "nodes (ins t ip cidr peer) =
    {(b, c, q) \<in> nodes t. (b, c) \<noteq> (maskSelf cidr ip, cidr)} \<union> {(maskSelf cidr ip, cidr, peer)}"
  using assms(3)
proof (induction t arbitrary: pre)
  case Nil_entry
  then show ?case by (simp add: newEntry_def)
next
  case (Entry p c b l r)
  let ?t = "Entry p c b l r" and ?k = "lcp (ipbits b) (ipbits ip)" and ?d = "ipbits ip ! c"
  let ?m = "maskSelf cidr ip"
  have b: "length b = length ip" "c \<le> 8 * length ip" using Entry.prems by auto
  consider (above) "\<not> (c \<le> cidr \<and> c \<le> ?k)" "cidr \<le> ?k"
    | (beside) "\<not> (c \<le> cidr \<and> c \<le> ?k)" "\<not> cidr \<le> ?k"
    | (here) "c = cidr" "c \<le> ?k" | (below) "c < cidr" "c \<le> ?k" by linarith
  then show ?case
  proof cases
    case above
    then have "cidr < c" by auto
    then have "(b', cidr, q) \<notin> nodes ?t" for b' q using nodes_below [OF Entry.prems] by fastforce
    then show ?thesis using above by (auto simp: Let_def newEntry_def)
  next
    case beside
    then have lt: "?k < c" "?k < cidr" by auto
    have "ipbits b ! ?k \<noteq> ipbits ip ! ?k" using lt b assms by (intro lcp_differs) auto
    moreover have "ipbits b' ! ?k = ipbits b ! ?k" if "(b', c', q) \<in> nodes ?t" for b' c' q
      using nodes_below [OF Entry.prems that] lt by (metis nth_take)
    moreover have "ipbits ?m ! ?k = ipbits ip ! ?k" using lt assms by (simp add: nth_maskSelf)
    ultimately have "(?m, c', q) \<notin> nodes ?t" for c' q by metis
    with beside \<open>ipbits b ! ?k \<noteq> ipbits ip ! ?k\<close> show ?thesis
      by (auto simp: Let_def newEntry_def)
  next
    case here
    then have "take c (ipbits b) = take c (ipbits ip)" using b by (simp add: le_lcp_take)
    then have "?m = b" using here b assms(1) Entry.prems by (intro maskSelf_eq) auto
    moreover have "(b, c, q) \<notin> nodes l" "(b, c, q) \<notin> nodes r" for q
      using nodes_side [OF Entry.prems, of b c q False] nodes_side [OF Entry.prems, of b c q True] by auto
    ultimately show ?thesis using here by (auto simp: Let_def split: option.splits)
  next
    case below
    have m: "ipbits ?m ! c = ?d" using below assms by (simp add: nth_maskSelf)
    have other: "(?m, c', q) \<notin> nodes (child ?t (\<not> ?d))" for c' q
      using nodes_side [OF Entry.prems, of ?m c' q "\<not> ?d"] m by auto
    have ih: "nodes (ins (child ?t ?d) ip cidr peer) =
        {(b, c, q) \<in> nodes (child ?t ?d). (b, c) \<noteq> (?m, cidr)} \<union> {(?m, cidr, peer)}"
      using Entry.IH Entry.prems by (cases ?d) auto
    show ?thesis using below other ih
      by (cases ?d) (auto simp: Let_def split: option.splits)
  qed
qed

subsection \<open>Lookup is longest-prefix match\<close>

definition covers :: "bytes \<Rightarrow> nat \<Rightarrow> bytes \<Rightarrow> bool" where
  "covers b c ip \<longleftrightarrow> take c (ipbits b) = take c (ipbits ip)"

lemma covers_lcp:
  "length b = length ip \<Longrightarrow> c \<le> 8 * length ip \<Longrightarrow> covers b c ip \<longleftrightarrow> c \<le> lcp (ipbits b) (ipbits ip)"
  by (simp add: covers_def le_lcp_take)

lemma covers_below:
  assumes "wf_trie (length ip) pre (Entry p c b l r)" "(b', c', q) \<in> nodes (Entry p c b l r)"
    and "covers b' c' ip"
  shows "covers b c ip"
  using nodes_below [OF assms(1,2)] take_eq_of_take assms(3) by (metis covers_def)

lemma covers_side:
  assumes t: "wf_trie (length ip) pre (Entry p c b l r)"
    and b': "(b', c', q) \<in> nodes (child (Entry p c b l r) d)" "covers b' c' ip"
  shows "ipbits ip ! c = d"
proof -
  note * = nodes_side [OF t b'(1)]
  then have "take (Suc c) (ipbits b') = take (Suc c) (ipbits ip)"
    using b' take_eq_of_take [of "Suc c" c'] by (simp add: covers_def)
  then have "take (Suc c) (ipbits b') ! c = take (Suc c) (ipbits ip) ! c" by (rule arg_cong)
  then show ?thesis using * by simp
qed

definition best :: "(bytes \<times> nat \<times> 'p) set \<Rightarrow> bytes \<Rightarrow> 'p option \<Rightarrow> 'p option \<Rightarrow> bool" where
  "best N ip found res \<longleftrightarrow>
     (\<exists>b c q. (b, c, q) \<in> N \<and> covers b c ip \<and> res = Some q \<and>
        (\<forall>b' c' q'. (b', c', q') \<in> N \<and> covers b' c' ip \<longrightarrow> c' \<le> c)) \<or>
     (res = found \<and> (\<forall>b c q. (b, c, q) \<in> N \<longrightarrow> \<not> covers b c ip))"

lemma trie_lookup_best:
  assumes "length ip = 4 \<or> length ip = 16" "wf_trie (length ip) pre t"
  shows "\<exists>res. trie_lookup t ip found = Some res \<and> best (nodes t) ip found res"
  using assms(2)
proof (induction t arbitrary: pre found)
  case Nil_entry
  then show ?case by (simp add: best_def)
next
  case (Entry p c b l r)
  let ?t = "Entry p c b l r" and ?k = "lcp (ipbits b) (ipbits ip)" and ?d = "ipbits ip ! c"
  let ?found = "if p \<noteq> None then p else found"
  have b: "length b = length ip" "c \<le> 8 * length ip" using Entry.prems by auto
  then have cb: "commonBits b ip = Some ?k" using assms(1) by (intro commonBits_lcp) auto
  show ?case
  proof (cases "c \<le> ?k")
    case False
    then have "\<not> covers b c ip" using b by (simp add: covers_lcp)
    then have "best (nodes ?t) ip found found"
      using covers_below [OF Entry.prems] unfolding best_def by blast
    then show ?thesis using False cb by simp
  next
    case True
    then have cov: "covers b c ip" using b by (simp add: covers_lcp)
    have here: "best (nodes ?t) ip found res" if sub: "best (nodes (child ?t ?d)) ip ?found res" for res
    proof -
      have up: "c \<le> c'" if "(b', c', q) \<in> nodes ?t" for b' c' q
        using nodes_below [OF Entry.prems that] by simp
      have side: "(b', c', q) \<in> nodes (child ?t ?d)"
        if "(b', c', q) \<in> nodes ?t" "covers b' c' ip" "(b', c', Some q) \<noteq> (b, c, p)" for b' c' q
        using that covers_side [OF Entry.prems, of b' c' q True]
          covers_side [OF Entry.prems, of b' c' q False] by (auto split: option.splits)
      have sub_t: "nodes (child ?t ?d) \<subseteq> nodes ?t" by auto
      from sub consider (in_child) b1 c1 q1 where "(b1, c1, q1) \<in> nodes (child ?t ?d)" "covers b1 c1 ip"
          "res = Some q1"
          "\<forall>b' c' q'. (b', c', q') \<in> nodes (child ?t ?d) \<and> covers b' c' ip \<longrightarrow> c' \<le> c1"
        | (root) "res = ?found" "\<forall>b c q. (b, c, q) \<in> nodes (child ?t ?d) \<longrightarrow> \<not> covers b c ip"
        unfolding best_def by blast
      then show ?thesis
      proof cases
        case in_child
        then have "c \<le> c1" using up sub_t by blast
        then have "\<forall>b' c' q'. (b', c', q') \<in> nodes ?t \<and> covers b' c' ip \<longrightarrow> c' \<le> c1"
          using in_child(4) side by (metis prod.inject)
        then show ?thesis using in_child sub_t unfolding best_def by blast
      next
        case root
        show ?thesis
        proof (cases p)
          case None
          then have "\<forall>b c q. (b, c, q) \<in> nodes ?t \<longrightarrow> \<not> covers b c ip"
            using root(2) side by (metis option.distinct(1) prod.inject)
          then show ?thesis using root(1) None unfolding best_def by simp
        next
          case (Some q)
          have "\<forall>b' c' q'. (b', c', q') \<in> nodes ?t \<and> covers b' c' ip \<longrightarrow> c' \<le> c"
            using root(2) side by (metis order_refl prod.inject)
          then show ?thesis using Some root cov unfolding best_def by auto
        qed
      qed
    qed
    show ?thesis
    proof (cases "c div 8 = length ip mod 256")
      case True
      then have c: "c = 8 * length ip" using assms(1) b by auto
      then have kids: "l = Nil_entry" "r = Nil_entry"
        using Entry.prems b by (cases l; cases r; auto)+
      have "best (nodes (child ?t ?d)) ip ?found ?found" using kids by (simp add: best_def)
      then show ?thesis using here True cb \<open>c \<le> ?k\<close> by simp
    next
      case False
      then have "c < 8 * length ip" using assms(1) b by (cases "c = 8 * length ip") auto
      then have "choose_bit c ip = Some ?d" by (simp add: choose_bit_nth)
      moreover obtain res where "trie_lookup (child ?t ?d) ip ?found = Some res"
          "best (nodes (child ?t ?d)) ip ?found res"
        using Entry.IH Entry.prems by (cases ?d) (simp, blast)+
      ultimately show ?thesis using here False cb \<open>c \<le> ?k\<close> by (auto simp: Let_def)
    qed
  qed
qed

subsection \<open>Removal\<close>

lemma wf_trie_weaken:
  assumes "wf_trie n q t" "length pre \<le> length q" "take (length pre) q = pre"
  shows "wf_trie n pre t"
  using assms by (cases t) (auto, (metis min.absorb1 take_take)+)

definition rm :: "'p trieEntry \<Rightarrow> path \<Rightarrow> 'p trieEntry" where
  "rm t at = fst (trie_remove t (\<lambda>p. []) at)"

lemma put_get_idem: "put t at (get t at) = t"
proof (induction at arbitrary: t)
  case (Cons d ds)
  then show ?case by (cases t) auto
qed simp

lemma put_put [simp]: "put (put t at x) at y = put t at y"
proof (induction at arbitrary: t)
  case (Cons d ds)
  then show ?case by (cases t) auto
qed simp

lemma trie_remove_rm: "trie_remove t pe at = (rm t at, removeFromPeerEntries (get t at) pe)"
  by (simp add: rm_def trie_remove_def Let_def)

lemma rm_Nil:
  "rm (Entry p c b l r) [] = (if l \<noteq> Nil_entry \<and> r \<noteq> Nil_entry then Entry None c b l r
     else if l = Nil_entry then r else l)"
  by (simp add: rm_def trie_remove_def Let_def)

lemma rm_single:
  assumes "child (Entry p c b l r) d = Entry q c' b' l' r'"
  shows "rm (Entry p c b l r) [d] =
    (if l' \<noteq> Nil_entry \<or> r' \<noteq> Nil_entry \<or> p \<noteq> None
     then set_child (Entry p c b l r) d (rm (Entry q c' b' l' r') [])
     else child (Entry p c b l r) (\<not> d))"
  using assms by (cases d) (auto simp: rm_def trie_remove_def Let_def)

lemma rm_Cons:
  assumes "t \<noteq> Nil_entry"
  shows "rm t (d # d' # ds) = set_child t d (rm (child t d) (d' # ds))"
proof -
  obtain p c b l r where "t = Entry p c b l r" using assms by (cases t) auto
  then show ?thesis
    by (cases d) (simp_all add: rm_def trie_remove_def Let_def)
qed

lemma get_Nil_entry [simp]: "get Nil_entry at = Nil_entry"
  by (induction at) auto

lemma get_nodes:
  "get t at = Entry (Some q) c b l r \<Longrightarrow> (b, c, q) \<in> nodes t"
proof (induction at arbitrary: t)
  case (Cons d ds)
  then show ?case by (cases t) (auto split: if_splits)
qed simp

lemma rm_correct:
  assumes "wf_trie n pre t" "get t at = Entry (Some q) c b l r"
  shows "wf_trie n pre (rm t at) \<and> nodes (rm t at) = nodes t - {(b, c, q)} \<and>
    (rm t at = Nil_entry \<longrightarrow> at = [] \<and> l = Nil_entry \<and> r = Nil_entry)"
  using assms
proof (induction at arbitrary: t pre)
  case Nil
  then have t: "t = Entry (Some q) c b l r" by simp
  have w: "wf_trie n pre (child t d)" for d
  proof (rule wf_trie_weaken)
    show "wf_trie n (take c (ipbits b) @ [d]) (child t d)" using Nil t by (cases d) auto
  qed (use Nil t in \<open>auto simp: min_def\<close>)
  have "(b, c, q) \<notin> nodes (child t d)" for d
    using nodes_side [of n pre "Some q" c b l r b c q d] Nil t by auto
  from this [of True] this [of False] have "(b, c, q) \<notin> nodes l" "(b, c, q) \<notin> nodes r"
    using t by auto
  then show ?case using Nil t w [of True] w [of False] by (auto simp: rm_Nil)
next
  case (Cons d ds)
  obtain p c0 b0 l0 r0 where t: "t = Entry p c0 b0 l0 r0" using Cons.prems by (cases t) auto
  let ?x = "child t d"
  have wx: "wf_trie n (take c0 (ipbits b0) @ [d]) ?x" using Cons.prems t by (cases d) auto
  have gx: "get ?x ds = Entry (Some q) c b l r" using Cons.prems by simp
  have wo: "wf_trie n pre (child t (\<not> d))"
  proof (rule wf_trie_weaken)
    show "wf_trie n (take c0 (ipbits b0) @ [\<not> d]) (child t (\<not> d))" using Cons.prems t by (cases d) auto
  qed (use Cons.prems t in \<open>auto simp: min_def\<close>)
  note ih = Cons.IH [OF wx gx]
  have inx: "(b, c, q) \<in> nodes ?x" using get_nodes [OF gx] .
  have side: "c0 < c" "ipbits b ! c0 = d"
    using nodes_side [of n pre p c0 b0 l0 r0 b c q d] inx Cons.prems t by auto
  have other: "(b, c, q) \<notin> nodes (child t (\<not> d))"
    using nodes_side [of n pre p c0 b0 l0 r0 b c q "\<not> d"] side Cons.prems t by auto
  have keep: "wf_trie n pre (set_child t d (rm ?x ds))"
    "nodes (set_child t d (rm ?x ds)) = nodes t - {(b, c, q)}"
    if "rm ?x ds = Nil_entry \<longrightarrow> p \<noteq> None"
    using ih that Cons.prems t other side by (cases d; auto split: option.splits)+
  show ?case
  proof (cases ds)
    case Nil
    then have x: "?x = Entry (Some q) c b l r" using gx by simp
    show ?thesis
    proof (cases "l \<noteq> Nil_entry \<or> r \<noteq> Nil_entry \<or> p \<noteq> None")
      case True
      then have "rm t (d # ds) = set_child t d (rm ?x ds)"
        using rm_single [of p c0 b0 l0 r0 d "Some q" c b l r] x t Nil by simp
      moreover have "rm ?x ds = Nil_entry \<longrightarrow> p \<noteq> None" using True x Nil by (auto simp: rm_Nil split: if_splits)
      ultimately show ?thesis using keep t by (cases d) auto
    next
      case False
      then have "rm t (d # ds) = child t (\<not> d)"
        using rm_single [of p c0 b0 l0 r0 d "Some q" c b l r] x t Nil by simp
      moreover have "nodes (child t (\<not> d)) = nodes t - {(b, c, q)}"
        using False t x other by (cases d) auto
      moreover have "child t (\<not> d) \<noteq> Nil_entry" using False t Cons.prems by (cases d) auto
      ultimately show ?thesis using wo by simp
    qed
  next
    case (Cons d' ds')
    then have "rm t (d # ds) = set_child t d (rm ?x ds)" using rm_Cons t by blast
    moreover have "rm ?x ds \<noteq> Nil_entry" using ih Cons by auto
    ultimately show ?thesis using keep t by (cases d) auto
  qed
qed

lemma nodePlacement_peer_at:
  assumes "length ip = 4 \<or> length ip = 16" "cidr \<le> 8 * length ip" "wf_trie (length ip) pre t"
    and "nodePlacement t ip cidr = Some (at, ex)"
  shows "if ex then \<exists>at' l r. at = Some at' \<and>
      get t at' = Entry (peer_at t ip cidr) cidr (maskSelf cidr ip) l r
    else peer_at t ip cidr = None"
  using assms(3,4)
proof (induction t arbitrary: pre at ex)
  case Nil_entry
  then show ?case by simp
next
  case (Entry p c b l r)
  let ?t = "Entry p c b l r" and ?k = "lcp (ipbits b) (ipbits ip)" and ?d = "ipbits ip ! c"
  have b: "length b = length ip" "c \<le> 8 * length ip" using Entry.prems by auto
  then have cb: "commonBits b ip = Some ?k" using assms(1) by (intro commonBits_lcp) auto
  consider "\<not> (c \<le> cidr \<and> c \<le> ?k)" | "c = cidr" "c \<le> ?k" | "c < cidr" "c \<le> ?k" by linarith
  then show ?case
  proof cases
    case 1
    then show ?thesis using Entry.prems cb by (auto split: if_splits)
  next
    case 2
    then have "maskSelf c ip = b"
      using b assms(1) Entry.prems by (intro maskSelf_eq) (auto simp: le_lcp_take)
    then show ?thesis using 2 Entry.prems cb by auto
  next
    case 3
    then have ch: "choose_bit c ip = Some ?d" using assms by (simp add: choose_bit_nth)
    have wx: "wf_trie (length ip) (take c (ipbits b) @ [?d]) (child ?t ?d)"
      using Entry.prems by (cases ?d) auto
    obtain at' ex' where sub: "nodePlacement (child ?t ?d) ip cidr = Some (at', ex')"
      using nodePlacement_total [OF assms(1,2) wx] by auto
    have ih: "if ex' then \<exists>at'' l r. at' = Some at'' \<and> get (child ?t ?d) at'' =
          Entry (peer_at (child ?t ?d) ip cidr) cidr (maskSelf cidr ip) l r
        else peer_at (child ?t ?d) ip cidr = None"
      using Entry.IH Entry.prems(1) sub by (cases ?d) auto
    have "(at, ex) = (case at' of None \<Rightarrow> (Some [], False) | Some q \<Rightarrow> (Some (?d # q), ex'))"
      using Entry.prems(2) 3 cb ch sub by auto
    then show ?thesis using ih 3 by (cases ?d) (auto split: option.splits if_splits)
  qed
qed

lemma peer_at_nodes:
  assumes "length ip = 4 \<or> length ip = 16" "cidr \<le> 8 * length ip" "wf_trie (length ip) pre t"
  shows "peer_at t ip cidr = Some q \<longleftrightarrow> (maskSelf cidr ip, cidr, q) \<in> nodes t"
  using assms(3)
proof (induction t arbitrary: pre)
  case Nil_entry
  then show ?case by simp
next
  case (Entry p c b l r)
  let ?t = "Entry p c b l r" and ?k = "lcp (ipbits b) (ipbits ip)" and ?d = "ipbits ip ! c"
  let ?m = "maskSelf cidr ip"
  have b: "length b = length ip" "c \<le> 8 * length ip" using Entry.prems by auto
  have tm: "take cidr (ipbits ?m) = take cidr (ipbits ip)" using assms by (simp add: take_maskSelf)
  consider "\<not> (c \<le> cidr \<and> c \<le> ?k)" | "c = cidr" "c \<le> ?k" | "c < cidr" "c \<le> ?k" by linarith
  then show ?case
  proof cases
    case 1
    have "(?m, cidr, q) \<notin> nodes ?t"
    proof
      assume "(?m, cidr, q) \<in> nodes ?t"
      from nodes_below [OF Entry.prems this] have "c \<le> cidr" "take c (ipbits b) = take c (ipbits ip)"
        using take_eq_of_take [OF _ tm, of c] by auto
      then show False using 1 b by (simp add: le_lcp_take)
    qed
    then show ?thesis using 1 by auto
  next
    case 2
    then have "?m = b" using b assms(1) Entry.prems by (intro maskSelf_eq) (auto simp: le_lcp_take)
    moreover have "(b, c, q) \<notin> nodes l" "(b, c, q) \<notin> nodes r"
      using nodes_side [OF Entry.prems, of b c q False] nodes_side [OF Entry.prems, of b c q True] by auto
    ultimately show ?thesis using 2 by (auto split: option.splits)
  next
    case 3
    have "ipbits ?m ! c = ?d" using 3 assms by (simp add: nth_maskSelf)
    then have "(?m, cidr, q) \<notin> nodes (child ?t (\<not> ?d))"
      using nodes_side [OF Entry.prems, of ?m cidr q "\<not> ?d"] by auto
    then show ?thesis using 3 Entry.IH Entry.prems by (cases ?d) (auto split: option.splits)
  qed
qed

lemma nodes_unique:
  assumes "wf_trie n pre t" "(b, c, q) \<in> nodes t" "(b, c, q') \<in> nodes t" "n = 4 \<or> n = 16"
  shows "q = q'"
proof -
  have b: "length b = n" "c \<le> 8 * n" "ipbits b = take c (ipbits b) @ replicate (8 * n - c) False"
    using nodes_wf [OF assms(1,2)] by auto
  then have "maskSelf c b = b" using assms(4) by (intro maskSelf_eq) auto
  then show ?thesis using peer_at_nodes [of b c pre t] assms b by (metis option.inject)
qed

text \<open>The slot of a list element.\<close>

lemma get_wf:
  assumes "wf_trie n pre t" "get t at = Entry p c b l r"
  shows "length b = n \<and> length pre \<le> c \<and> take (length pre) (ipbits b) = pre"
  using assms
proof (induction at arbitrary: t pre)
  case (Cons d ds)
  obtain p0 c0 b0 l0 r0 where t: "t = Entry p0 c0 b0 l0 r0" using Cons.prems by (cases t) auto
  have w: "wf_trie n (take c0 (ipbits b0) @ [d]) (child t d)" using Cons.prems t by (cases d) auto
  have *: "length b = n" "length (take c0 (ipbits b0) @ [d]) \<le> c"
      "take (length (take c0 (ipbits b0) @ [d])) (ipbits b) = take c0 (ipbits b0) @ [d]"
    using Cons.IH [OF w] Cons.prems by auto
  have c0: "c0 \<le> 8 * length b0" "length pre \<le> c0" "take (length pre) (ipbits b0) = pre"
    using Cons.prems t by auto
  then have "take (length pre) (ipbits b) = pre"
    using *(3) by (intro take_up [of pre c0 "ipbits b0" "ipbits b" d]) auto
  then show ?case using * c0 by auto
qed auto

lemma locate_get: "locate t (b, c) = Some at \<Longrightarrow> \<exists>p l r. get t at = Entry p c b l r"
proof (induction t arbitrary: at)
  case (Entry p c' b' l r)
  then show ?case by (auto split: if_splits option.splits)
qed simp

lemma locate_node:
  assumes "wf_trie n pre t" "(b, c, q) \<in> nodes t"
  shows "\<exists>at l r. locate t (b, c) = Some at \<and> get t at = Entry (Some q) c b l r"
  using assms
proof (induction t arbitrary: pre)
  case (Entry p c0 b0 l0 r0)
  let ?t = "Entry p c0 b0 l0 r0"
  note side = nodes_side [OF Entry.prems(1), of b c q]
  have wl: "wf_trie n (take c0 (ipbits b0) @ [False]) l0" and wr: "wf_trie n (take c0 (ipbits b0) @ [True]) r0"
    using Entry.prems by auto
  show ?case
  proof (cases "(b0, c0) = (b, c)")
    case True
    then show ?thesis using Entry.prems side [of True] side [of False] by (auto split: option.splits)
  next
    case False
    then have "(b, c, q) \<in> nodes l0 \<or> (b, c, q) \<in> nodes r0" using Entry.prems by (auto split: option.splits)
    then show ?thesis
    proof
      assume "(b, c, q) \<in> nodes l0"
      then obtain at l r where "locate l0 (b, c) = Some at" "get l0 at = Entry (Some q) c b l r"
        using Entry.IH(1) [OF wl] by blast
      then show ?thesis using False by auto
    next
      assume r: "(b, c, q) \<in> nodes r0"
      have "locate l0 (b, c) = None"
      proof (rule ccontr)
        assume "locate l0 (b, c) \<noteq> None"
        then obtain at p' l' r' where "get l0 at = Entry p' c b l' r'" using locate_get by fastforce
        with get_wf [of n "take c0 (ipbits b0) @ [False]" l0 at p' c b l' r'] Entry.prems
        have "take (Suc c0) (ipbits b) = take c0 (ipbits b0) @ [False]" "c0 < c" "length b = n" by auto
        then have "take (Suc c0) (ipbits b) ! c0 = False" using Entry.prems by (simp add: nth_append)
        then show False using side [of True] r by simp
      qed
      moreover obtain at l r where "locate r0 (b, c) = Some at" "get r0 at = Entry (Some q) c b l r"
        using Entry.IH(2) [OF wr r] by blast
      ultimately show ?thesis using False by auto
    qed
  qed
qed simp

end
