(* ===== verification/Allowed_Table.thy ===== *)
theory Allowed_Table
  imports Allowed_IPs
begin

text \<open>
  What the table of device/allowedips.go promises: a finite map from prefixes to peers, for the
  two address families, with longest-prefix lookup.  The locale \<open>prefix_table\<close> states the laws
  of one operation each; its lemma carries them through any sequence of operations.  The
  interpretation discharges them for the trie of theory \<open>Allowed_IPs\<close>.
\<close>

subsection \<open>The specification\<close>

type_synonym pkey = "bool \<times> bool list"

definition valid_prefix :: "prefix \<Rightarrow> bool" where
  "valid_prefix pfx = (case pfx of
       (Addr4 ip, n) \<Rightarrow> length ip = 4 \<and> 0 \<le> n \<and> n \<le> 32
     | (Addr6 ip, n) \<Rightarrow> length ip = 16 \<and> 0 \<le> n \<and> n \<le> 128
     | (Addr_invalid, _) \<Rightarrow> False)"

definition pkey_of :: "prefix \<Rightarrow> pkey" where
  "pkey_of pfx = (case pfx of
       (Addr4 ip, n) \<Rightarrow> (False, take (nat n) (ipbits ip))
     | (Addr6 ip, n) \<Rightarrow> (True, take (nat n) (ipbits ip))
     | (Addr_invalid, n) \<Rightarrow> (False, []))"

text \<open>The value at the longest prefix of \<open>bits\<close> that has one.\<close>

definition longest :: "(bool list \<rightharpoonup> 'p) \<Rightarrow> bool list \<Rightarrow> 'p option" where
  "longest f bits =
     (case filter (\<lambda>k. f (take k bits) \<noteq> None) (rev [0..<Suc (length bits)]) of
        [] \<Rightarrow> None
      | k # _ \<Rightarrow> f (take k bits))"

definition spec_lookup :: "(pkey \<rightharpoonup> 'p) \<Rightarrow> bytes \<Rightarrow> 'p option" where
  "spec_lookup m ip = longest (\<lambda>k. m (length ip = 16, k)) (ipbits ip)"

datatype 'p table_op = OpInsert prefix 'p | OpRemove prefix 'p | OpRemoveByPeer 'p

definition op_valid :: "'p table_op \<Rightarrow> bool" where
  "op_valid a = (case a of
       OpInsert pfx _ \<Rightarrow> valid_prefix pfx
     | OpRemove pfx _ \<Rightarrow> valid_prefix pfx
     | OpRemoveByPeer _ \<Rightarrow> True)"

definition spec_op :: "'p table_op \<Rightarrow> (pkey \<rightharpoonup> 'p) \<Rightarrow> (pkey \<rightharpoonup> 'p)" where
  "spec_op a m = (case a of
       OpInsert pfx p \<Rightarrow> m(pkey_of pfx \<mapsto> p)
     | OpRemove pfx p \<Rightarrow> if m (pkey_of pfx) = Some p then m(pkey_of pfx := None) else m
     | OpRemoveByPeer p \<Rightarrow> (\<lambda>k. if m k = Some p then None else m k))"

definition table_op :: "'p table_op \<Rightarrow> 'p AllowedIPs \<Rightarrow> 'p AllowedIPs option" where
  "table_op a t = (case a of
       OpInsert pfx p \<Rightarrow> AllowedIPs_Insert t pfx p
     | OpRemove pfx p \<Rightarrow> AllowedIPs_Remove t pfx p
     | OpRemoveByPeer p \<Rightarrow> Some (RemoveByPeer t p))"

fun table_ops :: "'p table_op list \<Rightarrow> 'p AllowedIPs \<Rightarrow> 'p AllowedIPs option" where
  "table_ops [] t = Some t"
| "table_ops (a # as) t = do { t' \<leftarrow> table_op a t; table_ops as t' }"

subsection \<open>One family\<close>

definition family_rel :: "nat \<Rightarrow> 'p trieEntry \<Rightarrow> (bool list \<rightharpoonup> 'p) \<Rightarrow> bool" where
  "family_rel n t f \<longleftrightarrow> wf_trie n [] t \<and>
     (\<forall>k q. f k = Some q \<longleftrightarrow> (\<exists>b c. (b, c, q) \<in> nodes t \<and> take c (ipbits b) = k))"

lemma node_key:
  assumes "wf_trie (length ip) [] t" "(b, c, q) \<in> nodes t"
    and "length ip = 4 \<or> length ip = 16" "cidr \<le> 8 * length ip"
  shows "take c (ipbits b) = take cidr (ipbits ip) \<longleftrightarrow> (b, c) = (maskSelf cidr ip, cidr)"
proof
  assume eq: "take c (ipbits b) = take cidr (ipbits ip)"
  have b: "length b = length ip" "c \<le> 8 * length ip"
      "ipbits b = take c (ipbits b) @ replicate (8 * length ip - c) False"
    using nodes_wf [OF assms(1,2)] by auto
  have "c = cidr" using arg_cong [OF eq, of length] b assms by simp
  moreover have "maskSelf c ip = b" using b eq assms calculation by (intro maskSelf_eq) auto
  ultimately show "(b, c) = (maskSelf cidr ip, cidr)" by simp
qed (use assms in \<open>simp add: take_maskSelf\<close>)

lemma family_insert:
  assumes f: "family_rel (length ip) t f" and n: "length ip = 4 \<or> length ip = 16" "cidr \<le> 8 * length ip"
  shows "family_rel (length ip) (ins t ip cidr p) (f(take cidr (ipbits ip) \<mapsto> p))"
proof -
  have w: "wf_trie (length ip) [] t" using f by (simp add: family_rel_def)
  have m: "take cidr (ipbits (maskSelf cidr ip)) = take cidr (ipbits ip)" using n by (simp add: take_maskSelf)
  have "(f(take cidr (ipbits ip) \<mapsto> p)) k = Some q \<longleftrightarrow>
      (\<exists>b c. (b, c, q) \<in> nodes (ins t ip cidr p) \<and> take c (ipbits b) = k)" for k q
    unfolding nodes_ins [OF n w] using f node_key [OF w _ n] m
    by (auto simp: family_rel_def)
  then show ?thesis using ins_wf [OF n(1) w refl n(2)] by (simp add: family_rel_def)
qed

lemma family_rm:
  assumes f: "family_rel n t f" and n: "n = 4 \<or> n = 16" and g: "get t at = Entry (Some p) c b l r"
  shows "family_rel n (rm t at) (f(take c (ipbits b) := None))"
proof -
  have w: "wf_trie n [] t" using f by (simp add: family_rel_def)
  have bn: "(b, c, p) \<in> nodes t" using get_nodes [OF g] .
  then have b: "length b = n" "c \<le> 8 * n" "ipbits b = take c (ipbits b) @ replicate (8 * n - c) False"
    using nodes_wf [OF w] by auto
  then have mb: "maskSelf c b = b" using n by (intro maskSelf_eq) auto
  have key: "take c' (ipbits b') = take c (ipbits b) \<longleftrightarrow> (b', c', q) = (b, c, p)"
    if "(b', c', q) \<in> nodes t" for b' c' q
    using node_key [of b t b' c' q c] that w b n mb nodes_unique [OF w _ bn n] by auto
  have "(f(take c (ipbits b) := None)) k = Some q \<longleftrightarrow>
      (\<exists>b c. (b, c, q) \<in> nodes (rm t at) \<and> take c (ipbits b) = k)" for k q
    using f rm_correct [OF w g] key by (auto simp: family_rel_def)
  then show ?thesis using rm_correct [OF w g] by (simp add: family_rel_def)
qed

lemma longest_hit:
  assumes "k \<le> length bits" "f (take k bits) = Some q"
    and "\<And>j. k < j \<Longrightarrow> j \<le> length bits \<Longrightarrow> f (take j bits) = None"
  shows "longest f bits = Some q"
proof -
  have "[0..<Suc (length bits)] = [0..<k] @ k # [Suc k..<Suc (length bits)]"
    using assms(1) by (metis le_imp_less_Suc le_add1 plus_nat.add_0 upt_add_eq_append upt_conv_Cons le_Suc_ex less_imp_le)
  moreover have "filter (\<lambda>k. f (take k bits) \<noteq> None) [Suc k..<Suc (length bits)] = []"
    using assms(3) by (auto simp: filter_empty_conv simp del: upt_Suc)
  ultimately show ?thesis
    using assms(2) by (simp add: longest_def rev_filter [symmetric] del: upt_Suc)
qed

lemma longest_miss: "(\<And>j. j \<le> length bits \<Longrightarrow> f (take j bits) = None) \<Longrightarrow> longest f bits = None"
  by (simp add: longest_def filter_empty_conv del: upt_Suc)

lemma family_lookup:
  assumes f: "family_rel (length ip) t f" and n: "length ip = 4 \<or> length ip = 16"
  shows "trie_lookup t ip None = Some (longest f (ipbits ip))"
proof -
  have w: "wf_trie (length ip) [] t" using f by (simp add: family_rel_def)
  obtain res where res: "trie_lookup t ip None = Some res" "best (nodes t) ip None res"
    using trie_lookup_best [OF n w] by blast
  have P: "f (take c (ipbits ip)) = Some q \<longleftrightarrow> (\<exists>b. (b, c, q) \<in> nodes t \<and> covers b c ip)"
    if c: "c \<le> 8 * length ip" for c q
  proof -
    have "c' = c" if "(b, c', q) \<in> nodes t" "take c' (ipbits b) = take c (ipbits ip)" for b c'
      using nodes_wf [OF w that(1)] arg_cong [OF that(2), of length] c by simp
    then show ?thesis using f by (fastforce simp: family_rel_def covers_def)
  qed
  from res(2) consider
      (hit) b c q where "(b, c, q) \<in> nodes t" "covers b c ip" "res = Some q"
        "\<forall>b' c' q'. (b', c', q') \<in> nodes t \<and> covers b' c' ip \<longrightarrow> c' \<le> c"
    | (miss) "res = None" "\<forall>b c q. (b, c, q) \<in> nodes t \<longrightarrow> \<not> covers b c ip"
    unfolding best_def by blast
  then have "longest f (ipbits ip) = res"
  proof cases
    case hit
    have c: "c \<le> 8 * length ip" using nodes_wf [OF w hit(1)] by simp
    have "f (take k (ipbits ip)) = None" if k: "c < k" "k \<le> 8 * length ip" for k
    proof (cases "f (take k (ipbits ip))")
      case (Some q')
      then show ?thesis using P [OF k(2)] hit(4) k(1) by (metis not_le)
    qed
    then have "longest f (ipbits ip) = Some q" using P [OF c] hit c by (intro longest_hit) auto
    then show ?thesis using hit by simp
  next
    case miss
    have "f (take k (ipbits ip)) = None" if k: "k \<le> 8 * length ip" for k
      using P [OF k] miss(2) by (cases "f (take k (ipbits ip))") auto
    then have "longest f (ipbits ip) = None" by (intro longest_miss) simp
    then show ?thesis using miss(1) by simp
  qed
  then show ?thesis using res(1) by simp
qed

subsection \<open>The peers' lists\<close>

definition lists_ok :: "(bytes \<times> nat \<times> 'p) set \<Rightarrow> 'p peerEntries \<Rightarrow> bool" where
  "lists_ok N pe \<longleftrightarrow> (\<forall>p. distinct (pe p) \<and> (\<forall>b c. (b, c) \<in> set (pe p) \<longleftrightarrow> (b, c, p) \<in> N))"

lemma lists_ok_ins:
  assumes "lists_ok N pe" "\<And>q. (fst k, snd k, q) \<in> N \<longleftrightarrow> old = Some q"
  shows "lists_ok ({(b, c, q) \<in> N. (b, c) \<noteq> k} \<union> {(fst k, snd k, p)}) (ins_pe old p k pe)"
  using assms
  by (cases k; cases old) (auto simp: lists_ok_def ins_pe_def Let_def)

lemma lists_ok_rm:
  assumes "lists_ok N pe" "(b, c, p) \<in> N"
  shows "lists_ok (N - {(b, c, p)}) (pe(p := remove1 (b, c) (pe p)))"
  using assms by (auto simp: lists_ok_def)

subsection \<open>The whole table\<close>

definition table_rel :: "'p AllowedIPs \<Rightarrow> (pkey \<rightharpoonup> 'p) \<Rightarrow> bool" where
  "table_rel t m \<longleftrightarrow>
     family_rel 4 (IPv4 t) (\<lambda>k. m (False, k)) \<and> family_rel 16 (IPv6 t) (\<lambda>k. m (True, k)) \<and>
     lists_ok (nodes (IPv4 t) \<union> nodes (IPv6 t)) (trieEntries t)"

lemma table_rel_empty: "table_rel emptyAllowedIPs Map.empty"
  by (simp add: table_rel_def family_rel_def lists_ok_def emptyAllowedIPs_def)

lemma families_disjoint:
  assumes "table_rel t m" "(b, c, q) \<in> nodes (IPv4 t)"
  shows "(b, c', q') \<notin> nodes (IPv6 t)"
  using assms nodes_wf [of 4 "[]" "IPv4 t"] nodes_wf [of 16 "[]" "IPv6 t"]
  by (fastforce simp: table_rel_def family_rel_def)

lemma uint8_id: "0 \<le> i \<Longrightarrow> i \<le> 128 \<Longrightarrow> uint8 i = nat i"
  by (simp add: uint8_def)

lemma Insert_refines:
  assumes t: "table_rel t m" and v: "valid_prefix pfx"
  shows "\<exists>t'. AllowedIPs_Insert t pfx p = Some t' \<and> table_rel t' (m(pkey_of pfx \<mapsto> p))"
proof (cases pfx)
  case (Pair a n)
  show ?thesis
  proof (cases a)
    case Addr_invalid
    then show ?thesis using v Pair by (simp add: valid_prefix_def)
  next
    case (Addr4 ip)
    then have ip: "length ip = 4" "nat n \<le> 8 * length ip" "uint8 n = nat n"
      using v Pair by (auto simp: valid_prefix_def uint8_id)
    have f: "family_rel (length ip) (IPv4 t) (\<lambda>k. m (False, k))" using t ip by (simp add: table_rel_def)
    then have w: "wf_trie (length ip) [] (IPv4 t)" by (simp add: family_rel_def)
    let ?k = "(maskSelf (nat n) ip, nat n)"
    let ?t = "t\<lparr>IPv4 := ins (IPv4 t) ip (nat n) p,
      trieEntries := ins_pe (peer_at (IPv4 t) ip (nat n)) p ?k (trieEntries t)\<rparr>"
    have no6: "(fst ?k, snd ?k, q) \<notin> nodes (IPv6 t)" for q
      using t nodes_wf [of 16 "[]" "IPv6 t"] ip
      by (fastforce simp: table_rel_def family_rel_def length_maskSelf)
    have "lists_ok ({(b, c, q) \<in> nodes (IPv4 t) \<union> nodes (IPv6 t). (b, c) \<noteq> ?k} \<union> {(fst ?k, snd ?k, p)})
        (ins_pe (peer_at (IPv4 t) ip (nat n)) p ?k (trieEntries t))"
      using t no6 peer_at_nodes [OF _ ip(2) w] ip(1)
      by (intro lists_ok_ins) (auto simp: table_rel_def)
    moreover have "{(b, c, q) \<in> nodes (IPv4 t) \<union> nodes (IPv6 t). (b, c) \<noteq> ?k} \<union> {(fst ?k, snd ?k, p)}
        = nodes (IPv4 ?t) \<union> nodes (IPv6 ?t)"
      using no6 nodes_ins [OF _ ip(2) w, of p] ip(1) by auto
    ultimately have "table_rel ?t (m(pkey_of pfx \<mapsto> p))"
      using t family_insert [OF f _ ip(2), of p] ip Pair Addr4
      by (simp add: table_rel_def pkey_of_def fun_upd_def)
    then show ?thesis using trie_insert_ins [OF _ ip(2) w] ip Pair Addr4
      by (simp add: AllowedIPs_Insert_def)
  next
    case (Addr6 ip)
    then have ip: "length ip = 16" "nat n \<le> 8 * length ip" "uint8 n = nat n"
      using v Pair by (auto simp: valid_prefix_def uint8_id)
    have f: "family_rel (length ip) (IPv6 t) (\<lambda>k. m (True, k))" using t ip by (simp add: table_rel_def)
    then have w: "wf_trie (length ip) [] (IPv6 t)" by (simp add: family_rel_def)
    let ?k = "(maskSelf (nat n) ip, nat n)"
    let ?t = "t\<lparr>IPv6 := ins (IPv6 t) ip (nat n) p,
      trieEntries := ins_pe (peer_at (IPv6 t) ip (nat n)) p ?k (trieEntries t)\<rparr>"
    have no4: "(fst ?k, snd ?k, q) \<notin> nodes (IPv4 t)" for q
      using t nodes_wf [of 4 "[]" "IPv4 t"] ip
      by (fastforce simp: table_rel_def family_rel_def length_maskSelf)
    have "lists_ok ({(b, c, q) \<in> nodes (IPv4 t) \<union> nodes (IPv6 t). (b, c) \<noteq> ?k} \<union> {(fst ?k, snd ?k, p)})
        (ins_pe (peer_at (IPv6 t) ip (nat n)) p ?k (trieEntries t))"
      using t no4 peer_at_nodes [OF _ ip(2) w] ip(1)
      by (intro lists_ok_ins) (auto simp: table_rel_def)
    moreover have "{(b, c, q) \<in> nodes (IPv4 t) \<union> nodes (IPv6 t). (b, c) \<noteq> ?k} \<union> {(fst ?k, snd ?k, p)}
        = nodes (IPv4 ?t) \<union> nodes (IPv6 ?t)"
      using no4 nodes_ins [OF _ ip(2) w, of p] ip(1) by auto
    ultimately have "table_rel ?t (m(pkey_of pfx \<mapsto> p))"
      using t family_insert [OF f _ ip(2), of p] ip Pair Addr6
      by (simp add: table_rel_def pkey_of_def fun_upd_def)
    then show ?thesis using trie_insert_ins [OF _ ip(2) w] ip Pair Addr6
      by (simp add: AllowedIPs_Insert_def)
  qed
qed

text \<open>Removal of the entry in a slot, for either family.\<close>

lemma rm4_refines:
  assumes t: "table_rel t m" and g: "get (IPv4 t) at = Entry (Some p) c b l r"
  shows "table_rel (t\<lparr>IPv4 := rm (IPv4 t) at,
      trieEntries := removeFromPeerEntries (get (IPv4 t) at) (trieEntries t)\<rparr>)
    (m((False, take c (ipbits b)) := None))"
proof -
  have f: "family_rel 4 (IPv4 t) (\<lambda>k. m (False, k))" using t by (simp add: table_rel_def)
  then have w: "wf_trie 4 [] (IPv4 t)" by (simp add: family_rel_def)
  have bn: "(b, c, p) \<in> nodes (IPv4 t)" using get_nodes [OF g] .
  have "nodes (rm (IPv4 t) at) \<union> nodes (IPv6 t) = nodes (IPv4 t) \<union> nodes (IPv6 t) - {(b, c, p)}"
    using rm_correct [OF w g] families_disjoint [OF t bn] by auto
  moreover have "lists_ok (nodes (IPv4 t) \<union> nodes (IPv6 t) - {(b, c, p)})
      (removeFromPeerEntries (get (IPv4 t) at) (trieEntries t))"
    using lists_ok_rm [of "nodes (IPv4 t) \<union> nodes (IPv6 t)" "trieEntries t" b c p] t bn g
    by (simp add: table_rel_def removeFromPeerEntries_def)
  ultimately show ?thesis using family_rm [OF f _ g] t by (simp add: table_rel_def fun_upd_def)
qed

lemma rm6_refines:
  assumes t: "table_rel t m" and g: "get (IPv6 t) at = Entry (Some p) c b l r"
  shows "table_rel (t\<lparr>IPv6 := rm (IPv6 t) at,
      trieEntries := removeFromPeerEntries (get (IPv6 t) at) (trieEntries t)\<rparr>)
    (m((True, take c (ipbits b)) := None))"
proof -
  have f: "family_rel 16 (IPv6 t) (\<lambda>k. m (True, k))" using t by (simp add: table_rel_def)
  then have w: "wf_trie 16 [] (IPv6 t)" by (simp add: family_rel_def)
  have bn: "(b, c, p) \<in> nodes (IPv6 t)" using get_nodes [OF g] .
  have "nodes (IPv4 t) \<union> nodes (rm (IPv6 t) at) = nodes (IPv4 t) \<union> nodes (IPv6 t) - {(b, c, p)}"
    using rm_correct [OF w g] families_disjoint [OF t, of b c p c p] bn by auto
  moreover have "lists_ok (nodes (IPv4 t) \<union> nodes (IPv6 t) - {(b, c, p)})
      (removeFromPeerEntries (get (IPv6 t) at) (trieEntries t))"
    using lists_ok_rm [of "nodes (IPv4 t) \<union> nodes (IPv6 t)" "trieEntries t" b c p] t bn g
    by (simp add: table_rel_def removeFromPeerEntries_def)
  ultimately show ?thesis using family_rm [OF f _ g] t by (simp add: table_rel_def fun_upd_def)
qed

lemma family_at:
  assumes f: "family_rel (length ip) t f" and n: "length ip = 4 \<or> length ip = 16" "c \<le> 8 * length ip"
  shows "f (take c (ipbits ip)) = Some q \<longleftrightarrow> peer_at t ip c = Some q"
proof -
  have w: "wf_trie (length ip) [] t" using f by (simp add: family_rel_def)
  have "f (take c (ipbits ip)) = Some q \<longleftrightarrow> (maskSelf c ip, c, q) \<in> nodes t"
  proof
    assume "(maskSelf c ip, c, q) \<in> nodes t"
    moreover have "take c (ipbits (maskSelf c ip)) = take c (ipbits ip)" using n by (simp add: take_maskSelf)
    ultimately show "f (take c (ipbits ip)) = Some q" using f unfolding family_rel_def by blast
  qed (use f node_key [OF w _ n] in \<open>auto simp: family_rel_def\<close>)
  then show ?thesis using peer_at_nodes [OF n w] by simp
qed

lemma Remove_refines:
  assumes t: "table_rel t m" and v: "valid_prefix pfx"
  shows "\<exists>t'. AllowedIPs_Remove t pfx p = Some t' \<and>
    table_rel t' (if m (pkey_of pfx) = Some p then m(pkey_of pfx := None) else m)"
proof -
  show ?thesis
  proof (cases pfx)
    case (Pair a n)
    show ?thesis
    proof (cases a)
      case Addr_invalid
      then show ?thesis using v Pair by (simp add: valid_prefix_def)
    next
      case (Addr4 ip)
      then have ip: "length ip = 4" "nat n \<le> 8 * length ip" "uint8 n = nat n"
        using v Pair by (auto simp: valid_prefix_def uint8_id)
      have f: "family_rel (length ip) (IPv4 t) (\<lambda>k. m (False, k))" using t ip by (simp add: table_rel_def)
      then have w: "wf_trie (length ip) [] (IPv4 t)" by (simp add: family_rel_def)
      obtain at ex where np: "nodePlacement (IPv4 t) ip (nat n) = Some (at, ex)"
        using nodePlacement_total [OF _ ip(2) w] ip(1) by auto
      note pa = nodePlacement_peer_at [OF _ ip(2) w np]
      show ?thesis
      proof (cases "m (pkey_of pfx) = Some p")
        case True
        then have "peer_at (IPv4 t) ip (nat n) = Some p"
          using family_at [OF f _ ip(2), of p] ip Pair Addr4 by (simp add: pkey_of_def)
        then obtain at' l r where g: "ex" "at = Some at'"
            "get (IPv4 t) at' = Entry (Some p) (nat n) (maskSelf (nat n) ip) l r"
          using pa ip(1) by (auto split: if_splits)
        then show ?thesis using rm4_refines [OF t g(3)] np ip Pair Addr4 True
          by (simp add: AllowedIPs_Remove_def trie_remove_rm pkey_of_def take_maskSelf)
      next
        case False
        then have "peer_at (IPv4 t) ip (nat n) \<noteq> Some p"
          using family_at [OF f _ ip(2), of p] ip Pair Addr4 by (simp add: pkey_of_def)
        then have "AllowedIPs_Remove t pfx p = Some t" using pa np ip Pair Addr4
          by (auto simp: AllowedIPs_Remove_def split: if_splits option.splits)
        then show ?thesis using False t by simp
      qed
    next
      case (Addr6 ip)
      then have ip: "length ip = 16" "nat n \<le> 8 * length ip" "uint8 n = nat n"
        using v Pair by (auto simp: valid_prefix_def uint8_id)
      have f: "family_rel (length ip) (IPv6 t) (\<lambda>k. m (True, k))" using t ip by (simp add: table_rel_def)
      then have w: "wf_trie (length ip) [] (IPv6 t)" by (simp add: family_rel_def)
      obtain at ex where np: "nodePlacement (IPv6 t) ip (nat n) = Some (at, ex)"
        using nodePlacement_total [OF _ ip(2) w] ip(1) by auto
      note pa = nodePlacement_peer_at [OF _ ip(2) w np]
      show ?thesis
      proof (cases "m (pkey_of pfx) = Some p")
        case True
        then have "peer_at (IPv6 t) ip (nat n) = Some p"
          using family_at [OF f _ ip(2), of p] ip Pair Addr6 by (simp add: pkey_of_def)
        then obtain at' l r where g: "ex" "at = Some at'"
            "get (IPv6 t) at' = Entry (Some p) (nat n) (maskSelf (nat n) ip) l r"
          using pa ip(1) by (auto split: if_splits)
        then show ?thesis using rm6_refines [OF t g(3)] np ip Pair Addr6 True
          by (simp add: AllowedIPs_Remove_def trie_remove_rm pkey_of_def take_maskSelf)
      next
        case False
        then have "peer_at (IPv6 t) ip (nat n) \<noteq> Some p"
          using family_at [OF f _ ip(2), of p] ip Pair Addr6 by (simp add: pkey_of_def)
        then have "AllowedIPs_Remove t pfx p = Some t" using pa np ip Pair Addr6
          by (auto simp: AllowedIPs_Remove_def split: if_splits option.splits)
        then show ?thesis using False t by simp
      qed
    qed
  qed
qed

text \<open>One element of the loop of \<open>RemoveByPeer\<close>.\<close>

lemma remove_element_refines:
  assumes t: "table_rel t m" and k: "(b, c) \<in> set (trieEntries t p)"
  shows "\<exists>fam. m (fam, take c (ipbits b)) = Some p \<and>
    table_rel (remove_element (b, c) t) (m((fam, take c (ipbits b)) := None)) \<and>
    trieEntries (remove_element (b, c) t) = (trieEntries t)(p := remove1 (b, c) (trieEntries t p))"
proof -
  have w: "wf_trie 4 [] (IPv4 t)" "wf_trie 16 [] (IPv6 t)" using t by (auto simp: table_rel_def family_rel_def)
  have "(b, c, p) \<in> nodes (IPv4 t) \<or> (b, c, p) \<in> nodes (IPv6 t)"
    using t k by (auto simp: table_rel_def lists_ok_def)
  then show ?thesis
  proof
    assume n4: "(b, c, p) \<in> nodes (IPv4 t)"
    then obtain at l r where at: "locate (IPv4 t) (b, c) = Some at" "get (IPv4 t) at = Entry (Some p) c b l r"
      using locate_node [OF w(1)] by blast
    have "m (False, take c (ipbits b)) = Some p" using t n4 by (auto simp: table_rel_def family_rel_def)
    then show ?thesis using rm4_refines [OF t at(2)] at
      by (intro exI [of _ False])
        (simp add: remove_element_def trie_remove_rm removeFromPeerEntries_def split: option.splits)
  next
    assume n6: "(b, c, p) \<in> nodes (IPv6 t)"
    then obtain at l r where at: "locate (IPv6 t) (b, c) = Some at" "get (IPv6 t) at = Entry (Some p) c b l r"
      using locate_node [OF w(2)] by blast
    have "length b = 16" using nodes_wf [OF w(2) n6] by simp
    then have "locate (IPv4 t) (b, c) = None"
      using locate_get [of "IPv4 t" b c] get_wf [OF w(1)] by (cases "locate (IPv4 t) (b, c)") fastforce+
    moreover have "m (True, take c (ipbits b)) = Some p" using t n6 by (auto simp: table_rel_def family_rel_def)
    ultimately show ?thesis using rm6_refines [OF t at(2)] at
      by (intro exI [of _ True])
        (simp add: remove_element_def trie_remove_rm removeFromPeerEntries_def)
  qed
qed

lemma table_rel_mem:
  "table_rel t m \<Longrightarrow>
     (b, c) \<in> set (trieEntries t p) \<longleftrightarrow> (b, c, p) \<in> nodes (IPv4 t) \<or> (b, c, p) \<in> nodes (IPv6 t)"
  by (auto simp: table_rel_def lists_ok_def)

lemma RemoveByPeer_refines:
  assumes "table_rel t m"
  shows "table_rel (RemoveByPeer t p) (\<lambda>k. if m k = Some p then None else m k)"
proof -
  have "table_rel (fold remove_element xs t) (\<lambda>k. if m k = Some p then None else m k)"
    if "table_rel t m" "trieEntries t p = xs" for xs t m
    using that
  proof (induction xs arbitrary: t m)
    case Nil
    have "(b, c, p) \<notin> nodes (IPv4 t)" "(b, c, p) \<notin> nodes (IPv6 t)" for b c
      using table_rel_mem [OF Nil(1), of b c p] Nil(2) by auto
    then have "m (fam, k) \<noteq> Some p" for fam k
      using Nil by (cases fam) (auto simp: table_rel_def family_rel_def)
    then have "m k \<noteq> Some p" for k by (cases k) auto
    then have "(\<lambda>k. if m k = Some p then None else m k) = m" by auto
    then show ?case using Nil by simp
  next
    case (Cons k xs)
    obtain b c where k: "k = (b, c)" by (cases k)
    obtain fam where fam: "m (fam, take c (ipbits b)) = Some p"
        "table_rel (remove_element k t) (m((fam, take c (ipbits b)) := None))"
        "trieEntries (remove_element k t) p = xs"
      using remove_element_refines [OF Cons.prems(1), of b c p] Cons.prems k by auto
    have "(\<lambda>k. if m k = Some p then None else m k) =
      (\<lambda>k. if (m((fam, take c (ipbits b)) := None)) k = Some p then None
           else (m((fam, take c (ipbits b)) := None)) k)"
      using fam(1) by auto
    then show ?case using Cons.IH [OF fam(2,3)] by simp
  qed
  then show ?thesis using assms by (simp add: RemoveByPeer_def)
qed

lemma Lookup_refines:
  assumes "table_rel t m" "length ip = 4 \<or> length ip = 16"
  shows "AllowedIPs_Lookup t ip = Some (spec_lookup m ip)"
  using assms family_lookup [of ip "IPv4 t" "\<lambda>k. m (False, k)"] family_lookup [of ip "IPv6 t" "\<lambda>k. m (True, k)"]
  by (auto simp: AllowedIPs_Lookup_def spec_lookup_def table_rel_def)

subsection \<open>The contract\<close>

locale prefix_table =
  fixes rel :: "'t \<Rightarrow> (pkey \<rightharpoonup> 'p) \<Rightarrow> bool"
    and empty :: 't
    and op :: "'p table_op \<Rightarrow> 't \<Rightarrow> 't option"
    and lookup :: "'t \<Rightarrow> bytes \<Rightarrow> 'p option option"
  assumes empty_rel: "rel empty Map.empty"
    and op_rel: "rel t m \<Longrightarrow> op_valid a \<Longrightarrow> \<exists>t'. op a t = Some t' \<and> rel t' (spec_op a m)"
    and lookup_rel: "rel t m \<Longrightarrow> length ip = 4 \<or> length ip = 16 \<Longrightarrow> lookup t ip = Some (spec_lookup m ip)"
begin

lemma ops_rel:
  assumes "list_all op_valid as"
  shows "\<exists>t. fold (\<lambda>a s. Option.bind s (op a)) as (Some empty) = Some t \<and> rel t (fold spec_op as Map.empty)"
proof -
  have "\<exists>t'. fold (\<lambda>a s. Option.bind s (op a)) as (Some t) = Some t' \<and> rel t' (fold spec_op as m)"
    if "rel t m" for t m
    using that assms
  proof (induction as arbitrary: t m)
    case (Cons a as)
    then obtain t' where "op a t = Some t'" "rel t' (spec_op a m)" using op_rel by fastforce
    then show ?case using Cons by simp
  qed simp
  then show ?thesis using empty_rel by blast
qed

end

interpretation at: prefix_table table_rel emptyAllowedIPs table_op AllowedIPs_Lookup
proof unfold_locales
  fix t :: "'b AllowedIPs" and m and a :: "'b table_op"
  assume t: "table_rel t m" and v: "op_valid a"
  show "\<exists>t'. table_op a t = Some t' \<and> table_rel t' (spec_op a m)"
  proof (cases a)
    case (OpInsert pfx p)
    then show ?thesis using Insert_refines [OF t, of pfx p] v
      by (simp add: op_valid_def table_op_def spec_op_def)
  next
    case (OpRemove pfx p)
    then show ?thesis using Remove_refines [OF t, of pfx p] v
      by (simp add: op_valid_def table_op_def spec_op_def)
  next
    case (OpRemoveByPeer p)
    then show ?thesis using RemoveByPeer_refines [OF t, of p] by (simp add: table_op_def spec_op_def)
  qed
qed (auto simp: table_rel_empty Lookup_refines)

lemma table_ops_fold: "table_ops as t = fold (\<lambda>a s. Option.bind s (table_op a)) as (Some t)"
proof -
  have none: "fold (\<lambda>a s. Option.bind s (table_op a)) as None = None" for as :: "'a table_op list"
    by (induction as) auto
  show ?thesis by (induction as arbitrary: t) (auto simp: none split: Option.bind_splits)
qed

text \<open>
  C8. Cryptokey routing is longest-prefix match: whatever sequence of \<open>Insert\<close>, \<open>Remove\<close> and
  \<open>RemoveByPeer\<close> is applied to an empty table with valid prefixes, no step panics, and \<open>Lookup\<close>
  of any IPv4 or IPv6 address then gives the peer at the longest prefix of the address in the
  map that the same sequence builds (an insert overwrites, a remove deletes only an entry of
  its own peer, a removal by peer deletes exactly that peer's entries), or no peer if none.
\<close>

theorem allowedips_longest_prefix:
  assumes "list_all op_valid as" "length ip = 4 \<or> length ip = 16"
  shows "\<exists>t. table_ops as emptyAllowedIPs = Some t \<and>
    AllowedIPs_Lookup t ip = Some (spec_lookup (fold spec_op as Map.empty) ip)"
  using at.ops_rel [OF assms(1)] at.lookup_rel assms(2) by (metis table_ops_fold)

theorem allowedips_longest_prefix_witness:
  "\<exists>t. table_ops [OpInsert (Addr4 [10, 0, 0, 0], 8) 1, OpInsert (Addr4 [10, 1, 2, 0], 24) 2,
       OpInsert (Addr4 [10, 1, 0, 0], 16) (3::nat), OpRemove (Addr4 [10, 1, 2, 77], 24) 2]
      emptyAllowedIPs = Some t \<and>
    AllowedIPs_Lookup t [10, 1, 2, 3] = Some (Some 3)"
proof -
  have v: "list_all op_valid [OpInsert (Addr4 [10, 0, 0, 0], 8) 1, OpInsert (Addr4 [10, 1, 2, 0], 24) 2,
       OpInsert (Addr4 [10, 1, 0, 0], 16) (3::nat), OpRemove (Addr4 [10, 1, 2, 77], 24) 2]"
    by (simp add: op_valid_def valid_prefix_def)
  have len: "length [10, 1, 2, 3 :: byte] = 4 \<or> length [10, 1, 2, 3 :: byte] = 16" by simp
  have "spec_lookup (fold spec_op [OpInsert (Addr4 [10, 0, 0, 0], 8) 1, OpInsert (Addr4 [10, 1, 2, 0], 24) 2,
       OpInsert (Addr4 [10, 1, 0, 0], 16) (3::nat), OpRemove (Addr4 [10, 1, 2, 77], 24) 2] Map.empty)
      [10, 1, 2, 3] = Some 3"
    by code_simp
  then show ?thesis using allowedips_longest_prefix [OF v len] by metis
qed

lemma pkey_of_entry:
  "length b = 4 \<Longrightarrow> pkey_of (AddrFromSlice b, int c) = (False, take c (ipbits b))"
  "length b = 16 \<Longrightarrow> pkey_of (AddrFromSlice b, int c) = (True, take c (ipbits b))"
  by (simp_all add: pkey_of_def AddrFromSlice_def)

lemma table_rel_entries:
  assumes t: "table_rel t m"
  shows "distinct (EntriesForPeer t p) \<and> set (map pkey_of (EntriesForPeer t p)) = {k. m k = Some p}"
proof -
  have w: "wf_trie 4 [] (IPv4 t)" "wf_trie 16 [] (IPv6 t)" using t by (auto simp: table_rel_def family_rel_def)
  note mem = table_rel_mem [OF t]
  have len: "(b, c, p) \<in> nodes (IPv4 t) \<Longrightarrow> length b = 4" "(b, c, p) \<in> nodes (IPv6 t) \<Longrightarrow> length b = 16" for b c
    using nodes_wf [OF w(1)] nodes_wf [OF w(2)] by blast+
  have inj: "inj_on (\<lambda>(bits, cidr). (AddrFromSlice bits, int cidr)) (set (trieEntries t p))"
    using mem len by (auto simp: inj_on_def AddrFromSlice_def split: if_splits)
  have "distinct (trieEntries t p)" using t by (auto simp: table_rel_def lists_ok_def)
  then have d: "distinct (EntriesForPeer t p)" using inj by (simp add: EntriesForPeer_def distinct_map)
  have "k \<in> set (map pkey_of (EntriesForPeer t p)) \<longleftrightarrow> m k = Some p" for k
  proof (cases k)
    case (Pair fam key)
    have "k \<in> set (map pkey_of (EntriesForPeer t p)) \<longleftrightarrow>
        (\<exists>b c. (b, c) \<in> set (trieEntries t p) \<and> k = pkey_of (AddrFromSlice b, int c))"
      by (force simp: EntriesForPeer_def)
    also have "\<dots> \<longleftrightarrow> (\<exists>b c. (b, c, p) \<in> nodes (IPv4 t) \<and> k = (False, take c (ipbits b))) \<or>
        (\<exists>b c. (b, c, p) \<in> nodes (IPv6 t) \<and> k = (True, take c (ipbits b)))"
      using mem len pkey_of_entry by metis
    also have "\<dots> \<longleftrightarrow> m k = Some p"
      using t Pair by (cases fam) (auto simp: table_rel_def family_rel_def)
    finally show ?thesis .
  qed
  then show ?thesis using d by blast
qed



text \<open>
  \<open>commonBits\<close>, computed with XOR and leading-zero counts on machine words, is the length of
  the longest common prefix of the two addresses' bit strings, for IPv4 and for IPv6; on any
  other size it panics.
\<close>

theorem commonBits_correct:
  "(length a = 4 \<and> length b = 4 \<or> length a = 16 \<and> length b = 16 \<longrightarrow>
      commonBits a b = Some (lcp (ipbits a) (ipbits b))) \<and>
   (length a \<noteq> 4 \<and> length a \<noteq> 16 \<longrightarrow> commonBits a b = None)"
proof (intro conjI impI)
  assume "length a = 4 \<and> length b = 4 \<or> length a = 16 \<and> length b = 16"
  then show "commonBits a b = Some (lcp (ipbits a) (ipbits b))" using commonBits_lcp by auto
qed (simp add: commonBits_def)

theorem commonBits_correct_witness:
  "commonBits [10, 0, 0, 1] [10, 128, 0, 1] = Some 8"
proof -
  have "lcp (ipbits [10, 0, 0, 1]) (ipbits [10, 128, 0, 1]) = 8" by code_simp
  then show ?thesis using commonBits_correct [of "[10, 0, 0, 1]" "[10, 128, 0, 1]"] by simp
qed

end
