(* ===== verification/Device_State.thy ===== *)
theory Device_State
  imports Replay Ratelimiter Tai64n Index_Table Cookie Allowed_Table
begin

text \<open>
  The state of a device: the structs of device/device.go, device/peer.go, device/keypair.go,
  device/timers.go, device/channels.go and the queue elements of device/send.go and
  device/receive.go.  Pointers are identities: a peer and a keypair are natural numbers that name
  entries of the device's stores, so that a keypair shared by a peer's \<open>keypairs\<close>, by the index table
  and by queued elements is one mutable object, as in the code; a \<open>*Handshake\<close> points into its
  peer, so it is the peer's identity.  Mutexes, wait groups, the logger and the buffer pools
  carry no state that an operation returns and are left out.

  Every operation takes the values it reads from outside as an \<open>env\<close>: the clock, the random draws,
  the timer jitter and the results of the bind and of the TUN device.
\<close>

subsection \<open>Constants of queueconstants_default.go, ip.go and tun.go\<close>

definition QueueStagedSize :: nat where
  "QueueStagedSize = 128"

definition QueueOutboundSize :: nat where
  "QueueOutboundSize = 1024"

definition QueueInboundSize :: nat where
  "QueueInboundSize = 1024"

definition QueueHandshakeSize :: nat where
  "QueueHandshakeSize = 1024"

definition MaxSegmentSize :: nat where
  "MaxSegmentSize = 2 ^ 16 - 1"

definition MinMessageSize :: nat where
  "MinMessageSize = MessageKeepaliveSize"

definition MaxMessageSize :: nat where
  "MaxMessageSize = MaxSegmentSize"

definition MaxContentSize :: nat where
  "MaxContentSize = MaxSegmentSize - MessageTransportSize"

definition IPv4offsetTotalLength :: nat where
  "IPv4offsetTotalLength = 2"

definition IPv4offsetSrc :: nat where
  "IPv4offsetSrc = 12"

definition IPv4offsetDst :: nat where
  "IPv4offsetDst = IPv4offsetSrc + 4"

definition IPv6offsetPayloadLength :: nat where
  "IPv6offsetPayloadLength = 4"

definition IPv6offsetSrc :: nat where
  "IPv6offsetSrc = 8"

definition IPv6offsetDst :: nat where
  "IPv6offsetDst = IPv6offsetSrc + 16"

definition DefaultMTU :: int where
  "DefaultMTU = 1420"

lemmas ip_offsets = IPv4offsetTotalLength_def IPv4offsetSrc_def IPv4offsetDst_def
  IPv6offsetPayloadLength_def IPv6offsetSrc_def IPv6offsetDst_def

subsection \<open>Handshakes and keypairs\<close>

datatype handshakeState =
    handshakeZeroed
  | handshakeInitiationCreated
  | handshakeInitiationConsumed
  | handshakeResponseCreated
  | handshakeResponseConsumed

record Handshake =
  hs_state :: handshakeState
  hs_hash :: bytes
  hs_chainKey :: bytes
  hs_presharedKey :: NoisePresharedKey
  hs_localEphemeral :: NoisePrivateKey
  hs_localIndex :: u32
  hs_remoteIndex :: u32
  hs_remoteStatic :: NoisePublicKey
  hs_remoteEphemeral :: NoisePublicKey
  hs_precomputedStaticStatic :: bytes
  hs_lastTimestamp :: Timestamp
  hs_lastInitiationConsumption :: instant
  hs_lastSentHandshake :: instant

definition zeroHandshake :: Handshake where
  "zeroHandshake = \<lparr>hs_state = handshakeZeroed, hs_hash = replicate 32 0, hs_chainKey = replicate 32 0,
     hs_presharedKey = replicate 32 0, hs_localEphemeral = replicate 32 0, hs_localIndex = 0,
     hs_remoteIndex = 0, hs_remoteStatic = replicate 32 0, hs_remoteEphemeral = replicate 32 0,
     hs_precomputedStaticStatic = replicate 32 0, hs_lastTimestamp = replicate 12 0,
     hs_lastInitiationConsumption = 0, hs_lastSentHandshake = 0\<rparr>"

type_synonym peer_id = nat
type_synonym keypair_id = nat

text \<open>\<open>send\<close> and \<open>receive\<close> are ChaCha20-Poly1305 instances: their keys.\<close>

record Keypair =
  kp_sendNonce :: u64
  kp_send :: bytes
  kp_receive :: bytes
  kp_replayFilter :: Filter
  kp_isInitiator :: bool
  kp_created :: instant
  kp_localIndex :: u32
  kp_remoteIndex :: u32

record Keypairs =
  current :: "keypair_id option"
  previous :: "keypair_id option"
  next_kp :: "keypair_id option"

subsection \<open>Endpoints and timers\<close>

text \<open>\<open>conn.StdNetEndpoint\<close>: the destination (\<open>netip.AddrPort\<close>, with the zone of an IPv6 address) and
  the cached source.\<close>

record Endpoint =
  ep_addr :: addr
  ep_zone :: string
  ep_port :: u16
  ep_src :: bytes

definition ClearSrc :: "Endpoint \<Rightarrow> Endpoint" where
  "ClearSrc e = e\<lparr>ep_src := []\<rparr>"

definition DstIP :: "Endpoint \<Rightarrow> addr \<times> string" where
  "DstIP e = (ep_addr e, ep_zone e)"

text \<open>\<open>netip.AddrPort.MarshalBinary\<close>: the address, its zone, then the port in little-endian order.\<close>

definition DstToBytes :: "Endpoint \<Rightarrow> bytes" where
  "DstToBytes e =
     (case ep_addr e of Addr4 b \<Rightarrow> b | Addr6 b \<Rightarrow> b | Addr_invalid \<Rightarrow> []) @ ascii (ep_zone e) @ le_bytes 2 (unat (ep_port e))"

text \<open>A timer of device/timers.go, with the instant at which its \<open>time.Timer\<close> fires.\<close>

record Timer =
  isPending :: bool
  deadline :: instant

definition NewTimer :: Timer where
  "NewTimer = \<lparr>isPending = False, deadline = 0\<rparr>"

subsection \<open>Queue elements\<close>

record OutElem =
  oe_packet :: bytes
  oe_nonce :: u64
  oe_keypair :: "keypair_id option"
  oe_peer :: "peer_id option"

text \<open>\<open>ie_packet\<close> is \<open>None\<close> after a failed decryption (the nil slice).\<close>

record InElem =
  ie_packet :: "bytes option"
  ie_counter :: u64
  ie_keypair :: keypair_id
  ie_endpoint :: Endpoint

text \<open>\<open>QueueOutboundElementsContainer\<close> and \<open>QueueInboundElementsContainer\<close>: the same container is in a
  peer's sequential queue and in the device's parallel queue, locked until a worker is done with it.\<close>

record OutCont =
  oc_elems :: "OutElem list"
  oc_locked :: bool

record InCont =
  ic_elems :: "InElem list"
  ic_locked :: bool

type_synonym container_id = nat

record HandshakeElem =
  he_msgType :: u32
  he_packet :: bytes
  he_endpoint :: Endpoint

subsection \<open>Peers\<close>

record Peer =
  isRunning :: bool
  keypairs :: Keypairs
  handshake :: Handshake
  txBytes :: u64
  rxBytes :: u64
  lastHandshakeNano :: int
  endpoint_val :: "Endpoint option"
  clearSrcOnTx :: bool
  disableRoaming :: bool
  retransmitHandshake :: Timer
  sendKeepalive :: Timer
  newHandshake :: Timer
  zeroKeyMaterial :: Timer
  persistentKeepalive :: Timer
  handshakeAttempts :: u32
  needAnotherKeepalive :: bool
  sentLastMinuteHandshake :: bool
  staged :: "OutElem list list"
  outbound :: "container_id list"
  inbound :: "container_id list"
  cookieGenerator :: CookieGenerator
  persistentKeepaliveInterval :: u32

definition zeroPeer :: Peer where
  "zeroPeer = \<lparr>isRunning = False, keypairs = \<lparr>current = None, previous = None, next_kp = None\<rparr>,
     handshake = zeroHandshake, txBytes = 0, rxBytes = 0, lastHandshakeNano = 0,
     endpoint_val = None, clearSrcOnTx = False, disableRoaming = False,
     retransmitHandshake = NewTimer, sendKeepalive = NewTimer, newHandshake = NewTimer,
     zeroKeyMaterial = NewTimer, persistentKeepalive = NewTimer, handshakeAttempts = 0,
     needAnotherKeepalive = False, sentLastMinuteHandshake = False, staged = [], outbound = [],
     inbound = [], cookieGenerator = zeroCookieGenerator, persistentKeepaliveInterval = 0\<rparr>"

subsection \<open>The device\<close>

datatype deviceState = deviceStateDown | deviceStateUp | deviceStateClosed

text \<open>\<open>sent\<close> and \<open>written\<close> are ghosts: the datagrams handed to the bind and the packets handed to the
  TUN device, in order.  \<open>bind_open\<close> says whether the bind has open sockets.\<close>

record Device =
  dstate :: deviceState
  bind_open :: bool
  net_port :: u16
  fwmark :: u32
  brokenRoaming :: bool
  privateKey :: NoisePrivateKey
  public_key :: NoisePublicKey
  keyMap :: "(NoisePublicKey \<times> peer_id) list"
  peer_store :: "peer_id \<Rightarrow> Peer"
  next_peer :: peer_id
  keypair_store :: "keypair_id \<Rightarrow> Keypair"
  next_keypair :: keypair_id
  underLoadUntil :: int
  limiter :: "(addr \<times> string) Ratelimiter"
  allowedips :: "peer_id AllowedIPs"
  indexTable :: "(peer_id, peer_id, keypair_id) IndexTable"
  cookieChecker :: CookieChecker
  encryption_q :: "container_id list"
  decryption_q :: "container_id list"
  out_cont :: "container_id \<Rightarrow> OutCont"
  in_cont :: "container_id \<Rightarrow> InCont"
  next_cont :: container_id
  handshake_q :: "HandshakeElem list"
  mtu :: int
  sent :: "(bytes \<times> Endpoint) list"
  written :: "bytes list"

record env =
  now :: instant
  ephemeral :: rand
  index_draws :: "rand list"
  cookie_secret :: rand
  cookie_nonce :: rand
  jitter :: u32
  send_err :: bool

definition zeroDevice :: Device where
  "zeroDevice = \<lparr>dstate = deviceStateDown, bind_open = False, net_port = 0, fwmark = 0,
     brokenRoaming = False, privateKey = replicate 32 0, public_key = replicate 32 0, keyMap = [],
     peer_store = (\<lambda>p. zeroPeer), next_peer = 0,
     keypair_store = (\<lambda>k. \<lparr>kp_sendNonce = 0, kp_send = [], kp_receive = [], kp_replayFilter = emptyFilter,
       kp_isInitiator = False, kp_created = 0, kp_localIndex = 0, kp_remoteIndex = 0\<rparr>),
     next_keypair = 0, underLoadUntil = 0, limiter = zeroRatelimiter, allowedips = emptyAllowedIPs,
     indexTable = Map.empty, cookieChecker = zeroCookieChecker, encryption_q = [], decryption_q = [],
     out_cont = (\<lambda>_. \<lparr>oc_elems = [], oc_locked = False\<rparr>),
     in_cont = (\<lambda>_. \<lparr>ic_elems = [], ic_locked = False\<rparr>), next_cont = 0,
     handshake_q = [], mtu = 0, sent = [], written = []\<rparr>"

definition upd_peer :: "peer_id \<Rightarrow> (Peer \<Rightarrow> Peer) \<Rightarrow> Device \<Rightarrow> Device" where
  "upd_peer p f d = d\<lparr>peer_store := (peer_store d)(p := f (peer_store d p))\<rparr>"

definition upd_handshake :: "peer_id \<Rightarrow> (Handshake \<Rightarrow> Handshake) \<Rightarrow> Device \<Rightarrow> Device" where
  "upd_handshake p f d = upd_peer p (\<lambda>pr. pr\<lparr>handshake := f (handshake pr)\<rparr>) d"

definition upd_keypair :: "keypair_id \<Rightarrow> (Keypair \<Rightarrow> Keypair) \<Rightarrow> Device \<Rightarrow> Device" where
  "upd_keypair k f d = d\<lparr>keypair_store := (keypair_store d)(k := f (keypair_store d k))\<rparr>"

definition hs_of :: "Device \<Rightarrow> peer_id \<Rightarrow> Handshake" where
  "hs_of d p = handshake (peer_store d p)"

definition isClosed :: "Device \<Rightarrow> bool" where
  "isClosed d \<longleftrightarrow> dstate d = deviceStateClosed"

definition isUp :: "Device \<Rightarrow> bool" where
  "isUp d \<longleftrightarrow> dstate d = deviceStateUp"

definition LookupPeer :: "Device \<Rightarrow> NoisePublicKey \<Rightarrow> peer_id option" where
  "LookupPeer d pk = map_of (keyMap d) pk"

text \<open>\<open>NewIndexForHandshake\<close> on the device's table: the draws of the environment, the read after the
  last of them failing.\<close>

definition newIndex :: "env \<Rightarrow> Device \<Rightarrow> peer_id \<Rightarrow> u32 \<times> bool \<times> Device" where
  "newIndex e d p =
     (case NewIndexForHandshake (indexTable d) p p (map alone (index_draws e @ [([0, 0, 0, 0], True)])) of
        Some (i, err, t) \<Rightarrow> (i, err, d\<lparr>indexTable := t\<rparr>)
      | None \<Rightarrow> (0, True, d))"

definition deleteIndex :: "u32 \<Rightarrow> Device \<Rightarrow> Device" where
  "deleteIndex i d = d\<lparr>indexTable := it_Delete (indexTable d) i\<rparr>"

definition DeleteKeypair :: "keypair_id option \<Rightarrow> Device \<Rightarrow> Device" where
  "DeleteKeypair key d = (case key of
       None \<Rightarrow> d
     | Some k \<Rightarrow> deleteIndex (kp_localIndex (keypair_store d k)) d)"

named_theorems upd_simps \<open>reading a component of an updated device\<close>

lemma peer_upd [upd_simps]:
  "peer_store (upd_peer p f d) = (peer_store d)(p := f (peer_store d p))"
  "hs_of (upd_peer p f d) q = (if q = p then handshake (f (peer_store d p)) else hs_of d q)"
  by (simp_all add: upd_peer_def hs_of_def)

lemma hs_upd [upd_simps]:
  "hs_of (upd_handshake p f d) q = (if q = p then f (hs_of d p) else hs_of d q)"
  by (simp add: upd_handshake_def upd_simps hs_of_def)

lemma other_upd [upd_simps]:
  "dstate (upd_peer p f d) = dstate d" "dstate (upd_handshake p g d) = dstate d"
  "bind_open (upd_peer p f d) = bind_open d" "bind_open (upd_handshake p g d) = bind_open d"
  "net_port (upd_peer p f d) = net_port d" "net_port (upd_handshake p g d) = net_port d"
  "fwmark (upd_peer p f d) = fwmark d" "fwmark (upd_handshake p g d) = fwmark d"
  "brokenRoaming (upd_peer p f d) = brokenRoaming d" "brokenRoaming (upd_handshake p g d) = brokenRoaming d"
  "privateKey (upd_peer p f d) = privateKey d" "privateKey (upd_handshake p g d) = privateKey d"
  "public_key (upd_peer p f d) = public_key d" "public_key (upd_handshake p g d) = public_key d"
  "keyMap (upd_peer p f d) = keyMap d" "keyMap (upd_handshake p g d) = keyMap d"
  "next_peer (upd_peer p f d) = next_peer d" "next_peer (upd_handshake p g d) = next_peer d"
  "keypair_store (upd_peer p f d) = keypair_store d" "keypair_store (upd_handshake p g d) = keypair_store d"
  "next_keypair (upd_peer p f d) = next_keypair d" "next_keypair (upd_handshake p g d) = next_keypair d"
  "underLoadUntil (upd_peer p f d) = underLoadUntil d" "underLoadUntil (upd_handshake p g d) = underLoadUntil d"
  "limiter (upd_peer p f d) = limiter d" "limiter (upd_handshake p g d) = limiter d"
  "allowedips (upd_peer p f d) = allowedips d" "allowedips (upd_handshake p g d) = allowedips d"
  "indexTable (upd_peer p f d) = indexTable d" "indexTable (upd_handshake p g d) = indexTable d"
  "cookieChecker (upd_peer p f d) = cookieChecker d" "cookieChecker (upd_handshake p g d) = cookieChecker d"
  "encryption_q (upd_peer p f d) = encryption_q d" "encryption_q (upd_handshake p g d) = encryption_q d"
  "decryption_q (upd_peer p f d) = decryption_q d" "decryption_q (upd_handshake p g d) = decryption_q d"
  "out_cont (upd_peer p f d) = out_cont d" "out_cont (upd_handshake p g d) = out_cont d"
  "in_cont (upd_peer p f d) = in_cont d" "in_cont (upd_handshake p g d) = in_cont d"
  "next_cont (upd_peer p f d) = next_cont d" "next_cont (upd_handshake p g d) = next_cont d"
  "handshake_q (upd_peer p f d) = handshake_q d" "handshake_q (upd_handshake p g d) = handshake_q d"
  "mtu (upd_peer p f d) = mtu d" "mtu (upd_handshake p g d) = mtu d"
  "sent (upd_peer p f d) = sent d" "sent (upd_handshake p g d) = sent d"
  "written (upd_peer p f d) = written d" "written (upd_handshake p g d) = written d"
  by (simp_all add: upd_peer_def upd_handshake_def)

lemma kp_upd [upd_simps]:
  "keypair_store (upd_keypair k f d) = (keypair_store d)(k := f (keypair_store d k))"
  "dstate (upd_keypair k f d) = dstate d"
  "bind_open (upd_keypair k f d) = bind_open d"
  "net_port (upd_keypair k f d) = net_port d"
  "fwmark (upd_keypair k f d) = fwmark d"
  "brokenRoaming (upd_keypair k f d) = brokenRoaming d"
  "privateKey (upd_keypair k f d) = privateKey d"
  "public_key (upd_keypair k f d) = public_key d"
  "keyMap (upd_keypair k f d) = keyMap d"
  "next_peer (upd_keypair k f d) = next_peer d"
  "next_keypair (upd_keypair k f d) = next_keypair d"
  "underLoadUntil (upd_keypair k f d) = underLoadUntil d"
  "limiter (upd_keypair k f d) = limiter d"
  "allowedips (upd_keypair k f d) = allowedips d"
  "indexTable (upd_keypair k f d) = indexTable d"
  "cookieChecker (upd_keypair k f d) = cookieChecker d"
  "encryption_q (upd_keypair k f d) = encryption_q d"
  "decryption_q (upd_keypair k f d) = decryption_q d"
  "out_cont (upd_keypair k f d) = out_cont d"
  "in_cont (upd_keypair k f d) = in_cont d"
  "next_cont (upd_keypair k f d) = next_cont d"
  "handshake_q (upd_keypair k f d) = handshake_q d"
  "mtu (upd_keypair k f d) = mtu d"
  "sent (upd_keypair k f d) = sent d"
  "written (upd_keypair k f d) = written d"
  "peer_store (upd_keypair k f d) = peer_store d"
  by (simp_all add: upd_keypair_def)

lemma newIndex_cases:
  obtains (fail) i where "newIndex e d p = (i, True, d)"
  | (ok) i where "newIndex e d p = (i, False, d\<lparr>indexTable := (indexTable d)(i \<mapsto>
      \<lparr>ite_peer = Some p, ite_handshake = Some p, ite_keypair = None\<rparr>)\<rparr>)" "indexTable d i = None"
proof -
  have *: "(\<exists>i. NewIndexForHandshake t q r (map alone rs) = Some (i, True, t)) \<or>
      (\<exists>i. t i = None \<and> NewIndexForHandshake t q r (map alone rs) = Some (i, False, t(i \<mapsto>
        \<lparr>ite_peer = Some q, ite_handshake = Some r, ite_keypair = None\<rparr>))) \<or>
      NewIndexForHandshake t q r (map alone rs) = None"
    for t :: "(peer_id, peer_id, keypair_id) IndexTable" and q r rs
    by (induction rs) (auto simp: alone_def randUint32_def Let_def)
  let ?r = "NewIndexForHandshake (indexTable d) p p (map alone (index_draws e @ [([0, 0, 0, 0], True)]))"
  from * [of "indexTable d" p p "index_draws e @ [([0, 0, 0, 0], True)]"] show ?thesis
  proof (elim disjE exE conjE)
    fix i assume "?r = Some (i, True, indexTable d)"
    then have "newIndex e d p = (i, True, d)" by (simp only: newIndex_def option.case prod.case) simp
    then show ?thesis by (rule fail)
  next
    assume "?r = None"
    then have "newIndex e d p = (0, True, d)" by (simp only: newIndex_def option.case)
    then show ?thesis by (rule fail)
  next
    fix i assume "indexTable d i = None" "?r = Some (i, False, (indexTable d)(i \<mapsto>
        \<lparr>ite_peer = Some p, ite_handshake = Some p, ite_keypair = None\<rparr>))"
    then show ?thesis by (intro ok [of i]) (simp_all only: newIndex_def option.case prod.case)
  qed
qed

end
