(* ===== verification/Noise_Protocol.thy ===== *)
theory Noise_Protocol
  imports Device_State
begin

text \<open>
  The handshake of device/noise-protocol.go on the device state: the four message functions, the
  derivation of a session, and the rotation of keypairs.  Each function is given whole, with the
  handshake state it leaves behind on every error path.
\<close>

datatype noise_error = errRand | errInvalidPublicKey | errInvalidState

definition NoiseConstruction :: bytes where
  "NoiseConstruction = ascii ''Noise_IKpsk2_25519_ChaChaPoly_BLAKE2s''"

definition WGIdentifier :: bytes where
  "WGIdentifier = ascii ''WireGuard v1 zx2c4 Jason@zx2c4.com''"

definition ZeroNonce :: bytes where
  "ZeroNonce = replicate 12 0"

definition mixKey :: "crypto \<Rightarrow> bytes \<Rightarrow> bytes \<Rightarrow> bytes" where
  "mixKey C c data = KDF1 C c data"

definition mixHash :: "crypto \<Rightarrow> bytes \<Rightarrow> bytes \<Rightarrow> bytes" where
  "mixHash C h data = blake2s_Sum256 C (h @ data)"

definition InitialChainKey :: "crypto \<Rightarrow> bytes" where
  "InitialChainKey C = blake2s_Sum256 C NoiseConstruction"

definition InitialHash :: "crypto \<Rightarrow> bytes" where
  "InitialHash C = mixHash C (InitialChainKey C) WGIdentifier"

definition hs_mixHash :: "crypto \<Rightarrow> bytes \<Rightarrow> Handshake \<Rightarrow> Handshake" where
  "hs_mixHash C data h = h\<lparr>hs_hash := mixHash C (hs_hash h) data\<rparr>"

definition hs_mixKey :: "crypto \<Rightarrow> bytes \<Rightarrow> Handshake \<Rightarrow> Handshake" where
  "hs_mixKey C data h = h\<lparr>hs_chainKey := mixKey C (hs_chainKey h) data\<rparr>"

definition hs_Clear :: "Handshake \<Rightarrow> Handshake" where
  "hs_Clear h = h\<lparr>
     hs_localEphemeral := setZero (hs_localEphemeral h),
     hs_remoteEphemeral := setZero (hs_remoteEphemeral h),
     hs_chainKey := setZero (hs_chainKey h),
     hs_hash := setZero (hs_hash h),
     hs_localIndex := 0,
     hs_state := handshakeZeroed\<rparr>"

subsection \<open>The initiator's first message\<close>

definition CreateMessageInitiation ::
  "crypto \<Rightarrow> env \<Rightarrow> Device \<Rightarrow> peer_id \<Rightarrow> Device \<times> (noise_error + MessageInitiation)" where
  "CreateMessageInitiation C e d peer =
     (let put = (\<lambda>h. upd_handshake peer (\<lambda>_. h) d);
          (ephem, err) = newPrivateKey (ephemeral e);
          h = (hs_of d peer)\<lparr>hs_hash := InitialHash C, hs_chainKey := InitialChainKey C,
                hs_localEphemeral := ephem\<rparr>
      in if err then (put h, Inl errRand)
         else
           let h = hs_mixHash C (hs_remoteStatic h) h;
               Ephemeral = publicKey C (hs_localEphemeral h);
               h = hs_mixHash C Ephemeral (hs_mixKey C Ephemeral h);
               (ss, err) = sharedSecret C (hs_localEphemeral h) (hs_remoteStatic h)
           in if err then (put h, Inl errInvalidPublicKey)
              else
                let (ck, key) = KDF2 C (hs_chainKey h) ss;
                    h = h\<lparr>hs_chainKey := ck\<rparr>;
                    Static = chapoly_Seal C key ZeroNonce (public_key d) (hs_hash h);
                    h = hs_mixHash C Static h
                in if isZero (hs_precomputedStaticStatic h) then (put h, Inl errInvalidPublicKey)
                   else
                     let (ck, key) = KDF2 C (hs_chainKey h) (hs_precomputedStaticStatic h);
                         h = h\<lparr>hs_chainKey := ck\<rparr>;
                         timestamp = stamp (now e);
                         Tstamp = chapoly_Seal C key ZeroNonce timestamp (hs_hash h);
                         (index, err, d') = newIndex e (deleteIndex (hs_localIndex h) (put h)) peer
                     in if err then (d', Inl errRand)
                        else
                          let h = hs_mixHash C Tstamp (h\<lparr>hs_localIndex := index\<rparr>);
                              h = h\<lparr>hs_state := handshakeInitiationCreated\<rparr>
                          in (upd_handshake peer (\<lambda>_. h) d',
                              Inr \<lparr>mi_Type = MessageInitiationType, mi_Sender = index,
                                mi_Ephemeral = Ephemeral, mi_Static = Static, mi_Timestamp = Tstamp,
                                mi_MAC1 = replicate 16 0, mi_MAC2 = replicate 16 0\<rparr>))"

subsection \<open>The responder\<close>

definition ConsumeMessageInitiation ::
  "crypto \<Rightarrow> env \<Rightarrow> Device \<Rightarrow> MessageInitiation \<Rightarrow> Device \<times> peer_id option" where
  "ConsumeMessageInitiation C e d msg =
     (if mi_Type msg \<noteq> MessageInitiationType then (d, None)
      else
        let hash = mixHash C (InitialHash C) (public_key d);
            hash = mixHash C hash (mi_Ephemeral msg);
            chainKey = mixKey C (InitialChainKey C) (mi_Ephemeral msg);
            (ss, err) = sharedSecret C (privateKey d) (mi_Ephemeral msg)
        in if err then (d, None)
           else
             let (chainKey, key) = KDF2 C chainKey ss
             in case chapoly_Open C key ZeroNonce (mi_Static msg) hash of
                  None \<Rightarrow> (d, None)
                | Some peerPK \<Rightarrow>
                    let hash = mixHash C hash (mi_Static msg)
                    in case LookupPeer d peerPK of
                         None \<Rightarrow> (d, None)
                       | Some peer \<Rightarrow>
                           if \<not> isRunning (peer_store d peer) then (d, None)
                           else
                             let h = hs_of d peer
                             in if isZero (hs_precomputedStaticStatic h) then (d, None)
                                else
                                  let (chainKey, key) = KDF2 C chainKey (hs_precomputedStaticStatic h)
                                  in case chapoly_Open C key ZeroNonce (mi_Timestamp msg) hash of
                                       None \<Rightarrow> (d, None)
                                     | Some timestamp \<Rightarrow>
                                         let hash = mixHash C hash (mi_Timestamp msg);
                                             replay = \<not> After timestamp (hs_lastTimestamp h);
                                             flood = time_sub (now e) (hs_lastInitiationConsumption h)
                                                       \<le> HandshakeInitationRate
                                         in if replay then (d, None)
                                            else if flood then (d, None)
                                            else
                                              let h = h\<lparr>hs_hash := hash, hs_chainKey := chainKey,
                                                    hs_remoteIndex := mi_Sender msg,
                                                    hs_remoteEphemeral := mi_Ephemeral msg,
                                                    hs_lastTimestamp :=
                                                      (if After timestamp (hs_lastTimestamp h)
                                                       then timestamp else hs_lastTimestamp h),
                                                    hs_lastInitiationConsumption :=
                                                      (if now e > hs_lastInitiationConsumption h
                                                       then now e else hs_lastInitiationConsumption h),
                                                    hs_state := handshakeInitiationConsumed\<rparr>
                                              in (upd_handshake peer (\<lambda>_. h) d, Some peer))"

definition CreateMessageResponse ::
  "crypto \<Rightarrow> env \<Rightarrow> Device \<Rightarrow> peer_id \<Rightarrow> Device \<times> (noise_error + MessageResponse)" where
  "CreateMessageResponse C e d peer =
     (if hs_state (hs_of d peer) \<noteq> handshakeInitiationConsumed then (d, Inl errInvalidState)
      else
        let (index, err, d) = newIndex e (deleteIndex (hs_localIndex (hs_of d peer)) d) peer;
            put = (\<lambda>h. upd_handshake peer (\<lambda>_. h) d);
            h = (hs_of d peer)\<lparr>hs_localIndex := index\<rparr>
        in if err then (put h, Inl errRand)
           else
             let (ephem, err) = newPrivateKey (ephemeral e);
                 h = h\<lparr>hs_localEphemeral := ephem\<rparr>
             in if err then (put h, Inl errRand)
                else
                  let Ephemeral = publicKey C (hs_localEphemeral h);
                      h = hs_mixKey C Ephemeral (hs_mixHash C Ephemeral h);
                      (ss, err) = sharedSecret C (hs_localEphemeral h) (hs_remoteEphemeral h)
                  in if err then (put h, Inl errInvalidPublicKey)
                     else
                       let h = hs_mixKey C ss h;
                           (ss, err) = sharedSecret C (hs_localEphemeral h) (hs_remoteStatic h)
                       in if err then (put h, Inl errInvalidPublicKey)
                          else
                            let h = hs_mixKey C ss h;
                                (ck, tau, key) = KDF3 C (hs_chainKey h) (hs_presharedKey h);
                                h = hs_mixHash C tau (h\<lparr>hs_chainKey := ck\<rparr>);
                                Empty = chapoly_Seal C key ZeroNonce [] (hs_hash h);
                                h = hs_mixHash C Empty h;
                                h = h\<lparr>hs_state := handshakeResponseCreated\<rparr>
                            in (put h,
                                Inr \<lparr>mr_Type = MessageResponseType, mr_Sender = index,
                                  mr_Receiver = hs_remoteIndex h, mr_Ephemeral = Ephemeral,
                                  mr_Empty = Empty, mr_MAC1 = replicate 16 0, mr_MAC2 = replicate 16 0\<rparr>))"

subsection \<open>The initiator's second step\<close>

definition ConsumeMessageResponse ::
  "crypto \<Rightarrow> Device \<Rightarrow> MessageResponse \<Rightarrow> Device \<times> peer_id option" where
  "ConsumeMessageResponse C d msg =
     (if mr_Type msg \<noteq> MessageResponseType then (d, None)
      else
        let lookup = it_Lookup (indexTable d) (mr_Receiver msg)
        in case ite_handshake lookup of
             None \<Rightarrow> (d, None)
           | Some owner \<Rightarrow>
               let h = hs_of d owner
               in if hs_state h \<noteq> handshakeInitiationCreated then (d, None)
                  else
                    let hash = mixHash C (hs_hash h) (mr_Ephemeral msg);
                        chainKey = mixKey C (hs_chainKey h) (mr_Ephemeral msg);
                        (ss, err) = sharedSecret C (hs_localEphemeral h) (mr_Ephemeral msg)
                    in if err then (d, None)
                       else
                         let chainKey = mixKey C chainKey ss;
                             (ss, err) = sharedSecret C (privateKey d) (mr_Ephemeral msg)
                         in if err then (d, None)
                            else
                              let chainKey = mixKey C chainKey ss;
                                  (chainKey, tau, key) = KDF3 C chainKey (hs_presharedKey h);
                                  hash = mixHash C hash tau
                              in case chapoly_Open C key ZeroNonce (mr_Empty msg) hash of
                                   None \<Rightarrow> (d, None)
                                 | Some _ \<Rightarrow>
                                     let hash = mixHash C hash (mr_Empty msg);
                                         h = h\<lparr>hs_hash := hash, hs_chainKey := chainKey,
                                               hs_remoteIndex := mr_Sender msg,
                                               hs_state := handshakeResponseConsumed\<rparr>
                                     in (upd_handshake owner (\<lambda>_. h) d, ite_peer lookup))"

subsection \<open>Sessions\<close>

text \<open>\<open>rotate\<close> is the last part of \<open>BeginSymmetricSession\<close>, under the lock of the keypairs.\<close>

definition rotate :: "bool \<Rightarrow> keypair_id \<Rightarrow> peer_id \<Rightarrow> Device \<Rightarrow> Device" where
  "rotate isInitiator keypair peer d =
     (let kps = keypairs (peer_store d peer);
          prev = previous kps;
          nxt = next_kp kps;
          cur = current kps;
          put = (\<lambda>kps. upd_peer peer (\<lambda>p. p\<lparr>keypairs := kps\<rparr>))
      in if isInitiator then
           if nxt \<noteq> None then
             put (kps\<lparr>next_kp := None, previous := nxt, current := Some keypair\<rparr>)
               (DeleteKeypair prev (DeleteKeypair cur d))
           else
             put (kps\<lparr>previous := cur, current := Some keypair\<rparr>) (DeleteKeypair prev d)
         else
           put (kps\<lparr>next_kp := Some keypair, previous := None\<rparr>)
             (DeleteKeypair prev (DeleteKeypair nxt d)))"

text \<open>The flag is true when the session was derived.\<close>

definition BeginSymmetricSession :: "crypto \<Rightarrow> env \<Rightarrow> Device \<Rightarrow> peer_id \<Rightarrow> Device \<times> bool" where
  "BeginSymmetricSession C e d peer =
     (let h = hs_of d peer;
          isInitiator = (hs_state h = handshakeResponseConsumed);
          (k1, k2) = KDF2 C (hs_chainKey h) [];
          (sendKey, recvKey) = (if isInitiator then (k1, k2) else (k2, k1))
      in if hs_state h \<noteq> handshakeResponseConsumed \<and> hs_state h \<noteq> handshakeResponseCreated then (d, False)
         else
           let id = next_keypair d;
               keypair = \<lparr>kp_sendNonce = 0, kp_send = sendKey, kp_receive = recvKey,
                 kp_replayFilter = Reset emptyFilter, kp_isInitiator = isInitiator,
                 kp_created = now e, kp_localIndex = hs_localIndex h, kp_remoteIndex = hs_remoteIndex h\<rparr>;
               d = d\<lparr>keypair_store := (keypair_store d)(id := keypair), next_keypair := id + 1\<rparr>;
               d = d\<lparr>indexTable := SwapIndexForKeypair (indexTable d) (hs_localIndex h) (Some id)\<rparr>;
               h = h\<lparr>hs_chainKey := setZero (hs_chainKey h), hs_hash := setZero (hs_hash h),
                     hs_localEphemeral := setZero (hs_localEphemeral h), hs_state := handshakeZeroed,
                     hs_localIndex := 0\<rparr>;
               d = upd_handshake peer (\<lambda>_. h) d
           in (rotate isInitiator id peer d, True))"

definition ReceivedWithKeypair :: "Device \<Rightarrow> peer_id \<Rightarrow> keypair_id \<Rightarrow> Device \<times> bool" where
  "ReceivedWithKeypair d peer receivedKeypair =
     (let kps = keypairs (peer_store d peer)
      in if next_kp kps \<noteq> Some receivedKeypair then (d, False)
         else
           let old = previous kps;
               d = DeleteKeypair old d;
               kps = kps\<lparr>previous := current kps, current := next_kp kps, next_kp := None\<rparr>
           in (upd_peer peer (\<lambda>p. p\<lparr>keypairs := kps\<rparr>) d, True))"

end
