(* ===== verification/Noise_Agreement.thy ===== *)
theory Noise_Agreement
  imports Noise_Protocol
begin

text \<open>
  The two sides of the handshake fit together: what one device creates the other consumes, and
  both derive the same session.  The transcript functions below name the intermediate keys and
  hashes of the IKpsk2 pattern; each lemma says what one message function computes in terms of
  them.
\<close>

definition tr_hash :: "crypto \<Rightarrow> bytes \<Rightarrow> bytes \<Rightarrow> bytes" where
  "tr_hash C responder E = mixHash C (mixHash C (InitialHash C) responder) E"

definition tr_es :: "crypto \<Rightarrow> bytes \<Rightarrow> bytes \<Rightarrow> bytes \<times> bytes" where
  "tr_es C E es = KDF2 C (mixKey C (InitialChainKey C) E) es"

definition tr_resp :: "crypto \<Rightarrow> bytes \<Rightarrow> bytes \<Rightarrow> bytes \<Rightarrow> bytes \<Rightarrow> bytes \<Rightarrow> bytes \<times> bytes \<times> bytes" where
  "tr_resp C ck E ee se psk = KDF3 C (mixKey C (mixKey C (mixKey C ck E) ee) se) psk"

lemma newIndex_ok:
  assumes "newIndex e d p = (i, False, d')"
  shows "indexTable d i = None" and "d' = d\<lparr>indexTable := (indexTable d)(i \<mapsto>
      \<lparr>ite_peer = Some p, ite_handshake = Some p, ite_keypair = None\<rparr>)\<rparr>"
proof -
  have "indexTable d i = None \<and> d' = d\<lparr>indexTable := (indexTable d)(i \<mapsto>
      \<lparr>ite_peer = Some p, ite_handshake = Some p, ite_keypair = None\<rparr>)\<rparr>"
  proof (cases rule: newIndex_cases [of e d p])
    case (fail j)
    then show ?thesis using assms by (simp only: prod.inject) simp
  next
    case (ok j)
    then have "j = i" "d' = d\<lparr>indexTable := (indexTable d)(j \<mapsto>
        \<lparr>ite_peer = Some p, ite_handshake = Some p, ite_keypair = None\<rparr>)\<rparr>"
      using assms by (simp_all only: prod.inject)
    then show ?thesis using ok(2) by (simp only:)
  qed
  then show "indexTable d i = None" and "d' = d\<lparr>indexTable := (indexTable d)(i \<mapsto>
      \<lparr>ite_peer = Some p, ite_handshake = Some p, ite_keypair = None\<rparr>)\<rparr>" by (simp_all only:)
qed

lemma sharedSecret_ok: "sharedSecret C sk pk = (ss, False) \<longleftrightarrow> ss = ScalarMult C sk pk \<and> \<not> isZero ss"
  by (auto simp: sharedSecret_def Let_def)

lemma newPrivateKey_ok: "newPrivateKey r = (sk, False) \<longleftrightarrow> sk = clamp (fst r) \<and> \<not> snd r"
  by (auto simp: newPrivateKey_def)

lemma CreateInitiation_ok:
  assumes "CreateMessageInitiation C e d p = (d', Inr m)"
  defines "s \<equiv> clamp (fst (ephemeral e))" and "h \<equiv> hs_of d p"
  defines "E \<equiv> ScalarBaseMult C s"
  defines "es \<equiv> ScalarMult C s (hs_remoteStatic h)"
  defines "st \<equiv> chapoly_Seal C (snd (tr_es C E es)) ZeroNonce (public_key d) (tr_hash C (hs_remoteStatic h) E)"
  defines "ks \<equiv> KDF2 C (fst (tr_es C E es)) (hs_precomputedStaticStatic h)"
  defines "h1 \<equiv> mixHash C (tr_hash C (hs_remoteStatic h) E) st"
  defines "ts \<equiv> chapoly_Seal C (snd ks) ZeroNonce (stamp (now e)) h1"
  shows "m = \<lparr>mi_Type = MessageInitiationType, mi_Sender = mi_Sender m, mi_Ephemeral = E, mi_Static = st,
      mi_Timestamp = ts, mi_MAC1 = replicate 16 0, mi_MAC2 = replicate 16 0\<rparr>"
    and "\<not> isZero es" "\<not> isZero (hs_precomputedStaticStatic h)"
    and "hs_of d' p = h\<lparr>hs_hash := mixHash C h1 ts, hs_chainKey := fst ks, hs_localEphemeral := s,
      hs_localIndex := mi_Sender m, hs_state := handshakeInitiationCreated\<rparr>"
    and "indexTable d' = ((indexTable d)(hs_localIndex h := None))(mi_Sender m \<mapsto>
      \<lparr>ite_peer = Some p, ite_handshake = Some p, ite_keypair = None\<rparr>)"
    and "privateKey d' = privateKey d" "public_key d' = public_key d" 
  using assms(1)
  by (auto simp: CreateMessageInitiation_def Let_def assms(2-) upd_simps hs_mixHash_def hs_mixKey_def
      publicKey_def tr_hash_def tr_es_def sharedSecret_ok newPrivateKey_ok deleteIndex_def it_Delete_def
      dest!: newIndex_ok(2) split: prod.splits if_splits)

lemma ConsumeInitiation_ok:
  fixes s pk ss ts :: bytes and d :: Device
  assumes C: "crypto_ok C"
  defines "E \<equiv> ScalarBaseMult C s" and "es \<equiv> ScalarMult C s (public_key d)"
  defines "st \<equiv> chapoly_Seal C (snd (tr_es C E es)) ZeroNonce pk (tr_hash C (public_key d) E)"
  defines "h1 \<equiv> mixHash C (tr_hash C (public_key d) E) st"
  defines "ks \<equiv> KDF2 C (fst (tr_es C E es)) ss"
  assumes d: "public_key d = ScalarBaseMult C (privateKey d)" and es: "\<not> isZero es"
    and p: "LookupPeer d pk = Some p" "isRunning (peer_store d p)"
    and h: "hs_precomputedStaticStatic (hs_of d p) = ss" "\<not> isZero ss"
    and fresh: "After ts (hs_lastTimestamp (hs_of d p))"
      "time_sub (now e) (hs_lastInitiationConsumption (hs_of d p)) > HandshakeInitationRate"
    and m: "mi_Type m = MessageInitiationType" "mi_Ephemeral m = E" "mi_Static m = st"
      "mi_Timestamp m = chapoly_Seal C (snd ks) ZeroNonce ts h1"
  shows "ConsumeMessageInitiation C e d m = (upd_handshake p (\<lambda>h. h\<lparr>
      hs_hash := mixHash C h1 (mi_Timestamp m), hs_chainKey := fst ks, hs_remoteIndex := mi_Sender m,
      hs_remoteEphemeral := E, hs_lastTimestamp := ts,
      hs_lastInitiationConsumption := max (now e) (hs_lastInitiationConsumption h),
      hs_state := handshakeInitiationConsumed\<rparr>) d, Some p)"
proof -
  have ss: "sharedSecret C (privateKey d) E = (es, False)"
    using es d crypto_okD(9) [OF C] by (simp add: sharedSecret_ok E_def es_def)
  obtain ck1 k1 where t1: "tr_es C E es = (ck1, k1)" by fastforce
  obtain ck2 k2 where t2: "ks = (ck2, k2)" by fastforce
  have tr: "KDF2 C (mixKey C (InitialChainKey C) E) es = (ck1, k1)" using t1 by (simp add: tr_es_def)
  have open1: "chapoly_Open C k1 ZeroNonce st (tr_hash C (public_key d) E) = Some pk"
    unfolding st_def t1 snd_conv by (rule crypto_okD(4) [OF C])
  have open2: "chapoly_Open C k2 ZeroNonce (chapoly_Seal C k2 ZeroNonce ts h1) h1 = Some ts"
    by (rule crypto_okD(4) [OF C])
  have ks: "KDF2 C ck1 ss = (ck2, k2)" using t1 t2 by (simp add: ks_def)
  have mx: "(if now e > t then now e else t) = max (now e) t" for t by auto
  have hash: "mixHash C (mixHash C (InitialHash C) (public_key d)) E = tr_hash C (public_key d) E"
    "mixHash C (tr_hash C (public_key d) E) st = h1" by (simp_all add: tr_hash_def h1_def)
  have nf: "\<not> time_sub (now e) (hs_lastInitiationConsumption (hs_of d p)) \<le> HandshakeInitationRate"
    using fresh by simp
  have "ConsumeMessageInitiation C e d m = (upd_handshake p (\<lambda>_. (hs_of d p)\<lparr>
      hs_hash := mixHash C h1 (mi_Timestamp m), hs_chainKey := fst ks, hs_remoteIndex := mi_Sender m,
      hs_remoteEphemeral := E, hs_lastTimestamp := ts,
      hs_lastInitiationConsumption := max (now e) (hs_lastInitiationConsumption (hs_of d p)),
      hs_state := handshakeInitiationConsumed\<rparr>) d, Some p)"
    by (simp add: ConsumeMessageInitiation_def Let_def m ss tr hash open1 open2 ks p h nf fresh(1) mx t2)
  then show ?thesis by (simp add: upd_handshake_def upd_peer_def hs_of_def)
qed

lemma CreateResponse_ok:
  assumes "CreateMessageResponse C e d p = (d', Inr m)"
  defines "s \<equiv> clamp (fst (ephemeral e))" and "h \<equiv> hs_of d p"
  defines "E \<equiv> ScalarBaseMult C s"
  defines "tr \<equiv> tr_resp C (hs_chainKey h) E (ScalarMult C s (hs_remoteEphemeral h))
    (ScalarMult C s (hs_remoteStatic h)) (hs_presharedKey h)"
  defines "h1 \<equiv> mixHash C (mixHash C (hs_hash h) E) (fst (snd tr))"
  defines "em \<equiv> chapoly_Seal C (snd (snd tr)) ZeroNonce [] h1"
  shows "m = \<lparr>mr_Type = MessageResponseType, mr_Sender = mr_Sender m, mr_Receiver = hs_remoteIndex h,
      mr_Ephemeral = E, mr_Empty = em, mr_MAC1 = replicate 16 0, mr_MAC2 = replicate 16 0\<rparr>"
    and "hs_state h = handshakeInitiationConsumed"
    and "\<not> isZero (ScalarMult C s (hs_remoteEphemeral h))" "\<not> isZero (ScalarMult C s (hs_remoteStatic h))"
    and "hs_of d' p = h\<lparr>hs_hash := mixHash C h1 em, hs_chainKey := fst tr, hs_localEphemeral := s,
      hs_localIndex := mr_Sender m, hs_state := handshakeResponseCreated\<rparr>"
    and "indexTable d' = ((indexTable d)(hs_localIndex h := None))(mr_Sender m \<mapsto>
      \<lparr>ite_peer = Some p, ite_handshake = Some p, ite_keypair = None\<rparr>)"
    and "keypair_store d' = keypair_store d" "next_keypair d' = next_keypair d"
    and "keypairs (peer_store d' p) = keypairs (peer_store d p)"
  using assms(1)
  by (auto simp: CreateMessageResponse_def Let_def assms(2-) upd_simps hs_mixHash_def hs_mixKey_def
      publicKey_def tr_resp_def sharedSecret_ok newPrivateKey_ok deleteIndex_def it_Delete_def hs_of_def
      upd_handshake_def upd_peer_def
      dest!: newIndex_ok(2) split: prod.splits if_splits)

lemma ConsumeResponse_ok:
  fixes s :: bytes
  assumes C: "crypto_ok C"
  assumes d: "it_Lookup (indexTable d) (mr_Receiver m) =
      \<lparr>ite_peer = Some p, ite_handshake = Some p, ite_keypair = None\<rparr>"
  defines "h \<equiv> hs_of d p" and "E \<equiv> ScalarBaseMult C s"
  defines "tr \<equiv> tr_resp C (hs_chainKey h) E (ScalarMult C s (ScalarBaseMult C (hs_localEphemeral h)))
    (ScalarMult C s (ScalarBaseMult C (privateKey d))) (hs_presharedKey h)"
  defines "h1 \<equiv> mixHash C (mixHash C (hs_hash h) E) (fst (snd tr))"
  assumes nz: "\<not> isZero (ScalarMult C s (ScalarBaseMult C (hs_localEphemeral h)))"
      "\<not> isZero (ScalarMult C s (ScalarBaseMult C (privateKey d)))"
    and st: "hs_state h = handshakeInitiationCreated"
    and m: "mr_Type m = MessageResponseType" "mr_Ephemeral m = E"
      "mr_Empty m = chapoly_Seal C (snd (snd tr)) ZeroNonce [] h1"
  shows "ConsumeMessageResponse C d m = (upd_handshake p (\<lambda>h. h\<lparr>
      hs_hash := mixHash C h1 (mr_Empty m), hs_chainKey := fst tr, hs_remoteIndex := mr_Sender m,
      hs_state := handshakeResponseConsumed\<rparr>) d, Some p)"
proof -
  have ss: "sharedSecret C (hs_localEphemeral h) E = (ScalarMult C s (ScalarBaseMult C (hs_localEphemeral h)), False)"
    "sharedSecret C (privateKey d) E = (ScalarMult C s (ScalarBaseMult C (privateKey d)), False)"
    using nz crypto_okD(9) [OF C] by (simp_all add: sharedSecret_ok E_def)
  obtain ck tau key where t: "tr = (ck, tau, key)" by (cases tr) auto
  have tr: "KDF3 C (mixKey C (mixKey C (mixKey C (hs_chainKey h) E)
      (ScalarMult C s (ScalarBaseMult C (hs_localEphemeral h))))
      (ScalarMult C s (ScalarBaseMult C (privateKey d)))) (hs_presharedKey h) = (ck, tau, key)"
    using t by (simp add: tr_def tr_resp_def)
  have hash: "mixHash C (mixHash C (hs_hash h) E) tau = h1" by (simp add: h1_def t)
  have op: "chapoly_Open C key ZeroNonce (chapoly_Seal C key ZeroNonce [] h1) h1 = Some []"
    by (rule crypto_okD(4) [OF C])
  have hh: "hs_of d p = h" by (simp add: h_def)
  have "ConsumeMessageResponse C d m = (upd_handshake p (\<lambda>_. h\<lparr>
      hs_hash := mixHash C h1 (mr_Empty m), hs_chainKey := fst tr, hs_remoteIndex := mr_Sender m,
      hs_state := handshakeResponseConsumed\<rparr>) d, Some p)"
    by (simp add: ConsumeMessageResponse_def Let_def d m st ss tr op hash hh t)
  then show ?thesis by (simp add: upd_handshake_def upd_peer_def hs_of_def h_def)
qed

lemma DeleteKeypair_sel [upd_simps]:
  "peer_store (DeleteKeypair k d) = peer_store d" "keypair_store (DeleteKeypair k d) = keypair_store d"
  "next_keypair (DeleteKeypair k d) = next_keypair d" "hs_of (DeleteKeypair k d) = hs_of d"
  by (auto simp: DeleteKeypair_def deleteIndex_def hs_of_def fun_eq_iff split: option.splits)

lemma rotate_sel:
  "keypair_store (rotate i k p d) = keypair_store d"
  "current (keypairs (peer_store (rotate True k p d) p)) = Some k"
  "next_kp (keypairs (peer_store (rotate True k p d) p)) = None"
  "next_kp (keypairs (peer_store (rotate False k p d) p)) = Some k"
  "current (keypairs (peer_store (rotate False k p d) p)) = current (keypairs (peer_store d p))"
  by (auto simp: rotate_def Let_def upd_simps)

lemma Begin_initiator:
  assumes "hs_state (hs_of d p) = handshakeResponseConsumed"
  shows "\<exists>d' k. BeginSymmetricSession C e d p = (d', True) \<and> current (keypairs (peer_store d' p)) = Some k \<and>
    keypair_store d' k = \<lparr>kp_sendNonce = 0, kp_send = fst (KDF2 C (hs_chainKey (hs_of d p)) []),
      kp_receive = snd (KDF2 C (hs_chainKey (hs_of d p)) []), kp_replayFilter = Reset emptyFilter,
      kp_isInitiator = True, kp_created = now e, kp_localIndex = hs_localIndex (hs_of d p),
      kp_remoteIndex = hs_remoteIndex (hs_of d p)\<rparr>"
  using assms by (simp add: BeginSymmetricSession_def Let_def split_beta rotate_sel upd_simps)

lemma Begin_responder:
  assumes "hs_state (hs_of d p) = handshakeResponseCreated"
  shows "\<exists>d' k. BeginSymmetricSession C e d p = (d', True) \<and> next_kp (keypairs (peer_store d' p)) = Some k \<and>
    keypair_store d' k = \<lparr>kp_sendNonce = 0, kp_send = snd (KDF2 C (hs_chainKey (hs_of d p)) []),
      kp_receive = fst (KDF2 C (hs_chainKey (hs_of d p)) []), kp_replayFilter = Reset emptyFilter,
      kp_isInitiator = False, kp_created = now e, kp_localIndex = hs_localIndex (hs_of d p),
      kp_remoteIndex = hs_remoteIndex (hs_of d p)\<rparr>"
  using assms by (simp add: BeginSymmetricSession_def Let_def split_beta rotate_sel upd_simps)

lemma initiation_accepted:
  assumes C: "crypto_ok C"
    and keys: "public_key A = ScalarBaseMult C (privateKey A)" "public_key B = ScalarBaseMult C (privateKey B)"
    and A: "hs_remoteStatic (hs_of A pB) = public_key B"
      "hs_precomputedStaticStatic (hs_of A pB) = ScalarMult C (privateKey A) (public_key B)"
    and B: "LookupPeer B (public_key A) = Some pA" "isRunning (peer_store B pA)"
      "hs_precomputedStaticStatic (hs_of B pA) = ScalarMult C (privateKey B) (public_key A)"
    and fresh: "After (stamp (now e1)) (hs_lastTimestamp (hs_of B pA))"
      "time_sub (now e2) (hs_lastInitiationConsumption (hs_of B pA)) > HandshakeInitationRate"
    and init: "CreateMessageInitiation C e1 A pB = (A1, Inr m1)"
  shows "ConsumeMessageInitiation C e2 B (m1\<lparr>mi_MAC1 := a1, mi_MAC2 := a2\<rparr>) = (upd_handshake pA (\<lambda>h. h\<lparr>
      hs_hash := hs_hash (hs_of A1 pB), hs_chainKey := hs_chainKey (hs_of A1 pB), hs_remoteIndex := mi_Sender m1,
      hs_remoteEphemeral := ScalarBaseMult C (clamp (fst (ephemeral e1))), hs_lastTimestamp := stamp (now e1),
      hs_lastInitiationConsumption := max (now e2) (hs_lastInitiationConsumption h),
      hs_state := handshakeInitiationConsumed\<rparr>) B, Some pA)"
    and "hs_precomputedStaticStatic (hs_of A pB) = hs_precomputedStaticStatic (hs_of B pA)"
proof -
  let ?m1 = "m1\<lparr>mi_MAC1 := a1, mi_MAC2 := a2\<rparr>"
  show pss: "hs_precomputedStaticStatic (hs_of A pB) = hs_precomputedStaticStatic (hs_of B pA)"
    using A(2) B(3) keys crypto_okD(9) [OF C] by metis
  note i = CreateInitiation_ok [OF init, unfolded A(1) pss]
  let ?s = "clamp (fst (ephemeral e1))"
  let ?E = "ScalarBaseMult C ?s" and ?es = "ScalarMult C ?s (public_key B)"
  let ?st = "chapoly_Seal C (snd (tr_es C ?E ?es)) ZeroNonce (public_key A) (tr_hash C (public_key B) ?E)"
  let ?h1 = "mixHash C (tr_hash C (public_key B) ?E) ?st"
  let ?ks = "KDF2 C (fst (tr_es C ?E ?es)) (hs_precomputedStaticStatic (hs_of B pA))"
  let ?ts = "chapoly_Seal C (snd ?ks) ZeroNonce (stamp (now e1)) ?h1"
  have m1: "mi_Type ?m1 = MessageInitiationType" "mi_Ephemeral ?m1 = ?E" "mi_Static ?m1 = ?st"
      "mi_Timestamp ?m1 = ?ts" "mi_Sender ?m1 = mi_Sender m1"
    by (subst i(1), simp)+
  have A1: "hs_hash (hs_of A1 pB) = mixHash C ?h1 ?ts" "hs_chainKey (hs_of A1 pB) = fst ?ks"
    by (simp_all add: i(4))
  note B1 = ConsumeInitiation_ok [OF C keys(2) i(2) B(1,2) refl i(3) fresh m1(1-4)]
  show "ConsumeMessageInitiation C e2 B (m1\<lparr>mi_MAC1 := a1, mi_MAC2 := a2\<rparr>) = (upd_handshake pA (\<lambda>h. h\<lparr>
      hs_hash := hs_hash (hs_of A1 pB), hs_chainKey := hs_chainKey (hs_of A1 pB), hs_remoteIndex := mi_Sender m1,
      hs_remoteEphemeral := ScalarBaseMult C (clamp (fst (ephemeral e1))), hs_lastTimestamp := stamp (now e1),
      hs_lastInitiationConsumption := max (now e2) (hs_lastInitiationConsumption h),
      hs_state := handshakeInitiationConsumed\<rparr>) B, Some pA)"
    using B1 unfolding A1 m1(4,5) .
qed

text \<open>
  C1. The handshake agrees: let A know B's public key and B know A's, with the same preshared key and
  their precomputed static secrets, B's peer running, A's clock ahead of the last timestamp B
  saw and B not flooded.  Then whatever ephemeral keys, indices and clocks are drawn, if A
  creates an initiation, B accepts it (whatever its macs) and identifies A; if B then creates a
  response, A accepts it and identifies B; both derive a session, A's becomes its current keypair
  and B's its next, A's sending key is B's receiving key and conversely, each side's local index
  is the other's remote index, and both start at nonce zero.
\<close>

theorem handshake_agreement:
  assumes C: "crypto_ok C"
    and keys: "public_key A = ScalarBaseMult C (privateKey A)" "public_key B = ScalarBaseMult C (privateKey B)"
    and A: "hs_remoteStatic (hs_of A pB) = public_key B"
      "hs_precomputedStaticStatic (hs_of A pB) = ScalarMult C (privateKey A) (public_key B)"
    and B: "LookupPeer B (public_key A) = Some pA" "isRunning (peer_store B pA)"
      "hs_remoteStatic (hs_of B pA) = public_key A"
      "hs_precomputedStaticStatic (hs_of B pA) = ScalarMult C (privateKey B) (public_key A)"
    and psk: "hs_presharedKey (hs_of A pB) = hs_presharedKey (hs_of B pA)"
    and fresh: "After (stamp (now e1)) (hs_lastTimestamp (hs_of B pA))"
      "time_sub (now e2) (hs_lastInitiationConsumption (hs_of B pA)) > HandshakeInitationRate"
    and init: "CreateMessageInitiation C e1 A pB = (A1, Inr m1)"
    and resp: "CreateMessageResponse C e3
      (fst (ConsumeMessageInitiation C e2 B (m1\<lparr>mi_MAC1 := a1, mi_MAC2 := a2\<rparr>))) pA = (B2, Inr m2)"
  shows "\<exists>B1 A2 A3 B3 ka kb.
    ConsumeMessageInitiation C e2 B (m1\<lparr>mi_MAC1 := a1, mi_MAC2 := a2\<rparr>) = (B1, Some pA) \<and>
    ConsumeMessageResponse C A1 (m2\<lparr>mr_MAC1 := b1, mr_MAC2 := b2\<rparr>) = (A2, Some pB) \<and>
    BeginSymmetricSession C e4 A2 pB = (A3, True) \<and> BeginSymmetricSession C e5 B2 pA = (B3, True) \<and>
    current (keypairs (peer_store A3 pB)) = Some ka \<and> next_kp (keypairs (peer_store B3 pA)) = Some kb \<and>
    kp_send (keypair_store A3 ka) = kp_receive (keypair_store B3 kb) \<and>
    kp_receive (keypair_store A3 ka) = kp_send (keypair_store B3 kb) \<and>
    kp_localIndex (keypair_store A3 ka) = kp_remoteIndex (keypair_store B3 kb) \<and>
    kp_remoteIndex (keypair_store A3 ka) = kp_localIndex (keypair_store B3 kb) \<and>
    kp_isInitiator (keypair_store A3 ka) \<and> \<not> kp_isInitiator (keypair_store B3 kb) \<and>
    kp_sendNonce (keypair_store A3 ka) = 0 \<and> kp_sendNonce (keypair_store B3 kb) = 0"
proof -
  let ?s = "clamp (fst (ephemeral e1))" and ?h = "hs_of B pA" and ?m1 = "m1\<lparr>mi_MAC1 := a1, mi_MAC2 := a2\<rparr>"
  let ?E = "ScalarBaseMult C ?s" and ?ck = "hs_chainKey (hs_of A1 pB)" and ?hh = "hs_hash (hs_of A1 pB)"
  note i = CreateInitiation_ok [OF init]
  note B1 = initiation_accepted(1) [OF C keys A B(1,2,4) fresh init, where ?a1.0 = a1 and ?a2.0 = a2]
  let ?B1 = "fst (ConsumeMessageInitiation C e2 B ?m1)"
  have hB1: "hs_of ?B1 pA = ?h\<lparr>hs_hash := ?hh, hs_chainKey := ?ck,
      hs_remoteIndex := mi_Sender m1, hs_remoteEphemeral := ?E, hs_lastTimestamp := stamp (now e1),
      hs_lastInitiationConsumption := max (now e2) (hs_lastInitiationConsumption ?h),
      hs_state := handshakeInitiationConsumed\<rparr>"
    unfolding B1 by (simp only: upd_simps fst_conv if_True refl)
  note r = CreateResponse_ok [OF resp, unfolded hB1]
  let ?s2 = "clamp (fst (ephemeral e3))"
  let ?tr = "tr_resp C ?ck (ScalarBaseMult C ?s2) (ScalarMult C ?s2 ?E)
    (ScalarMult C ?s2 (public_key A)) (hs_presharedKey ?h)"
  let ?h2 = "mixHash C (mixHash C ?hh (ScalarBaseMult C ?s2)) (fst (snd ?tr))"
  let ?m2 = "m2\<lparr>mr_MAC1 := b1, mr_MAC2 := b2\<rparr>"
  have m2: "mr_Type ?m2 = MessageResponseType" "mr_Ephemeral ?m2 = ScalarBaseMult C ?s2"
      "mr_Empty ?m2 = chapoly_Seal C (snd (snd ?tr)) ZeroNonce [] ?h2" "mr_Receiver ?m2 = mi_Sender m1"
      "mr_Sender ?m2 = mr_Sender m2"
    by (subst r(1), simp add: B(3))+
  have nz: "\<not> isZero (ScalarMult C ?s2 ?E)" "\<not> isZero (ScalarMult C ?s2 (public_key A))"
    using r(3,4) B(3) by simp_all
  have look: "it_Lookup (indexTable A1) (mr_Receiver ?m2) =
      \<lparr>ite_peer = Some pB, ite_handshake = Some pB, ite_keypair = None\<rparr>"
    by (simp add: m2 i(5) it_Lookup_def)
  have hA1: "hs_localEphemeral (hs_of A1 pB) = ?s" "hs_presharedKey (hs_of A1 pB) = hs_presharedKey ?h"
      "hs_state (hs_of A1 pB) = handshakeInitiationCreated" "hs_localIndex (hs_of A1 pB) = mi_Sender m1"
    by (simp_all add: i(4) psk)
  have A2: "ConsumeMessageResponse C A1 ?m2 = (upd_handshake pB (\<lambda>h. h\<lparr>
      hs_hash := mixHash C ?h2 (mr_Empty ?m2), hs_chainKey := fst ?tr, hs_remoteIndex := mr_Sender ?m2,
      hs_state := handshakeResponseConsumed\<rparr>) A1, Some pB)" (is "_ = (?A2, _)")
    using ConsumeResponse_ok [OF C look, of ?s2] nz m2 keys(1) i(6) by (simp add: hA1)
  have hA2: "hs_of ?A2 pB = (hs_of A1 pB)\<lparr>hs_hash := mixHash C ?h2 (mr_Empty ?m2), hs_chainKey := fst ?tr,
      hs_remoteIndex := mr_Sender m2, hs_state := handshakeResponseConsumed\<rparr>"
    by (simp only: upd_simps m2 if_True refl)
  have hB2: "hs_chainKey (hs_of B2 pA) = fst ?tr" "hs_state (hs_of B2 pA) = handshakeResponseCreated"
      "hs_localIndex (hs_of B2 pA) = mr_Sender m2" "hs_remoteIndex (hs_of B2 pA) = mi_Sender m1"
    by (simp_all add: r(5) B(3))
  have stA: "hs_state (hs_of ?A2 pB) = handshakeResponseConsumed" unfolding hA2 by simp
  obtain A3 ka where a: "BeginSymmetricSession C e4 ?A2 pB = (A3, True)"
      "current (keypairs (peer_store A3 pB)) = Some ka"
      "keypair_store A3 ka = \<lparr>kp_sendNonce = 0, kp_send = fst (KDF2 C (fst ?tr) []),
        kp_receive = snd (KDF2 C (fst ?tr) []), kp_replayFilter = Reset emptyFilter,
        kp_isInitiator = True, kp_created = now e4, kp_localIndex = mi_Sender m1, kp_remoteIndex = mr_Sender m2\<rparr>"
    using Begin_initiator [OF stA, of C e4] unfolding hA2 by (auto simp: hA1)
  obtain B3 kb where b: "BeginSymmetricSession C e5 B2 pA = (B3, True)"
      "next_kp (keypairs (peer_store B3 pA)) = Some kb"
      "keypair_store B3 kb = \<lparr>kp_sendNonce = 0, kp_send = snd (KDF2 C (fst ?tr) []),
        kp_receive = fst (KDF2 C (fst ?tr) []), kp_replayFilter = Reset emptyFilter,
        kp_isInitiator = False, kp_created = now e5, kp_localIndex = mr_Sender m2, kp_remoteIndex = mi_Sender m1\<rparr>"
    using Begin_responder [OF hB2(2), of C e5] by (auto simp: hB2)
  show ?thesis using B1 A2 a b
    by (intro exI [of _ "fst (ConsumeMessageInitiation C e2 B ?m1)"] exI [of _ ?A2] exI [of _ A3] exI [of _ B3] exI [of _ ka] exI [of _ kb]) simp
qed

subsection \<open>A run of the handshake\<close>

lemma newIndex_first:
  assumes "index_draws e = (bs, False) # rs" "indexTable d (LE_Uint32 bs) = None"
  shows "\<exists>d'. newIndex e d p = (LE_Uint32 bs, False, d')"
  using assms by (simp add: newIndex_def alone_def randUint32_def)

lemma newIndex_hs: "newIndex e d p = (i, False, d') \<Longrightarrow> hs_of d' = hs_of d"
  by (drule newIndex_ok(2)) (simp add: hs_of_def fun_eq_iff)

lemma CreateInitiation_succeeds:
  assumes "\<not> snd (ephemeral e)" "\<not> isZero (hs_precomputedStaticStatic (hs_of d p))"
    and "\<not> isZero (ScalarMult C (clamp (fst (ephemeral e))) (hs_remoteStatic (hs_of d p)))"
    and "index_draws e = (bs, False) # rs" "indexTable d (LE_Uint32 bs) = None"
  shows "\<exists>d' m. CreateMessageInitiation C e d p = (d', Inr m)"
proof -
  have *: "\<exists>d'. newIndex e (deleteIndex i (upd_handshake p f d)) p = (LE_Uint32 bs, False, d')" for f i
    using assms(4,5) by (intro newIndex_first) (auto simp: deleteIndex_def it_Delete_def upd_simps)
  have s: "newPrivateKey (ephemeral e) = (clamp (fst (ephemeral e)), False)"
    using assms(1) by (simp add: newPrivateKey_ok)
  show ?thesis using assms(2,3) *
    by (auto simp: CreateMessageInitiation_def Let_def s hs_mixHash_def hs_mixKey_def sharedSecret_def
        split: prod.splits) (metis Pair_inject)+
qed

lemma CreateResponse_succeeds:
  assumes "hs_state (hs_of d p) = handshakeInitiationConsumed" "\<not> snd (ephemeral e)"
    and "\<not> isZero (ScalarMult C (clamp (fst (ephemeral e))) (hs_remoteEphemeral (hs_of d p)))"
    and "\<not> isZero (ScalarMult C (clamp (fst (ephemeral e))) (hs_remoteStatic (hs_of d p)))"
    and "index_draws e = (bs, False) # rs" "indexTable d (LE_Uint32 bs) = None"
  shows "\<exists>d' m. CreateMessageResponse C e d p = (d', Inr m)"
proof -
  have "indexTable (deleteIndex i d) (LE_Uint32 bs) = None" for i
    using assms(6) by (simp add: deleteIndex_def it_Delete_def)
  then obtain d' where d': "newIndex e (deleteIndex (hs_localIndex (hs_of d p)) d) p = (LE_Uint32 bs, False, d')"
    using newIndex_first [OF assms(5)] by blast
  have "hs_of (deleteIndex i d) = hs_of d" for i by (simp add: deleteIndex_def hs_of_def fun_eq_iff)
  then have h: "hs_of d' = hs_of d" using newIndex_hs [OF d'] by simp
  have s: "newPrivateKey (ephemeral e) = (clamp (fst (ephemeral e)), False)"
    using assms(2) by (simp add: newPrivateKey_ok)
  show ?thesis using assms(1,3,4)
    by (simp add: CreateMessageResponse_def Let_def d' h s hs_mixHash_def hs_mixKey_def sharedSecret_def
        split_beta)
qed

lemma plain_dh_nonzero:
  assumes "length r = 32"
  shows "\<not> isZero (ScalarMult plain_crypto (clamp r) q)"
proof -
  have l: "length (clamp r) = 32" using assms by simp
  have "ScalarMult plain_crypto (clamp r) q ! 31 = (r ! 31 AND 127 OR 64) OR pad32 q ! 31"
    using assms l by (simp add: plain_crypto_def pad32_def clamp_bits(2) nth_append)
  moreover have "(x AND 127 OR 64) OR y \<noteq> (0 :: byte)" for x y
  proof
    assume "(x AND 127 OR 64) OR y = (0 :: byte)"
    then have "bit ((x AND 127 OR 64) OR y) 6 = False" by simp
    then show False by (simp add: bit_simps)
  qed
  moreover have "length (ScalarMult plain_crypto (clamp r) q) = 32"
    using crypto_okD(8) [OF plain_crypto_ok] .
  ultimately show ?thesis by (metis isZero_iff nth_replicate numeral_less_iff semiring_norm(76) semiring_norm(81))
qed

lemma stamp_after_zero:
  assumes "in_range t"
  shows "After (stamp t) (replicate 12 0)"
proof -
  have z: "be_nat (replicate n 0) = 0" for n
    by (induction n) (simp_all add: be_nat_Cons)
  have "0 \<le> tick_ns * (Nanosecond t div tick_ns)"
    by (simp add: tick_ns_def Nanosecond_def Second_def pos_imp_zdiv_nonneg_iff)
  moreover have "0 < (0x400000000000000a + Unix t) * 2 ^ 32" using assms by (simp add: in_range_def)
  ultimately have "0 < int (be_nat (stamp t))" unfolding be_nat_stamp [OF assms] by linarith
  then show ?thesis unfolding After_def
    by (subst bytes_Compare_be_nat) (simp_all add: TimestampSize_def z del: replicate.simps)
qed

definition run_key :: "byte \<Rightarrow> bytes" where
  "run_key b = clamp (replicate 32 b)"

definition run_device :: "bytes \<Rightarrow> bytes \<Rightarrow> Device" where
  "run_device me other = zeroDevice\<lparr>privateKey := me, public_key := publicKey plain_crypto me,
     keyMap := [(publicKey plain_crypto other, 0)],
     peer_store := (\<lambda>_. zeroPeer\<lparr>isRunning := True, handshake := zeroHandshake\<lparr>
       hs_remoteStatic := publicKey plain_crypto other,
       hs_precomputedStaticStatic := fst (sharedSecret plain_crypto me (publicKey plain_crypto other))\<rparr>\<rparr>)\<rparr>"

lemma run_device_sel:
  "public_key (run_device me other) = ScalarBaseMult plain_crypto me" "privateKey (run_device me other) = me"
  "hs_remoteStatic (hs_of (run_device me other) p) = ScalarBaseMult plain_crypto other"
  "hs_precomputedStaticStatic (hs_of (run_device me other) p) =
     ScalarMult plain_crypto me (ScalarBaseMult plain_crypto other)"
  "hs_presharedKey (hs_of (run_device me other) p) = replicate 32 0"
  "LookupPeer (run_device me other) (ScalarBaseMult plain_crypto other) = Some 0"
  "isRunning (peer_store (run_device me other) p)"
  "hs_lastTimestamp (hs_of (run_device me other) p) = replicate 12 0"
  "hs_lastInitiationConsumption (hs_of (run_device me other) p) = 0"
  "indexTable (run_device me other) = Map.empty"
  by (simp_all add: run_device_def hs_of_def LookupPeer_def sharedSecret_def Let_def publicKey_def
      zeroDevice_def zeroPeer_def zeroHandshake_def)

definition run_env :: "instant \<Rightarrow> byte \<Rightarrow> byte \<Rightarrow> env" where
  "run_env t s i = \<lparr>now = t, ephemeral = (replicate 32 s, False), index_draws = [([i, 0, 0, 0], False)],
     cookie_secret = ([], False), cookie_nonce = ([], False), jitter = 0, send_err = False\<rparr>"

theorem handshake_agreement_witness:
  "\<exists>A1 m1 B2 m2 A2 A3 B3 ka kb.
    CreateMessageInitiation plain_crypto (run_env (10 * Second) 3 7) (run_device (run_key 1) (run_key 2)) 0
      = (A1, Inr m1) \<and>
    CreateMessageResponse plain_crypto (run_env (11 * Second) 4 9)
      (fst (ConsumeMessageInitiation plain_crypto (run_env (11 * Second) 0 0)
        (run_device (run_key 2) (run_key 1)) m1)) 0 = (B2, Inr m2) \<and>
    ConsumeMessageResponse plain_crypto A1 m2 = (A2, Some 0) \<and>
    BeginSymmetricSession plain_crypto (run_env (12 * Second) 0 0) A2 0 = (A3, True) \<and>
    BeginSymmetricSession plain_crypto (run_env (12 * Second) 0 0) B2 0 = (B3, True) \<and>
    current (keypairs (peer_store A3 0)) = Some ka \<and> next_kp (keypairs (peer_store B3 0)) = Some kb \<and>
    kp_send (keypair_store A3 ka) = kp_receive (keypair_store B3 kb)"
proof -
  let ?a = "run_key 1" and ?b = "run_key 2"
  let ?A = "run_device ?a ?b" and ?B = "run_device ?b ?a"
  let ?e1 = "run_env (10 * Second) 3 7" and ?e2 = "run_env (11 * Second) 0 0" and ?e3 = "run_env (11 * Second) 4 9"
  note dev = run_device_sel
  have nz: "\<not> isZero (ScalarMult plain_crypto (clamp (replicate 32 x)) q)" for x q
    by (rule plain_dh_nonzero) simp
  have A: "public_key ?A = ScalarBaseMult plain_crypto (privateKey ?A)"
      "hs_remoteStatic (hs_of ?A 0) = public_key ?B"
      "hs_precomputedStaticStatic (hs_of ?A 0) = ScalarMult plain_crypto (privateKey ?A) (public_key ?B)"
      "hs_presharedKey (hs_of ?A 0) = hs_presharedKey (hs_of ?B 0)"
    by (simp_all add: dev)
  have B: "public_key ?B = ScalarBaseMult plain_crypto (privateKey ?B)"
      "LookupPeer ?B (public_key ?A) = Some 0" "isRunning (peer_store ?B 0)"
      "hs_remoteStatic (hs_of ?B 0) = public_key ?A"
      "hs_precomputedStaticStatic (hs_of ?B 0) = ScalarMult plain_crypto (privateKey ?B) (public_key ?A)"
    by (simp_all add: dev)
  have st: "After (stamp (10 * Second)) (replicate 12 0)"
    by (rule stamp_after_zero) (simp add: in_range_def Unix_def unixOffset_def Second_def)
  have fresh: "After (stamp (now ?e1)) (hs_lastTimestamp (hs_of ?B 0))"
      "time_sub (now ?e2) (hs_lastInitiationConsumption (hs_of ?B 0)) > HandshakeInitationRate"
    using st by (simp_all add: dev run_env_def time_sub_def minDuration_def maxDuration_def Second_def HandshakeInitationRate_def)
  obtain A1 m1 where init: "CreateMessageInitiation plain_crypto ?e1 ?A 0 = (A1, Inr m1)"
    using CreateInitiation_succeeds [of ?e1 ?A 0 plain_crypto "[7, 0, 0, 0]" "[]"] nz
    by (auto simp: dev run_env_def run_key_def)
  let ?m1 = "m1\<lparr>mi_MAC1 := mi_MAC1 m1, mi_MAC2 := mi_MAC2 m1\<rparr>"
  note acc = initiation_accepted(1) [OF plain_crypto_ok A(1) B(1) A(2,3) B(2,3,5) fresh init,
      where ?a1.0 = "mi_MAC1 m1" and ?a2.0 = "mi_MAC2 m1"]
  let ?B1 = "fst (ConsumeMessageInitiation plain_crypto ?e2 ?B ?m1)"
  have B1: "hs_state (hs_of ?B1 0) = handshakeInitiationConsumed" "indexTable ?B1 = Map.empty"
    unfolding acc by (simp_all add: upd_simps dev)
  obtain B2 m2 where resp: "CreateMessageResponse plain_crypto ?e3 ?B1 0 = (B2, Inr m2)"
    using CreateResponse_succeeds [OF B1(1), of ?e3 plain_crypto "[9, 0, 0, 0]" "[]"] nz B1(2)
    by (auto simp: run_env_def)
  from handshake_agreement [OF plain_crypto_ok A(1) B(1) A(2,3) B(2-5) A(4) fresh init resp,
      where ?b1.0 = "mr_MAC1 m2" and ?b2.0 = "mr_MAC2 m2" and ?e4.0 = "run_env (12 * Second) 0 0"
        and ?e5.0 = "run_env (12 * Second) 0 0"]
  show ?thesis using init resp by auto
qed

end
