(* ===== verification/Checksum.thy ===== *)
theory Checksum
  imports Prelude
begin

text \<open>
  tun/checksum.go: the Internet checksum, computed 64 bits at a time in the machine's byte
  order with end-around carry.  \<open>big\<close> says whether the machine is big-endian
  (\<open>binary.NativeEndian\<close>); \<open>addChain\<close> is a run of \<open>bits.Add64\<close> lines, \<open>addBlock\<close> that run with
  the final \<open>ac += carry\<close>.  The reference is RFC 1071: the one's complement sum of the
  big-endian 16-bit words.
\<close>

subsection \<open>The code\<close>

definition native :: "bool \<Rightarrow> bytes \<Rightarrow> nat" where
  "native big b = (if big then be_nat b else le_nat b)"

definition native_put :: "bool \<Rightarrow> u64 \<Rightarrow> bytes" where
  "native_put big x = (if big then be_bytes 8 (unat x) else le_bytes 8 (unat x))"

definition Add64 :: "u64 \<Rightarrow> u64 \<Rightarrow> u64 \<Rightarrow> u64 \<times> u64" where
  "Add64 x y carry =
     (x + y + carry, if unat x + unat y + unat carry \<ge> 2 ^ 64 then 1 else 0)"

fun addChain :: "bool \<Rightarrow> u64 \<Rightarrow> u64 \<Rightarrow> bytes \<Rightarrow> nat \<Rightarrow> u64 \<times> u64" where
  "addChain big ac carry b 0 = (ac, carry)"
| "addChain big ac carry b (Suc n) =
     (let (ac', carry') = Add64 ac (word_of_nat (native big (take 8 b))) carry
      in addChain big ac' carry' (drop 8 b) n)"

definition addBlock :: "bool \<Rightarrow> u64 \<Rightarrow> bytes \<Rightarrow> nat \<Rightarrow> u64" where
  "addBlock big ac b n = (let (ac', carry) = addChain big ac 0 b n in ac' + carry)"

definition addSmall :: "u64 \<Rightarrow> nat \<Rightarrow> u64" where
  "addSmall ac w = (let (ac', carry) = Add64 ac (word_of_nat w) 0 in ac' + carry)"

text \<open>\<open>for len(b) >= 128\<close>.\<close>

function loop128 :: "bool \<Rightarrow> u64 \<Rightarrow> bytes \<Rightarrow> u64 \<times> bytes" where
  "loop128 big ac b =
     (if length b \<ge> 128 then loop128 big (addBlock big ac b 16) (drop 128 b) else (ac, b))"
  by pat_completeness auto
termination
  by (relation "measure (\<lambda>(big, ac, b). length b)") auto

declare loop128.simps [simp del]

text \<open>\<open>if len(b) >= 8 * n\<close>, for 64, 32, 16 and 8 bytes.\<close>

definition step8 :: "bool \<Rightarrow> nat \<Rightarrow> u64 \<times> bytes \<Rightarrow> u64 \<times> bytes" where
  "step8 big n = (\<lambda>(ac, b).
     if length b \<ge> 8 * n then (addBlock big ac b n, drop (8 * n) b) else (ac, b))"

definition stepSmall :: "bool \<Rightarrow> nat \<Rightarrow> u64 \<times> bytes \<Rightarrow> u64 \<times> bytes" where
  "stepSmall big n = (\<lambda>(ac, b).
     if length b \<ge> n then (addSmall ac (native big (take n b)), drop n b) else (ac, b))"

definition stepLast :: "bool \<Rightarrow> u64 \<times> bytes \<Rightarrow> u64" where
  "stepLast big = (\<lambda>(ac, b).
     if length b = 1 then addSmall ac (native big [b ! 0, 0]) else ac)"

definition checksumNoFold :: "bool \<Rightarrow> bytes \<Rightarrow> u64 \<Rightarrow> u64" where
  "checksumNoFold big b initial =
     (let ac = BE_Uint64 (native_put big initial);
          s = loop128 big ac b;
          s = step8 big 8 s;
          s = step8 big 4 s;
          s = step8 big 2 s;
          s = step8 big 1 s;
          s = stepSmall big 4 s;
          s = stepSmall big 2 s;
          ac = stepLast big s
      in BE_Uint64 (native_put big ac))"

definition fold16 :: "u64 \<Rightarrow> u64" where
  "fold16 ac = drop_bit 16 ac + (ac AND 0xffff)"

definition checksum :: "bool \<Rightarrow> bytes \<Rightarrow> u64 \<Rightarrow> u16" where
  "checksum big b initial =
     (let ac = checksumNoFold big b initial;
          ac = fold16 ac;
          ac = fold16 ac;
          ac = fold16 ac;
          ac = fold16 ac
      in ucast ac)"

definition pseudoHeaderChecksumNoFold :: "bool \<Rightarrow> byte \<Rightarrow> bytes \<Rightarrow> bytes \<Rightarrow> u16 \<Rightarrow> u64" where
  "pseudoHeaderChecksumNoFold big protocol srcAddr dstAddr totalLen =
     (let sum = checksumNoFold big srcAddr 0;
          sum = checksumNoFold big dstAddr sum;
          sum = checksumNoFold big [0, protocol] sum;
          tmp = BE_PutUint16 totalLen
      in checksumNoFold big tmp sum)"

subsection \<open>One's complement arithmetic\<close>

fun sum16 :: "bytes \<Rightarrow> nat" where
  "sum16 [] = 0"
| "sum16 [a] = 256 * unat a"
| "sum16 (a # b # r) = 256 * unat a + unat b + sum16 r"

definition oc16 :: "nat \<Rightarrow> nat" where
  "oc16 s = (if s = 0 then 0 else (s - 1) mod 65535 + 1)"

definition rep :: "nat \<Rightarrow> nat \<Rightarrow> bool" where
  "rep a s \<longleftrightarrow> a mod 65535 = s mod 65535 \<and> (a = 0 \<longleftrightarrow> s = 0)"

lemma rep_refl [simp]: "rep a a"
  by (simp add: rep_def)

lemma rep_sym: "rep a b \<Longrightarrow> rep b a"
  by (simp add: rep_def)

lemma rep_trans [trans]: "rep a b \<Longrightarrow> rep b c \<Longrightarrow> rep a c"
  by (simp add: rep_def)

lemma rep_add: "rep a b \<Longrightarrow> rep c d \<Longrightarrow> rep (a + c) (b + d)"
  by (auto simp: rep_def intro: mod_add_cong)

lemma rep_mult: "rep a b \<Longrightarrow> rep (k * a) (k * b)"
  by (auto simp: rep_def intro: mod_mult_cong)

lemma rep_carry: "rep (65536 * a) a"
proof -
  have "(a + 65535 * a) mod 65535 = a mod 65535" by (rule mod_mult_self2)
  moreover have "a + 65535 * a = 65536 * a" by simp
  ultimately show ?thesis by (auto simp only: rep_def)
qed

lemma rep_2_64: "rep (2 ^ 64 * a) a"
proof -
  have "rep (65536 * (65536 * (65536 * (65536 * a)))) a"
    by (meson rep_carry rep_trans)
  then show ?thesis by simp
qed

lemma rep_oc16: "rep a s \<Longrightarrow> a \<le> 65535 \<Longrightarrow> a = oc16 s"
proof -
  assume r: "rep a s" and a: "a \<le> 65535"
  show "a = oc16 s"
  proof (cases "s = 0")
    case False
    then have "0 < a" using r by (auto simp: rep_def)
    have "(a - 1) mod 65535 = (s - 1) mod 65535"
    proof -
      have "int a mod 65535 = int s mod 65535"
        using r unfolding rep_def by (metis zmod_int of_nat_numeral)
      then have "(int a - 1) mod 65535 = (int s - 1) mod 65535"
        by (intro mod_diff_cong) simp_all
      moreover have "int ((x - 1) mod 65535) = (int x - 1) mod 65535" if "0 < x" for x :: nat
        using that by (simp add: zmod_int of_nat_diff)
      ultimately show ?thesis using \<open>0 < a\<close> False by (metis gr0I of_nat_eq_iff)
    qed
    then show ?thesis using a \<open>0 < a\<close> False by (simp add: oc16_def)
  qed (use r in \<open>simp add: rep_def oc16_def\<close>)
qed

subsection \<open>Words of either byte order\<close>

definition kfac :: "bool \<Rightarrow> nat" where
  "kfac big = (if big then 1 else 256)"

lemma kfac_twice: "rep (kfac big * (kfac big * a)) a"
  using rep_carry [of a] by (simp add: kfac_def)

lemma sum16_append: "even (length a) \<Longrightarrow> sum16 (a @ b) = sum16 a + sum16 b"
  by (induction a rule: sum16.induct) auto

lemma be_nat_two: "be_nat (a # b # r) = (256 * unat a + unat b) * 256 ^ length r + be_nat r"
  by (simp add: be_nat_Cons algebra_simps)

lemma rep_be_nat: "even (length b) \<Longrightarrow> rep (be_nat b) (sum16 b)"
proof (induction b rule: sum16.induct)
  case (3 a b r)
  then obtain m where m: "length r = 2 * m" by (auto elim: evenE)
  have pow: "rep (x * 65536 ^ m) x" for x
  proof (induction m)
    case (Suc m)
    have "rep (65536 * (x * 65536 ^ m)) x" using rep_carry Suc rep_trans by blast
    then show ?case by (simp add: algebra_simps)
  qed simp
  have "be_nat (a # b # r) = (256 * unat a + unat b) * 65536 ^ m + be_nat r"
    by (simp add: be_nat_two m power_mult)
  then show ?case using rep_add [OF pow "3.IH"] "3.prems" by simp
qed auto

lemma rep_le_nat: "even (length b) \<Longrightarrow> rep (le_nat b) (256 * sum16 b)"
proof (induction b rule: sum16.induct)
  case (3 a b r)
  have "rep (unat a + 256 * unat b) (256 * (256 * unat a + unat b))"
    using rep_add [OF rep_sym [OF rep_carry] rep_refl, of "unat a" "256 * unat b"]
    by (simp add: algebra_simps)
  moreover have "rep (65536 * le_nat r) (256 * sum16 r)"
    using rep_carry "3.IH" "3.prems" rep_trans by auto
  ultimately show ?case
    using rep_add by (fastforce simp: algebra_simps)
qed auto

lemma rep_native: "even (length b) \<Longrightarrow> rep (native big b) (kfac big * sum16 b)"
  by (simp add: native_def kfac_def rep_be_nat rep_le_nat)

lemma unat_be_put: "unat (BE_Uint64 (native_put big x)) = be_nat (native_put big x)"
proof -
  have len: "length (native_put big x) = 8" by (simp add: native_put_def)
  then have "be_nat (native_put big x) < 2 ^ 64"
    using be_nat_lt [of "native_put big x"] by simp
  then show ?thesis using len by (simp add: BE_Uint64_def unat_of_nat)
qed

lemma rep_swap: "rep (unat (BE_Uint64 (native_put big x))) (kfac big * unat x)"
proof (cases big)
  case True
  then show ?thesis
    using unat_mod_size [of x] unfolding unat_be_put
    by (simp add: native_put_def kfac_def be_nat_be_bytes)
next
  case False
  let ?b = "le_bytes 8 (unat x)"
  have "le_nat ?b = unat x" using unat_mod_size [of x] by (simp add: le_nat_le_bytes)
  then have "rep (256 * unat x) (256 * (256 * sum16 ?b))"
    using rep_mult [OF rep_le_nat [of ?b], of 256] by simp
  also have "rep \<dots> (sum16 ?b)" using rep_carry [of "sum16 ?b"] by simp
  finally have "rep (sum16 ?b) (256 * unat x)" by (rule rep_sym)
  with rep_be_nat have "rep (be_nat ?b) (256 * unat x)" by (rule rep_trans) simp
  then show ?thesis using False unfolding unat_be_put by (simp add: native_put_def kfac_def)
qed

subsection \<open>End-around carry\<close>

text \<open>A carry out of \<open>Add64\<close> leaves the sum below \<open>2 ^ 64 - 1\<close>, so \<open>ac += carry\<close> never wraps.\<close>

definition carry_ok :: "u64 \<times> u64 \<Rightarrow> bool" where
  "carry_ok p \<longleftrightarrow> snd p = 0 \<or> snd p = 1 \<and> unat (fst p) < 2 ^ 64 - 1"

lemma Add64_spec:
  assumes "carry_ok (x, c)"
  shows "carry_ok (Add64 x y c)"
    and "unat (fst (Add64 x y c)) + 2 ^ 64 * unat (snd (Add64 x y c)) = unat x + unat y + unat c"
proof -
  have lt: "unat x < 2 ^ 64" "unat y < 2 ^ 64"
    using unsigned_less [of x, where ?'a = nat] unsigned_less [of y, where ?'a = nat] by auto
  have c: "unat c = 0 \<or> unat c = 1 \<and> unat x < 2 ^ 64 - 1"
    using assms by (auto simp: carry_ok_def)
  have s: "unat (x + y + c) = (unat x + unat y + unat c) mod 2 ^ 64"
    by (simp add: unat_word_ariths mod_simps)
  let ?t = "unat x + unat y + unat c"
  have lt2: "?t < 2 * 2 ^ 64 - 1" using lt c by auto
  have "?t mod 2 ^ 64 = (if ?t \<ge> 2 ^ 64 then ?t - 2 ^ 64 else ?t)"
    using lt2 by (auto simp: mod_if)
  then show "unat (fst (Add64 x y c)) + 2 ^ 64 * unat (snd (Add64 x y c)) = ?t"
    and "carry_ok (Add64 x y c)"
    using s lt2 by (auto simp: Add64_def carry_ok_def)
qed

lemma Add64_rep:
  assumes "carry_ok (x, c)" "Add64 x y c = (x', c')"
  shows "carry_ok (x', c')" "rep (unat x' + unat c') (unat x + unat c + unat y)"
proof -
  show "carry_ok (x', c')" using Add64_spec(1) [OF assms(1), of y] assms(2) by simp
  have "rep (unat x' + unat c') (unat x' + 2 ^ 64 * unat c')"
    by (intro rep_add rep_refl rep_sym [OF rep_2_64])
  then show "rep (unat x' + unat c') (unat x + unat c + unat y)"
    using Add64_spec(2) [OF assms(1), of y] assms(2) by (simp add: algebra_simps)
qed

lemma unat_add_carry: "carry_ok (x, c) \<Longrightarrow> unat (x + c) = unat x + unat c"
  using unsigned_less [of x, where ?'a = nat]
  by (auto simp: carry_ok_def unat_word_ariths)

lemma addSmall_rep:
  assumes "w < 2 ^ 64" "rep w s"
  shows "rep (unat (addSmall ac w)) (unat ac + s)"
proof -
  obtain x' c' where a: "Add64 ac (word_of_nat w) 0 = (x', c')" by force
  have "carry_ok (ac, 0)" by (simp add: carry_ok_def)
  note r = Add64_rep [OF this a]
  have "unat (addSmall ac w) = unat x' + unat c'"
    using unat_add_carry [OF r(1)] a by (simp add: addSmall_def)
  moreover have "unat (word_of_nat w :: u64) = w" using assms(1) by (simp add: unat_of_nat)
  ultimately show ?thesis using r(2) rep_trans [OF _ rep_add [OF rep_refl assms(2)]] by simp
qed

lemma native_lt: "length b \<le> 8 \<Longrightarrow> native big b < 2 ^ 64"
proof -
  assume "length b \<le> 8"
  then have "(256 :: nat) ^ length b \<le> 256 ^ 8" by (intro power_increasing) auto
  moreover have "native big b < 256 ^ length b"
    by (simp add: native_def be_nat_lt le_nat_lt)
  ultimately show ?thesis by simp
qed

lemma addChain_rep:
  assumes "carry_ok (ac, c)" "8 * n \<le> length b" "addChain big ac c b n = (ac', c')"
  shows "carry_ok (ac', c') \<and>
    rep (unat ac' + unat c') (unat ac + unat c + kfac big * sum16 (take (8 * n) b))"
  using assms
proof (induction n arbitrary: ac c b)
  case 0
  then show ?case by simp
next
  case (Suc n)
  let ?w = "native big (take 8 b)"
  obtain x y where a: "Add64 ac (word_of_nat ?w) c = (x, y)" by force
  note r = Add64_rep [OF Suc.prems(1) a]
  have len: "length (take 8 b) = 8" using Suc.prems(2) by simp
  have uw: "unat (word_of_nat ?w :: u64) = ?w"
    using native_lt [of "take 8 b" big] by (simp add: unat_of_nat)
  have IH: "carry_ok (ac', c') \<and>
      rep (unat ac' + unat c') (unat x + unat y + kfac big * sum16 (take (8 * n) (drop 8 b)))"
    using Suc.prems a by (intro Suc.IH [OF r(1)]) auto
  have "rep (unat x + unat y) (unat ac + unat c + kfac big * sum16 (take 8 b))"
    using r(2) rep_add [OF rep_refl rep_native [of "take 8 b" big], of "unat ac + unat c"] len uw
    by (auto intro: rep_trans)
  then have "rep (unat x + unat y + kfac big * sum16 (take (8 * n) (drop 8 b)))
      (unat ac + unat c + kfac big * sum16 (take 8 b) + kfac big * sum16 (take (8 * n) (drop 8 b)))"
    by (rule rep_add) simp
  also have "\<dots> = unat ac + unat c + kfac big * sum16 (take 8 b @ take (8 * n) (drop 8 b))"
    using len by (subst sum16_append) (simp_all add: algebra_simps)
  also have "take 8 b @ take (8 * n) (drop 8 b) = take (8 * Suc n) b"
    by (simp add: take_add)
  finally show ?case using IH rep_trans by blast
qed

lemma addBlock_rep:
  assumes "8 * n \<le> length b"
  shows "rep (unat (addBlock big ac b n)) (unat ac + kfac big * sum16 (take (8 * n) b))"
proof -
  obtain x y where a: "addChain big ac 0 b n = (x, y)" by force
  have "carry_ok (ac, 0)" by (simp add: carry_ok_def)
  note r = addChain_rep [OF this assms a]
  then have "unat (addBlock big ac b n) = unat x + unat y"
    using unat_add_carry a by (simp add: addBlock_def)
  then show ?thesis using r by simp
qed

text \<open>What every step of \<open>checksumNoFold\<close> keeps: the accumulator plus what is left to add.\<close>

definition tot :: "bool \<Rightarrow> u64 \<times> bytes \<Rightarrow> nat" where
  "tot big p = unat (fst p) + kfac big * sum16 (snd p)"

lemma split_sum16:
  "even n \<Longrightarrow> n \<le> length b \<Longrightarrow> sum16 b = sum16 (take n b) + sum16 (drop n b)"
  using sum16_append [of "take n b" "drop n b"] by simp

lemma tot_block:
  assumes "8 * n \<le> length b"
  shows "rep (tot big (addBlock big ac b n, drop (8 * n) b)) (tot big (ac, b))"
proof -
  have "rep (tot big (addBlock big ac b n, drop (8 * n) b))
      (unat ac + kfac big * sum16 (take (8 * n) b) + kfac big * sum16 (drop (8 * n) b))"
    unfolding tot_def fst_conv snd_conv by (intro rep_add addBlock_rep assms rep_refl)
  also have "\<dots> = tot big (ac, b)"
    using split_sum16 [of "8 * n" b] assms by (simp add: tot_def algebra_simps)
  finally show ?thesis .
qed

lemma tot_step8: "rep (tot big (step8 big n s)) (tot big s)"
  using tot_block by (cases s) (auto simp: step8_def)

lemma tot_loop128: "rep (tot big (loop128 big ac b)) (tot big (ac, b)) \<and> length (snd (loop128 big ac b)) < 128"
proof (induction big ac b rule: loop128.induct)
  case (1 big ac b)
  show ?case
  proof (cases "length b \<ge> 128")
    case True
    then have "loop128 big ac b = loop128 big (addBlock big ac b 16) (drop 128 b)"
      by (simp add: loop128.simps [of big ac b])
    then show ?thesis using "1.IH" [OF True] tot_block [of 16 b big ac] True rep_trans by auto
  next
    case False
    then show ?thesis by (simp add: loop128.simps [of big ac b])
  qed
qed

lemma tot_stepSmall:
  assumes "even n" "n \<le> 8"
  shows "rep (tot big (stepSmall big n s)) (tot big s)"
proof (cases s)
  case (Pair ac b)
  show ?thesis
  proof (cases "n \<le> length b")
    case True
    have "rep (tot big (addSmall ac (native big (take n b)), drop n b))
        (unat ac + kfac big * sum16 (take n b) + kfac big * sum16 (drop n b))"
      unfolding tot_def fst_conv snd_conv
      using assms True by (intro rep_add addSmall_rep native_lt rep_native rep_refl) auto
    also have "\<dots> = tot big (ac, b)"
      using split_sum16 [of n b] assms True by (simp add: tot_def algebra_simps)
    finally show ?thesis using True Pair by (simp add: stepSmall_def)
  qed (simp add: stepSmall_def Pair)
qed

lemma tot_stepLast:
  assumes "length (snd s) \<le> 1"
  shows "rep (unat (stepLast big s)) (tot big s)"
proof (cases s)
  case (Pair ac b)
  show ?thesis
  proof (cases b)
    case Nil
    then show ?thesis by (simp add: Pair stepLast_def tot_def)
  next
    case (Cons x r)
    then have b: "b = [x]" using assms Pair by simp
    have "rep (unat (addSmall ac (native big [x, 0]))) (unat ac + kfac big * sum16 [x, 0])"
      by (intro addSmall_rep native_lt rep_native) auto
    then show ?thesis by (simp add: Pair b stepLast_def tot_def)
  qed
qed

lemma length_steps:
  "length (snd s) < 16 * n \<Longrightarrow> length (snd (step8 big n s)) < 8 * n"
  "length (snd s) < 2 * m \<Longrightarrow> length (snd (stepSmall big m s)) < m"
  by (cases s; auto simp: step8_def stepSmall_def)+

lemma rep_checksumNoFold: "rep (unat (checksumNoFold big b initial)) (unat initial + sum16 b)"
proof -
  define ac where "ac = BE_Uint64 (native_put big initial)"
  define s0 where "s0 = loop128 big ac b"
  define s1 where "s1 = step8 big 1 (step8 big 2 (step8 big 4 (step8 big 8 s0)))"
  define s2 where "s2 = stepSmall big 2 (stepSmall big 4 s1)"
  have "length (snd s0) < 128" using tot_loop128 by (simp add: s0_def)
  then have "length (snd s1) < 8"
    using length_steps(1) [of _ 8] length_steps(1) [of _ 4] length_steps(1) [of _ 2]
      length_steps(1) [of _ 1] by (simp add: s1_def)
  then have "length (snd s2) < 2" using length_steps(2) [of _ 4] length_steps(2) [of _ 2] by (simp add: s2_def)
  then have "rep (unat (stepLast big s2)) (tot big s2)" by (intro tot_stepLast) simp
  also have "rep (tot big s2) (tot big s1)"
    unfolding s2_def by (rule rep_trans; rule tot_stepSmall) auto
  also have "rep (tot big s1) (tot big s0)"
    unfolding s1_def by (meson tot_step8 rep_trans)
  also have "rep (tot big s0) (tot big (ac, b))" using tot_loop128 by (simp add: s0_def)
  finally have "rep (unat (stepLast big s2)) (unat ac + kfac big * sum16 b)" by (simp add: tot_def)
  moreover have "rep (unat ac) (kfac big * unat initial)" unfolding ac_def by (rule rep_swap)
  then have "rep (unat ac + kfac big * sum16 b) (kfac big * unat initial + kfac big * sum16 b)"
    by (rule rep_add) simp
  ultimately have "rep (unat (stepLast big s2)) (kfac big * unat initial + kfac big * sum16 b)"
    by (rule rep_trans)
  then have "rep (unat (stepLast big s2)) (kfac big * (unat initial + sum16 b))"
    by (simp add: algebra_simps)
  then have "rep (kfac big * unat (stepLast big s2)) (kfac big * (kfac big * (unat initial + sum16 b)))"
    by (rule rep_mult)
  then have "rep (kfac big * unat (stepLast big s2)) (unat initial + sum16 b)"
    using kfac_twice rep_trans by blast
  moreover have "checksumNoFold big b initial = BE_Uint64 (native_put big (stepLast big s2))"
    by (simp add: checksumNoFold_def Let_def s2_def s1_def s0_def ac_def)
  ultimately show ?thesis using rep_swap rep_trans by metis
qed

subsection \<open>Folding to 16 bits\<close>

lemma unat_fold16: "unat (fold16 ac) = unat ac div 65536 + unat ac mod 65536"
proof -
  have d: "unat (drop_bit 16 ac) = unat ac div 65536"
    by (simp add: drop_bit_eq_div unat_div_distrib)
  have "ac AND 0xffff = take_bit 16 ac"
    by (simp add: take_bit_eq_mask mask_eq_exp_minus_1)
  then have m: "unat (ac AND 0xffff) = unat ac mod 65536"
    by (simp add: take_bit_eq_mod unat_mod_distrib)
  have "unat ac < 2 ^ 64" using unsigned_less [of ac, where ?'a = nat] by simp
  then have "unat ac div 65536 < 2 ^ 48" by (simp add: less_mult_imp_div_less)
  moreover have "unat ac mod 65536 < 65536" by simp
  ultimately have "unat ac div 65536 + unat ac mod 65536 < 2 ^ 48 + 65536" by linarith
  then have "unat ac div 65536 + unat ac mod 65536 < 2 ^ 64" by simp
  then show ?thesis by (simp add: fold16_def unat_word_ariths d m)
qed

lemma rep_fold: "rep (n div 65536 + n mod 65536) n"
  using rep_add [OF rep_sym [OF rep_carry [of "n div 65536"]] rep_refl [of "n mod 65536"]] by simp

lemma fold_bound: "n \<le> 65536 * k + 65534 \<Longrightarrow> 0 < k \<Longrightarrow> n div 65536 + n mod 65536 \<le> k + 65534"
  for n k :: nat
proof -
  assume n: "n \<le> 65536 * k + 65534" and k: "0 < k"
  have eq: "n = 65536 * (n div 65536) + n mod 65536" by simp
  show ?thesis
  proof (cases "n div 65536 < k")
    case True
    moreover have "n mod 65536 \<le> 65535" using mod_less_divisor [of 65536 n] by linarith
    ultimately show ?thesis by linarith
  next
    case False
    then have "k \<le> n div 65536" by simp
    then show ?thesis using n eq by linarith
  qed
qed

lemma checksum_folds:
  "\<exists>m. unat (fold16 (fold16 (fold16 (fold16 ac)))) = m \<and> m \<le> 65535 \<and> rep m (unat ac)"
proof -
  have "unat ac < 2 ^ 64" using unsigned_less [of ac, where ?'a = nat] by simp
  then have b0: "unat ac \<le> 65536 * 2 ^ 48 + 65534" by simp
  have b1: "unat (fold16 ac) \<le> 2 ^ 48 + 65534"
    unfolding unat_fold16 using fold_bound [OF b0] by simp
  have b2: "unat (fold16 (fold16 ac)) \<le> 2 ^ 32 + 65534"
    unfolding unat_fold16 [of "fold16 ac"] using fold_bound [of "unat (fold16 ac)" "2 ^ 32"] b1 by simp
  have b3: "unat (fold16 (fold16 (fold16 ac))) \<le> 2 ^ 16 + 65534"
    unfolding unat_fold16 [of "fold16 (fold16 ac)"]
    using fold_bound [of "unat (fold16 (fold16 ac))" "2 ^ 16"] b2 by simp
  have b4: "unat (fold16 (fold16 (fold16 (fold16 ac)))) \<le> 1 + 65534"
    unfolding unat_fold16 [of "fold16 (fold16 (fold16 ac))"]
    using fold_bound [of "unat (fold16 (fold16 (fold16 ac)))" 1] b3 by simp
  have r: "rep (unat (fold16 x)) (unat x)" for x by (simp add: unat_fold16 rep_fold)
  have "rep (unat (fold16 (fold16 (fold16 (fold16 ac))))) (unat ac)"
    using r rep_trans by meson
  then show ?thesis using b4 by auto
qed

lemma unat_checksum: "unat (checksum big b initial) = oc16 (sum16 b + unat initial)"
proof -
  obtain m where m: "unat (fold16 (fold16 (fold16 (fold16 (checksumNoFold big b initial))))) = m"
      "m \<le> 65535" "rep m (unat (checksumNoFold big b initial))" using checksum_folds by blast
  have "unat (checksum big b initial) = m mod 2 ^ 16"
    by (simp add: checksum_def Let_def m unsigned_ucast_eq take_bit_eq_mod)
  moreover have "m = oc16 (unat initial + sum16 b)"
    using rep_trans [OF m(3) rep_checksumNoFold] m(2) by (rule rep_oc16)
  ultimately show ?thesis using m(2) by (simp add: add.commute)
qed

lemma oc16_complement: "oc16 (s + (65535 - oc16 s)) = 65535"
proof (cases "s = 0")
  case False
  define q where "q = (s - 1) div 65535"
  have "(s - 1) mod 65535 \<le> 65534" using mod_less_divisor [of 65535 "s - 1"] by linarith
  moreover have "s = 65535 * q + ((s - 1) mod 65535 + 1)" using False by (simp add: q_def)
  ultimately have "s + (65535 - oc16 s) = 65535 * (q + 1)" using False by (simp add: oc16_def)
  moreover have "(65535 * (q + 1) - 1) mod 65535 = (65535 * q + 65534) mod 65535"
    by (rule arg_cong [where f = "\<lambda>x. x mod 65535"]) simp
  ultimately show ?thesis by (simp add: oc16_def)
qed (simp add: oc16_def)

lemma unat_not_u16: "unat (NOT (x :: u16)) = 65535 - unat x"
proof -
  have "NOT x = 65535 - x" by (simp add: not_eq_complement)
  moreover have "x \<le> 65535" using unsigned_less [of x, where ?'a = nat] by (simp add: word_le_nat_alt)
  ultimately show ?thesis by (simp add: unat_sub)
qed

lemma sum16_be16: "sum16 (BE_PutUint16 w @ r) = unat w + sum16 r"
proof -
  have "unat w < 65536" using unsigned_less [of w, where ?'a = nat] by simp
  then have "unat w div 256 mod 256 = unat w div 256" by simp
  moreover from this have "unat (word_of_nat (unat w div 256) :: byte) = unat w div 256"
    using unat_byte_of_nat [of "unat w div 256"] by simp
  ultimately show ?thesis
    by (simp add: BE_PutUint16_def be_bytes_def numeral_2_eq_2 mult.commute)
qed

lemma fill_verifies:
  assumes "even (length a)"
  shows "NOT (checksum big (a @ BE_PutUint16 (NOT (checksum big (a @ [0, 0] @ r) initial)) @ r) initial) = 0"
proof -
  let ?c = "checksum big (a @ [0, 0] @ r) initial"
  let ?s = "sum16 a + sum16 r + unat initial"
  have c: "unat ?c = oc16 ?s" using assms by (simp add: unat_checksum sum16_append)
  have "unat (checksum big (a @ BE_PutUint16 (NOT ?c) @ r) initial) = oc16 (?s + (65535 - oc16 ?s))"
    using assms c unat_not_u16 [of ?c]
    by (simp only: unat_checksum sum16_append sum16_be16) (simp add: algebra_simps)
  then have "unat (checksum big (a @ BE_PutUint16 (NOT ?c) @ r) initial) = 65535"
    by (simp only: oc16_complement)
  then have "unat (NOT (checksum big (a @ BE_PutUint16 (NOT ?c) @ r) initial)) = 0"
    by (simp only: unat_not_u16)
  then show ?thesis by (simp only: unsigned_eq_0_iff)
qed

subsection \<open>Properties\<close>

text \<open>C29.  \<open>checksum\<close> computes the one's complement sum of the big-endian 16-bit words of its
  input (RFC 1071) plus the initial value, folded to 16 bits, on machines of either byte
  order and for every length: no carry of the 64-bit accumulation is lost and four folds are
  enough.\<close>

theorem checksum_correct: "unat (checksum big b initial) = oc16 (sum16 b + unat initial)"
  by (rule unat_checksum)

text \<open>C30.  A checksum field filled the way the code fills it verifies: storing the complement of
  the checksum at an even offset where the field was zero makes the complemented checksum of
  the whole equal to zero, which is what \<open>checksumValid\<close> tests.\<close>

theorem checksum_fill_verifies:
  assumes "even (length a)"
  shows "NOT (checksum big (a @ BE_PutUint16 (NOT (checksum big (a @ [0, 0] @ r) initial)) @ r) initial) = 0"
  using assms by (rule fill_verifies)

theorem checksum_fill_verifies_witness:
  "NOT (checksum False ([1, 2] @ BE_PutUint16 (NOT (checksum False ([1, 2] @ [0, 0] @ [9, 8, 7]) 5)) @ [9, 8, 7]) 5) = 0"
  using checksum_fill_verifies [of "[1, 2]" False "[9, 8, 7]" 5] by simp

text \<open>The pseudo-header sum adds addresses, protocol and length.\<close>

lemma pseudoHeader_sum:
  "rep (unat (pseudoHeaderChecksumNoFold big protocol srcAddr dstAddr totalLen))
     (sum16 srcAddr + sum16 dstAddr + unat protocol + unat totalLen)"
proof -
  let ?s1 = "checksumNoFold big srcAddr 0"
  let ?s2 = "checksumNoFold big dstAddr ?s1"
  let ?s3 = "checksumNoFold big [0, protocol] ?s2"
  have "rep (unat (checksumNoFold big (BE_PutUint16 totalLen) ?s3)) (unat ?s3 + unat totalLen)"
    using rep_checksumNoFold [of big "BE_PutUint16 totalLen" ?s3] sum16_be16 [of totalLen "[]"] by simp
  moreover have "rep (unat ?s3) (unat ?s2 + unat protocol)"
    using rep_checksumNoFold [of big "[0, protocol]" ?s2] by simp
  moreover have "rep (unat ?s2) (unat ?s1 + sum16 dstAddr)" by (rule rep_checksumNoFold)
  moreover have "rep (unat ?s1) (sum16 srcAddr)"
    using rep_checksumNoFold [of big srcAddr 0] by simp
  ultimately show ?thesis
    unfolding pseudoHeaderChecksumNoFold_def Let_def
    by (meson rep_add rep_refl rep_trans)
qed

end
