(* ===== verification/Slices.thy ===== *)
theory Slices
  imports Checksum "HOL-Library.Monad_Syntax"
begin

text \<open>
  Go slices with a capacity, and the accesses of \<open>encoding/binary\<close> that panic.  A \<open>gslice\<close> is the
  part of the backing array from the slice's first element to its capacity, with the slice's
  length.  \<open>b[k]\<close> and \<open>b[lo:]\<close> are checked against the length, \<open>b[lo:hi]\<close> against the capacity; a
  failed check is a panic, the value \<open>None\<close>.  A buffer whose length is its capacity is a plain list.
\<close>

record gslice =
  backing :: bytes
  slen :: nat

definition content :: "gslice \<Rightarrow> bytes" where
  "content s = take (slen s) (backing s)"

definition capacity :: "gslice \<Rightarrow> nat" where
  "capacity s = length (backing s)"

definition slice_ok :: "gslice \<Rightarrow> bool" where
  "slice_ok s \<longleftrightarrow> slen s \<le> capacity s"

definition elem_at :: "bytes \<Rightarrow> nat \<Rightarrow> byte option" where
  "elem_at b k = (if k < length b then Some (b ! k) else None)"

definition sub :: "nat \<Rightarrow> nat \<Rightarrow> bytes \<Rightarrow> bytes option" where
  "sub lo hi b = (if lo \<le> hi \<and> hi \<le> length b then Some (slice lo hi b) else None)"

definition tail_from :: "nat \<Rightarrow> bytes \<Rightarrow> bytes option" where
  "tail_from lo b = (if lo \<le> length b then Some (drop lo b) else None)"

definition set_elem :: "nat \<Rightarrow> byte \<Rightarrow> bytes \<Rightarrow> bytes option" where
  "set_elem k v b = (if k < length b then Some (b[k := v]) else None)"

definition get16 :: "nat \<Rightarrow> bytes \<Rightarrow> u16 option" where
  "get16 k b = (if k + 2 \<le> length b then Some (BE_Uint16 (drop k b)) else None)"

definition get32 :: "nat \<Rightarrow> bytes \<Rightarrow> u32 option" where
  "get32 k b = (if k + 4 \<le> length b then Some (BE_Uint32 (drop k b)) else None)"

definition put16 :: "nat \<Rightarrow> u16 \<Rightarrow> bytes \<Rightarrow> bytes option" where
  "put16 k w b = (if k + 2 \<le> length b then Some (go_copy b k (BE_PutUint16 w)) else None)"

definition put32 :: "nat \<Rightarrow> u32 \<Rightarrow> bytes \<Rightarrow> bytes option" where
  "put32 k w b = (if k + 4 \<le> length b then Some (go_copy b k (BE_PutUint32 w)) else None)"

definition copy_to :: "nat \<Rightarrow> bytes \<Rightarrow> bytes \<Rightarrow> bytes option" where
  "copy_to k src b = (if k \<le> length b then Some (go_copy b k src) else None)"

text \<open>Writes through a slice change the array below its length; \<open>append(s, make([]byte, n)...)\<close>
  extends it in place when the capacity allows and moves to a fresh array otherwise (the runtime
  may round the new capacity up).\<close>

definition upd_content :: "bytes \<Rightarrow> gslice \<Rightarrow> gslice" where
  "upd_content c s = s\<lparr>backing := c @ drop (slen s) (backing s)\<rparr>"

definition append_zeros :: "nat \<Rightarrow> gslice \<Rightarrow> gslice" where
  "append_zeros n s =
     (if slen s + n \<le> capacity s
      then s\<lparr>backing := go_copy (backing s) (slen s) (replicate n 0), slen := slen s + n\<rparr>
      else \<lparr>backing = content s @ replicate n 0, slen = slen s + n\<rparr>)"

definition append_slice :: "gslice \<Rightarrow> bytes \<Rightarrow> gslice" where
  "append_slice s d =
     (if slen s + length d \<le> capacity s
      then s\<lparr>backing := go_copy (backing s) (slen s) d, slen := slen s + length d\<rparr>
      else \<lparr>backing = content s @ d, slen = slen s + length d\<rparr>)"

definition tail_slice :: "nat \<Rightarrow> gslice \<Rightarrow> gslice option" where
  "tail_slice lo s =
     (if lo \<le> slen s then Some \<lparr>backing = drop lo (backing s), slen = slen s - lo\<rparr> else None)"

definition nth_buf :: "'a list \<Rightarrow> nat \<Rightarrow> 'a option" where
  "nth_buf bufs i = (if i < length bufs then Some (bufs ! i) else None)"

named_theorems checked \<open>when a checked access succeeds, and with which value\<close>

lemma checked_Some [checked]:
  "elem_at b k = Some v \<longleftrightarrow> k < length b \<and> v = b ! k"
  "sub lo hi b = Some c \<longleftrightarrow> lo \<le> hi \<and> hi \<le> length b \<and> c = slice lo hi b"
  "tail_from lo b = Some c \<longleftrightarrow> lo \<le> length b \<and> c = drop lo b"
  "set_elem k x b = Some c \<longleftrightarrow> k < length b \<and> c = b[k := x]"
  "get16 k b = Some w \<longleftrightarrow> k + 2 \<le> length b \<and> w = BE_Uint16 (drop k b)"
  "get32 k b = Some u \<longleftrightarrow> k + 4 \<le> length b \<and> u = BE_Uint32 (drop k b)"
  "put16 k y b = Some c \<longleftrightarrow> k + 2 \<le> length b \<and> c = go_copy b k (BE_PutUint16 y)"
  "put32 k z b = Some c \<longleftrightarrow> k + 4 \<le> length b \<and> c = go_copy b k (BE_PutUint32 z)"
  "copy_to k d b = Some c \<longleftrightarrow> k \<le> length b \<and> c = go_copy b k d"
  "tail_slice lo s = Some r \<longleftrightarrow> lo \<le> slen s \<and> r = \<lparr>backing = drop lo (backing s), slen = slen s - lo\<rparr>"
  "nth_buf bufs i = Some x \<longleftrightarrow> i < length bufs \<and> x = bufs ! i"
  by (auto simp: elem_at_def sub_def tail_from_def set_elem_def get16_def get32_def put16_def put32_def
      copy_to_def tail_slice_def nth_buf_def)

lemma length_content [simp]: "slice_ok s \<Longrightarrow> length (content s) = slen s"
  by (simp add: content_def slice_ok_def capacity_def)

lemma content_upd_content [simp]: "length c = slen s \<Longrightarrow> content (upd_content c s) = c"
  by (simp add: content_def upd_content_def)

lemma upd_content_sel [simp]:
  "slen (upd_content c s) = slen s"
  "length c = slen s \<Longrightarrow> slice_ok s \<Longrightarrow> slice_ok (upd_content c s)"
  "length c = slen s \<Longrightarrow> slice_ok s \<Longrightarrow> capacity (upd_content c s) = capacity s"
  by (auto simp: upd_content_def slice_ok_def capacity_def)

lemma content_append_zeros [simp]:
  "slice_ok s \<Longrightarrow> content (append_zeros n s) = content s @ replicate n 0"
  by (auto simp: append_zeros_def content_def go_copy_def slice_ok_def capacity_def min_def)

lemma append_zeros_sel [simp]:
  "slen (append_zeros n s) = slen s + n"
  "slice_ok s \<Longrightarrow> slice_ok (append_zeros n s)"
  "slen s + n \<le> capacity s \<Longrightarrow> capacity (append_zeros n s) = capacity s"
  by (auto simp: append_zeros_def slice_ok_def capacity_def)

lemma append_slice_ok [simp]:
  assumes "slice_ok s"
  shows "content (append_slice s d) = content s @ d" "slen (append_slice s d) = slen s + length d"
    "slice_ok (append_slice s d)" "slen s + length d \<le> capacity s \<Longrightarrow> capacity (append_slice s d) = capacity s"
  using assms by (auto simp: append_slice_def content_def go_copy_def slice_ok_def capacity_def min_def)

subsection \<open>Reading back what was copied\<close>

lemma go_copy_fits:
  "off + length src \<le> length dst \<Longrightarrow>
    go_copy dst off src = take off dst @ src @ drop (off + length src) dst"
  by (simp add: go_copy_def)

lemma nth_go_copy:
  "off + length src \<le> length dst \<Longrightarrow> k < length dst \<Longrightarrow>
    go_copy dst off src ! k = (if off \<le> k \<and> k < off + length src then src ! (k - off) else dst ! k)"
  by (auto simp: go_copy_def nth_append)

lemma take_go_copy [simp]:
  "off + length src \<le> n \<Longrightarrow> n \<le> length dst \<Longrightarrow> take n (go_copy dst off src) = go_copy (take n dst) off src"
  by (rule nth_equalityI) (auto simp: nth_go_copy)

lemma take_go_copy_before [simp]:
  "n \<le> off \<Longrightarrow> off + length src \<le> length dst \<Longrightarrow> take n (go_copy dst off src) = take n dst"
  by (simp add: go_copy_def min_def)

lemma drop_go_copy_after [simp]:
  "off + length src \<le> n \<Longrightarrow> n \<le> length dst \<Longrightarrow> drop n (go_copy dst off src) = drop n dst"
  by (rule nth_equalityI) (auto simp: nth_go_copy)

lemma drop_go_copy:
  "n \<le> off \<Longrightarrow> off + length src \<le> length dst \<Longrightarrow>
    drop n (go_copy dst off src) = go_copy (drop n dst) (off - n) src"
  by (rule nth_equalityI) (auto simp: nth_go_copy add.commute)

lemma slice_go_copy_apart:
  "hi \<le> off \<or> off + length src \<le> lo \<Longrightarrow> lo \<le> hi \<Longrightarrow> hi \<le> length dst \<Longrightarrow> off + length src \<le> length dst \<Longrightarrow>
    slice lo hi (go_copy dst off src) = slice lo hi dst"
  by (rule nth_equalityI) (auto simp: nth_go_copy slice_def)

lemma slice_go_copy_same:
  "off + length src \<le> length dst \<Longrightarrow> slice off (off + length src) (go_copy dst off src) = src"
  by (simp add: go_copy_def slice_def)

lemma BE_Uint16_slice: "BE_Uint16 (drop k b) = BE_Uint16 (slice k (k + 2) b)"
  by (simp add: BE_Uint16_def slice_def)

lemma BE_Uint32_slice: "BE_Uint32 (drop k b) = BE_Uint32 (slice k (k + 4) b)"
  by (simp add: BE_Uint32_def slice_def)

lemma BE_Uint16_go_copy [simp]:
  "k + 2 \<le> length b \<Longrightarrow> BE_Uint16 (drop k (go_copy b k (BE_PutUint16 w))) = w"
  using slice_go_copy_same [of k "BE_PutUint16 w" b] BE_Uint16_Put [of w "[]"]
  by (simp only: BE_Uint16_slice length_Put append_Nil2)

lemma BE_Uint32_go_copy [simp]:
  "k + 4 \<le> length b \<Longrightarrow> BE_Uint32 (drop k (go_copy b k (BE_PutUint32 w))) = w"
  using slice_go_copy_same [of k "BE_PutUint32 w" b] BE_Uint32_Put [of w "[]"]
  by (simp only: BE_Uint32_slice length_Put append_Nil2)

subsection \<open>Filling a checksum field\<close>

lemma fill_field:
  assumes "even k" "k + 2 \<le> length b" "b ! k = 0" "b ! Suc k = 0"
  shows "NOT (checksum big (go_copy b k (BE_PutUint16 (NOT (checksum big b initial)))) initial) = 0"
proof -
  have b: "b = take k b @ [0, 0] @ drop (k + 2) b"
    using assms(2-4) by (metis (no_types, lifting) Cons_nth_drop_Suc Suc_le_lessD add_2_eq_Suc'
        append_Cons append_Nil append_take_drop_id less_SucI Suc_lessD)
  have "even (length (take k b))" using assms(1,2) by simp
  note f = fill_verifies [OF this, of big "drop (k + 2) b" initial]
  have "go_copy b k (BE_PutUint16 (NOT (checksum big b initial))) =
      take k b @ BE_PutUint16 (NOT (checksum big b initial)) @ drop (k + 2) b"
    using assms(2) by (simp add: go_copy_fits)
  then show ?thesis using f b by metis
qed

end
