(* ===== verification/Gso.thy ===== *)
theory Gso
  imports Slices
begin

text \<open>
  tun/offload_linux.go and tun/tun_linux.go, the reading side: the virtio header the kernel puts in
  front of every packet, \<open>gsoSplit\<close>, which cuts a packet the kernel left unsegmented into packets of
  \<open>gsoSize\<close> payload bytes, \<open>gsoNoneChecksum\<close>, and \<open>handleVirtioRead\<close>, which validates the header
  and calls them.  The packet read is a \<open>gslice\<close> (the read buffer is longer than the packet); the
  buffers written are whole arrays, as \<open>RoutineReadFromTUN\<close> passes them.  \<open>None\<close> is a panic.  The
  constants of package \<open>unix\<close> are those of the kernel's headers.
\<close>

subsection \<open>The virtio header\<close>

record virtioNetHdr =
  flags :: byte
  gsoType :: byte
  hdrLen :: u16
  gsoSize :: u16
  csumStart :: u16
  csumOffset :: u16

definition virtioNetHdrLen :: nat where
  "virtioNetHdrLen = 10"

datatype tun_error = ErrShortBuffer | ErrTooManySegments | Overflows | UnsupportedGSOType
  | GSOTypeMismatch | InvalidIPVersion | PacketTooShort | InvalidTCPHeaderLen | HdrLenTooLong
  | HdrLenBeforeCsum | CsumBeyondPacket | InvalidOffset

definition native16 :: "bool \<Rightarrow> u16 \<Rightarrow> bytes" where
  "native16 big w = (if big then be_bytes 2 (unat w) else le_bytes 2 (unat w))"

definition read16 :: "bool \<Rightarrow> bytes \<Rightarrow> u16" where
  "read16 big b = word_of_nat (native big b)"

definition hdr_bytes :: "bool \<Rightarrow> virtioNetHdr \<Rightarrow> bytes" where
  "hdr_bytes big v = [flags v, gsoType v] @ native16 big (hdrLen v) @ native16 big (gsoSize v) @
     native16 big (csumStart v) @ native16 big (csumOffset v)"

definition decode :: "bool \<Rightarrow> bytes \<Rightarrow> tun_error + virtioNetHdr" where
  "decode big b =
     (if length b < virtioNetHdrLen then Inl ErrShortBuffer
      else Inr \<lparr>flags = b ! 0, gsoType = b ! 1, hdrLen = read16 big (slice 2 4 b),
        gsoSize = read16 big (slice 4 6 b), csumStart = read16 big (slice 6 8 b),
        csumOffset = read16 big (slice 8 10 b)\<rparr>)"

definition encode :: "bool \<Rightarrow> virtioNetHdr \<Rightarrow> bytes \<Rightarrow> tun_error + bytes" where
  "encode big v b =
     (if length b < virtioNetHdrLen then Inl ErrShortBuffer
      else Inr (go_copy b 0 (hdr_bytes big v)))"

subsection \<open>Constants\<close>

definition VIRTIO_NET_HDR_F_NEEDS_CSUM :: byte where "VIRTIO_NET_HDR_F_NEEDS_CSUM = 1"
definition VIRTIO_NET_HDR_GSO_NONE :: byte where "VIRTIO_NET_HDR_GSO_NONE = 0"
definition VIRTIO_NET_HDR_GSO_TCPV4 :: byte where "VIRTIO_NET_HDR_GSO_TCPV4 = 1"
definition VIRTIO_NET_HDR_GSO_TCPV6 :: byte where "VIRTIO_NET_HDR_GSO_TCPV6 = 4"
definition VIRTIO_NET_HDR_GSO_UDP_L4 :: byte where "VIRTIO_NET_HDR_GSO_UDP_L4 = 5"
definition IPPROTO_TCP :: byte where "IPPROTO_TCP = 6"
definition IPPROTO_UDP :: byte where "IPPROTO_UDP = 17"
definition tcpFlagsOffset :: nat where "tcpFlagsOffset = 13"
definition tcpFlagFIN :: byte where "tcpFlagFIN = 0x01"
definition tcpFlagPSH :: byte where "tcpFlagPSH = 0x08"
definition tcpFlagACK :: byte where "tcpFlagACK = 0x10"
definition ipv4SrcAddrOffset :: nat where "ipv4SrcAddrOffset = 12"
definition ipv6SrcAddrOffset :: nat where "ipv6SrcAddrOffset = 8"
definition maxUint16 :: nat where "maxUint16 = 65535"
definition udphLen :: nat where "udphLen = 8"

lemmas offload_consts = VIRTIO_NET_HDR_F_NEEDS_CSUM_def VIRTIO_NET_HDR_GSO_NONE_def
  VIRTIO_NET_HDR_GSO_TCPV4_def VIRTIO_NET_HDR_GSO_TCPV6_def VIRTIO_NET_HDR_GSO_UDP_L4_def
  IPPROTO_TCP_def IPPROTO_UDP_def tcpFlagsOffset_def tcpFlagFIN_def tcpFlagPSH_def tcpFlagACK_def
  ipv4SrcAddrOffset_def ipv6SrcAddrOffset_def maxUint16_def udphLen_def virtioNetHdrLen_def

subsection \<open>Checksums of whole packets\<close>

definition srcAddrAt :: "bool \<Rightarrow> nat" where
  "srcAddrAt isV6 = (if isV6 then ipv6SrcAddrOffset else ipv4SrcAddrOffset)"

definition addrSize :: "bool \<Rightarrow> nat" where
  "addrSize isV6 = (if isV6 then 16 else 4)"

definition pseudo :: "bool \<Rightarrow> byte \<Rightarrow> bool \<Rightarrow> bytes \<Rightarrow> u16 \<Rightarrow> u64 option" where
  "pseudo big proto isV6 pkt lenForPseudo = do {
     src \<leftarrow> sub (srcAddrAt isV6) (srcAddrAt isV6 + addrSize isV6) pkt;
     dst \<leftarrow> sub (srcAddrAt isV6 + addrSize isV6) (srcAddrAt isV6 + addrSize isV6 * 2) pkt;
     Some (pseudoHeaderChecksumNoFold big proto src dst lenForPseudo)}"

definition checksumValid :: "bool \<Rightarrow> gslice \<Rightarrow> byte \<Rightarrow> byte \<Rightarrow> bool \<Rightarrow> bool option" where
  "checksumValid big pkt iphLen proto isV6 = do {
     let lenForPseudo = (word_of_int (int (slen pkt) - int (unat iphLen)) :: u16);
     cSum \<leftarrow> pseudo big proto isV6 (backing pkt) lenForPseudo;
     t \<leftarrow> tail_from (unat iphLen) (content pkt);
     Some (NOT (checksum big t cSum) = 0)}"

definition gsoNoneChecksum :: "bool \<Rightarrow> bytes \<Rightarrow> u16 \<Rightarrow> u16 \<Rightarrow> bytes option" where
  "gsoNoneChecksum big b cSumStart cSumOffset = do {
     let cSumAt = cSumStart + cSumOffset;
     initial \<leftarrow> get16 (unat cSumAt) b;
     b \<leftarrow> set_elem (unat cSumAt) 0 b;
     b \<leftarrow> set_elem (unat (cSumAt + 1)) 0 b;
     t \<leftarrow> tail_from (unat cSumStart) b;
     put16 (unat cSumAt) (NOT (checksum big t (ucast initial))) b}"

subsection \<open>gsoSplit\<close>

definition isTCP :: "virtioNetHdr \<Rightarrow> bool" where
  "isTCP hdr \<longleftrightarrow> gsoType hdr = VIRTIO_NET_HDR_GSO_TCPV4 \<or> gsoType hdr = VIRTIO_NET_HDR_GSO_TCPV6"

definition protocol :: "virtioNetHdr \<Rightarrow> byte" where
  "protocol hdr = (if isTCP hdr then IPPROTO_TCP else IPPROTO_UDP)"

text \<open>The statements before the loop: the checksums of the packet read are cleared in place and
  the first sequence number is read.\<close>

definition gsoClear :: "gslice \<Rightarrow> virtioNetHdr \<Rightarrow> bool \<Rightarrow> (gslice \<times> u32) option" where
  "gsoClear inp hdr isV6 = do {
     b \<leftarrow> (if isV6 then Some (content inp)
          else do {b \<leftarrow> set_elem 10 0 (content inp); set_elem 11 0 b});
     let transportCsumAt = unat (csumStart hdr + csumOffset hdr);
     b \<leftarrow> set_elem transportCsumAt 0 b;
     b \<leftarrow> set_elem (transportCsumAt + 1) 0 b;
     firstTCPSeqNum \<leftarrow> (if isTCP hdr then get32 (unat (csumStart hdr + 4)) b else Some 0);
     Some (upd_content b inp, firstTCPSeqNum)}"

text \<open>The body of the loop, writing segment \<open>i\<close> of the bytes from \<open>start\<close> to \<open>stop\<close> into \<open>out\<close>.\<close>

definition ipHeader :: "bool \<Rightarrow> bytes \<Rightarrow> nat \<Rightarrow> nat \<Rightarrow> nat \<Rightarrow> bool \<Rightarrow> bytes \<Rightarrow> bytes option" where
  "ipHeader big inp iphLen i totalLen isV6 out = do {
     h \<leftarrow> sub 0 iphLen inp;
     let out = go_copy out 0 h;
     if isV6 then put16 4 (word_of_int (int totalLen - int iphLen)) out
     else do {
       out \<leftarrow> (if i > 0 then do {ident \<leftarrow> get16 4 out; put16 4 (ident + word_of_nat i) out} else Some out);
       out \<leftarrow> put16 2 (word_of_nat totalLen) out;
       iph \<leftarrow> sub 0 iphLen out;
       put16 10 (NOT (checksum big iph 0)) out}}"

definition transportHdr ::
    "bytes \<Rightarrow> virtioNetHdr \<Rightarrow> u32 \<Rightarrow> nat \<Rightarrow> nat \<Rightarrow> bool \<Rightarrow> bytes \<Rightarrow> bytes option" where
  "transportHdr inp hdr firstTCPSeqNum i segmentDataLen lastSegment out = do {
     t \<leftarrow> sub (unat (csumStart hdr)) (unat (hdrLen hdr)) inp;
     _ \<leftarrow> sub (unat (csumStart hdr)) (unat (hdrLen hdr)) out;
     let out = go_copy out (unat (csumStart hdr)) t;
     if isTCP hdr then do {
       let tcpSeq = firstTCPSeqNum + ucast (gsoSize hdr * word_of_nat i);
       out \<leftarrow> put32 (unat (csumStart hdr + 4)) tcpSeq out;
       if lastSegment then Some out
       else do {
         let k = unat (csumStart hdr + word_of_nat tcpFlagsOffset);
         f \<leftarrow> elem_at out k;
         set_elem k (f AND NOT (tcpFlagFIN OR tcpFlagPSH)) out}}
     else put16 (unat (csumStart hdr + 4)) (word_of_nat segmentDataLen + (hdrLen hdr - csumStart hdr)) out}"

definition transportCSum ::
    "bool \<Rightarrow> bytes \<Rightarrow> virtioNetHdr \<Rightarrow> nat \<Rightarrow> nat \<Rightarrow> bool \<Rightarrow> bytes \<Rightarrow> bytes option" where
  "transportCSum big inp hdr segmentDataLen totalLen isV6 out = do {
     let transportHeaderLen = unat (hdrLen hdr - csumStart hdr);
     let lenForPseudo = word_of_nat (transportHeaderLen + segmentDataLen);
     noFold \<leftarrow> pseudo big (protocol hdr) isV6 inp lenForPseudo;
     t \<leftarrow> sub (unat (csumStart hdr)) totalLen out;
     put16 (unat (csumStart hdr + csumOffset hdr)) (NOT (checksum big t noFold)) out}"

definition segment ::
    "bool \<Rightarrow> gslice \<Rightarrow> virtioNetHdr \<Rightarrow> u32 \<Rightarrow> bool \<Rightarrow> nat \<Rightarrow> nat \<Rightarrow> nat \<Rightarrow> bytes \<Rightarrow> bytes option" where
  "segment big inp hdr firstTCPSeqNum isV6 i start stop out = do {
     let segmentDataLen = stop - start;
     let totalLen = unat (hdrLen hdr) + segmentDataLen;
     out \<leftarrow> ipHeader big (backing inp) (unat (csumStart hdr)) i totalLen isV6 out;
     out \<leftarrow> transportHdr (backing inp) hdr firstTCPSeqNum i segmentDataLen (stop = slen inp) out;
     payload \<leftarrow> sub start stop (backing inp);
     out \<leftarrow> copy_to (unat (hdrLen hdr)) payload out;
     transportCSum big (backing inp) hdr segmentDataLen totalLen isV6 out}"

text \<open>Every iteration takes one buffer, so the loop ends even when \<open>gsoSize\<close> is 0.\<close>

function gsoLoop ::
    "bool \<Rightarrow> gslice \<Rightarrow> virtioNetHdr \<Rightarrow> u32 \<Rightarrow> bool \<Rightarrow> nat \<Rightarrow> nat \<Rightarrow> nat \<Rightarrow> bytes list \<Rightarrow> nat list \<Rightarrow>
     (bytes list \<times> nat list \<times> int \<times> tun_error option) option" where
  "gsoLoop big inp hdr firstTCPSeqNum isV6 outOffset nextSegmentDataAt i outBuffs sizes =
     (if nextSegmentDataAt < slen inp then
        if i \<ge> length outBuffs then Some (outBuffs, sizes, int i - 1, Some ErrTooManySegments)
        else if i \<ge> length sizes then None
        else do {
          let nextSegmentEnd = min (nextSegmentDataAt + unat (gsoSize hdr)) (slen inp);
          let sizes = sizes[i := unat (hdrLen hdr) + (nextSegmentEnd - nextSegmentDataAt)];
          out \<leftarrow> tail_from outOffset (outBuffs ! i);
          out \<leftarrow> segment big inp hdr firstTCPSeqNum isV6 i nextSegmentDataAt nextSegmentEnd out;
          gsoLoop big inp hdr firstTCPSeqNum isV6 outOffset (nextSegmentDataAt + unat (gsoSize hdr))
            (Suc i) (outBuffs[i := take outOffset (outBuffs ! i) @ out]) sizes}
      else Some (outBuffs, sizes, int i, None))"
  by pat_completeness auto
termination
  by (relation "measure (\<lambda>(big, inp, hdr, seq, isV6, off, next, i, bufs, sizes). length bufs - i)") auto

declare gsoLoop.simps [simp del]

definition gsoSplit ::
    "bool \<Rightarrow> gslice \<Rightarrow> virtioNetHdr \<Rightarrow> bytes list \<Rightarrow> nat list \<Rightarrow> nat \<Rightarrow> bool \<Rightarrow>
     (bytes list \<times> nat list \<times> int \<times> tun_error option) option" where
  "gsoSplit big inp hdr outBuffs sizes outOffset isV6 = do {
     (inp, firstTCPSeqNum) \<leftarrow> gsoClear inp hdr isV6;
     gsoLoop big inp hdr firstTCPSeqNum isV6 outOffset (unat (hdrLen hdr)) 0 outBuffs sizes}"

subsection \<open>handleVirtioRead\<close>

definition typeFits :: "virtioNetHdr \<Rightarrow> byte \<Rightarrow> tun_error option" where
  "typeFits hdr ipVersion =
     (if ipVersion = 4 then
        if gsoType hdr \<noteq> VIRTIO_NET_HDR_GSO_TCPV4 \<and> gsoType hdr \<noteq> VIRTIO_NET_HDR_GSO_UDP_L4
        then Some GSOTypeMismatch else None
      else if ipVersion = 6 then
        if gsoType hdr \<noteq> VIRTIO_NET_HDR_GSO_TCPV6 \<and> gsoType hdr \<noteq> VIRTIO_NET_HDR_GSO_UDP_L4
        then Some GSOTypeMismatch else None
      else Some InvalidIPVersion)"

definition fixHdrLen :: "bytes \<Rightarrow> virtioNetHdr \<Rightarrow> (tun_error + virtioNetHdr) option" where
  "fixHdrLen b hdr =
     (if gsoType hdr = VIRTIO_NET_HDR_GSO_UDP_L4 then Some (Inr (hdr\<lparr>hdrLen := csumStart hdr + 8\<rparr>))
      else if length b \<le> unat (csumStart hdr + 12) then Some (Inl PacketTooShort)
      else do {
        x \<leftarrow> elem_at b (unat (csumStart hdr + 12));
        let tcpHLen = (ucast (drop_bit 4 x * 4) :: u16);
        if tcpHLen < 20 \<or> tcpHLen > 60 then Some (Inl InvalidTCPHeaderLen)
        else Some (Inr (hdr\<lparr>hdrLen := csumStart hdr + tcpHLen\<rparr>))})"

definition checkHdr :: "bytes \<Rightarrow> virtioNetHdr \<Rightarrow> tun_error option" where
  "checkHdr b hdr =
     (if length b < unat (hdrLen hdr) then Some HdrLenTooLong
      else if hdrLen hdr < csumStart hdr then Some HdrLenBeforeCsum
      else if unat (csumStart hdr + csumOffset hdr) + 1 \<ge> length b then Some CsumBeyondPacket
      else None)"

definition handleVirtioRead ::
    "bool \<Rightarrow> gslice \<Rightarrow> bytes list \<Rightarrow> nat list \<Rightarrow> nat \<Rightarrow>
     (bytes list \<times> nat list \<times> int \<times> tun_error option) option" where
  "handleVirtioRead big inp bufs sizes offset =
     (case decode big (content inp) of
        Inl err \<Rightarrow> Some (bufs, sizes, 0, Some err)
      | Inr hdr \<Rightarrow> do {
          let inp = \<lparr>backing = drop virtioNetHdrLen (backing inp), slen = slen inp - virtioNetHdrLen\<rparr>;
          if gsoType hdr = VIRTIO_NET_HDR_GSO_NONE then do {
            b \<leftarrow> (if flags hdr AND VIRTIO_NET_HDR_F_NEEDS_CSUM \<noteq> 0
                 then gsoNoneChecksum big (content inp) (csumStart hdr) (csumOffset hdr)
                 else Some (content inp));
            if bufs = [] then None
            else do {
              out \<leftarrow> tail_from offset (bufs ! 0);
              if length b > length out then Some (bufs, sizes, 0, Some Overflows)
              else if sizes = [] then None
              else Some (bufs[0 := take offset (bufs ! 0) @ go_copy out 0 b], sizes[0 := length b], 1, None)}}
          else if \<not> isTCP hdr \<and> gsoType hdr \<noteq> VIRTIO_NET_HDR_GSO_UDP_L4
          then Some (bufs, sizes, 0, Some UnsupportedGSOType)
          else do {
            x \<leftarrow> elem_at (content inp) 0;
            let ipVersion = drop_bit 4 x;
            case typeFits hdr ipVersion of
              Some err \<Rightarrow> Some (bufs, sizes, 0, Some err)
            | None \<Rightarrow> do {
                fixed \<leftarrow> fixHdrLen (content inp) hdr;
                case fixed of
                  Inl err \<Rightarrow> Some (bufs, sizes, 0, Some err)
                | Inr hdr \<Rightarrow>
                    (case checkHdr (content inp) hdr of
                       Some err \<Rightarrow> Some (bufs, sizes, 0, Some err)
                     | None \<Rightarrow> gsoSplit big inp hdr bufs sizes offset (ipVersion = 6))}}})"

subsection \<open>What one segment holds\<close>

text \<open>The header describes the packet: the transport header starts after the IP header, which fits
  the checksum's byte for it, and holds its checksum field where its protocol has it.\<close>

definition hdr_ok :: "virtioNetHdr \<Rightarrow> bool \<Rightarrow> bool" where
  "hdr_ok hdr isV6 \<longleftrightarrow> even (unat (csumStart hdr)) \<and> unat (csumStart hdr) < 256 \<and>
     (if isV6 then 40 else 20) \<le> unat (csumStart hdr) \<and>
     unat (csumStart hdr) + (if isTCP hdr then 20 else 8) \<le> unat (hdrLen hdr) \<and>
     unat (csumOffset hdr) = (if isTCP hdr then 16 else 6)"

definition cleared :: "virtioNetHdr \<Rightarrow> bool \<Rightarrow> bytes \<Rightarrow> bool" where
  "cleared hdr isV6 b \<longleftrightarrow> (isV6 \<or> b ! 10 = 0 \<and> b ! 11 = 0) \<and>
     b ! (unat (csumStart hdr) + unat (csumOffset hdr)) = 0 \<and>
     b ! Suc (unat (csumStart hdr) + unat (csumOffset hdr)) = 0"

text \<open>\<open>s\<close> is segment \<open>i\<close> of the packet \<open>b\<close> of \<open>n\<close> bytes, with the payload from \<open>start\<close> to \<open>stop\<close>.\<close>

definition segment_ok ::
    "bool \<Rightarrow> bytes \<Rightarrow> nat \<Rightarrow> virtioNetHdr \<Rightarrow> u32 \<Rightarrow> bool \<Rightarrow> nat \<Rightarrow> nat \<Rightarrow> nat \<Rightarrow> bytes \<Rightarrow> bool" where
  "segment_ok big b n hdr seq isV6 i start stop s \<longleftrightarrow>
     (let cs = unat (csumStart hdr); hl = unat (hdrLen hdr) in
      length s = hl + (stop - start) \<and> drop hl s = slice start stop b \<and>
      checksumValid big \<lparr>backing = s, slen = length s\<rparr> (ucast (csumStart hdr)) (protocol hdr) isV6 = Some True \<and>
      slice (srcAddrAt isV6) (srcAddrAt isV6 + addrSize isV6 * 2) s =
        slice (srcAddrAt isV6) (srcAddrAt isV6 + addrSize isV6 * 2) b \<and>
      (if isV6 then unat (BE_Uint16 (drop 4 s)) = length s - cs
       else NOT (checksum big (take cs s) 0) = 0 \<and> unat (BE_Uint16 (drop 2 s)) = length s \<and>
         BE_Uint16 (drop 4 s) = BE_Uint16 (drop 4 b) + word_of_nat i) \<and>
      (if isTCP hdr then BE_Uint32 (drop (cs + 4) s) = seq + word_of_nat (start - hl) \<and>
         s ! (cs + 13) = (if stop = n then b ! (cs + 13) else b ! (cs + 13) AND NOT (tcpFlagFIN OR tcpFlagPSH))
       else unat (BE_Uint16 (drop (cs + 4) s)) = length s - cs))"

lemma slice_cong:
  "hi \<le> length a \<Longrightarrow> hi \<le> length b \<Longrightarrow> (\<And>k. lo \<le> k \<Longrightarrow> k < hi \<Longrightarrow> a ! k = b ! k) \<Longrightarrow>
    slice lo hi a = slice lo hi b"
  by (rule nth_equalityI) (auto simp: slice_def)

lemma BE_Uint16_cong:
  "k + 2 \<le> length a \<Longrightarrow> k + 2 \<le> length b \<Longrightarrow> a ! k = b ! k \<Longrightarrow> a ! Suc k = b ! Suc k \<Longrightarrow>
    BE_Uint16 (drop k a) = BE_Uint16 (drop k b)"
  unfolding BE_Uint16_slice by (rule arg_cong [of _ _ BE_Uint16], rule slice_cong) (auto simp: le_Suc_eq less_Suc_eq)

lemma word_of_nat_u16 [simp]: "n < 65536 \<Longrightarrow> unat (word_of_nat n :: u16) = n"
  by (simp add: unat_of_nat)

text \<open>The IP header of a segment.\<close>

definition ip_ok :: "bool \<Rightarrow> bytes \<Rightarrow> nat \<Rightarrow> nat \<Rightarrow> nat \<Rightarrow> bool \<Rightarrow> bytes \<Rightarrow> bool" where
  "ip_ok big b cs i totalLen isV6 out \<longleftrightarrow>
     slice (srcAddrAt isV6) (srcAddrAt isV6 + addrSize isV6 * 2) out =
       slice (srcAddrAt isV6) (srcAddrAt isV6 + addrSize isV6 * 2) b \<and>
     (if isV6 then unat (BE_Uint16 (drop 4 out)) = totalLen - cs
      else NOT (checksum big (take cs out) 0) = 0 \<and> unat (BE_Uint16 (drop 2 out)) = totalLen \<and>
        BE_Uint16 (drop 4 out) = BE_Uint16 (drop 4 b) + word_of_nat i)"

lemma BE_Uint16_apart:
  "k + 2 \<le> off \<or> off + length src \<le> k \<Longrightarrow> k + 2 \<le> length dst \<Longrightarrow> off + length src \<le> length dst \<Longrightarrow>
    BE_Uint16 (drop k (go_copy dst off src)) = BE_Uint16 (drop k dst)"
  by (auto simp: BE_Uint16_slice slice_go_copy_apart)

lemma ipHeader_v6:
  assumes "40 \<le> cs" "cs \<le> length b" "cs \<le> length out" "cs \<le> totalLen" "totalLen < 65536"
  shows "\<exists>r. ipHeader big b cs i totalLen True out = Some r \<and> length r = length out \<and>
    drop cs r = drop cs out \<and> ip_ok big b cs i totalLen True r"
proof -
  define h where "h = go_copy out 0 (take cs b)"
  have h: "length h = length out" "take cs h = take cs b" "drop cs h = drop cs out"
    using assms by (auto simp: h_def go_copy_fits)
  define r where "r = go_copy h 4 (BE_PutUint16 (word_of_int (int totalLen - int cs)))"
  have "ipHeader big b cs i totalLen True out = Some r"
    using assms h by (simp add: ipHeader_def sub_def put16_def h_def r_def)
  moreover have "length r = length out" "drop cs r = drop cs out"
    using assms h by (auto simp: r_def)
  moreover have "slice 8 40 r = slice 8 40 h"
    unfolding r_def using assms h by (intro slice_go_copy_apart) auto
  moreover have "slice 8 40 h = slice 8 40 b"
    using assms h by (intro slice_cong) (auto, metis nth_take order_less_le_trans)
  moreover have "unat (BE_Uint16 (drop 4 r)) = totalLen - cs"
    using assms h by (simp add: r_def flip: of_nat_diff)
  ultimately show ?thesis by (simp add: ip_ok_def srcAddrAt_def addrSize_def offload_consts)
qed

lemma ipHeader_v4:
  assumes "20 \<le> cs" "cs \<le> length b" "cs \<le> length out" "totalLen < 65536" "b ! 10 = 0" "b ! 11 = 0"
  shows "\<exists>r. ipHeader big b cs i totalLen False out = Some r \<and> length r = length out \<and>
    drop cs r = drop cs out \<and> ip_ok big b cs i totalLen False r"
proof -
  define h where "h = go_copy out 0 (take cs b)"
  have h: "length h = length out" "take cs h = take cs b" "drop cs h = drop cs out"
    using assms by (auto simp: h_def go_copy_fits)
  have hb: "h ! k = b ! k" if "k < cs" for k using h(2) that by (metis nth_take)
  define g where "g = (if i > 0 then go_copy h 4 (BE_PutUint16 (BE_Uint16 (drop 4 h) + word_of_nat i)) else h)"
  have g: "length g = length out" "drop cs g = drop cs out" "g ! 10 = 0" "g ! 11 = 0"
      "slice 12 20 g = slice 12 20 b"
    using assms h hb by (auto simp: g_def nth_go_copy slice_go_copy_apart intro: slice_cong)
  have gi: "BE_Uint16 (drop 4 g) = BE_Uint16 (drop 4 b) + word_of_nat i"
    using assms h hb BE_Uint16_cong [of 4 h b] by (simp add: g_def)
  define q where "q = go_copy g 2 (BE_PutUint16 (word_of_nat totalLen))"
  have q: "length q = length out" "drop cs q = drop cs out" "q ! 10 = 0" "q ! 11 = 0"
      "slice 12 20 q = slice 12 20 b" "BE_Uint16 (drop 2 q) = word_of_nat totalLen"
      "BE_Uint16 (drop 4 q) = BE_Uint16 (drop 4 b) + word_of_nat i"
    using assms g gi by (auto simp: q_def nth_go_copy slice_go_copy_apart BE_Uint16_apart)
  define r where "r = go_copy q 10 (BE_PutUint16 (NOT (checksum big (take cs q) 0)))"
  have r: "length r = length out" "drop cs r = drop cs out" "slice 12 20 r = slice 12 20 b"
      "BE_Uint16 (drop 2 r) = word_of_nat totalLen"
      "BE_Uint16 (drop 4 r) = BE_Uint16 (drop 4 b) + word_of_nat i"
    using assms q by (auto simp: r_def slice_go_copy_apart BE_Uint16_apart)
  have "NOT (checksum big (take cs r) 0) = 0"
    using assms q fill_field [of 10 "take cs q" big 0] by (simp add: r_def)
  moreover have "(if i > 0 then do {ident \<leftarrow> get16 4 h; put16 4 (ident + word_of_nat i) h} else Some h) = Some g"
    "put16 2 (word_of_nat totalLen) g = Some q" "sub 0 cs q = Some (take cs q)"
    "put16 10 (NOT (checksum big (take cs q) 0)) q = Some r" "sub 0 cs b = Some (take cs b)"
    using assms h(1) g(1) q(1) by (simp_all add: sub_def put16_def get16_def g_def q_def r_def)
  then have "ipHeader big b cs i totalLen False out = Some r"
    unfolding ipHeader_def Let_def by (simp only: bind.simps if_False h_def [symmetric])
  ultimately show ?thesis
    using r assms by (simp add: ip_ok_def srcAddrAt_def addrSize_def offload_consts)
qed

text \<open>The transport header of a segment.\<close>

lemma unat_add_u16: "unat a + k < 65536 \<Longrightarrow> unat (a + word_of_nat k :: u16) = unat a + k"
  by (simp add: unat_word_ariths unat_of_nat)

lemma unat_add_u16_numeral:
  "unat (a :: u16) + 4 < 65536 \<Longrightarrow> unat (a + 4) = unat a + 4"
  using unat_add_u16 [of a 4] by simp

lemma hdr_ok_sums:
  assumes "hdr_ok hdr isV6"
  shows "unat (csumStart hdr + 4) = unat (csumStart hdr) + 4"
    "unat (csumStart hdr + word_of_nat tcpFlagsOffset) = unat (csumStart hdr) + 13"
    "unat (csumStart hdr + csumOffset hdr) = unat (csumStart hdr) + unat (csumOffset hdr)"
    "unat (hdrLen hdr - csumStart hdr) = unat (hdrLen hdr) - unat (csumStart hdr)"
proof -
  let ?c = "csumStart hdr"
  have c: "unat ?c < 256" "unat (csumOffset hdr) \<le> 16" "unat ?c \<le> unat (hdrLen hdr)"
    using assms by (auto simp: hdr_ok_def split: if_splits)
  show "unat (?c + 4) = unat ?c + 4" using c by (intro unat_add_u16_numeral) simp
  show "unat (?c + word_of_nat tcpFlagsOffset) = unat ?c + 13"
    using c unat_add_u16 [of ?c 13] by (simp add: tcpFlagsOffset_def)
  show "unat (?c + csumOffset hdr) = unat ?c + unat (csumOffset hdr)"
    using c by (simp add: unat_word_ariths)
  show "unat (hdrLen hdr - ?c) = unat (hdrLen hdr) - unat ?c"
    using c by (simp add: unat_sub word_le_nat_alt)
qed

definition transport_ok ::
    "bytes \<Rightarrow> virtioNetHdr \<Rightarrow> u32 \<Rightarrow> nat \<Rightarrow> nat \<Rightarrow> bool \<Rightarrow> bytes \<Rightarrow> bool" where
  "transport_ok b hdr seq i d lastSegment out \<longleftrightarrow>
     (let cs = unat (csumStart hdr) in
      if isTCP hdr then
        BE_Uint32 (drop (cs + 4) out) = seq + ucast (gsoSize hdr * word_of_nat i) \<and>
        out ! (cs + 13) =
          (if lastSegment then b ! (cs + 13) else b ! (cs + 13) AND NOT (tcpFlagFIN OR tcpFlagPSH))
      else BE_Uint16 (drop (cs + 4) out) = word_of_nat d + (hdrLen hdr - csumStart hdr))"

lemma BE_Uint32_apart:
  "k + 4 \<le> off \<or> off + length src \<le> k \<Longrightarrow> k + 4 \<le> length dst \<Longrightarrow> off + length src \<le> length dst \<Longrightarrow>
    BE_Uint32 (drop k (go_copy dst off src)) = BE_Uint32 (drop k dst)"
  by (auto simp: BE_Uint32_slice slice_go_copy_apart)

lemma list_update_go_copy: "k < length b \<Longrightarrow> b[k := v] = go_copy b k [v]"
  by (rule nth_equalityI) (auto simp: nth_go_copy nth_list_update)

lemma transportHdr_ok:
  fixes hdr :: virtioNetHdr
  defines "cs \<equiv> unat (csumStart hdr)" and "hl \<equiv> unat (hdrLen hdr)"
  assumes ok: "hdr_ok hdr isV6" and len: "hl \<le> length b" "hl \<le> length out"
  shows "\<exists>r. transportHdr b hdr seq i d lastSegment out = Some r \<and> length r = length out \<and>
    take cs r = take cs out \<and> drop hl r = drop hl out \<and> transport_ok b hdr seq i d lastSegment r \<and>
    (\<forall>k < 2. r ! (cs + unat (csumOffset hdr) + k) = b ! (cs + unat (csumOffset hdr) + k))"
proof -
  note sums = hdr_ok_sums [OF ok, folded cs_def hl_def]
  have cs: "cs + (if isTCP hdr then 20 else 8) \<le> hl" "unat (csumOffset hdr) = (if isTCP hdr then 16 else 6)"
    using ok by (auto simp: hdr_ok_def cs_def hl_def)
  then have "cs \<le> hl" by (auto split: if_splits)
  define t where "t = go_copy out cs (slice cs hl b)"
  have t: "length t = length out" "take cs t = take cs out" "drop hl t = drop hl out"
    using len \<open>cs \<le> hl\<close> by (auto simp: t_def)
  have tb: "t ! k = b ! k" if "cs \<le> k" "k < hl" for k
    using that len \<open>cs \<le> hl\<close> by (auto simp: t_def nth_go_copy slice_def)
  have subs: "sub cs hl b = Some (slice cs hl b)" "sub cs hl out = Some (slice cs hl out)"
    using len \<open>cs \<le> hl\<close> by (auto simp: sub_def)
  show ?thesis
  proof (cases "isTCP hdr")
    case False
    define r where "r = go_copy t (cs + 4) (BE_PutUint16 (word_of_nat d + (hdrLen hdr - csumStart hdr)))"
    have "transportHdr b hdr seq i d lastSegment out = Some r"
      using False subs cs len t(1)
      by (simp add: transportHdr_def sums flip: cs_def hl_def t_def) (simp add: put16_def r_def)
    moreover have "length r = length out" "take cs r = take cs out" "drop hl r = drop hl out"
      using t cs len False by (simp_all add: r_def)
    moreover have "\<forall>k < 2. r ! (cs + 6 + k) = b ! (cs + 6 + k)"
      using t tb cs len False by (simp add: r_def nth_go_copy)
    ultimately show ?thesis
      using False cs len t(1) by (simp add: transport_ok_def flip: cs_def) (simp add: r_def)
  next
    case True
    define q where "q = go_copy t (cs + 4) (BE_PutUint32 (seq + ucast (gsoSize hdr * word_of_nat i)))"
    have q: "length q = length out" "take cs q = take cs out" "drop hl q = drop hl out"
        "BE_Uint32 (drop (cs + 4) q) = seq + ucast (gsoSize hdr * word_of_nat i)"
        "q ! (cs + 13) = b ! (cs + 13)" "\<forall>k < 2. q ! (cs + 16 + k) = b ! (cs + 16 + k)"
      using t tb cs len True by (simp_all add: q_def nth_go_copy)
    define r where "r = (if lastSegment then q
      else go_copy q (cs + 13) [b ! (cs + 13) AND NOT (tcpFlagFIN OR tcpFlagPSH)])"
    have "put32 (cs + 4) (seq + ucast (gsoSize hdr * word_of_nat i)) t = Some q"
      using True cs len t(1) by (simp add: put32_def q_def)
    moreover have "elem_at q (cs + 13) = Some (b ! (cs + 13))"
      using True cs len q(1,5) by (simp add: elem_at_def)
    ultimately have "transportHdr b hdr seq i d lastSegment out = Some r"
      using True subs cs len q(1)
      by (simp add: transportHdr_def sums flip: cs_def hl_def t_def)
        (simp add: set_elem_def list_update_go_copy r_def Let_def)
    moreover have "length r = length out" "take cs r = take cs out" "drop hl r = drop hl out"
      using q cs len True by (simp_all add: r_def)
    moreover have "\<forall>k < 2. r ! (cs + 16 + k) = b ! (cs + 16 + k)"
      using q cs len True by (simp add: r_def nth_go_copy)
    moreover have "transport_ok b hdr seq i d lastSegment r"
      using True cs len q by (simp add: transport_ok_def flip: cs_def)
        (simp add: r_def BE_Uint32_apart nth_go_copy)
    ultimately show ?thesis using True cs by simp
  qed
qed

text \<open>The transport checksum, the last write: the segment then verifies.\<close>

lemma take_slice: "lo + k \<le> hi \<Longrightarrow> take k (slice lo hi b) = slice lo (lo + k) b"
  by (simp add: slice_def min_def)

lemma drop_slice: "drop k (slice lo hi b) = slice (lo + k) hi b"
  by (simp add: slice_def drop_take add.commute)

lemma pseudo_slice:
  "srcAddrAt isV6 + addrSize isV6 * 2 \<le> length a \<Longrightarrow>
    pseudo big proto isV6 a n = (let c = slice (srcAddrAt isV6) (srcAddrAt isV6 + addrSize isV6 * 2) a in
      Some (pseudoHeaderChecksumNoFold big proto (take (addrSize isV6) c) (drop (addrSize isV6) c) n))"
  by (simp add: pseudo_def sub_def Let_def take_slice drop_slice mult_2_right flip: add.assoc)

lemma pseudo_cong:
  "srcAddrAt isV6 + addrSize isV6 * 2 \<le> length a \<Longrightarrow> srcAddrAt isV6 + addrSize isV6 * 2 \<le> length b \<Longrightarrow>
    slice (srcAddrAt isV6) (srcAddrAt isV6 + addrSize isV6 * 2) a =
    slice (srcAddrAt isV6) (srcAddrAt isV6 + addrSize isV6 * 2) b \<Longrightarrow>
    pseudo big proto isV6 a n = pseudo big proto isV6 b n"
  by (simp add: pseudo_slice)

lemma addrs_in_header: "srcAddrAt isV6 + addrSize isV6 * 2 = (if isV6 then 40 else 20)"
  by (simp add: srcAddrAt_def addrSize_def offload_consts)

lemma transportCSum_ok:
  fixes hdr :: virtioNetHdr
  defines "cs \<equiv> unat (csumStart hdr)" and "hl \<equiv> unat (hdrLen hdr)" and "co \<equiv> unat (csumOffset hdr)"
  assumes ok: "hdr_ok hdr isV6" and len: "hl \<le> length b" "hl + d \<le> length out" "hl + d < 65536"
    and addrs: "slice (srcAddrAt isV6) (srcAddrAt isV6 + addrSize isV6 * 2) out =
      slice (srcAddrAt isV6) (srcAddrAt isV6 + addrSize isV6 * 2) b"
    and zero: "out ! (cs + co) = 0" "out ! Suc (cs + co) = 0"
  shows "\<exists>w. transportCSum big b hdr d (hl + d) isV6 out = Some (go_copy out (cs + co) (BE_PutUint16 w)) \<and>
    checksumValid big \<lparr>backing = take (hl + d) (go_copy out (cs + co) (BE_PutUint16 w)), slen = hl + d\<rparr>
      (ucast (csumStart hdr)) (protocol hdr) isV6 = Some True"
proof -
  note sums = hdr_ok_sums [OF ok, folded cs_def hl_def co_def]
  have cs: "cs + co + 2 \<le> hl" "even co" "(if isV6 then 40 else 20) \<le> cs" "cs < 256" "cs \<le> hl"
    using ok by (auto simp: hdr_ok_def cs_def hl_def co_def split: if_splits)
  define m where "m = hl + d"
  define t where "t = slice cs m out"
  define n where "n = (word_of_nat (hl - cs + d) :: u16)"
  have a: "srcAddrAt isV6 + addrSize isV6 * 2 \<le> cs" using cs(3) by (simp add: addrs_in_header)
  then obtain psum where ps: "pseudo big (protocol hdr) isV6 b n = Some psum"
    using len cs(5) by (simp add: pseudo_slice Let_def)
  define w where "w = NOT (checksum big t psum)"
  let ?r = "go_copy out (cs + co) (BE_PutUint16 w)"
  have m: "hl \<le> m" "m \<le> length out" using len by (auto simp: m_def)
  have "transportCSum big b hdr d m isV6 out = Some ?r"
  proof -
    have "sub cs m out = Some t" "put16 (cs + co) w out = Some ?r"
      using cs m by (auto simp: sub_def put16_def t_def)
    then show ?thesis
      by (simp only: transportCSum_def Let_def sums bind.simps ps w_def
          cs_def [symmetric] hl_def [symmetric] n_def [symmetric])
  qed
  moreover have "checksumValid big \<lparr>backing = take m ?r, slen = m\<rparr>
      (ucast (csumStart hdr)) (protocol hdr) isV6 = Some True"
  proof -
    have u: "unat (ucast (csumStart hdr) :: byte) = cs"
      using cs(4) by (simp add: cs_def unsigned_ucast_eq take_bit_eq_mod)
    have "slice (srcAddrAt isV6) (srcAddrAt isV6 + addrSize isV6 * 2) (take m ?r) =
        slice (srcAddrAt isV6) (srcAddrAt isV6 + addrSize isV6 * 2) b"
      unfolding addrs [symmetric] using a cs m by (intro slice_cong) (auto simp: nth_go_copy)
    then have p: "pseudo big (protocol hdr) isV6 (take m ?r) n = Some psum"
      using a cs m len ps pseudo_cong [of isV6 "take m ?r" b] by simp
    have n: "(word_of_int (int m - int cs) :: u16) = n"
      using cs by (simp add: n_def m_def)
    have "drop cs (take m ?r) = go_copy t co (BE_PutUint16 w)"
      using cs m by (simp add: drop_go_copy t_def slice_def drop_take)
    moreover have "NOT (checksum big (go_copy t co (BE_PutUint16 w)) psum) = 0"
      unfolding w_def using cs m zero by (intro fill_field) (auto simp: t_def slice_def)
    moreover have "tail_from cs (content \<lparr>backing = take m ?r, slen = m\<rparr>) = Some (drop cs (take m ?r))"
      using cs m by (simp add: tail_from_def content_def)
    ultimately show ?thesis
      by (simp only: checksumValid_def u n p Let_def gslice.simps bind.simps simp_thms)
  qed
  ultimately show ?thesis unfolding m_def by blast
qed

lemma seq_offset:
  assumes "unat g * i < 65536"
  shows "(ucast (g * word_of_nat i :: u16) :: u32) = word_of_nat (unat g * i)"
proof -
  have "g * word_of_nat i = (word_of_nat (unat g * i) :: u16)" by simp
  also have "(ucast \<dots> :: u32) = word_of_nat (unat g * i)"
    using assms by (simp only: unsigned_of_nat) (simp add: take_bit_nat_eq_self)
  finally show ?thesis .
qed

lemma segment_correct:
  fixes hdr :: virtioNetHdr
  defines "hl \<equiv> unat (hdrLen hdr)"
  assumes ok: "hdr_ok hdr isV6" and z: "cleared hdr isV6 (backing inp)"
    and len: "hl \<le> start" "start \<le> stop" "stop \<le> slen inp" "slen inp \<le> length (backing inp)"
      "slen inp < 65536" "hl + (stop - start) \<le> length out"
    and i: "start = hl + unat (gsoSize hdr) * i"
  shows "\<exists>r. segment big inp hdr seq isV6 i start stop out = Some r \<and> length r = length out \<and>
    segment_ok big (backing inp) (slen inp) hdr seq isV6 i start stop (take (hl + (stop - start)) r)"
proof -
  let ?b = "backing inp" and ?d = "stop - start"
  define cs where "cs = unat (csumStart hdr)"
  define co where "co = unat (csumOffset hdr)"
  define m where "m = hl + ?d"
  have cs: "cs + (if isTCP hdr then 20 else 8) \<le> hl" "co = (if isTCP hdr then 16 else 6)"
      "(if isV6 then 40 else 20) \<le> cs" "cs \<le> hl"
    using ok by (auto simp: hdr_ok_def cs_def hl_def co_def split: if_splits)
  have m: "m < 65536" "hl \<le> m" "hl \<le> length ?b" "m \<le> length out" using len by (auto simp: m_def)
  obtain o1 where o1: "ipHeader big ?b cs i m isV6 out = Some o1" "length o1 = length out"
      "ip_ok big ?b cs i m isV6 o1"
    using ipHeader_v6 [of cs ?b out m big i] ipHeader_v4 [of cs ?b out m big i] cs m len z
    by (cases isV6) (auto simp: cleared_def)
  obtain o2 where o2: "transportHdr ?b hdr seq i ?d (stop = slen inp) o1 = Some o2" "length o2 = length out"
      "take cs o2 = take cs o1" "transport_ok ?b hdr seq i ?d (stop = slen inp) o2"
      "\<forall>k < 2. o2 ! (cs + co + k) = ?b ! (cs + co + k)"
    using transportHdr_ok [OF ok, of ?b o1 seq i ?d "stop = slen inp"] m o1(2)
    by (auto simp: cs_def hl_def co_def)
  define o3 where "o3 = go_copy o2 hl (slice start stop ?b)"
  have l3: "length (slice start stop ?b) = ?d" using len by simp
  have o3: "length o3 = length out" "take hl o3 = take hl o2" "slice hl m o3 = slice start stop ?b"
    using m o2(2) l3 slice_go_copy_same [of hl "slice start stop ?b" o2] by (simp_all add: o3_def m_def)
  have o3n: "o3 ! k = o2 ! k" if "k < hl" for k using o3(2) that by (metis nth_take)
  have t31: "take cs o3 = take cs o1" using o3(2) o2(3) cs(4) by (metis min.absorb1 take_take)
  have ad: "slice (srcAddrAt isV6) (srcAddrAt isV6 + addrSize isV6 * 2) o3 =
      slice (srcAddrAt isV6) (srcAddrAt isV6 + addrSize isV6 * 2) ?b"
  proof -
    have "slice (srcAddrAt isV6) (srcAddrAt isV6 + addrSize isV6 * 2) o3 =
        slice (srcAddrAt isV6) (srcAddrAt isV6 + addrSize isV6 * 2) o1"
      using t31 cs m o3(1) o1(2) by (intro slice_cong)
        (auto simp: addrs_in_header, (metis nth_take order_less_le_trans)+)
    then show ?thesis using o1(3) by (simp add: ip_ok_def)
  qed
  have "o3 ! (cs + co) = 0" "o3 ! Suc (cs + co) = 0"
    using o3n o2(5) [rule_format, of 0] o2(5) [rule_format, of 1] z cs(1,2)
    by (auto simp: cleared_def simp flip: cs_def co_def split: if_splits)
  then obtain w where w: "transportCSum big ?b hdr ?d m isV6 o3 = Some (go_copy o3 (cs + co) (BE_PutUint16 w))"
      "checksumValid big \<lparr>backing = take m (go_copy o3 (cs + co) (BE_PutUint16 w)), slen = m\<rparr>
         (ucast (csumStart hdr)) (protocol hdr) isV6 = Some True"
    using transportCSum_ok [OF ok, of ?b ?d o3 big] m o3(1) ad by (auto simp: cs_def hl_def co_def m_def)
  define r where "r = go_copy o3 (cs + co) (BE_PutUint16 w)"
  have "segment big inp hdr seq isV6 i start stop out = Some r"
    using o1(1) o2(1) w(1) len m o2(2)
    by (simp add: segment_def sub_def copy_to_def Let_def flip: hl_def cs_def m_def o3_def r_def)
  moreover have "segment_ok big ?b (slen inp) hdr seq isV6 i start stop (take m r)"
    unfolding segment_ok_def Let_def cs_def [symmetric] hl_def [symmetric]
  proof (intro conjI)
    let ?s = "take m r"
    have r: "length r = length out" using o3(1) cs m by (auto simp: r_def split: if_splits)
    have s: "?s ! k = o3 ! k" if "k < cs + co \<or> cs + co + 2 \<le> k" "k < m" for k
      using that o3(1) cs m by (auto simp: r_def nth_go_copy split: if_splits)
    have tcs: "take cs ?s = take cs o1"
      using t31 o3(1) cs m by (auto simp: r_def min_def split: if_splits)
    have scs: "?s ! k = o1 ! k" if "k < cs" for k using tcs that by (metis nth_take)
    show lens: "length ?s = hl + ?d" using r m by (simp add: m_def)
    show "drop hl ?s = slice start stop ?b"
      using o3(1,3) cs m by (simp add: r_def slice_def drop_take split: if_splits)
    show "checksumValid big \<lparr>backing = ?s, slen = length ?s\<rparr> (ucast (csumStart hdr)) (protocol hdr) isV6 = Some True"
      using w(2) r m by (simp add: r_def)
    show "slice (srcAddrAt isV6) (srcAddrAt isV6 + addrSize isV6 * 2) ?s =
        slice (srcAddrAt isV6) (srcAddrAt isV6 + addrSize isV6 * 2) ?b"
      unfolding ad [symmetric] using s cs m r o3(1) by (intro slice_cong) (auto simp: addrs_in_header split: if_splits)
    show "if isV6 then unat (BE_Uint16 (drop 4 ?s)) = length ?s - cs
        else NOT (checksum big (take cs ?s) 0) = 0 \<and> unat (BE_Uint16 (drop 2 ?s)) = length ?s \<and>
          BE_Uint16 (drop 4 ?s) = BE_Uint16 (drop 4 ?b) + word_of_nat i"
    proof -
      have "BE_Uint16 (drop k ?s) = BE_Uint16 (drop k o1)" if "k + 2 \<le> cs" for k
        using that scs cs m r o1(2) by (intro BE_Uint16_cong) auto
      then show ?thesis using o1(3) cs m tcs lens by (simp add: ip_ok_def m_def split: if_splits)
    qed
    show "if isTCP hdr then BE_Uint32 (drop (cs + 4) ?s) = seq + word_of_nat (start - hl) \<and>
        ?s ! (cs + 13) = (if stop = slen inp then ?b ! (cs + 13) else ?b ! (cs + 13) AND NOT (tcpFlagFIN OR tcpFlagPSH))
      else unat (BE_Uint16 (drop (cs + 4) ?s)) = length ?s - cs"
    proof (cases "isTCP hdr")
      case True
      have "BE_Uint32 (drop (cs + 4) ?s) = BE_Uint32 (drop (cs + 4) o2)"
        unfolding BE_Uint32_slice using True s o3n cs m r o2(2)
        by (intro arg_cong [of _ _ BE_Uint32] slice_cong) auto
      moreover have "(ucast (gsoSize hdr * word_of_nat i) :: u32) = word_of_nat (start - hl)"
        using i len m seq_offset [of "gsoSize hdr" i] by simp
      ultimately show ?thesis using True o2(4) s [of "cs + 13"] o3n [of "cs + 13"] cs m
        by (simp add: transport_ok_def flip: cs_def)
    next
      case False
      have "BE_Uint16 (drop (cs + 4) ?s) = BE_Uint16 (drop (cs + 4) o2)"
        using False s o3n cs m r o2(2) by (intro BE_Uint16_cong) auto
      also have "\<dots> = word_of_nat ?d + (hdrLen hdr - csumStart hdr)"
        using False o2(4) by (simp add: transport_ok_def flip: cs_def)
      also have "\<dots> = word_of_nat (m - cs)"
        using cs(4) by (simp add: m_def cs_def hl_def)
      finally have "unat (BE_Uint16 (drop (cs + 4) ?s)) = m - cs" using m by simp
      then show ?thesis using False lens by (simp add: m_def)
    qed
  qed
  ultimately show ?thesis using o3(1) cs m by (auto simp: r_def m_def)
qed

subsection \<open>The loop\<close>

definition segments :: "nat \<Rightarrow> virtioNetHdr \<Rightarrow> nat" where
  "segments n hdr = (n - unat (hdrLen hdr) + unat (gsoSize hdr) - 1) div unat (gsoSize hdr)"

definition seg_start :: "virtioNetHdr \<Rightarrow> nat \<Rightarrow> nat" where
  "seg_start hdr j = unat (hdrLen hdr) + unat (gsoSize hdr) * j"

definition seg_stop :: "nat \<Rightarrow> virtioNetHdr \<Rightarrow> nat \<Rightarrow> nat" where
  "seg_stop n hdr j = min (seg_start hdr (Suc j)) n"

definition seg_size :: "nat \<Rightarrow> virtioNetHdr \<Rightarrow> nat \<Rightarrow> nat" where
  "seg_size n hdr j = unat (hdrLen hdr) + (seg_stop n hdr j - seg_start hdr j)"

lemma less_ceiling_div: "0 < g \<Longrightarrow> j < (x + g - 1) div g \<longleftrightarrow> g * j < x" for g j x :: nat
proof -
  assume g: "0 < g"
  have "j < (x + g - 1) div g \<longleftrightarrow> Suc j * g \<le> x + g - 1"
    using g by (simp add: Suc_le_eq [symmetric] less_eq_div_iff_mult_less_eq)
  then show ?thesis using g by (auto simp: mult.commute)
qed

lemma less_segments:
  "0 < unat (gsoSize hdr) \<Longrightarrow> unat (hdrLen hdr) \<le> n \<Longrightarrow> j < segments n hdr \<longleftrightarrow> seg_start hdr j < n"
  using less_ceiling_div [of "unat (gsoSize hdr)" j "n - unat (hdrLen hdr)"]
  by (simp only: segments_def seg_start_def) linarith

text \<open>Segment \<open>j\<close> in the buffers after the call.\<close>

definition seg_in ::
    "bool \<Rightarrow> bytes \<Rightarrow> nat \<Rightarrow> virtioNetHdr \<Rightarrow> u32 \<Rightarrow> bool \<Rightarrow> nat \<Rightarrow> bytes list \<Rightarrow> nat list \<Rightarrow> nat \<Rightarrow> bool" where
  "seg_in big b n hdr seq isV6 off bufs sizes j \<longleftrightarrow> sizes ! j = seg_size n hdr j \<and>
     segment_ok big b n hdr seq isV6 j (seg_start hdr j) (seg_stop n hdr j)
       (take (sizes ! j) (drop off (bufs ! j)))"

lemma gsoLoop_correct:
  assumes ok: "hdr_ok hdr isV6" "cleared hdr isV6 (backing inp)" "0 < unat (gsoSize hdr)"
      "unat (hdrLen hdr) \<le> slen inp" "slice_ok inp" "slen inp < 65536"
    and bufs: "\<forall>b \<in> set bufs. off + unat (hdrLen hdr) + unat (gsoSize hdr) \<le> length b" "length bufs \<le> length sizes"
    and i: "i \<le> min (segments (slen inp) hdr) (length bufs)"
      "\<forall>j < i. seg_in big (backing inp) (slen inp) hdr seq isV6 off bufs sizes j"
  shows "\<exists>bufs' sizes'. gsoLoop big inp hdr seq isV6 off (seg_start hdr i) i bufs sizes =
      Some (bufs', sizes',
        if segments (slen inp) hdr \<le> length bufs then (int (segments (slen inp) hdr), None)
        else (int (length bufs) - 1, Some ErrTooManySegments)) \<and>
    (\<forall>j < min (segments (slen inp) hdr) (length bufs).
       seg_in big (backing inp) (slen inp) hdr seq isV6 off bufs' sizes' j)"
  using bufs i
proof (induction "length bufs - i" arbitrary: i bufs sizes rule: less_induct)
  case less
  let ?n = "slen inp" and ?N = "segments (slen inp) hdr"
  note start = less_segments [OF ok(3,4)]
  consider "i = ?N" | "i < ?N" "i = length bufs" | "i < ?N" "i < length bufs" using less.prems(3) by linarith
  then show ?case
  proof cases
    case 1
    then have "\<not> seg_start hdr i < ?n" using start [of i] by simp
    then show ?thesis using 1 less.prems by (auto simp: gsoLoop.simps)
  next
    case 2
    then have "seg_start hdr i < ?n" using start [of i] by simp
    then show ?thesis using 2 less.prems by (auto simp: gsoLoop.simps min_def)
  next
    case 3
    then have lt: "seg_start hdr i < ?n" using start [of i] by simp
    let ?o = "drop off (bufs ! i)" and ?stop = "seg_stop ?n hdr i"
    have b: "bufs ! i \<in> set bufs" using 3 by simp
    then have lb: "off + unat (hdrLen hdr) + unat (gsoSize hdr) \<le> length (bufs ! i)" using less.prems(1) by blast
    have st: "unat (hdrLen hdr) \<le> seg_start hdr i" "seg_start hdr i \<le> ?stop" "?stop \<le> ?n"
        "?stop - seg_start hdr i \<le> unat (gsoSize hdr)"
      using lt by (auto simp: seg_start_def seg_stop_def)
    obtain r where r: "segment big inp hdr seq isV6 i (seg_start hdr i) ?stop ?o = Some r"
        "length r = length ?o"
        "segment_ok big (backing inp) ?n hdr seq isV6 i (seg_start hdr i) ?stop (take (seg_size ?n hdr i) r)"
    proof -
      have "unat (hdrLen hdr) + (?stop - seg_start hdr i) \<le> length ?o" using st(4) lb by simp
      from segment_correct [OF ok(1,2) st(1-3) _ ok(6) this, of i] ok(5) that show thesis
        unfolding seg_size_def slice_ok_def capacity_def by (metis seg_start_def)
    qed
    let ?bufs = "bufs[i := take off (bufs ! i) @ r]" and ?sizes = "sizes[i := seg_size ?n hdr i]"
    have "gsoLoop big inp hdr seq isV6 off (seg_start hdr i) i bufs sizes =
        gsoLoop big inp hdr seq isV6 off (seg_start hdr (Suc i)) (Suc i) ?bufs ?sizes"
      using lt 3 less.prems(2) r(1) lb
      by (subst gsoLoop.simps)
        (simp add: tail_from_def seg_size_def seg_stop_def seg_start_def algebra_simps Let_def)
    moreover have "\<forall>b \<in> set ?bufs. off + unat (hdrLen hdr) + unat (gsoSize hdr) \<le> length b"
      using less.prems(1) r(2) lb by (auto dest!: set_update_subset_insert [THEN subsetD])
    moreover have "\<forall>j < Suc i. seg_in big (backing inp) ?n hdr seq isV6 off ?bufs ?sizes j"
      using less.prems(2-4) 3 r(3) lb by (auto simp: seg_in_def less_Suc_eq)
    moreover have "length ?bufs - Suc i < length bufs - i" using 3 by simp
    ultimately show ?thesis
      using less.hyps [of ?bufs "Suc i" ?sizes] 3 less.prems(2)
      by (simp only: length_list_update min.bounded_iff Suc_le_eq)
  qed
qed

subsection \<open>The packet read\<close>

text \<open>Clearing the checksums touches nothing else of the packet.\<close>

lemma gsoClear_ok:
  assumes ok: "hdr_ok hdr isV6" and len: "slice_ok inp" "unat (hdrLen hdr) \<le> slen inp"
  shows "\<exists>c. gsoClear inp hdr isV6 = Some (upd_content c inp,
      if isTCP hdr then BE_Uint32 (drop (unat (csumStart hdr) + 4) (content inp)) else 0) \<and>
    length c = slen inp \<and> cleared hdr isV6 c \<and>
    (\<forall>k < slen inp. k \<notin> {unat (csumStart hdr) + unat (csumOffset hdr), Suc (unat (csumStart hdr) + unat (csumOffset hdr))} \<longrightarrow>
       (isV6 \<or> k \<noteq> 10 \<and> k \<noteq> 11) \<longrightarrow> c ! k = content inp ! k)"
proof -
  let ?b = "content inp" and ?cs = "unat (csumStart hdr)" and ?co = "unat (csumOffset hdr)"
  note sums = hdr_ok_sums [OF ok]
  have cs: "?cs + ?co + 2 \<le> unat (hdrLen hdr)" "(if isV6 then 40 else 20) \<le> ?cs"
      "isTCP hdr \<Longrightarrow> ?cs + 20 \<le> unat (hdrLen hdr) \<and> ?co = 16"
    using ok by (auto simp: hdr_ok_def split: if_splits)
  define c where "c = (if isV6 then ?b else ?b[10 := 0, 11 := 0])[?cs + ?co := 0, ?cs + ?co + 1 := 0]"
  have lc: "length c = slen inp" using len by (simp add: c_def)
  have nth: "c ! k = ?b ! k" if "k < slen inp" "k \<noteq> ?cs + ?co" "k \<noteq> Suc (?cs + ?co)" "isV6 \<or> k \<noteq> 10 \<and> k \<noteq> 11" for k
    using that len by (auto simp: c_def nth_list_update)
  have "cleared hdr isV6 c"
    using cs len by (auto simp: cleared_def c_def nth_list_update split: if_splits)
  moreover have "BE_Uint32 (drop (?cs + 4) c) = BE_Uint32 (drop (?cs + 4) ?b)" if "isTCP hdr"
    unfolding BE_Uint32_slice using that cs nth lc len
    by (intro arg_cong [of _ _ BE_Uint32] slice_cong) (auto split: if_splits)
  moreover have "gsoClear inp hdr isV6 = Some (upd_content c inp, if isTCP hdr then BE_Uint32 (drop (?cs + 4) c) else 0)"
    using cs len lc by (auto simp: gsoClear_def set_elem_def get32_def sums Let_def c_def split: if_splits)
  ultimately show ?thesis using lc nth by auto
qed

lemma segment_ok_cong:
  assumes "hdr_ok hdr isV6" "unat (hdrLen hdr) \<le> start" "stop \<le> n" "unat (hdrLen hdr) \<le> n" "length b = n" "n \<le> length c"
    and eq: "\<And>k. k < n \<Longrightarrow> k \<noteq> unat (csumStart hdr) + unat (csumOffset hdr) \<Longrightarrow>
      k \<noteq> Suc (unat (csumStart hdr) + unat (csumOffset hdr)) \<Longrightarrow> isV6 \<or> k \<noteq> 10 \<and> k \<noteq> 11 \<Longrightarrow> c ! k = b ! k"
  shows "segment_ok big c n hdr seq isV6 i start stop s = segment_ok big b n hdr seq isV6 i start stop s"
proof -
  let ?cs = "unat (csumStart hdr)" and ?co = "unat (csumOffset hdr)"
  have cs: "?cs + ?co + 2 \<le> unat (hdrLen hdr)" "(if isV6 then 40 else 20) \<le> ?cs"
      "isTCP hdr \<Longrightarrow> ?cs + 20 \<le> unat (hdrLen hdr) \<and> ?co = 16"
    using assms(1) by (auto simp: hdr_ok_def split: if_splits)
  have "slice start stop c = slice start stop b"
    using assms(2-6) cs by (intro slice_cong eq) (auto split: if_splits)
  moreover have "slice (srcAddrAt isV6) (srcAddrAt isV6 + addrSize isV6 * 2) c =
      slice (srcAddrAt isV6) (srcAddrAt isV6 + addrSize isV6 * 2) b"
    using assms(2-6) cs by (intro slice_cong eq)
      (auto simp: srcAddrAt_def addrSize_def offload_consts split: if_splits)
  moreover have "BE_Uint16 (drop 4 c) = BE_Uint16 (drop 4 b)"
    using assms(2-6) cs by (intro BE_Uint16_cong eq) (auto split: if_splits)
  moreover have "isTCP hdr \<Longrightarrow> c ! (?cs + 13) = b ! (?cs + 13)"
    using assms(2-6) cs by (intro eq) (auto split: if_splits)
  ultimately show ?thesis by (auto simp: segment_ok_def Let_def)
qed

lemma gsoSplit_correct:
  assumes ok: "hdr_ok hdr isV6" "0 < unat (gsoSize hdr)"
      "unat (hdrLen hdr) \<le> slen inp" "slice_ok inp" "slen inp < 65536"
    and bufs: "\<forall>b \<in> set bufs. off + unat (hdrLen hdr) + unat (gsoSize hdr) \<le> length b" "length bufs \<le> length sizes"
  shows "\<exists>bufs' sizes' seq. gsoSplit big inp hdr bufs sizes off isV6 =
      Some (bufs', sizes',
        if segments (slen inp) hdr \<le> length bufs then (int (segments (slen inp) hdr), None)
        else (int (length bufs) - 1, Some ErrTooManySegments)) \<and>
    (isTCP hdr \<longrightarrow> seq = BE_Uint32 (drop (unat (csumStart hdr) + 4) (content inp))) \<and>
    (\<forall>j < min (segments (slen inp) hdr) (length bufs).
       seg_in big (content inp) (slen inp) hdr seq isV6 off bufs' sizes' j)"
proof -
  obtain c where c: "gsoClear inp hdr isV6 = Some (upd_content c inp,
        if isTCP hdr then BE_Uint32 (drop (unat (csumStart hdr) + 4) (content inp)) else 0)"
      "length c = slen inp" "cleared hdr isV6 c"
      "\<forall>k < slen inp. k \<notin> {unat (csumStart hdr) + unat (csumOffset hdr), Suc (unat (csumStart hdr) + unat (csumOffset hdr))} \<longrightarrow>
       (isV6 \<or> k \<noteq> 10 \<and> k \<noteq> 11) \<longrightarrow> c ! k = content inp ! k"
    using gsoClear_ok [OF ok(1,4,3)] by blast
  let ?i = "upd_content c inp"
  let ?seq = "if isTCP hdr then BE_Uint32 (drop (unat (csumStart hdr) + 4) (content inp)) else 0"
  have nth: "backing ?i ! k = c ! k" if "k < slen inp" for k
    using that c(2) by (simp add: upd_content_def nth_append)
  have bounds: "unat (csumStart hdr) + unat (csumOffset hdr) + 2 \<le> slen inp" "isV6 \<or> 20 \<le> slen inp"
    using ok(1,3) by (auto simp: hdr_ok_def split: if_splits)
  have "cleared hdr isV6 (backing ?i)"
    using c(3) bounds nth by (auto simp: cleared_def)
  then obtain bufs' sizes' where r: "gsoLoop big ?i hdr ?seq isV6 off (seg_start hdr 0) 0 bufs sizes =
      Some (bufs', sizes',
        if segments (slen inp) hdr \<le> length bufs then (int (segments (slen inp) hdr), None)
        else (int (length bufs) - 1, Some ErrTooManySegments))"
      "\<forall>j < min (segments (slen inp) hdr) (length bufs).
       seg_in big (backing ?i) (slen inp) hdr ?seq isV6 off bufs' sizes' j"
    using gsoLoop_correct [of hdr isV6 ?i bufs off sizes 0 big ?seq] ok bufs c(2) by auto
  have "seg_in big (backing ?i) (slen inp) hdr ?seq isV6 off bufs' sizes' j =
      seg_in big (content inp) (slen inp) hdr ?seq isV6 off bufs' sizes' j" for j
  proof -
    have "segment_ok big (backing ?i) (slen inp) hdr ?seq isV6 j (seg_start hdr j) (seg_stop (slen inp) hdr j) s =
        segment_ok big (content inp) (slen inp) hdr ?seq isV6 j (seg_start hdr j) (seg_stop (slen inp) hdr j) s" for s
      using ok(1,3,4) c(2,4) nth
      by (intro segment_ok_cong) (auto simp: seg_start_def seg_stop_def upd_content_def)
    then show ?thesis by (simp add: seg_in_def)
  qed
  moreover have "gsoSplit big inp hdr bufs sizes off isV6 =
      gsoLoop big ?i hdr ?seq isV6 off (seg_start hdr 0) 0 bufs sizes"
    using c(1) by (simp add: gsoSplit_def seg_start_def)
  ultimately show ?thesis using r
    by (intro exI [of _ bufs'] exI [of _ sizes'] exI [of _ ?seq]) (simp del: min.bounded_iff)
qed

subsection \<open>The header read\<close>

lemma read16_native16: "read16 big (native16 big w) = w"
  using unat_mod_size [of w]
  by (simp add: read16_def native16_def native_def le_nat_le_bytes be_nat_be_bytes)

lemma length_hdr_bytes [simp]: "length (hdr_bytes big v) = 10"
  by (simp add: hdr_bytes_def native16_def)

lemma decode_hdr_bytes: "decode big (hdr_bytes big v @ p) = Inr v"
proof -
  have l: "length (native16 big w) = 2" for w by (simp add: native16_def)
  have "slice 2 4 (hdr_bytes big v @ p) = native16 big (hdrLen v)"
    "slice 4 6 (hdr_bytes big v @ p) = native16 big (gsoSize v)"
    "slice 6 8 (hdr_bytes big v @ p) = native16 big (csumStart v)"
    "slice 8 10 (hdr_bytes big v @ p) = native16 big (csumOffset v)"
    by (simp_all add: hdr_bytes_def slice_def l)
  then show ?thesis
    by (simp add: decode_def virtioNetHdrLen_def read16_native16) (simp add: hdr_bytes_def)
qed

text \<open>A packet the kernel hands over unsegmented, and its header with the header length that
  \<open>handleVirtioRead\<close> computes from the packet.\<close>

definition thdrLen :: "virtioNetHdr \<Rightarrow> bytes \<Rightarrow> nat" where
  "thdrLen v p = (if isTCP v then unat (drop_bit 4 (p ! (unat (csumStart v) + 12)) * 4) else 8)"

definition fixed :: "virtioNetHdr \<Rightarrow> bytes \<Rightarrow> virtioNetHdr" where
  "fixed v p = v\<lparr>hdrLen := csumStart v + word_of_nat (thdrLen v p)\<rparr>"

definition gso_packet :: "virtioNetHdr \<Rightarrow> bytes \<Rightarrow> bool \<Rightarrow> bool" where
  "gso_packet v p isV6 \<longleftrightarrow> drop_bit 4 (p ! 0) = (if isV6 then 6 else 4) \<and>
     (gsoType v = VIRTIO_NET_HDR_GSO_UDP_L4 \<or>
      gsoType v = (if isV6 then VIRTIO_NET_HDR_GSO_TCPV6 else VIRTIO_NET_HDR_GSO_TCPV4)) \<and>
     even (unat (csumStart v)) \<and> unat (csumStart v) < 256 \<and>
     (if isV6 then 40 else 20) \<le> unat (csumStart v) \<and>
     unat (csumOffset v) = (if isTCP v then 16 else 6) \<and>
     (isTCP v \<longrightarrow> 20 \<le> thdrLen v p) \<and> unat (csumStart v) + thdrLen v p \<le> length p \<and>
     0 < unat (gsoSize v) \<and> length p < 65536"

lemma unat_ihl4: "unat (drop_bit 4 (x :: byte) * 4) = 4 * unat (drop_bit 4 x) \<and> unat (drop_bit 4 x) < 16"
proof -
  have "unat (drop_bit 4 x) = unat x div 16" by (simp add: drop_bit_eq_div unat_div_distrib)
  moreover have "unat x div 16 < 16" using unat_byte_lt [of x] by (simp add: less_mult_imp_div_less)
  ultimately show ?thesis by (simp add: unat_word_ariths)
qed

lemma fixed_sel [simp]:
  "isTCP (fixed v p) = isTCP v" "gsoSize (fixed v p) = gsoSize v" "csumStart (fixed v p) = csumStart v"
  "csumOffset (fixed v p) = csumOffset v" "protocol (fixed v p) = protocol v"
  by (simp_all add: fixed_def isTCP_def protocol_def)

lemma thdrLen_le: "thdrLen v p \<le> 60"
  using unat_ihl4 [of "p ! (unat (csumStart v) + 12)"] by (simp add: thdrLen_def)

lemma hdrLen_fixed: "gso_packet v p isV6 \<Longrightarrow> unat (hdrLen (fixed v p)) = unat (csumStart v) + thdrLen v p"
  using thdrLen_le [of v p] unat_add_u16 [of "csumStart v" "thdrLen v p"]
  by (simp add: fixed_def gso_packet_def)

lemma hdr_ok_fixed: "gso_packet v p isV6 \<Longrightarrow> hdr_ok (fixed v p) isV6"
  using hdrLen_fixed [of v p isV6] by (auto simp: hdr_ok_def gso_packet_def thdrLen_def)

lemma fixHdrLen_fixed:
  assumes "gso_packet v p isV6"
  shows "fixHdrLen p v = Some (Inr (fixed v p))"
proof (cases "isTCP v")
  case False
  then show ?thesis using assms
    by (auto simp: fixHdrLen_def fixed_def gso_packet_def thdrLen_def isTCP_def split: if_splits)
next
  case True
  let ?x = "p ! (unat (csumStart v) + 12)"
  have u: "unat (csumStart v + 12) = unat (csumStart v) + 12"
    using assms unat_add_u16 [of "csumStart v" 12] by (simp add: gso_packet_def)
  have x: "thdrLen v p = unat (drop_bit 4 ?x * 4)" using True by (simp add: thdrLen_def)
  have c: "(ucast (drop_bit 4 ?x * 4) :: u16) = word_of_nat (thdrLen v p)"
    by (simp add: x flip: unat_eq_nat_uint)
  have "20 \<le> thdrLen v p" "thdrLen v p \<le> 60" "unat (csumStart v) + 12 < length p"
    using assms True thdrLen_le [of v p] by (auto simp: gso_packet_def)
  moreover from this have "\<not> (word_of_nat (thdrLen v p) :: u16) < 20" "\<not> (60 :: u16) < word_of_nat (thdrLen v p)"
    by (auto simp: word_less_nat_alt)
  moreover have "gsoType v \<noteq> VIRTIO_NET_HDR_GSO_UDP_L4" using True by (auto simp: isTCP_def offload_consts)
  ultimately show ?thesis by (simp add: fixHdrLen_def u elem_at_def c fixed_def Let_def)
qed

lemma handleVirtioRead_gso:
  assumes "slice_ok inp" "content inp = hdr_bytes big v @ p" "gso_packet v p isV6"
  shows "\<exists>i. handleVirtioRead big inp bufs sizes off = gsoSplit big i (fixed v p) bufs sizes off isV6 \<and>
    slice_ok i \<and> content i = p"
proof -
  define i where "i = \<lparr>backing = drop virtioNetHdrLen (backing inp), slen = slen inp - virtioNetHdrLen\<rparr>"
  have l: "slen inp = 10 + length p" using assms(1,2) by (metis length_append length_content length_hdr_bytes)
  have i: "slice_ok i" "content i = p"
  proof -
    have "content i = drop 10 (content inp)" by (simp add: i_def content_def virtioNetHdrLen_def drop_take)
    then show "content i = p" using assms(2) by simp
    show "slice_ok i" using assms(1) by (simp add: i_def slice_ok_def capacity_def virtioNetHdrLen_def)
  qed
  have p: "p \<noteq> []" "\<not> isTCP v \<longrightarrow> gsoType v = VIRTIO_NET_HDR_GSO_UDP_L4" "gsoType v \<noteq> VIRTIO_NET_HDR_GSO_NONE"
      "typeFits v (drop_bit 4 (p ! 0)) = None" "(drop_bit 4 (p ! 0) = 6) = isV6"
    using assms(3) by (cases isV6; auto simp: gso_packet_def isTCP_def offload_consts typeFits_def)+
  have "checkHdr p (fixed v p) = None"
    using assms(3) hdrLen_fixed [OF assms(3)] hdr_ok_sums(3) [OF hdr_ok_fixed [OF assms(3)]]
    by (auto simp: checkHdr_def gso_packet_def word_less_nat_alt thdrLen_def split: if_splits)
  then have "handleVirtioRead big inp bufs sizes off = gsoSplit big i (fixed v p) bufs sizes off isV6"
    using p i fixHdrLen_fixed [OF assms(3)] assms(2) decode_hdr_bytes [of big v p]
    by (cases "isTCP v") (simp_all add: handleVirtioRead_def elem_at_def Let_def flip: i_def)
  then show ?thesis using i by blast
qed

subsection \<open>Properties\<close>

lemma concat_segments:
  assumes "unat (hdrLen hdr) \<le> n" "n \<le> length b"
  shows "concat (map (\<lambda>j. slice (seg_start hdr j) (seg_stop n hdr j) b) [0..<k]) =
    slice (unat (hdrLen hdr)) (min (seg_start hdr k) n) b"
proof (induction k)
  case 0
  then show ?case using assms by (simp add: seg_start_def slice_def)
next
  case (Suc k)
  have join: "slice lo mid b @ slice mid hi b = slice lo hi b" if "lo \<le> mid" "mid \<le> hi" for lo mid hi
    using that take_add [of "mid - lo" "hi - mid" "drop lo b"] by (simp add: slice_def)
  show ?case
  proof (cases "seg_start hdr k \<le> n")
    case True
    then show ?thesis
      using Suc join [of "unat (hdrLen hdr)" "seg_start hdr k" "seg_stop n hdr k"]
      by (simp add: seg_stop_def min_absorb1) (simp add: seg_start_def)
  next
    case False
    then show ?thesis using Suc by (simp add: seg_stop_def seg_start_def slice_def min_def)
  qed
qed

lemma segments_cover:
  assumes "0 < unat (gsoSize hdr)" "unat (hdrLen hdr) \<le> n"
  shows "min (seg_start hdr (segments n hdr)) n = n"
  using less_segments [OF assms, of "segments n hdr"] by simp

lemma gso_outcome:
  assumes "slice_ok inp" "content inp = hdr_bytes big v @ p" "gso_packet v p isV6"
    and "length bufs \<le> length sizes"
    and "\<forall>b \<in> set bufs. off + unat (csumStart v) + thdrLen v p + unat (gsoSize v) \<le> length b"
  shows "\<exists>bufs' sizes' seq. handleVirtioRead big inp bufs sizes off =
      Some (bufs', sizes',
        if segments (length p) (fixed v p) \<le> length bufs then (int (segments (length p) (fixed v p)), None)
        else (int (length bufs) - 1, Some ErrTooManySegments)) \<and>
    (isTCP v \<longrightarrow> seq = BE_Uint32 (drop (unat (csumStart v) + 4) p)) \<and>
    (\<forall>j < min (segments (length p) (fixed v p)) (length bufs).
       seg_in big p (length p) (fixed v p) seq isV6 off bufs' sizes' j)"
proof -
  let ?h = "fixed v p"
  have hl: "unat (hdrLen ?h) = unat (csumStart v) + thdrLen v p" by (rule hdrLen_fixed [OF assms(3)])
  have len: "unat (hdrLen ?h) \<le> length p" "length p < 65536" "0 < unat (gsoSize ?h)"
    using assms(3) hl by (auto simp: gso_packet_def)
  obtain i where i: "handleVirtioRead big inp bufs sizes off = gsoSplit big i ?h bufs sizes off isV6"
      "slice_ok i" "content i = p" using handleVirtioRead_gso [OF assms(1-3)] by blast
  have s: "slen i = length p" using i(2,3) by (metis length_content)
  have "\<forall>b \<in> set bufs. off + unat (hdrLen ?h) + unat (gsoSize ?h) \<le> length b"
    using assms(5) hl by (simp add: add.assoc)
  from gsoSplit_correct [OF hdr_ok_fixed [OF assms(3)] len(3) _ i(2) _ this assms(4), of big]
  show ?thesis unfolding i(1) using len(1,2) by (simp only: i(3) s fixed_sel)
qed

text \<open>C20.  A packet the kernel hands over unsegmented is cut into exactly the segments its header
  asks for when there are buffers for all of them: \<open>handleVirtioRead\<close> reports as many packets as
  the payload has pieces of \<open>gsoSize\<close> bytes, and the payloads of the packets it wrote, one after
  the other, are the payload read.  Every packet has the addresses of the original, a transport
  checksum that \<open>checksumValid\<close> accepts, an IPv4 header checksum that verifies, the length fields
  of its own size, for TCP the sequence number of its first byte (the 16-bit product
  \<open>gsoSize * i\<close> never wraps) and \<open>FIN\<close> and \<open>PSH\<close> only on the last packet.\<close>

theorem gso_segments:
  assumes "slice_ok inp" "content inp = hdr_bytes big v @ p" "gso_packet v p isV6"
    and "segments (length p) (fixed v p) \<le> length bufs" "length bufs \<le> length sizes"
    and "\<forall>b \<in> set bufs. off + unat (csumStart v) + thdrLen v p + unat (gsoSize v) \<le> length b"
  shows "\<exists>bufs' sizes' seq segs.
    handleVirtioRead big inp bufs sizes off =
      Some (bufs', sizes', int (segments (length p) (fixed v p)), None) \<and>
    segs = map (\<lambda>j. take (sizes' ! j) (drop off (bufs' ! j))) [0..<segments (length p) (fixed v p)] \<and>
    concat (map (drop (unat (csumStart v) + thdrLen v p)) segs) = drop (unat (csumStart v) + thdrLen v p) p \<and>
    (isTCP v \<longrightarrow> seq = BE_Uint32 (drop (unat (csumStart v) + 4) p)) \<and>
    (\<forall>j < length segs. segment_ok big p (length p) (fixed v p) seq isV6 j
       (seg_start (fixed v p) j) (seg_stop (length p) (fixed v p) j) (segs ! j))"
proof -
  let ?h = "fixed v p"
  let ?N = "segments (length p) ?h"
  have hl: "unat (hdrLen ?h) = unat (csumStart v) + thdrLen v p" by (rule hdrLen_fixed [OF assms(3)])
  have len: "unat (hdrLen ?h) \<le> length p" "0 < unat (gsoSize ?h)"
    using assms(3) hl by (auto simp: gso_packet_def)
  obtain bufs' sizes' seq where r: "handleVirtioRead big inp bufs sizes off = Some (bufs', sizes', int ?N, None)"
      "isTCP v \<longrightarrow> seq = BE_Uint32 (drop (unat (csumStart v) + 4) p)"
      "\<forall>j < ?N. seg_in big p (length p) ?h seq isV6 off bufs' sizes' j"
    using gso_outcome [OF assms(1-3,5,6)] unfolding if_P [OF assms(4)] min_absorb1 [OF assms(4)] by blast
  let ?segs = "map (\<lambda>j. take (sizes' ! j) (drop off (bufs' ! j))) [0..<?N]"
  have ok: "segment_ok big p (length p) ?h seq isV6 j (seg_start ?h j) (seg_stop (length p) ?h j) (?segs ! j)"
    if "j < ?N" for j
  proof -
    have "?segs ! j = take (sizes' ! j) (drop off (bufs' ! j))" using that by simp
    then show ?thesis using r(3) [rule_format, OF that] unfolding seg_in_def by metis
  qed
  have "concat (map (drop (unat (hdrLen ?h))) ?segs) =
      concat (map (\<lambda>j. slice (seg_start ?h j) (seg_stop (length p) ?h j) p) [0..<?N])"
    using ok by (intro arg_cong [of _ _ concat]) (simp add: segment_ok_def Let_def)
  also have "\<dots> = drop (unat (hdrLen ?h)) p"
    using len concat_segments [of ?h "length p" p ?N] segments_cover [of ?h "length p"] by (simp add: slice_def)
  finally show ?thesis
    using r(1,2) ok hl by (intro exI [of _ bufs'] exI [of _ sizes'] exI [of _ seq] exI [of _ ?segs]) simp
qed

definition example_hdr :: virtioNetHdr where
  "example_hdr = \<lparr>flags = 1, gsoType = 5, hdrLen = 28, gsoSize = 2, csumStart = 20, csumOffset = 6\<rparr>"

definition example_packet :: bytes where
  "example_packet = [0x45, 0, 0, 33, 0, 7, 0, 0, 64, 17, 0, 0, 10, 0, 0, 1, 10, 0, 0, 2] @
     [0, 53, 0, 53, 0, 13, 0, 0] @ [1, 2, 3, 4, 5]"

lemma example_gso:
  "length example_packet = 33" "unat (csumStart example_hdr) = 20" "unat (gsoSize example_hdr) = 2"
  "\<not> isTCP example_hdr" "thdrLen example_hdr example_packet = 8"
  by (simp_all add: example_packet_def example_hdr_def isTCP_def offload_consts thdrLen_def)

lemma example_gso_packet: "gso_packet example_hdr example_packet False"
  using example_gso
  by (simp add: gso_packet_def) (simp add: example_packet_def example_hdr_def offload_consts drop_bit_eq_div word_arith_nat_div)

lemma example_segments: "segments (length example_packet) (fixed example_hdr example_packet) = 3"
  using hdrLen_fixed [OF example_gso_packet] example_gso by (simp add: segments_def)

theorem gso_segments_witness:
  "\<exists>bufs' sizes' segs.
    handleVirtioRead False \<lparr>backing = hdr_bytes False example_hdr @ example_packet @ [9, 9], slen = 43\<rparr>
      (replicate 3 (replicate 40 0)) [0, 0, 0] 4 = Some (bufs', sizes', 3, None) \<and>
    segs = map (\<lambda>j. take (sizes' ! j) (drop 4 (bufs' ! j))) [0..<3] \<and>
    concat (map (drop 28) segs) = [1, 2, 3, 4, 5]"
  using gso_segments [of "\<lparr>backing = hdr_bytes False example_hdr @ example_packet @ [9, 9], slen = 43\<rparr>" False
      example_hdr example_packet False "replicate 3 (replicate 40 0)" "[0, 0, 0]" 4] example_gso example_gso_packet example_segments
  by (simp add: slice_ok_def capacity_def content_def) (auto simp: example_packet_def)

text \<open>When the payload has more pieces than there are buffers, every buffer is still filled
  with a correct segment, but the count returned with \<open>ErrTooManySegments\<close> is one less than the
  number of buffers populated, so the last segment written is lost to the caller.\<close>

theorem gso_too_many_segments:
  assumes "slice_ok inp" "content inp = hdr_bytes big v @ p" "gso_packet v p isV6"
    and "length bufs < segments (length p) (fixed v p)" "length bufs \<le> length sizes"
    and "\<forall>b \<in> set bufs. off + unat (csumStart v) + thdrLen v p + unat (gsoSize v) \<le> length b"
  shows "\<exists>bufs' sizes' seq.
    handleVirtioRead big inp bufs sizes off =
      Some (bufs', sizes', int (length bufs) - 1, Some ErrTooManySegments) \<and>
    (\<forall>j < length bufs. segment_ok big p (length p) (fixed v p) seq isV6 j
       (seg_start (fixed v p) j) (seg_stop (length p) (fixed v p) j) (take (sizes' ! j) (drop off (bufs' ! j))))"
proof -
  have "\<not> segments (length p) (fixed v p) \<le> length bufs" using assms(4) by simp
  then show ?thesis
    using gso_outcome [OF assms(1-3,5,6)] min_absorb2 [of "length bufs" "segments (length p) (fixed v p)"] assms(4)
    by (simp only: if_False less_imp_le seg_in_def) blast
qed

theorem gso_too_many_segments_witness:
  "\<exists>bufs' sizes'.
    handleVirtioRead False \<lparr>backing = hdr_bytes False example_hdr @ example_packet, slen = 43\<rparr>
      (replicate 2 (replicate 40 0)) [0, 0] 4 = Some (bufs', sizes', 1, Some ErrTooManySegments)"
  using gso_too_many_segments [of "\<lparr>backing = hdr_bytes False example_hdr @ example_packet, slen = 43\<rparr>" False
      example_hdr example_packet False "replicate 2 (replicate 40 0)" "[0, 0]" 4] example_gso example_gso_packet example_segments
  by (simp add: slice_ok_def capacity_def content_def) blast

end
