(* ===== verification/Gro.thy ===== *)
theory Gro
  imports Gso "HOL-Library.AList"
begin

text \<open>
  tun/offload_linux.go, the writing side: packets of one TCP or UDP flow that arrive in one batch
  are joined into larger packets which the kernel segments again.  The tables map a flow to the
  items that may still grow; a Go map is an association list (the order in which \<open>range\<close> visits it
  is the list's), the pool of recycled item slices is their number, and taking a slice from an
  empty pool panics.  Item fields keep the widths of the code; \<open>None\<close> is a panic.
\<close>

subsection \<open>Flows and items\<close>

record tcpFlowKey =
  tk_srcAddr :: bytes
  tk_dstAddr :: bytes
  tk_srcPort :: u16
  tk_dstPort :: u16
  tk_rxAck :: u32
  tk_isV6 :: bool

record tcpGROItem =
  ti_key :: tcpFlowKey
  ti_sentSeq :: u32
  ti_bufsIndex :: u16
  ti_numMerged :: u16
  ti_gsoSize :: u16
  ti_iphLen :: byte
  ti_tcphLen :: byte
  ti_pshSet :: bool

record udpFlowKey =
  uk_srcAddr :: bytes
  uk_dstAddr :: bytes
  uk_srcPort :: u16
  uk_dstPort :: u16
  uk_isV6 :: bool

record udpGROItem =
  ui_key :: udpFlowKey
  ui_bufsIndex :: u16
  ui_numMerged :: u16
  ui_gsoSize :: u16
  ui_iphLen :: byte
  ui_cSumKnownInvalid :: bool

record ('k, 'i) GROTable =
  itemsByFlow :: "('k \<times> 'i list) list"
  itemsPool :: nat

type_synonym tcpGROTable = "(tcpFlowKey, tcpGROItem) GROTable"
type_synonym udpGROTable = "(udpFlowKey, udpGROItem) GROTable"

definition IdealBatchSize :: nat where
  "IdealBatchSize = 128"

definition newTCPGROTable :: tcpGROTable where
  "newTCPGROTable = \<lparr>itemsByFlow = [], itemsPool = IdealBatchSize\<rparr>"

definition newUDPGROTable :: udpGROTable where
  "newUDPGROTable = \<lparr>itemsByFlow = [], itemsPool = IdealBatchSize\<rparr>"

definition newTCPFlowKey :: "gslice \<Rightarrow> nat \<Rightarrow> nat \<Rightarrow> nat \<Rightarrow> tcpFlowKey option" where
  "newTCPFlowKey pkt srcAddrOffset dstAddrOffset tcphOffset = do {
     let addrSize = dstAddrOffset - srcAddrOffset;
     src \<leftarrow> sub srcAddrOffset dstAddrOffset (backing pkt);
     dst \<leftarrow> sub dstAddrOffset (dstAddrOffset + addrSize) (backing pkt);
     sport \<leftarrow> get16 tcphOffset (content pkt);
     dport \<leftarrow> get16 (tcphOffset + 2) (content pkt);
     ack \<leftarrow> get32 (tcphOffset + 8) (content pkt);
     Some \<lparr>tk_srcAddr = go_copy (replicate 16 0) 0 src, tk_dstAddr = go_copy (replicate 16 0) 0 dst,
       tk_srcPort = sport, tk_dstPort = dport, tk_rxAck = ack, tk_isV6 = (addrSize = 16)\<rparr>}"

definition newUDPFlowKey :: "gslice \<Rightarrow> nat \<Rightarrow> nat \<Rightarrow> nat \<Rightarrow> udpFlowKey option" where
  "newUDPFlowKey pkt srcAddrOffset dstAddrOffset udphOffset = do {
     let addrSize = dstAddrOffset - srcAddrOffset;
     src \<leftarrow> sub srcAddrOffset dstAddrOffset (backing pkt);
     dst \<leftarrow> sub dstAddrOffset (dstAddrOffset + addrSize) (backing pkt);
     sport \<leftarrow> get16 udphOffset (content pkt);
     dport \<leftarrow> get16 (udphOffset + 2) (content pkt);
     Some \<lparr>uk_srcAddr = go_copy (replicate 16 0) 0 src, uk_dstAddr = go_copy (replicate 16 0) 0 dst,
       uk_srcPort = sport, uk_dstPort = dport, uk_isV6 = (addrSize = 16)\<rparr>}"

text \<open>\<open>newItems\<close> takes a slice from the pool; \<open>insert\<close> appends the item to its flow.\<close>

definition newItems :: "('k, 'i) GROTable \<Rightarrow> ('i list \<times> ('k, 'i) GROTable) option" where
  "newItems t = (if itemsPool t = 0 then None else Some ([], t\<lparr>itemsPool := itemsPool t - 1\<rparr>))"

definition addItem :: "'k \<Rightarrow> 'i \<Rightarrow> ('k, 'i) GROTable \<Rightarrow> ('k, 'i) GROTable option" where
  "addItem key item t = do {
     (items, t) \<leftarrow> (case map_of (itemsByFlow t) key of Some items \<Rightarrow> Some (items, t) | None \<Rightarrow> newItems t);
     Some (t\<lparr>itemsByFlow := AList.update key (items @ [item]) (itemsByFlow t)\<rparr>)}"

definition tcp_insert ::
    "tcpGROTable \<Rightarrow> gslice \<Rightarrow> nat \<Rightarrow> nat \<Rightarrow> nat \<Rightarrow> nat \<Rightarrow> nat \<Rightarrow> tcpGROTable option" where
  "tcp_insert t pkt srcAddrOffset dstAddrOffset tcphOffset tcphLen bufsIndex = do {
     key \<leftarrow> newTCPFlowKey pkt srcAddrOffset dstAddrOffset tcphOffset;
     payload \<leftarrow> tail_from (tcphOffset + tcphLen) (content pkt);
     seq \<leftarrow> get32 (tcphOffset + 4) (content pkt);
     f \<leftarrow> elem_at (content pkt) (tcphOffset + tcpFlagsOffset);
     addItem key \<lparr>ti_key = key, ti_sentSeq = seq, ti_bufsIndex = word_of_nat bufsIndex, ti_numMerged = 0,
       ti_gsoSize = word_of_nat (length payload), ti_iphLen = word_of_nat tcphOffset,
       ti_tcphLen = word_of_nat tcphLen, ti_pshSet = (f AND tcpFlagPSH \<noteq> 0)\<rparr> t}"

definition tcp_lookupOrInsert ::
    "tcpGROTable \<Rightarrow> gslice \<Rightarrow> nat \<Rightarrow> nat \<Rightarrow> nat \<Rightarrow> nat \<Rightarrow> nat \<Rightarrow> (tcpGROItem list option \<times> tcpGROTable) option" where
  "tcp_lookupOrInsert t pkt srcAddrOffset dstAddrOffset tcphOffset tcphLen bufsIndex = do {
     key \<leftarrow> newTCPFlowKey pkt srcAddrOffset dstAddrOffset tcphOffset;
     case map_of (itemsByFlow t) key of
       Some items \<Rightarrow> Some (Some items, t)
     | None \<Rightarrow> do {
         t \<leftarrow> tcp_insert t pkt srcAddrOffset dstAddrOffset tcphOffset tcphLen bufsIndex;
         Some (None, t)}}"

definition udp_insert ::
    "udpGROTable \<Rightarrow> gslice \<Rightarrow> nat \<Rightarrow> nat \<Rightarrow> nat \<Rightarrow> nat \<Rightarrow> bool \<Rightarrow> udpGROTable option" where
  "udp_insert t pkt srcAddrOffset dstAddrOffset udphOffset bufsIndex cSumKnownInvalid = do {
     key \<leftarrow> newUDPFlowKey pkt srcAddrOffset dstAddrOffset udphOffset;
     payload \<leftarrow> tail_from (udphOffset + udphLen) (content pkt);
     addItem key \<lparr>ui_key = key, ui_bufsIndex = word_of_nat bufsIndex, ui_numMerged = 0,
       ui_gsoSize = word_of_nat (length payload), ui_iphLen = word_of_nat udphOffset,
       ui_cSumKnownInvalid = cSumKnownInvalid\<rparr> t}"

definition udp_lookupOrInsert ::
    "udpGROTable \<Rightarrow> gslice \<Rightarrow> nat \<Rightarrow> nat \<Rightarrow> nat \<Rightarrow> nat \<Rightarrow> (udpGROItem list option \<times> udpGROTable) option" where
  "udp_lookupOrInsert t pkt srcAddrOffset dstAddrOffset udphOffset bufsIndex = do {
     key \<leftarrow> newUDPFlowKey pkt srcAddrOffset dstAddrOffset udphOffset;
     case map_of (itemsByFlow t) key of
       Some items \<Rightarrow> Some (Some items, t)
     | None \<Rightarrow> do {
         t \<leftarrow> udp_insert t pkt srcAddrOffset dstAddrOffset udphOffset bufsIndex False;
         Some (None, t)}}"

text \<open>\<open>updateAt\<close>, \<open>deleteAt\<close> and \<open>reset\<close>.\<close>

definition updateAt :: "'k \<Rightarrow> 'i \<Rightarrow> nat \<Rightarrow> ('k, 'i) GROTable \<Rightarrow> ('k, 'i) GROTable option" where
  "updateAt key item i t = (case map_of (itemsByFlow t) key of
     None \<Rightarrow> None
   | Some items \<Rightarrow> if i < length items
       then Some (t\<lparr>itemsByFlow := AList.update key (items[i := item]) (itemsByFlow t)\<rparr>) else None)"

definition deleteAt :: "'k \<Rightarrow> nat \<Rightarrow> ('k, 'i) GROTable \<Rightarrow> ('k, 'i) GROTable option" where
  "deleteAt key i t = (case map_of (itemsByFlow t) key of
     None \<Rightarrow> None
   | Some items \<Rightarrow> if i < length items
       then Some (t\<lparr>itemsByFlow := AList.update key (take i items @ drop (Suc i) items) (itemsByFlow t)\<rparr>)
       else None)"

definition table_reset :: "('k, 'i) GROTable \<Rightarrow> ('k, 'i) GROTable" where
  "table_reset t = \<lparr>itemsByFlow = [], itemsPool = itemsPool t + length (itemsByFlow t)\<rparr>"

subsection \<open>Which packets may be joined\<close>

datatype canCoalesce = coalescePrepend | coalesceUnavailable | coalesceAppend

datatype coalesceResult = coalesceInsufficientCap | coalescePSHEnding | coalesceItemInvalidCSum
  | coalescePktInvalidCSum | coalesceSuccess

datatype groResult = groResultNoop | groResultTableInsert | groResultCoalesced

datatype groCandidateType = notGROCandidate | tcp4GROCandidate | tcp6GROCandidate
  | udp4GROCandidate | udp6GROCandidate

definition ipv4FlagMoreFragments :: byte where
  "ipv4FlagMoreFragments = 0x20"

definition ipHeadersCanCoalesce :: "bytes \<Rightarrow> bytes \<Rightarrow> bool" where
  "ipHeadersCanCoalesce pktA pktB =
     (if length pktA < 9 \<or> length pktB < 9 then False
      else if drop_bit 4 (pktA ! 0) = 6 then
        pktA ! 0 = pktB ! 0 \<and> drop_bit 4 (pktA ! 1) = drop_bit 4 (pktB ! 1) \<and> pktA ! 7 = pktB ! 7
      else pktA ! 1 = pktB ! 1 \<and> drop_bit 5 (pktA ! 6) = drop_bit 5 (pktB ! 6) \<and> pktA ! 8 = pktB ! 8)"

definition udpPacketsCanCoalesce ::
    "gslice \<Rightarrow> byte \<Rightarrow> u16 \<Rightarrow> udpGROItem \<Rightarrow> gslice list \<Rightarrow> nat \<Rightarrow> canCoalesce option" where
  "udpPacketsCanCoalesce pkt iphLen gso item bufs bufsOffset = do {
     buf \<leftarrow> nth_buf bufs (unat (ui_bufsIndex item));
     pktTarget \<leftarrow> tail_slice bufsOffset buf;
     if \<not> ipHeadersCanCoalesce (content pkt) (content pktTarget) then Some coalesceUnavailable
     else do {
       t \<leftarrow> tail_from (unat (iphLen + word_of_nat udphLen)) (content pktTarget);
       if ui_gsoSize item = 0 then None
       else if length t mod unat (ui_gsoSize item) \<noteq> 0 then Some coalesceUnavailable
       else if gso > ui_gsoSize item then Some coalesceUnavailable
       else Some coalesceAppend}}"

definition tcpPacketsCanCoalesce ::
    "gslice \<Rightarrow> byte \<Rightarrow> byte \<Rightarrow> u32 \<Rightarrow> bool \<Rightarrow> u16 \<Rightarrow> tcpGROItem \<Rightarrow> gslice list \<Rightarrow> nat \<Rightarrow> canCoalesce option" where
  "tcpPacketsCanCoalesce pkt iphLen tcphLen seq pshSet gso item bufs bufsOffset = do {
     buf \<leftarrow> nth_buf bufs (unat (ti_bufsIndex item));
     pktTarget \<leftarrow> tail_slice bufsOffset buf;
     if tcphLen \<noteq> ti_tcphLen item then Some coalesceUnavailable
     else do {
       same \<leftarrow> (if tcphLen > 20 then do {
                   a \<leftarrow> sub (unat (iphLen + 20)) (unat (iphLen + tcphLen)) (backing pkt);
                   b \<leftarrow> sub (unat (ti_iphLen item + 20)) (unat (iphLen + tcphLen)) (backing pktTarget);
                   Some (a = b)}
                else Some True);
       if \<not> same then Some coalesceUnavailable
       else if \<not> ipHeadersCanCoalesce (content pkt) (content pktTarget) then Some coalesceUnavailable
       else do {
         let lhsLen = ti_gsoSize item + ti_numMerged item * ti_gsoSize item;
         if seq = ti_sentSeq item + ucast lhsLen then
           if ti_pshSet item then Some coalesceUnavailable
           else do {
             t \<leftarrow> tail_from (unat (iphLen + tcphLen)) (content pktTarget);
             if ti_gsoSize item = 0 then None
             else if length t mod unat (ti_gsoSize item) \<noteq> 0 then Some coalesceUnavailable
             else if gso > ti_gsoSize item then Some coalesceUnavailable
             else Some coalesceAppend}
         else if seq + ucast gso = ti_sentSeq item then
           if pshSet then Some coalesceUnavailable
           else if gso < ti_gsoSize item then Some coalesceUnavailable
           else if gso > ti_gsoSize item \<and> ti_numMerged item > 0 then Some coalesceUnavailable
           else Some coalescePrepend
         else Some coalesceUnavailable}}}"

definition packetIsGROCandidate :: "bytes \<Rightarrow> bool \<Rightarrow> groCandidateType" where
  "packetIsGROCandidate b canUDPGRO =
     (if length b < 28 then notGROCandidate
      else if drop_bit 4 (b ! 0) = 4 then
        if b ! 0 AND 0x0F \<noteq> 5 then notGROCandidate
        else if b ! 9 = IPPROTO_TCP \<and> length b \<ge> 40 then tcp4GROCandidate
        else if b ! 9 = IPPROTO_UDP \<and> canUDPGRO then udp4GROCandidate
        else notGROCandidate
      else if drop_bit 4 (b ! 0) = 6 then
        if b ! 6 = IPPROTO_TCP \<and> length b \<ge> 60 then tcp6GROCandidate
        else if b ! 6 = IPPROTO_UDP \<and> length b \<ge> 48 \<and> canUDPGRO then udp6GROCandidate
        else notGROCandidate
      else notGROCandidate)"

subsection \<open>Joining two packets\<close>

text \<open>Extending \<open>dst\<close> by \<open>n\<close> bytes and copying \<open>src\<close> to \<open>at\<close>.\<close>

definition extendWith :: "gslice \<Rightarrow> int \<Rightarrow> nat \<Rightarrow> bytes \<Rightarrow> gslice option" where
  "extendWith dst n k src =
     (if n < 0 then None
      else do {
        let dst = append_zeros (nat n) dst;
        c \<leftarrow> copy_to k src (content dst);
        Some (upd_content c dst)})"

definition coalesceUDPPackets ::
    "bool \<Rightarrow> gslice \<Rightarrow> udpGROItem \<Rightarrow> gslice list \<Rightarrow> nat \<Rightarrow> bool \<Rightarrow>
     (coalesceResult \<times> udpGROItem \<times> gslice list) option" where
  "coalesceUDPPackets big pkt item bufs bufsOffset isV6 = do {
     let k = unat (ui_bufsIndex item);
     buf \<leftarrow> nth_buf bufs k;
     pktHead \<leftarrow> tail_slice bufsOffset buf;
     let headersLen = unat (ui_iphLen item + word_of_nat udphLen);
     let coalescedLen = int (slen pktHead) + int (slen pkt) - int headersLen;
     if int (capacity pktHead) - int bufsOffset < coalescedLen then Some (coalesceInsufficientCap, item, bufs)
     else do {
       itemValid \<leftarrow> (if ui_numMerged item \<noteq> 0 then Some True
                    else if ui_cSumKnownInvalid item then Some False
                    else checksumValid big pktHead (ui_iphLen item) IPPROTO_UDP isV6);
       if \<not> itemValid then Some (coalesceItemInvalidCSum, item, bufs)
       else do {
         pktValid \<leftarrow> checksumValid big pkt (ui_iphLen item) IPPROTO_UDP isV6;
         if \<not> pktValid then Some (coalescePktInvalidCSum, item, bufs)
         else do {
           payload \<leftarrow> tail_from headersLen (content pkt);
           buf \<leftarrow> extendWith buf (int (slen pkt) - int headersLen) (bufsOffset + slen pktHead) payload;
           Some (coalesceSuccess, item\<lparr>ui_numMerged := ui_numMerged item + 1\<rparr>, bufs[k := buf])}}}}"

text \<open>The last statements of \<open>coalesceTCPPackets\<close>, common to both directions.\<close>

definition merged :: "u16 \<Rightarrow> tcpGROItem \<Rightarrow> tcpGROItem" where
  "merged gso item = item\<lparr>ti_gsoSize := (if gso > ti_gsoSize item then gso else ti_gsoSize item),
     ti_numMerged := ti_numMerged item + 1\<rparr>"

definition coalesceTCPPackets ::
    "bool \<Rightarrow> canCoalesce \<Rightarrow> gslice \<Rightarrow> nat \<Rightarrow> u16 \<Rightarrow> u32 \<Rightarrow> bool \<Rightarrow> tcpGROItem \<Rightarrow> gslice list \<Rightarrow> nat \<Rightarrow> bool \<Rightarrow>
     (coalesceResult \<times> tcpGROItem \<times> gslice list) option" where
  "coalesceTCPPackets big mode pkt pktBuffsIndex gso seq pshSet item bufs bufsOffset isV6 = do {
     let k = unat (ti_bufsIndex item);
     buf \<leftarrow> nth_buf bufs k;
     target \<leftarrow> tail_slice bufsOffset buf;
     let headersLen = unat (ti_iphLen item + ti_tcphLen item);
     let coalescedLen = int (slen target) + int (slen pkt) - int headersLen;
     let valid = (if ti_numMerged item \<noteq> 0 then Some True
                  else checksumValid big target (ti_iphLen item) IPPROTO_TCP isV6);
     if mode = coalescePrepend then
       if int (capacity pkt) - int bufsOffset < coalescedLen then Some (coalesceInsufficientCap, item, bufs)
       else if pshSet then Some (coalescePSHEnding, item, bufs)
       else do {
         itemValid \<leftarrow> valid;
         if \<not> itemValid then Some (coalesceItemInvalidCSum, item, bufs)
         else do {
           pktValid \<leftarrow> checksumValid big pkt (ti_iphLen item) IPPROTO_TCP isV6;
           if \<not> pktValid then Some (coalescePktInvalidCSum, item, bufs)
           else do {
             pktBuf \<leftarrow> nth_buf bufs pktBuffsIndex;
             payload \<leftarrow> tail_from (bufsOffset + headersLen) (content buf);
             pktBuf \<leftarrow> extendWith pktBuf (coalescedLen - int (slen pkt)) (bufsOffset + slen pkt) payload;
             Some (coalesceSuccess, merged gso (item\<lparr>ti_sentSeq := seq\<rparr>),
               bufs[pktBuffsIndex := buf, k := pktBuf])}}}
     else
       if int (capacity target) - int bufsOffset < coalescedLen then Some (coalesceInsufficientCap, item, bufs)
       else do {
         itemValid \<leftarrow> valid;
         if \<not> itemValid then Some (coalesceItemInvalidCSum, item, bufs)
         else do {
           pktValid \<leftarrow> checksumValid big pkt (ti_iphLen item) IPPROTO_TCP isV6;
           if \<not> pktValid then Some (coalescePktInvalidCSum, item, bufs)
           else do {
             let at = unat (ti_iphLen item + word_of_nat tcpFlagsOffset);
             (item, buf) \<leftarrow> (if pshSet then do {
                   f \<leftarrow> elem_at (content target) at;
                   c \<leftarrow> set_elem (bufsOffset + at) (f OR tcpFlagPSH) (content buf);
                   Some (item\<lparr>ti_pshSet := True\<rparr>, upd_content c buf)}
                 else Some (item, buf));
             payload \<leftarrow> tail_from headersLen (content pkt);
             buf \<leftarrow> extendWith buf (int (slen pkt) - int headersLen) (bufsOffset + slen target) payload;
             Some (coalesceSuccess, merged gso item, bufs[k := buf])}}}}"

subsection \<open>One packet\<close>

text \<open>\<open>clear(bufs[k][offset-virtioNetHdrLen : offset])\<close>.\<close>

definition clearHdr :: "nat \<Rightarrow> nat \<Rightarrow> gslice list \<Rightarrow> gslice list option" where
  "clearHdr k offset bufs = do {
     buf \<leftarrow> nth_buf bufs k;
     if offset < virtioNetHdrLen \<or> capacity buf < offset then None
     else Some (bufs[k := buf\<lparr>backing := go_copy (backing buf) (offset - virtioNetHdrLen)
       (replicate virtioNetHdrLen 0)\<rparr>])}"

text \<open>The loop over the items of the flow, from the last one down.\<close>

fun tcpItems ::
    "bool \<Rightarrow> gslice \<Rightarrow> nat \<Rightarrow> byte \<Rightarrow> byte \<Rightarrow> u32 \<Rightarrow> bool \<Rightarrow> u16 \<Rightarrow> tcpGROItem list \<Rightarrow> nat \<Rightarrow> gslice list \<Rightarrow> nat \<Rightarrow>
     tcpGROTable \<Rightarrow> bool \<Rightarrow> (groResult option \<times> gslice list \<times> tcpGROTable) option" where
  "tcpItems big pkt pktI iphLen tcphLen seq pshSet gso items 0 bufs offset table isV6 = Some (None, bufs, table)"
| "tcpItems big pkt pktI iphLen tcphLen seq pshSet gso items (Suc i) bufs offset table isV6 = do {
     item \<leftarrow> nth_buf items i;
     can \<leftarrow> tcpPacketsCanCoalesce pkt iphLen tcphLen seq pshSet gso item bufs offset;
     if can = coalesceUnavailable
     then tcpItems big pkt pktI iphLen tcphLen seq pshSet gso items i bufs offset table isV6
     else do {
       (result, item, bufs) \<leftarrow> coalesceTCPPackets big can pkt pktI gso seq pshSet item bufs offset isV6;
       case result of
         coalesceSuccess \<Rightarrow> do {
           table \<leftarrow> updateAt (ti_key item) item i table;
           Some (Some groResultCoalesced, bufs, table)}
       | coalesceItemInvalidCSum \<Rightarrow> do {
           table \<leftarrow> deleteAt (ti_key item) i table;
           bufs \<leftarrow> clearHdr (unat (ti_bufsIndex item)) offset bufs;
           tcpItems big pkt pktI iphLen tcphLen seq pshSet gso items i bufs offset table isV6}
       | coalescePktInvalidCSum \<Rightarrow> Some (Some groResultNoop, bufs, table)
       | _ \<Rightarrow> tcpItems big pkt pktI iphLen tcphLen seq pshSet gso items i bufs offset table isV6}}"

text \<open>The length and fragment checks \<open>tcpGRO\<close> and \<open>udpGRO\<close> share; the second result is the IP
  header length.\<close>

definition groLength :: "bytes \<Rightarrow> bool \<Rightarrow> (bool \<times> nat) option" where
  "groLength pkt isV6 = do {
     x \<leftarrow> elem_at pkt 0;
     let iphLen = (if isV6 then 40 else unat ((x AND 0x0F) * 4));
     same \<leftarrow> (if isV6 then do {n \<leftarrow> get16 4 pkt; Some (int (unat n) = int (length pkt) - int iphLen)}
              else do {n \<leftarrow> get16 2 pkt; Some (unat n = length pkt)});
     Some (same \<and> iphLen \<le> length pkt, iphLen)}"

definition fragmented :: "bytes \<Rightarrow> bool \<Rightarrow> bool option" where
  "fragmented pkt isV6 =
     (if isV6 then Some False
      else do {
        a \<leftarrow> elem_at pkt 6;
        b \<leftarrow> elem_at pkt 7;
        Some (a AND ipv4FlagMoreFragments \<noteq> 0 \<or> push_bit 3 a \<noteq> 0 \<or> b \<noteq> 0)})"

text \<open>The checks before the table is used: \<open>Some None\<close> is \<open>groResultNoop\<close>.\<close>

definition tcpParse :: "gslice \<Rightarrow> bool \<Rightarrow> (nat \<times> nat \<times> bool \<times> u16) option option" where
  "tcpParse pkt isV6 =
     (if slen pkt > maxUint16 then Some None
      else do {
        (lengthOk, iphLen) \<leftarrow> groLength (content pkt) isV6;
        if \<not> lengthOk then Some None
        else do {
          x \<leftarrow> elem_at (content pkt) (iphLen + 12);
          let tcphLen = unat (drop_bit 4 x * 4);
          if tcphLen < 20 \<or> tcphLen > 60 then Some None
          else if slen pkt < iphLen + tcphLen then Some None
          else do {
            frag \<leftarrow> fragmented (content pkt) isV6;
            if frag then Some None
            else do {
              tcpFlags \<leftarrow> elem_at (content pkt) (iphLen + tcpFlagsOffset);
              if tcpFlags \<noteq> tcpFlagACK \<and> tcpFlags \<noteq> (tcpFlagACK OR tcpFlagPSH) then Some None
              else do {
                let gso = (word_of_nat (slen pkt - tcphLen - iphLen) :: u16);
                if gso < 1 then Some None
                else Some (Some (iphLen, tcphLen, tcpFlags \<noteq> tcpFlagACK, gso))}}}}})"

definition tcpGRO ::
    "bool \<Rightarrow> gslice list \<Rightarrow> nat \<Rightarrow> nat \<Rightarrow> tcpGROTable \<Rightarrow> bool \<Rightarrow> (groResult \<times> gslice list \<times> tcpGROTable) option" where
  "tcpGRO big bufs offset pktI table isV6 = do {
     buf \<leftarrow> nth_buf bufs pktI;
     pkt \<leftarrow> tail_slice offset buf;
     parsed \<leftarrow> tcpParse pkt isV6;
     case parsed of
       None \<Rightarrow> Some (groResultNoop, bufs, table)
     | Some (iphLen, tcphLen, pshSet, gso) \<Rightarrow> do {
         seq \<leftarrow> get32 (iphLen + 4) (content pkt);
         (found, table) \<leftarrow> tcp_lookupOrInsert table pkt (srcAddrAt isV6)
            (srcAddrAt isV6 + addrSize isV6) iphLen tcphLen pktI;
         case found of
           None \<Rightarrow> Some (groResultTableInsert, bufs, table)
         | Some items \<Rightarrow> do {
             (result, bufs, table) \<leftarrow> tcpItems big pkt pktI (word_of_nat iphLen) (word_of_nat tcphLen)
                seq pshSet gso items (length items) bufs offset table isV6;
             case result of
               Some r \<Rightarrow> Some (r, bufs, table)
             | None \<Rightarrow> do {
                 table \<leftarrow> tcp_insert table pkt (srcAddrAt isV6)
                   (srcAddrAt isV6 + addrSize isV6) iphLen tcphLen pktI;
                 Some (groResultTableInsert, bufs, table)}}}}"

definition udpParse :: "gslice \<Rightarrow> bool \<Rightarrow> (nat \<times> u16) option option" where
  "udpParse pkt isV6 =
     (if slen pkt > maxUint16 then Some None
      else do {
        (lengthOk, iphLen) \<leftarrow> groLength (content pkt) isV6;
        if \<not> lengthOk then Some None
        else if slen pkt < iphLen + udphLen then Some None
        else do {
          frag \<leftarrow> fragmented (content pkt) isV6;
          if frag then Some None
          else do {
            let gso = (word_of_nat (slen pkt - udphLen - iphLen) :: u16);
            if gso < 1 then Some None else Some (Some (iphLen, gso))}}})"

definition udpGRO ::
    "bool \<Rightarrow> gslice list \<Rightarrow> nat \<Rightarrow> nat \<Rightarrow> udpGROTable \<Rightarrow> bool \<Rightarrow> (groResult \<times> gslice list \<times> udpGROTable) option" where
  "udpGRO big bufs offset pktI table isV6 = do {
     buf \<leftarrow> nth_buf bufs pktI;
     pkt \<leftarrow> tail_slice offset buf;
     parsed \<leftarrow> udpParse pkt isV6;
     case parsed of
       None \<Rightarrow> Some (groResultNoop, bufs, table)
     | Some (iphLen, gso) \<Rightarrow> do {
         (found, table) \<leftarrow> udp_lookupOrInsert table pkt (srcAddrAt isV6)
            (srcAddrAt isV6 + addrSize isV6) iphLen pktI;
         case found of
           None \<Rightarrow> Some (groResultTableInsert, bufs, table)
         | Some items \<Rightarrow> do {
             item \<leftarrow> (if items = [] then None else Some (last items));
             can \<leftarrow> udpPacketsCanCoalesce pkt (word_of_nat iphLen) gso item bufs offset;
             (result, item, bufs) \<leftarrow> (if can = coalesceAppend
                then coalesceUDPPackets big pkt item bufs offset isV6
                else Some (coalesceInsufficientCap, item, bufs));
             if result = coalesceSuccess then do {
               table \<leftarrow> updateAt (ui_key item) item (length items - 1) table;
               Some (groResultCoalesced, bufs, table)}
             else do {
               table \<leftarrow> udp_insert table pkt (srcAddrAt isV6) (srcAddrAt isV6 + addrSize isV6) iphLen pktI
                 (result = coalescePktInvalidCSum);
               Some (groResultTableInsert, bufs, table)}}}}"

subsection \<open>Accounting\<close>

text \<open>The packet at \<open>offset\<close> of the buffer \<open>c\<close> gets new length fields, and an IPv4 header a new
  checksum.  \<open>rest\<close> is what the array holds beyond the slice.\<close>

definition newLength :: "bool \<Rightarrow> byte \<Rightarrow> bool \<Rightarrow> bytes \<Rightarrow> bytes \<Rightarrow> bytes option" where
  "newLength big iphLen isV6 rest pkt =
     (if isV6 then put16 4 (word_of_nat (length pkt) - ucast iphLen) pkt
      else do {
        pkt \<leftarrow> set_elem 10 0 pkt;
        pkt \<leftarrow> set_elem 11 0 pkt;
        pkt \<leftarrow> put16 2 (word_of_nat (length pkt)) pkt;
        iph \<leftarrow> sub 0 (unat iphLen) (pkt @ rest);
        put16 10 (NOT (checksum big iph 0)) pkt})"

definition account ::
    "bool \<Rightarrow> virtioNetHdr \<Rightarrow> byte \<Rightarrow> byte \<Rightarrow> bool \<Rightarrow> nat \<Rightarrow> gslice \<Rightarrow> (gslice \<times> tun_error option) option" where
  "account big hdr proto iphLen isV6 offset buf = do {
     let rest = drop (slen buf) (backing buf);
     pkt \<leftarrow> tail_from offset (content buf);
     pkt \<leftarrow> newLength big iphLen isV6 rest pkt;
     let c = take offset (content buf) @ pkt;
     if offset < virtioNetHdrLen then None
     else do {
       h \<leftarrow> tail_from (offset - virtioNetHdrLen) c;
       case encode big hdr h of
         Inl err \<Rightarrow> Some (upd_content c buf, Some err)
       | Inr h \<Rightarrow> do {
           let c = take (offset - virtioNetHdrLen) c @ h;
           pkt \<leftarrow> (if proto = IPPROTO_UDP then do {
                     u \<leftarrow> tail_from (unat iphLen) (drop offset c);
                     put16 (unat (iphLen + 4)) (word_of_nat (length u)) (drop offset c)}
                   else Some (drop offset c));
           psum \<leftarrow> pseudo big proto isV6 (pkt @ rest) (word_of_int (int (length pkt) - int (unat iphLen)));
           pkt \<leftarrow> put16 (unat (csumStart hdr + csumOffset hdr)) (checksum big [] psum) pkt;
           Some (upd_content (take offset c @ pkt) buf, None)}}}"

definition tcpHdr :: "tcpGROItem \<Rightarrow> virtioNetHdr" where
  "tcpHdr item = \<lparr>flags = VIRTIO_NET_HDR_F_NEEDS_CSUM,
     gsoType = (if tk_isV6 (ti_key item) then VIRTIO_NET_HDR_GSO_TCPV6 else VIRTIO_NET_HDR_GSO_TCPV4),
     hdrLen = ucast (ti_iphLen item + ti_tcphLen item), gsoSize = ti_gsoSize item,
     csumStart = ucast (ti_iphLen item), csumOffset = 16\<rparr>"

definition udpHdr :: "udpGROItem \<Rightarrow> virtioNetHdr" where
  "udpHdr item = \<lparr>flags = VIRTIO_NET_HDR_F_NEEDS_CSUM, gsoType = VIRTIO_NET_HDR_GSO_UDP_L4,
     hdrLen = ucast (ui_iphLen item + word_of_nat udphLen), gsoSize = ui_gsoSize item,
     csumStart = ucast (ui_iphLen item), csumOffset = 6\<rparr>"

fun applyTCPCoalesceAccounting ::
    "bool \<Rightarrow> nat \<Rightarrow> tcpGROItem list \<Rightarrow> gslice list \<Rightarrow> (gslice list \<times> tun_error option) option" where
  "applyTCPCoalesceAccounting big offset [] bufs = Some (bufs, None)"
| "applyTCPCoalesceAccounting big offset (item # items) bufs =
     (if ti_numMerged item > 0 then do {
        buf \<leftarrow> nth_buf bufs (unat (ti_bufsIndex item));
        (buf, err) \<leftarrow> account big (tcpHdr item) IPPROTO_TCP (ti_iphLen item) (tk_isV6 (ti_key item)) offset buf;
        let bufs = bufs[unat (ti_bufsIndex item) := buf];
        if err \<noteq> None then Some (bufs, err) else applyTCPCoalesceAccounting big offset items bufs}
      else do {
        bufs \<leftarrow> clearHdr (unat (ti_bufsIndex item)) offset bufs;
        applyTCPCoalesceAccounting big offset items bufs})"

fun applyUDPCoalesceAccounting ::
    "bool \<Rightarrow> nat \<Rightarrow> udpGROItem list \<Rightarrow> gslice list \<Rightarrow> (gslice list \<times> tun_error option) option" where
  "applyUDPCoalesceAccounting big offset [] bufs = Some (bufs, None)"
| "applyUDPCoalesceAccounting big offset (item # items) bufs =
     (if ui_numMerged item > 0 then do {
        buf \<leftarrow> nth_buf bufs (unat (ui_bufsIndex item));
        (buf, err) \<leftarrow> account big (udpHdr item) IPPROTO_UDP (ui_iphLen item) (uk_isV6 (ui_key item)) offset buf;
        let bufs = bufs[unat (ui_bufsIndex item) := buf];
        if err \<noteq> None then Some (bufs, err) else applyUDPCoalesceAccounting big offset items bufs}
      else do {
        bufs \<leftarrow> clearHdr (unat (ui_bufsIndex item)) offset bufs;
        applyUDPCoalesceAccounting big offset items bufs})"

definition table_items :: "('k, 'i) GROTable \<Rightarrow> 'i list" where
  "table_items t = concat (map snd (itemsByFlow t))"

subsection \<open>The batch\<close>

record gro_state =
  gs_bufs :: "gslice list"
  gs_tcp :: tcpGROTable
  gs_udp :: udpGROTable
  gs_toWrite :: "nat list"

definition groPacket :: "bool \<Rightarrow> nat \<Rightarrow> bool \<Rightarrow> nat \<Rightarrow> bytes \<Rightarrow> gro_state \<Rightarrow> (groResult \<times> gro_state) option" where
  "groPacket big offset canUDPGRO i pkt s =
     (let tcp = (\<lambda>isV6. do {(r, bufs, t) \<leftarrow> tcpGRO big (gs_bufs s) offset i (gs_tcp s) isV6;
                            Some (r, s\<lparr>gs_bufs := bufs, gs_tcp := t\<rparr>)});
          udp = (\<lambda>isV6. do {(r, bufs, t) \<leftarrow> udpGRO big (gs_bufs s) offset i (gs_udp s) isV6;
                            Some (r, s\<lparr>gs_bufs := bufs, gs_udp := t\<rparr>)})
      in case packetIsGROCandidate pkt canUDPGRO of
           tcp4GROCandidate \<Rightarrow> tcp False
         | tcp6GROCandidate \<Rightarrow> tcp True
         | udp4GROCandidate \<Rightarrow> udp False
         | udp6GROCandidate \<Rightarrow> udp True
         | notGROCandidate \<Rightarrow> Some (groResultNoop, s))"

function groLoop :: "bool \<Rightarrow> nat \<Rightarrow> bool \<Rightarrow> nat \<Rightarrow> nat \<Rightarrow> gro_state \<Rightarrow> (gro_state \<times> tun_error option) option" where
  "groLoop big offset canUDPGRO n i s =
     (if i < n then do {
        buf \<leftarrow> nth_buf (gs_bufs s) i;
        if offset < virtioNetHdrLen \<or> int offset > int (slen buf) - 1 then Some (s, Some InvalidOffset)
        else do {
          (result, s) \<leftarrow> groPacket big offset canUDPGRO i (drop offset (content buf)) s;
          s \<leftarrow> (case result of
                 groResultNoop \<Rightarrow> do {
                   bufs \<leftarrow> clearHdr i offset (gs_bufs s);
                   Some (s\<lparr>gs_bufs := bufs, gs_toWrite := gs_toWrite s @ [i]\<rparr>)}
               | groResultTableInsert \<Rightarrow> Some (s\<lparr>gs_toWrite := gs_toWrite s @ [i]\<rparr>)
               | groResultCoalesced \<Rightarrow> Some s);
          groLoop big offset canUDPGRO n (Suc i) s}}
      else Some (s, None))"
  by pat_completeness auto
termination
  by (relation "measure (\<lambda>(big, offset, canUDPGRO, n, i, s). n - i)") auto

declare groLoop.simps [simp del]

definition handleGRO :: "bool \<Rightarrow> nat \<Rightarrow> bool \<Rightarrow> gro_state \<Rightarrow> (gro_state \<times> tun_error list) option" where
  "handleGRO big offset canUDPGRO s = do {
     (s, err) \<leftarrow> groLoop big offset canUDPGRO (length (gs_bufs s)) 0 s;
     case err of
       Some e \<Rightarrow> Some (s, [e])
     | None \<Rightarrow> do {
         (bufs, errTCP) \<leftarrow> applyTCPCoalesceAccounting big offset (table_items (gs_tcp s)) (gs_bufs s);
         (bufs, errUDP) \<leftarrow> applyUDPCoalesceAccounting big offset (table_items (gs_udp s)) bufs;
         Some (s\<lparr>gs_bufs := bufs\<rparr>, List.map_filter id [errTCP, errUDP])}}"

subsection \<open>Writing to the device\<close>

text \<open>\<open>NativeTun.Write\<close>: the fields of the device it uses, with what it hands to the file and the
  answer of each \<open>write\<close>.  The tables are empty again when it returns.\<close>

datatype file_write = Wrote nat | EBADFD | WriteError nat

datatype write_error = GroErrors "tun_error list" | ErrClosed | WriteErrors "nat list"

record NativeTun =
  vnetHdr :: bool
  udpGSO :: bool
  tcpTable :: tcpGROTable
  udpTable :: udpGROTable
  tunFile :: "bytes list"

definition tun_reset :: "NativeTun \<Rightarrow> NativeTun" where
  "tun_reset tun = tun\<lparr>tcpTable := table_reset (tcpTable tun), udpTable := table_reset (udpTable tun)\<rparr>"

fun writeAll ::
    "(nat \<Rightarrow> bytes \<Rightarrow> file_write) \<Rightarrow> gslice list \<Rightarrow> nat \<Rightarrow> nat list \<Rightarrow> nat \<Rightarrow> nat list \<Rightarrow> NativeTun \<Rightarrow>
     (NativeTun \<times> nat \<times> write_error option) option" where
  "writeAll answer bufs offset [] written errs tun =
     Some (tun, written, if errs = [] then None else Some (WriteErrors errs))"
| "writeAll answer bufs offset (bufsI # toWrite) written errs tun = do {
     buf \<leftarrow> nth_buf bufs bufsI;
     b \<leftarrow> tail_from offset (content buf);
     let answered = answer (length (tunFile tun)) b;
     let tun = tun\<lparr>tunFile := tunFile tun @ [b]\<rparr>;
     case answered of
       EBADFD \<Rightarrow> Some (tun, written, Some ErrClosed)
     | WriteError e \<Rightarrow> writeAll answer bufs offset toWrite written (errs @ [e]) tun
     | Wrote n \<Rightarrow> writeAll answer bufs offset toWrite (written + n) errs tun}"

definition tun_Write ::
    "bool \<Rightarrow> (nat \<Rightarrow> bytes \<Rightarrow> file_write) \<Rightarrow> gslice list \<Rightarrow> nat \<Rightarrow> NativeTun \<Rightarrow>
     (gslice list \<times> NativeTun \<times> nat \<times> write_error option) option" where
  "tun_Write big answer bufs offset tun =
     (if vnetHdr tun then do {
        (s, errs) \<leftarrow> handleGRO big offset (udpGSO tun)
           \<lparr>gs_bufs = bufs, gs_tcp = tcpTable tun, gs_udp = udpTable tun, gs_toWrite = []\<rparr>;
        let tun = tun\<lparr>tcpTable := gs_tcp s, udpTable := gs_udp s\<rparr>;
        if errs \<noteq> [] then Some (gs_bufs s, tun_reset tun, 0, Some (GroErrors errs))
        else do {
          (tun, written, err) \<leftarrow>
            writeAll answer (gs_bufs s) (offset - virtioNetHdrLen) (gs_toWrite s) 0 [] tun;
          Some (gs_bufs s, tun_reset tun, written, err)}}
      else do {
        (tun, written, err) \<leftarrow> writeAll answer bufs offset [0..<length bufs] 0 [] tun;
        Some (bufs, tun_reset tun, written, err)})"

end
