(* ===== verification/Gro_Conserve.thy ===== *)
theory Gro_Conserve
  imports Gro
begin

text \<open>
  Joining TCP packets loses, repeats and moves no byte.  What a TCP packet carries is the set of
  its payload bytes, each with its flow and its sequence number; the packets written to the device
  carry what the packets of the batch carried, and every other packet is written as it came.
\<close>

subsection \<open>What a packet carries\<close>

definition v6 :: "bytes \<Rightarrow> bool" where
  "v6 p \<longleftrightarrow> drop_bit 4 (p ! 0) = 6"

definition iph :: "bytes \<Rightarrow> nat" where
  "iph p = (if v6 p then 40 else 20)"

definition tcph :: "bytes \<Rightarrow> nat" where
  "tcph p = unat (drop_bit 4 (p ! (iph p + 12)) * 4)"

definition hlen :: "bytes \<Rightarrow> nat" where
  "hlen p = iph p + tcph p"

definition flow :: "bytes \<Rightarrow> tcpFlowKey" where
  "flow p = (let a = srcAddrAt (v6 p); n = addrSize (v6 p) in
     \<lparr>tk_srcAddr = go_copy (replicate 16 0) 0 (slice a (a + n) p),
      tk_dstAddr = go_copy (replicate 16 0) 0 (slice (a + n) (a + n * 2) p),
      tk_srcPort = BE_Uint16 (drop (iph p) p), tk_dstPort = BE_Uint16 (drop (iph p + 2) p),
      tk_rxAck = BE_Uint32 (drop (iph p + 8) p), tk_isV6 = v6 p\<rparr>)"

definition seq_of :: "bytes \<Rightarrow> u32" where
  "seq_of p = BE_Uint32 (drop (iph p + 4) p)"

definition payload :: "bytes \<Rightarrow> bytes" where
  "payload p = drop (hlen p) p"

definition carries :: "tcpFlowKey \<Rightarrow> u32 \<Rightarrow> bytes \<Rightarrow> (tcpFlowKey \<times> u32 \<times> byte) set" where
  "carries f q d = {(f, q + word_of_nat k, d ! k) |k. k < length d}"

definition carried :: "bytes \<Rightarrow> (tcpFlowKey \<times> u32 \<times> byte) set" where
  "carried p = carries (flow p) (seq_of p) (payload p)"

definition is_tcp :: "bytes \<Rightarrow> bool" where
  "is_tcp p \<longleftrightarrow> packetIsGROCandidate p False \<in> {tcp4GROCandidate, tcp6GROCandidate}"

definition view :: "bytes \<Rightarrow> (tcpFlowKey \<times> u32 \<times> byte) set" where
  "view p = (if is_tcp p then carried p else {})"

lemma carries_append:
  "carries f q (a @ b) = carries f q a \<union> carries f (q + word_of_nat (length a)) b"
proof
  show "carries f q (a @ b) \<subseteq> carries f q a \<union> carries f (q + word_of_nat (length a)) b"
  proof
    fix x assume "x \<in> carries f q (a @ b)"
    then obtain k where k: "x = (f, q + word_of_nat k, (a @ b) ! k)" "k < length a + length b"
      by (auto simp: carries_def)
    show "x \<in> carries f q a \<union> carries f (q + word_of_nat (length a)) b"
    proof (cases "k < length a")
      case True
      then show ?thesis using k by (auto simp: carries_def nth_append)
    next
      case False
      then have "k = length a + (k - length a)" "k - length a < length b" using k by auto
      then have "x = (f, q + word_of_nat (length a) + word_of_nat (k - length a), b ! (k - length a))"
        using k False by (simp add: nth_append add.assoc flip: of_nat_add)
      then show ?thesis using \<open>k - length a < length b\<close> by (auto simp: carries_def)
    qed
  qed
  have "(f, q + word_of_nat (length a) + word_of_nat k, b ! k) \<in> carries f q (a @ b)" if "k < length b" for k
    using that by (auto simp: carries_def nth_append add.assoc intro!: exI [of _ "length a + k"])
  then show "carries f q a \<union> carries f (q + word_of_nat (length a)) b \<subseteq> carries f q (a @ b)"
    by (auto simp: carries_def nth_append)
qed

subsection \<open>Packets with the same headers\<close>

text \<open>Two packets whose headers differ at most in the length and IP checksum fields, up to the byte
  with the length of the TCP header.\<close>

definition agree :: "bytes \<Rightarrow> bytes \<Rightarrow> bool" where
  "agree p q \<longleftrightarrow> iph p + 13 \<le> length p \<and> iph p + 13 \<le> length q \<and>
     (\<forall>k < iph p + 13. k \<notin> (if v6 p then {4, 5} else {2, 3, 10, 11}) \<longrightarrow> q ! k = p ! k)"

lemma BE_Uint32_cong:
  "k + 4 \<le> length a \<Longrightarrow> k + 4 \<le> length b \<Longrightarrow> (\<And>i. k \<le> i \<Longrightarrow> i < k + 4 \<Longrightarrow> a ! i = b ! i) \<Longrightarrow>
    BE_Uint32 (drop k a) = BE_Uint32 (drop k b)"
  unfolding BE_Uint32_slice by (rule arg_cong [of _ _ BE_Uint32], rule slice_cong) auto

lemma agree_meta:
  assumes "agree p q"
  shows "v6 q = v6 p" "iph q = iph p" "tcph q = tcph p" "hlen q = hlen p" "flow q = flow p" "seq_of q = seq_of p"
proof -
  have len: "iph p + 13 \<le> length p" "iph p + 13 \<le> length q" using assms by (auto simp: agree_def)
  have nth: "q ! k = p ! k" if "k < iph p + 13" "k \<notin> {2, 3, 4, 5, 10, 11} \<or> v6 p \<and> k \<in> {10, 11}" for k
    using assms that by (auto simp: agree_def split: if_splits)
  have i: "20 \<le> iph p" "v6 p \<Longrightarrow> iph p = 40" "\<not> v6 p \<Longrightarrow> iph p = 20" by (auto simp: iph_def)
  show v: "v6 q = v6 p" using nth [of 0] by (simp add: v6_def)
  then show h: "iph q = iph p" by (simp add: iph_def)
  show t: "tcph q = tcph p" using nth [of "iph p + 12"] i(1) by (simp add: tcph_def h)
  then show "hlen q = hlen p" by (simp add: hlen_def h)
  show "seq_of q = seq_of p"
    unfolding seq_of_def h using len i(1) nth by (intro BE_Uint32_cong) auto
  have "slice lo hi q = slice lo hi p" if "hi \<le> iph p" "12 \<le> lo \<or> v6 p \<and> 8 \<le> lo" for lo hi
    using that len by (intro slice_cong nth) auto
  moreover have "BE_Uint16 (drop (iph p + k) q) = BE_Uint16 (drop (iph p + k) p)" if "k \<le> 2" for k
    using that len i(1) nth by (intro BE_Uint16_cong) auto
  from this [of 0] this [of 2] have "BE_Uint16 (drop (iph p) q) = BE_Uint16 (drop (iph p) p)"
    "BE_Uint16 (drop (iph p + 2) q) = BE_Uint16 (drop (iph p + 2) p)" by auto
  moreover have "BE_Uint32 (drop (iph p + 8) q) = BE_Uint32 (drop (iph p + 8) p)"
    using len i(1) nth by (intro BE_Uint32_cong) auto
  ultimately show "flow q = flow p"
    using i by (simp add: flow_def v h Let_def srcAddrAt_def addrSize_def offload_consts)
qed

lemma is_tcp_conv:
  "is_tcp p \<longleftrightarrow> (if v6 p then p ! 6 = IPPROTO_TCP \<and> 60 \<le> length p
     else drop_bit 4 (p ! 0) = 4 \<and> p ! 0 AND 0x0F = 5 \<and> p ! 9 = IPPROTO_TCP \<and> 40 \<le> length p)"
  by (auto simp: is_tcp_def packetIsGROCandidate_def v6_def)

lemma is_tcp_len: "is_tcp p \<Longrightarrow> iph p + 20 \<le> length p"
  by (auto simp: is_tcp_conv iph_def split: if_splits)

lemma agree_is_tcp:
  assumes "agree p q" "is_tcp p" "length p \<le> length q"
  shows "is_tcp q"
proof -
  have nth: "q ! k = p ! k" if "k \<in> {0, 6, 9}" for k
    using assms(1) that by (auto simp: agree_def iph_def split: if_splits)
  show ?thesis
    using assms(2,3) agree_meta(1) [OF assms(1)] nth [of 0] nth [of 6] nth [of 9]
    by (simp add: is_tcp_conv split: if_splits)
qed

lemma agree_view:
  assumes "agree p q" "is_tcp p" "length p \<le> length q"
  shows "view q = carries (flow p) (seq_of p) (drop (hlen p) q)"
  using agree_is_tcp [OF assms] agree_meta [OF assms(1)] by (simp add: view_def carried_def payload_def)

subsection \<open>Items describe their packets\<close>

definition pkt_at :: "nat \<Rightarrow> gslice \<Rightarrow> bytes" where
  "pkt_at off b = drop off (content b)"

definition describes :: "tcpGROItem \<Rightarrow> bytes \<Rightarrow> bool" where
  "describes it p \<longleftrightarrow> is_tcp p \<and> ti_key it = flow p \<and> ti_iphLen it = word_of_nat (iph p) \<and>
     ti_tcphLen it = word_of_nat (tcph p) \<and> 20 \<le> tcph p \<and> tcph p \<le> 60 \<and> hlen p \<le> length p \<and> ti_sentSeq it = seq_of p \<and>
     0 < unat (ti_gsoSize it) \<and>
     unat (ti_gsoSize it) * unat (ti_numMerged it) < length (payload p) \<and>
     length (payload p) \<le> unat (ti_gsoSize it) * Suc (unat (ti_numMerged it))"

definition buf_ok :: "nat \<Rightarrow> gslice \<Rightarrow> bool" where
  "buf_ok off b \<longleftrightarrow> slice_ok b \<and> off \<le> slen b \<and> capacity b < 65536"

lemma pkt_at_tail:
  "tail_slice off b = Some s \<longleftrightarrow> off \<le> slen b \<and> s = \<lparr>backing = drop off (backing b), slen = slen b - off\<rparr>"
  by (rule checked)

lemma content_tail: "content \<lparr>backing = drop off (backing b), slen = slen b - off\<rparr> = pkt_at off b"
  by (simp add: content_def pkt_at_def drop_take)

lemma backing_tail:
  "slice_ok b \<Longrightarrow> off \<le> slen b \<Longrightarrow>
    drop off (backing b) = pkt_at off b @ drop (slen b) (backing b)"
  by (simp add: pkt_at_def content_def drop_take slice_ok_def capacity_def)
    (metis append_take_drop_id drop_drop le_add_diff_inverse2)

lemma length_pkt_at [simp]: "slice_ok b \<Longrightarrow> length (pkt_at off b) = slen b - off"
  by (simp add: pkt_at_def)

lemma unat_byte_small: "n < 256 \<Longrightarrow> unat (word_of_nat n :: byte) = n"
  by (simp add: unat_of_nat)

lemma tcph_le: "tcph p \<le> 60"
  using unat_ihl4 [of "p ! (iph p + 12)"] by (simp add: tcph_def)

lemma hlen_byte: "unat (word_of_nat (iph p) + word_of_nat (tcph p) :: byte) = hlen p"
  using tcph_le [of p] unat_byte_small [of "iph p + tcph p"] by (simp add: hlen_def iph_def)

subsection \<open>Parsing\<close>

lemma groLength_ok:
  assumes "is_tcp p"
  shows "\<exists>ok. groLength p (v6 p) = Some (ok, iph p)"
proof -
  have l: "iph p + 20 \<le> length p" "20 \<le> iph p" using is_tcp_len [OF assms] by (auto simp: iph_def)
  have "\<not> v6 p \<Longrightarrow> unat ((p ! 0 AND 0x0F) * 4) = 20" using assms by (simp add: is_tcp_conv)
  then show ?thesis using l by (auto simp: groLength_def elem_at_def get16_def iph_def Let_def)
qed

lemma tcpParse_ok:
  assumes "is_tcp (content pkt)" "slice_ok pkt"
  shows "tcpParse pkt (v6 (content pkt)) = Some None \<or>
    (\<exists>psh. tcpParse pkt (v6 (content pkt)) = Some (Some (iph (content pkt), tcph (content pkt), psh,
        word_of_nat (length (payload (content pkt))))) \<and>
      20 \<le> tcph (content pkt) \<and> hlen (content pkt) < length (content pkt) \<and> length (content pkt) < 65536)"
proof -
  let ?p = "content pkt"
  obtain ok where g: "groLength ?p (v6 ?p) = Some (ok, iph ?p)" using groLength_ok [OF assms(1)] by blast
  have l: "iph ?p + 20 \<le> length ?p" "20 \<le> iph ?p" using is_tcp_len [OF assms(1)] by (auto simp: iph_def)
  have s: "slen pkt = length ?p" using assms(2) by simp
  have e: "elem_at ?p (iph ?p + 12) = Some (?p ! (iph ?p + 12))"
      "elem_at ?p (iph ?p + tcpFlagsOffset) = Some (?p ! (iph ?p + 13))"
    using l by (auto simp: elem_at_def offload_consts)
  have "elem_at ?p 6 = Some (?p ! 6)" "elem_at ?p 7 = Some (?p ! 7)" using l by (auto simp: elem_at_def)
  then obtain fr where fr: "fragmented ?p (v6 ?p) = Some fr" by (cases "v6 ?p") (auto simp: fragmented_def)
  obtain d where d: "length (payload ?p) = d" by blast
  have q: "slen pkt - tcph ?p - iph ?p = d" using s d by (simp add: payload_def hlen_def)
  have nz: "hlen ?p < length ?p" if "\<not> (word_of_nat d :: u16) < 1"
  proof (rule ccontr)
    assume "\<not> hlen ?p < length ?p"
    then show False using that d by (simp add: payload_def)
  qed
  show ?thesis
    unfolding d
    by (simp only: tcpParse_def g e fr bind.simps Let_def prod.case tcph_def [symmetric] q)
      (use nz tcph_le [of ?p] s in \<open>auto simp: maxUint16_def hlen_def\<close>)
qed

lemma flow_key:
  assumes "slice_ok b" "off \<le> slen b" "is_tcp (pkt_at off b)"
  shows "newTCPFlowKey \<lparr>backing = drop off (backing b), slen = slen b - off\<rparr> (srcAddrAt (v6 (pkt_at off b)))
    (srcAddrAt (v6 (pkt_at off b)) + addrSize (v6 (pkt_at off b))) (iph (pkt_at off b)) = Some (flow (pkt_at off b))"
proof -
  let ?p = "pkt_at off b"
  have l: "iph ?p + 20 \<le> length ?p" by (rule is_tcp_len [OF assms(3)])
  have sl: "sub lo hi (drop off (backing b)) = Some (slice lo hi ?p)" if "lo \<le> hi" "hi \<le> iph ?p" for lo hi
    using that l unfolding backing_tail [OF assms(1,2)] by (simp add: sub_def slice_def)
  have a: "srcAddrAt (v6 ?p) + addrSize (v6 ?p) * 2 = iph ?p" "addrSize (v6 ?p) = 16 \<longleftrightarrow> v6 ?p"
    by (auto simp: srcAddrAt_def addrSize_def iph_def offload_consts)
  have g: "get16 (iph ?p) ?p = Some (BE_Uint16 (drop (iph ?p) ?p))"
      "get16 (iph ?p + 2) ?p = Some (BE_Uint16 (drop (iph ?p + 2) ?p))"
      "get32 (iph ?p + 8) ?p = Some (BE_Uint32 (drop (iph ?p + 8) ?p))"
    using l by (auto simp: get16_def get32_def)
  have t: "srcAddrAt (v6 ?p) + addrSize (v6 ?p) + addrSize (v6 ?p) = srcAddrAt (v6 ?p) + addrSize (v6 ?p) * 2" by simp
  show ?thesis
    unfolding newTCPFlowKey_def flow_def content_tail gslice.simps using a(1)
    by (simp add: sl g Let_def a(2) t del: add_2_eq_Suc add_2_eq_Suc')
qed

subsection \<open>The table\<close>

definition bidx :: "tcpGROItem \<Rightarrow> nat" where
  "bidx it = unat (ti_bufsIndex it)"

definition flows :: "tcpGROTable \<Rightarrow> tcpFlowKey \<Rightarrow> tcpGROItem list option" where
  "flows t = map_of (itemsByFlow t)"

text \<open>Every item describes the packet in its buffer, which is one of the buffers \<open>W\<close> to be written,
  and two items of a flow have different buffers; items of different flows then have, too.\<close>

definition table_ok :: "nat \<Rightarrow> nat set \<Rightarrow> gslice list \<Rightarrow> tcpGROTable \<Rightarrow> bool" where
  "table_ok off W bufs t \<longleftrightarrow> (\<forall>k l. flows t k = Some l \<longrightarrow> distinct (map bidx l) \<and>
     (\<forall>it \<in> set l. ti_key it = k \<and> bidx it \<in> W \<and> describes it (pkt_at off (bufs ! bidx it))))"

definition pool_ok :: "nat \<Rightarrow> tcpGROTable \<Rightarrow> bool" where
  "pool_ok n t \<longleftrightarrow> distinct (map fst (itemsByFlow t)) \<and> length (itemsByFlow t) \<le> n \<and>
     itemsPool t + length (itemsByFlow t) = IdealBatchSize"

lemma describes_key: "describes it p \<Longrightarrow> ti_key it = flow p"
  by (simp add: describes_def)

lemma table_ok_other:
  assumes "table_ok off W bufs t" "flows t k = Some l" "it \<in> set l" "flows t k' = Some l'" "it' \<in> set l'"
    "bidx it = bidx it'"
  shows "k = k' \<and> it = it'"
proof -
  have a: "distinct (map bidx l)" "ti_key it = k" "describes it (pkt_at off (bufs ! bidx it))"
    using assms(1-3) by (auto simp: table_ok_def)
  have b: "ti_key it' = k'" "describes it' (pkt_at off (bufs ! bidx it'))"
    using assms(1,4,5) by (auto simp: table_ok_def)
  have "k = k'" using a(2,3) b assms(6) describes_key by metis
  moreover have "l = l'" using assms(2,4) \<open>k = k'\<close> by simp
  ultimately show ?thesis using a(1) assms(3,5,6) by (auto simp: distinct_map inj_on_def)
qed

lemma length_update: "length (AList.update k v al) = (if k \<in> fst ` set al then length al else Suc (length al))"
  by (induction al) auto

lemma flows_upd: "flows (t\<lparr>itemsByFlow := AList.update k v (itemsByFlow t)\<rparr>) = (flows t)(k \<mapsto> v)"
  by (simp add: flows_def update_conv')

lemma flows_pool [simp]: "flows (t\<lparr>itemsPool := n\<rparr>) = flows t"
  by (simp add: flows_def)

lemma addItem_ok:
  assumes "pool_ok n t" "n < IdealBatchSize"
  shows "\<exists>t'. addItem k it t = Some t' \<and> pool_ok (Suc n) t' \<and>
    flows t' = (flows t)(k \<mapsto> (case flows t k of None \<Rightarrow> [] | Some l \<Rightarrow> l) @ [it])"
proof (cases "map_of (itemsByFlow t) k")
  case None
  then have "k \<notin> fst ` set (itemsByFlow t)" by (simp add: map_of_eq_None_iff)
  then show ?thesis
    using assms None
    by (auto simp: addItem_def newItems_def pool_ok_def length_update flows_def update_conv' distinct_update)
next
  case (Some l)
  then have "k \<in> fst ` set (itemsByFlow t)" by (metis domI dom_map_of_conv_image_fst)
  then show ?thesis
    using assms Some by (auto simp: addItem_def pool_ok_def length_update flows_def update_conv' distinct_update)
qed

text \<open>A new item describes its packet.\<close>

lemma tcp_insert_ok:
  assumes b: "buf_ok off b" "is_tcp (pkt_at off b)" "20 \<le> tcph (pkt_at off b)"
      "hlen (pkt_at off b) < length (pkt_at off b)" "length (pkt_at off b) < 65536"
    and t: "pool_ok n t" "n < IdealBatchSize" and i: "i < 65536"
  shows "\<exists>t' it. tcp_insert t \<lparr>backing = drop off (backing b), slen = slen b - off\<rparr> (srcAddrAt (v6 (pkt_at off b)))
      (srcAddrAt (v6 (pkt_at off b)) + addrSize (v6 (pkt_at off b))) (iph (pkt_at off b)) (tcph (pkt_at off b)) i = Some t' \<and>
    pool_ok (Suc n) t' \<and> bidx it = i \<and> describes it (pkt_at off b) \<and>
    flows t' = (flows t)(flow (pkt_at off b) \<mapsto> (case flows t (flow (pkt_at off b)) of None \<Rightarrow> [] | Some l \<Rightarrow> l) @ [it])"
proof -
  let ?p = "pkt_at off b"
  have l: "iph ?p + 20 \<le> length ?p" by (rule is_tcp_len [OF b(2)])
  have g: "tail_from (iph ?p + tcph ?p) ?p = Some (payload ?p)" "get32 (iph ?p + 4) ?p = Some (seq_of ?p)"
      "elem_at ?p (iph ?p + tcpFlagsOffset) = Some (?p ! (iph ?p + 13))"
    using l b(4) by (auto simp: tail_from_def get32_def elem_at_def payload_def seq_of_def hlen_def offload_consts)
  define it where "it = \<lparr>ti_key = flow ?p, ti_sentSeq = seq_of ?p, ti_bufsIndex = word_of_nat i, ti_numMerged = 0,
       ti_gsoSize = word_of_nat (length (payload ?p)), ti_iphLen = word_of_nat (iph ?p),
       ti_tcphLen = word_of_nat (tcph ?p), ti_pshSet = (?p ! (iph ?p + 13) AND tcpFlagPSH \<noteq> 0)\<rparr>"
  have f: "newTCPFlowKey \<lparr>backing = drop off (backing b), slen = slen b - off\<rparr> (srcAddrAt (v6 ?p))
      (srcAddrAt (v6 ?p) + addrSize (v6 ?p)) (iph ?p) = Some (flow ?p)"
    using b(1,2) by (intro flow_key) (auto simp: buf_ok_def)
  have "length (payload ?p) < 65536" "0 < length (payload ?p)" using b(4,5) by (auto simp: payload_def)
  then have "describes it ?p"
    using b(2-4) tcph_le [of ?p] by (simp add: describes_def it_def)
  moreover have "bidx it = i" using i by (simp add: bidx_def it_def)
  moreover obtain t' where "addItem (flow ?p) it t = Some t'" "pool_ok (Suc n) t'"
      "flows t' = (flows t)(flow ?p \<mapsto> (case flows t (flow ?p) of None \<Rightarrow> [] | Some l \<Rightarrow> l) @ [it])"
    using addItem_ok [OF t] by blast
  ultimately show ?thesis
    unfolding tcp_insert_def f content_tail by (auto simp: g it_def)
qed

subsection \<open>Joining two packets\<close>

definition tail :: "nat \<Rightarrow> gslice \<Rightarrow> gslice" where
  "tail off b = \<lparr>backing = drop off (backing b), slen = slen b - off\<rparr>"

lemma tail_simps [simp]:
  "content (tail off b) = pkt_at off b" "backing (tail off b) = drop off (backing b)"
  "slen (tail off b) = slen b - off" "capacity (tail off b) = capacity b - off"
  by (simp_all add: tail_def content_tail capacity_def)

lemma tail_slice_ok: "buf_ok off b \<Longrightarrow> tail_slice off b = Some (tail off b)"
  by (simp add: tail_slice_def buf_ok_def tail_def)

lemma slice_ok_tail [simp]: "slice_ok b \<Longrightarrow> slice_ok (tail off b)"
  by (auto simp: slice_ok_def capacity_def)

lemma byte_eq_tcph: "(word_of_nat (tcph p) :: byte) = word_of_nat (tcph q) \<Longrightarrow> tcph p = tcph q"
proof -
  have "unat (word_of_nat (tcph x) :: byte) = tcph x" for x
    using tcph_le [of x] by (intro unat_byte_small) simp
  then show "(word_of_nat (tcph p) :: byte) = word_of_nat (tcph q) \<Longrightarrow> tcph p = tcph q" by metis
qed

lemma flow_v6: "flow p = flow q \<Longrightarrow> v6 p = v6 q \<and> iph p = iph q"
proof -
  assume "flow p = flow q"
  then have "tk_isV6 (flow p) = tk_isV6 (flow q)" by (rule arg_cong)
  then show ?thesis by (simp add: flow_def Let_def iph_def)
qed

lemma sub_backing:
  assumes "buf_ok off b" "lo \<le> hi" "hi \<le> length (pkt_at off b)"
  shows "sub lo hi (drop off (backing b)) = Some (slice lo hi (pkt_at off b))"
  using assms backing_tail [of b off] by (simp add: sub_def slice_def buf_ok_def)

text \<open>What is known when the code finds that a packet can be joined to an item.\<close>

definition appends :: "bytes \<Rightarrow> tcpGROItem \<Rightarrow> bytes \<Rightarrow> bool" where
  "appends p it q \<longleftrightarrow> tcph p = tcph q \<and> seq_of p = seq_of q + word_of_nat (length (payload q)) \<and>
     length (payload q) = unat (ti_gsoSize it) * Suc (unat (ti_numMerged it)) \<and>
     length (payload p) \<le> unat (ti_gsoSize it)"

definition prepends :: "bytes \<Rightarrow> tcpGROItem \<Rightarrow> bytes \<Rightarrow> bool" where
  "prepends p it q \<longleftrightarrow> tcph p = tcph q \<and> seq_of q = seq_of p + word_of_nat (length (payload p)) \<and>
     unat (ti_gsoSize it) \<le> length (payload p) \<and>
     (unat (ti_gsoSize it) < length (payload p) \<longrightarrow> unat (ti_numMerged it) = 0)"

lemma exact_multiple: "g * m < n \<Longrightarrow> n \<le> g * Suc m \<Longrightarrow> n mod g = 0 \<Longrightarrow> n = g * Suc m" for g m n :: nat
proof -
  assume a: "g * m < n" "n \<le> g * Suc m" "n mod g = 0"
  then obtain c where c: "n = g * c" by (auto elim: dvdE)
  then have "m < c" using a(1) by (simp add: mult_less_cancel1)
  moreover have "c \<le> Suc m" using a(1,2) c by (metis mult_le_cancel1 gr_zeroI mult_is_0 not_less_zero)
  ultimately have "c = Suc m" by simp
  then show ?thesis using c by (simp only:)
qed

lemma unat_payload: "length (pkt_at off b) < 65536 \<Longrightarrow> unat (word_of_nat (length (payload (pkt_at off b))) :: u16) = length (payload (pkt_at off b))"
  by (intro word_of_nat_u16) (simp add: payload_def)

lemma ucast_word_of_nat: "n < 65536 \<Longrightarrow> (ucast (word_of_nat n :: u16) :: u32) = word_of_nat n"
  by (simp only: unsigned_of_nat) (simp add: take_bit_nat_eq_self)

lemma lhsLen: 
  "unat g * Suc (unat m) < 65536 \<Longrightarrow> (ucast (g + m * g :: u16) :: u32) = word_of_nat (unat g * Suc (unat m))"
proof -
  assume a: "unat g * Suc (unat m) < 65536"
  have "g + m * g = (word_of_nat (unat g * Suc (unat m)) :: u16)" by (simp add: algebra_simps)
  then show ?thesis using ucast_word_of_nat [OF a] by metis
qed

lemma can_ok:
  fixes off b bufs it
  defines "p \<equiv> pkt_at off b" and "q \<equiv> pkt_at off (bufs ! bidx it)"
  assumes b: "buf_ok off b" "is_tcp p" "20 \<le> tcph p" "hlen p < length p" "length p < 65536"
    and c: "bidx it < length bufs" "buf_ok off (bufs ! bidx it)" "describes it q" "flow p = flow q"
  shows "\<exists>can. tcpPacketsCanCoalesce (tail off b) (word_of_nat (iph p)) (word_of_nat (tcph p)) (seq_of p) psh
      (word_of_nat (length (payload p))) it bufs off = Some can \<and>
    (can = coalesceAppend \<longrightarrow> appends p it q) \<and> (can = coalescePrepend \<longrightarrow> prepends p it q)"
proof -
  let ?c = "bufs ! bidx it"
  note v = flow_v6 [OF c(4)]
  have d: "ti_iphLen it = word_of_nat (iph p)" "ti_tcphLen it = word_of_nat (tcph q)" "ti_sentSeq it = seq_of q"
      "hlen q \<le> length q" "0 < unat (ti_gsoSize it)"
      "unat (ti_gsoSize it) * unat (ti_numMerged it) < length (payload q)"
      "length (payload q) \<le> unat (ti_gsoSize it) * Suc (unat (ti_numMerged it))"
    using c(3) v by (auto simp: describes_def)
  have nb: "nth_buf bufs (unat (ti_bufsIndex it)) = Some ?c" "tail_slice off ?c = Some (tail off ?c)"
    using c(1,2) by (auto simp: nth_buf_def bidx_def tail_slice_ok)
  have u: "unat (word_of_nat (length (payload p)) :: u16) = length (payload p)"
    unfolding p_def using b(5) p_def by (intro unat_payload) simp
  have lq: "length q < 65536" using c(2) by (auto simp: q_def buf_ok_def slice_ok_def capacity_def)
  show ?thesis
  proof (cases "tcph p = tcph q")
    case False
    then have "(word_of_nat (tcph p) :: byte) \<noteq> word_of_nat (tcph q)" using byte_eq_tcph by blast
    then show ?thesis by (simp add: tcpPacketsCanCoalesce_def nb d)
  next
    case True
    have h: "unat (word_of_nat (iph p) + word_of_nat (tcph p) :: byte) = hlen q"
      using hlen_byte [of q] v True by simp
    have i20: "unat (word_of_nat (iph p) + 20 :: byte) = iph p + 20"
      using unat_byte_small [of "iph p + 20"] by (auto simp: iph_def)
    have hq: "hlen q \<le> length p" "iph p + 20 \<le> hlen q" using b(3,4) v True by (auto simp: hlen_def)
    obtain same where s: "(if (word_of_nat (tcph p) :: byte) > 20 then do {
          a \<leftarrow> sub (unat (word_of_nat (iph p) + 20 :: byte)) (unat (word_of_nat (iph p) + word_of_nat (tcph p) :: byte)) (backing (tail off b));
          b \<leftarrow> sub (unat (ti_iphLen it + 20)) (unat (word_of_nat (iph p) + word_of_nat (tcph p) :: byte)) (backing (tail off ?c));
          Some (a = b)} else Some True) = Some same"
    proof -
      have "sub (iph p + 20) (hlen q) (backing (tail off b)) = Some (slice (iph p + 20) (hlen q) p)"
        "sub (iph p + 20) (hlen q) (backing (tail off ?c)) = Some (slice (iph p + 20) (hlen q) q)"
        using sub_backing [OF b(1), of "iph p + 20" "hlen q"] sub_backing [OF c(2), of "iph p + 20" "hlen q"] hq d(4)
        by (simp_all add: p_def q_def)
      then show thesis unfolding h i20 d(1)
        by (intro that [of "if (word_of_nat (tcph p) :: byte) > 20 then slice (iph p + 20) (hlen q) p = slice (iph p + 20) (hlen q) q else True"])
          (simp add: h i20 d(1))
    qed
    have t: "tail_from (unat (word_of_nat (iph p) + word_of_nat (tcph p) :: byte)) (content (tail off ?c)) = Some (payload q)"
      using d(4) by (simp add: h tail_from_def payload_def flip: q_def)
    have ap: "length (payload q) = unat (ti_gsoSize it) * Suc (unat (ti_numMerged it)) \<and>
        (ucast (ti_gsoSize it + ti_numMerged it * ti_gsoSize it) :: u32) = word_of_nat (length (payload q))"
      if "length (payload q) mod unat (ti_gsoSize it) = 0"
    proof -
      have e: "length (payload q) = unat (ti_gsoSize it) * Suc (unat (ti_numMerged it))"
        using exact_multiple [OF d(6,7) that] .
      moreover have "length (payload q) < 65536" using lq by (simp add: payload_def)
      ultimately show ?thesis using lhsLen [of "ti_gsoSize it" "ti_numMerged it"] by simp
    qed
    have g0: "ti_gsoSize it \<noteq> 0" using d(5) by auto
    have pre: "(ucast (word_of_nat (length (payload p)) :: u16) :: u32) = word_of_nat (length (payload p))"
      using b(5) by (intro ucast_word_of_nat) (simp add: payload_def)
    have d2: "ti_tcphLen it = word_of_nat (tcph p)" using d(2) True by simp
    show ?thesis
      by (simp only: tcpPacketsCanCoalesce_def nb bind.simps d2 Let_def s t simp_thms if_True if_False)
        (use ap g0 True in \<open>auto simp: d(3) pre u appends_def prepends_def word_less_nat_alt\<close>)
  qed
qed

lemma extendWith_ok:
  assumes "slice_ok dst"
  shows "\<exists>r. extendWith dst (int (length src)) (slen dst) src = Some r \<and> content r = content dst @ src \<and>
    slice_ok r \<and> slen r = slen dst + length src \<and>
    (slen dst + length src \<le> capacity dst \<longrightarrow> capacity r = capacity dst)"
proof -
  let ?d = "append_zeros (length src) dst"
  have c: "content ?d = content dst @ replicate (length src) 0" using assms by simp
  have l: "length (content dst) = slen dst" using assms by simp
  have g: "go_copy (content ?d) (slen dst) src = content dst @ src"
    unfolding c by (simp add: go_copy_fits l)
  have "extendWith dst (int (length src)) (slen dst) src = Some (upd_content (content dst @ src) ?d)"
    using g c l by (simp add: extendWith_def copy_to_def)
  then show ?thesis using assms l by auto
qed

lemma checksumValid_total:
  assumes "buf_ok off b" "is_tcp (pkt_at off b)"
  shows "\<exists>v. checksumValid big (tail off b) (word_of_nat (iph (pkt_at off b))) proto (v6 (pkt_at off b)) = Some v"
proof -
  let ?p = "pkt_at off b"
  have l: "iph ?p + 20 \<le> length ?p" by (rule is_tcp_len [OF assms(2)])
  have u: "unat (word_of_nat (iph ?p) :: byte) = iph ?p" by (intro unat_byte_small) (simp add: iph_def)
  have "\<exists>s. pseudo big proto (v6 ?p) (drop off (backing b)) n = Some s" for n
    using sub_backing [OF assms(1), of "srcAddrAt (v6 ?p)" "srcAddrAt (v6 ?p) + addrSize (v6 ?p)"]
      sub_backing [OF assms(1), of "srcAddrAt (v6 ?p) + addrSize (v6 ?p)" "srcAddrAt (v6 ?p) + addrSize (v6 ?p) * 2"]
      l addrs_in_header [of "v6 ?p"]
    by (auto simp: pseudo_def iph_def split: if_splits)
  then show ?thesis using l by (auto simp: checksumValid_def Let_def u tail_from_def bind_eq_Some_conv)
qed

lemma describes_merged:
  assumes "describes it q" "is_tcp r" "flow r = flow q" "iph r = iph q" "tcph r = tcph q" "hlen r \<le> length r"
    and "unat G = g" "0 < g" "unat (ti_numMerged it + 1) = m" "g * m < length (payload r)" "length (payload r) \<le> g * Suc m"
    and "it' = it\<lparr>ti_sentSeq := seq_of r, ti_pshSet := x, ti_gsoSize := G, ti_numMerged := ti_numMerged it + 1\<rparr>"
  shows "describes it' r"
  unfolding describes_def assms(12) using assms(1-6) assms(8) assms(10,11) unfolding assms(7,9) [symmetric] describes_def by simp

text \<open>A described packet and an appended one give a packet the item describes and that carries both.\<close>

lemma appended:
  fixes p q q' :: bytes
  assumes d: "describes it q" "flow p = flow q" "is_tcp p" "appends p it q"
    and pl: "0 < length (payload p)" "length (payload q) < 65536"
    and q': "length q' = length q" "\<forall>k < length q. k \<noteq> iph q + 13 \<longrightarrow> q' ! k = q ! k"
  shows "describes (merged (word_of_nat (length (payload p))) (it\<lparr>ti_pshSet := x\<rparr>)) (q' @ payload p)"
    and "view (q' @ payload p) = view q \<union> view p"
proof -
  have h: "hlen q \<le> length q" "20 \<le> tcph q" "is_tcp q" using d(1) by (auto simp: describes_def)
  have ag: "agree q (q' @ payload p)"
    using q' is_tcp_len [OF h(3)] by (auto simp: agree_def nth_append)
  have dr: "drop (hlen q) (q' @ payload p) = payload q @ payload p"
  proof -
    have "drop (hlen q) q' = drop (hlen q) q"
      using q' h(2) by (intro nth_equalityI) (auto simp: hlen_def)
    then show ?thesis using h(1) q'(1) by (simp add: payload_def)
  qed
  note m = agree_meta [OF ag]
  have tcp: "is_tcp (q' @ payload p)" using agree_is_tcp [OF ag h(3)] q'(1) by simp
  have pay: "payload (q' @ payload p) = payload q @ payload p" using dr m(4) by (simp add: payload_def [of "q' @ payload p"])
  have "view (q' @ payload p) = carries (flow q) (seq_of q) (payload q @ payload p)"
    using agree_view [OF ag h(3)] q'(1) dr by simp
  then show "view (q' @ payload p) = view q \<union> view p"
    using d(2-4) h(3) by (simp add: carries_append view_def carried_def appends_def)
  let ?g = "unat (ti_gsoSize it)" and ?m = "unat (ti_numMerged it)"
  have b: "length (payload q) = ?g * Suc ?m" "length (payload p) \<le> ?g" "0 < ?g"
    using d(1,4) by (auto simp: appends_def describes_def)
  have "Suc ?m \<le> ?g * Suc ?m" using b(3) by (cases ?g) auto
  then have "Suc ?m < 65536" using b(1) pl(2) by linarith
  then have nm: "unat (ti_numMerged it + 1) = Suc ?m" by (simp add: unat_word_ariths)
  have "unat (word_of_nat (length (payload p)) :: u16) = length (payload p)"
    using b(2) unsigned_less [of "ti_gsoSize it", where ?'a = nat] by (intro word_of_nat_u16) simp
  then have gs: "\<not> (word_of_nat (length (payload p)) > ti_gsoSize it)" using b(2) by (simp add: word_less_nat_alt)
  show "describes (merged (word_of_nat (length (payload p))) (it\<lparr>ti_pshSet := x\<rparr>)) (q' @ payload p)"
  proof (rule describes_merged [OF d(1) tcp m(5,2,3) _ refl b(3) nm])
    show "hlen (q' @ payload p) \<le> length (q' @ payload p)" using m(4) h(1) q'(1) by simp
    show "?g * Suc ?m < length (payload (q' @ payload p))" "length (payload (q' @ payload p)) \<le> ?g * Suc (Suc ?m)"
      using b pl(1) by (simp_all add: pay)
    show "merged (word_of_nat (length (payload p))) (it\<lparr>ti_pshSet := x\<rparr>) = it\<lparr>ti_sentSeq := seq_of (q' @ payload p),
        ti_pshSet := x, ti_gsoSize := ti_gsoSize it, ti_numMerged := ti_numMerged it + 1\<rparr>"
      using gs m(6) d(1) by (simp add: merged_def describes_def)
  qed
qed

lemma prepended:
  fixes p q :: bytes
  assumes d: "describes it q" "flow p = flow q" "is_tcp p" "prepends p it q"
    and pl: "hlen p < length p" "20 \<le> tcph p" "length (payload p) < 65536" "length (payload q) < 65536"
  shows "describes (merged (word_of_nat (length (payload p))) (it\<lparr>ti_sentSeq := seq_of p\<rparr>)) (p @ payload q)"
    and "view (p @ payload q) = view q \<union> view p"
proof -
  note v = flow_v6 [OF d(2)]
  have ag: "agree p (p @ payload q)" using is_tcp_len [OF d(3)] by (auto simp: agree_def nth_append)
  note m = agree_meta [OF ag]
  have dr: "drop (hlen p) (p @ payload q) = payload p @ payload q" using pl(1) by (simp add: payload_def)
  have tcp: "is_tcp (p @ payload q)" using agree_is_tcp [OF ag d(3)] by simp
  have pay: "payload (p @ payload q) = payload p @ payload q" using dr m(4) by (simp add: payload_def [of "p @ payload q"])
  have hq: "is_tcp q" using d(1) by (simp add: describes_def)
  have "view (p @ payload q) = carries (flow p) (seq_of p) (payload p @ payload q)"
    using agree_view [OF ag d(3)] dr by simp
  then show "view (p @ payload q) = view q \<union> view p"
    using d(2-4) hq by (simp add: carries_append view_def carried_def prepends_def Un_commute)
  let ?g = "unat (ti_gsoSize it)" and ?m = "unat (ti_numMerged it)" and ?n = "length (payload p)"
  have b: "?g \<le> ?n" "?g < ?n \<longrightarrow> ?m = 0" "0 < ?g" "?g * ?m < length (payload q)" "length (payload q) \<le> ?g * Suc ?m"
    using d(1,4) by (auto simp: prepends_def describes_def)
  have "?m \<le> ?g * ?m" using b(3) by simp
  then have "Suc ?m < 65536" using b(4) pl(4) by linarith
  then have nm: "unat (ti_numMerged it + 1) = Suc ?m" by (simp add: unat_word_ariths)
  have un: "unat (word_of_nat ?n :: u16) = ?n" using pl(3) by (rule word_of_nat_u16)
  define G where "G = (if word_of_nat ?n > ti_gsoSize it then word_of_nat ?n else ti_gsoSize it)"
  have gs: "unat G = ?n" using un b(1) by (auto simp: G_def word_less_nat_alt)
  have bounds: "?n * Suc ?m < ?n + length (payload q)" "?n + length (payload q) \<le> ?n * Suc (Suc ?m)"
    using b by (cases "?g = ?n"; auto)+
  show "describes (merged (word_of_nat (length (payload p))) (it\<lparr>ti_sentSeq := seq_of p\<rparr>)) (p @ payload q)"
  proof (rule describes_merged [OF d(1) tcp _ _ _ _ gs _ nm])
    show "flow (p @ payload q) = flow q" "iph (p @ payload q) = iph q" "tcph (p @ payload q) = tcph q"
      using m d(2,4) v by (simp_all add: prepends_def)
    show "hlen (p @ payload q) \<le> length (p @ payload q)" using m(4) pl(1) by simp
    show "0 < ?n" using b(1,3) by linarith
    show "?n * Suc ?m < length (payload (p @ payload q))" "length (payload (p @ payload q)) \<le> ?n * Suc (Suc ?m)"
      using bounds by (simp_all only: pay length_append)
    show "merged (word_of_nat ?n) (it\<lparr>ti_sentSeq := seq_of p\<rparr>) = it\<lparr>ti_sentSeq := seq_of (p @ payload q),
        ti_pshSet := ti_pshSet it, ti_gsoSize := G, ti_numMerged := ti_numMerged it + 1\<rparr>"
      using m(6) by (simp add: merged_def G_def)
  qed
qed

definition joined :: "nat \<Rightarrow> gslice list \<Rightarrow> nat \<Rightarrow> tcpGROItem \<Rightarrow> tcpGROItem \<Rightarrow> gslice list \<Rightarrow> bool" where
  "joined off bufs i it it' bufs' \<longleftrightarrow> bidx it' = bidx it \<and> ti_key it' = ti_key it \<and> length bufs' = length bufs \<and>
     (\<forall>j. j \<noteq> i \<and> j \<noteq> bidx it \<longrightarrow> bufs' ! j = bufs ! j) \<and> buf_ok off (bufs' ! i) \<and> buf_ok off (bufs' ! bidx it) \<and>
     describes it' (pkt_at off (bufs' ! bidx it)) \<and>
     view (pkt_at off (bufs' ! bidx it)) = view (pkt_at off (bufs ! bidx it)) \<union> view (pkt_at off (bufs ! i))"

lemma buf_ok_len: "buf_ok off b \<Longrightarrow> length (pkt_at off b) = slen b - off \<and> length (pkt_at off b) < 65536 \<and> off \<le> slen b"
  by (auto simp: buf_ok_def slice_ok_def capacity_def)

lemma valid_total:
  assumes "buf_ok off c" "describes it (pkt_at off c)" "flow p = flow (pkt_at off c)"
  shows "\<exists>v. (if ti_numMerged it \<noteq> 0 then Some True
    else checksumValid big (tail off c) (ti_iphLen it) IPPROTO_TCP (v6 p)) = Some v"
  using checksumValid_total [OF assms(1), of big IPPROTO_TCP] assms(2) flow_v6 [OF assms(3)]
  by (auto simp: describes_def)

lemma list_update_shift: "off \<le> length xs \<Longrightarrow> xs[off + k := v] = take off xs @ (drop off xs)[k := v]"
  using list_update_append [of "take off xs" "drop off xs" "off + k" v] by simp

lemma upd_content_same: "upd_content (content s) s = s"
  by (simp add: upd_content_def content_def)

lemma coalesce_append:
  fixes off bufs i it
  defines "p \<equiv> pkt_at off (bufs ! i)" and "q \<equiv> pkt_at off (bufs ! bidx it)"
  assumes i: "i < length bufs" "bidx it < length bufs" "bidx it \<noteq> i" "buf_ok off (bufs ! i)" "buf_ok off (bufs ! bidx it)"
    and p: "is_tcp p" "20 \<le> tcph p" "hlen p < length p" and q: "describes it q" "flow p = flow q" "appends p it q"
  shows "\<exists>r it' bufs'. coalesceTCPPackets big coalesceAppend (tail off (bufs ! i)) i (word_of_nat (length (payload p)))
      (seq_of p) psh it bufs off (v6 p) = Some (r, it', bufs') \<and>
    (r \<noteq> coalesceSuccess \<longrightarrow> it' = it \<and> bufs' = bufs) \<and> (r = coalesceSuccess \<longrightarrow> joined off bufs i it it' bufs')"
proof -
  let ?b = "bufs ! i" and ?k = "bidx it" and ?c = "bufs ! bidx it"
  note v = flow_v6 [OF q(2)]
  have nb: "nth_buf bufs ?k = Some ?c" "tail_slice off ?c = Some (tail off ?c)"
    using i by (auto simp: nth_buf_def tail_slice_ok)
  have dq: "ti_iphLen it = word_of_nat (iph p)" "ti_tcphLen it = word_of_nat (tcph p)" "hlen q \<le> length q"
      "hlen q = hlen p" "is_tcp q"
    using q(1,3) v by (auto simp: describes_def appends_def hlen_def)
  have hl: "unat (ti_iphLen it + ti_tcphLen it) = hlen p" using dq hlen_byte [of p] by simp
  have fl: "unat (ti_iphLen it + word_of_nat tcpFlagsOffset) = iph p + 13"
    using dq(1) unat_byte_small [of "iph p + 13"] by (auto simp: iph_def offload_consts)
  note lb = buf_ok_len [OF i(4), folded p_def] and lc = buf_ok_len [OF i(5), folded q_def]
  obtain v1 where v1: "(if ti_numMerged it \<noteq> 0 then Some True
      else checksumValid big (tail off ?c) (ti_iphLen it) IPPROTO_TCP (v6 p)) = Some v1"
    using valid_total [OF i(5)] q(1,2) q_def by metis
  obtain v2 where v2: "checksumValid big (tail off ?b) (ti_iphLen it) IPPROTO_TCP (v6 p) = Some v2"
    using checksumValid_total [OF i(4)] p(1) dq(1) p_def by metis
  define q' where "q' = (if psh then q[iph p + 13 := q ! (iph p + 13) OR tcpFlagPSH] else q)"
  define c' where "c' = take off (content ?c) @ q'"
  have lq: "iph p + 20 \<le> length q" using is_tcp_len [OF dq(5)] v by simp
  have lc': "length c' = slen ?c" using i(5) lc by (auto simp: c'_def q'_def buf_ok_def)
  have psh: "(if psh then do {
        f \<leftarrow> elem_at (content (tail off ?c)) (iph p + 13);
        c \<leftarrow> set_elem (off + (iph p + 13)) (f OR tcpFlagPSH) (content ?c);
        Some (it\<lparr>ti_pshSet := True\<rparr>, upd_content c ?c)} else Some (it, ?c)) =
      Some (it\<lparr>ti_pshSet := psh \<or> ti_pshSet it\<rparr>, upd_content c' ?c)"
  proof (cases psh)
    case True
    have "(content ?c)[off + (iph p + 13) := q ! (iph p + 13) OR tcpFlagPSH] = c'"
      using lc i(5) True list_update_shift [of off "content ?c" "iph p + 13"]
      by (simp add: c'_def q'_def q_def pkt_at_def buf_ok_def)
    then show ?thesis
      using True lq lc i(5) by (simp add: elem_at_def set_elem_def buf_ok_def flip: q_def)
  next
    case False
    then have "c' = content ?c" by (simp add: c'_def q'_def q_def pkt_at_def)
    then show ?thesis using False by (simp add: upd_content_same)
  qed
  have pl: "tail_from (hlen p) (content (tail off ?b)) = Some (payload p)"
    using p(3) by (simp add: tail_from_def payload_def flip: p_def)
  obtain e where e: "extendWith (upd_content c' ?c) (int (length (payload p))) (slen ?c) (payload p) = Some e"
      "content e = c' @ payload p" "slice_ok e" "slen e = slen ?c + length (payload p)"
      "slen ?c + length (payload p) \<le> capacity ?c \<longrightarrow> capacity e = capacity ?c"
    using extendWith_ok [of "upd_content c' ?c" "payload p"] i(5) lc' by (auto simp: buf_ok_def)
  have arith: "int (slen (tail off ?b)) - int (hlen p) = int (length (payload p))" "off + slen (tail off ?c) = slen ?c"
    using p(3) lb lc by (auto simp: payload_def)
  define short where "short \<longleftrightarrow> int (capacity (tail off ?c)) - int off < int (slen (tail off ?c)) + int (slen (tail off ?b)) - int (hlen p)"
  have run: "coalesceTCPPackets big coalesceAppend (tail off ?b) i (word_of_nat (length (payload p))) (seq_of p) psh it bufs off (v6 p) =
      (if short then Some (coalesceInsufficientCap, it, bufs)
       else if \<not> v1 then Some (coalesceItemInvalidCSum, it, bufs)
       else if \<not> v2 then Some (coalescePktInvalidCSum, it, bufs)
       else Some (coalesceSuccess, merged (word_of_nat (length (payload p))) (it\<lparr>ti_pshSet := psh \<or> ti_pshSet it\<rparr>), bufs[?k := e]))"
    by (simp only: coalesceTCPPackets_def Let_def bidx_def [symmetric] nb bind.simps hl fl v1 v2 psh pl arith e(1)
        short_def [symmetric] canCoalesce.distinct if_False prod.case)
  have "joined off bufs i it (merged (word_of_nat (length (payload p))) (it\<lparr>ti_pshSet := psh \<or> ti_pshSet it\<rparr>)) (bufs[?k := e])"
    if "\<not> short"
  proof -
    have "buf_ok off e"
      using that e(3-5) i(5) arith lc by (auto simp: buf_ok_def short_def slice_ok_def payload_def)
    moreover have pe: "pkt_at off e = q' @ payload p"
      using e(2) i(5) lc by (simp add: pkt_at_def c'_def buf_ok_def)
    moreover have "describes (merged (word_of_nat (length (payload p))) (it\<lparr>ti_pshSet := psh \<or> ti_pshSet it\<rparr>)) (q' @ payload p)"
      "view (q' @ payload p) = view q \<union> view p"
    proof -
      have "0 < length (payload p)" "length (payload q) < 65536" using p(3) lc by (auto simp: payload_def)
      moreover have "length q' = length q" "\<forall>k < length q. k \<noteq> iph q + 13 \<longrightarrow> q' ! k = q ! k"
        using v by (auto simp: q'_def nth_list_update)
      ultimately show "describes (merged (word_of_nat (length (payload p))) (it\<lparr>ti_pshSet := psh \<or> ti_pshSet it\<rparr>)) (q' @ payload p)"
        "view (q' @ payload p) = view q \<union> view p"
        by (rule appended [OF q(1,2) p(1) q(3)])+
    qed
    ultimately show ?thesis
      using i by (auto simp: joined_def bidx_def merged_def p_def q_def)
  qed
  then show ?thesis unfolding run by auto
qed

lemma coalesce_prepend:
  fixes off bufs i it
  defines "p \<equiv> pkt_at off (bufs ! i)" and "q \<equiv> pkt_at off (bufs ! bidx it)"
  assumes i: "i < length bufs" "bidx it < length bufs" "bidx it \<noteq> i" "buf_ok off (bufs ! i)" "buf_ok off (bufs ! bidx it)"
    and p: "is_tcp p" "20 \<le> tcph p" "hlen p < length p" and q: "describes it q" "flow p = flow q" "prepends p it q"
  shows "\<exists>r it' bufs'. coalesceTCPPackets big coalescePrepend (tail off (bufs ! i)) i (word_of_nat (length (payload p)))
      (seq_of p) psh it bufs off (v6 p) = Some (r, it', bufs') \<and>
    (r \<noteq> coalesceSuccess \<longrightarrow> it' = it \<and> bufs' = bufs) \<and> (r = coalesceSuccess \<longrightarrow> joined off bufs i it it' bufs')"
proof -
  let ?b = "bufs ! i" and ?k = "bidx it" and ?c = "bufs ! bidx it"
  note v = flow_v6 [OF q(2)]
  have nb: "nth_buf bufs ?k = Some ?c" "tail_slice off ?c = Some (tail off ?c)" "nth_buf bufs i = Some ?b"
    using i by (auto simp: nth_buf_def tail_slice_ok)
  have dq: "ti_iphLen it = word_of_nat (iph p)" "ti_tcphLen it = word_of_nat (tcph p)" "hlen q \<le> length q" "hlen q = hlen p"
    using q(1,3) v by (auto simp: describes_def prepends_def hlen_def)
  have hl: "unat (ti_iphLen it + ti_tcphLen it) = hlen p" using dq hlen_byte [of p] by simp
  note lb = buf_ok_len [OF i(4), folded p_def] and lc = buf_ok_len [OF i(5), folded q_def]
  obtain v1 where v1: "(if ti_numMerged it \<noteq> 0 then Some True
      else checksumValid big (tail off ?c) (ti_iphLen it) IPPROTO_TCP (v6 p)) = Some v1"
    using valid_total [OF i(5)] q(1,2) q_def by metis
  obtain v2 where v2: "checksumValid big (tail off ?b) (ti_iphLen it) IPPROTO_TCP (v6 p) = Some v2"
    using checksumValid_total [OF i(4)] p(1) dq(1) p_def by metis
  have pl: "tail_from (off + hlen p) (content ?c) = Some (payload q)"
  proof -
    have "off + hlen p \<le> slen ?c" using dq(3,4) lc by linarith
    moreover have "payload q = drop (off + hlen p) (content ?c)"
      using dq(4) by (simp add: payload_def) (simp add: q_def pkt_at_def add.commute)
    ultimately show ?thesis using i(5) by (simp add: tail_from_def buf_ok_def)
  qed
  obtain e where e: "extendWith ?b (int (length (payload q))) (slen ?b) (payload q) = Some e"
      "content e = content ?b @ payload q" "slice_ok e" "slen e = slen ?b + length (payload q)"
      "slen ?b + length (payload q) \<le> capacity ?b \<longrightarrow> capacity e = capacity ?b"
    using extendWith_ok [of ?b "payload q"] i(4) by (auto simp: buf_ok_def)
  have arith: "int (slen (tail off ?c)) + int (slen (tail off ?b)) - int (hlen p) - int (slen (tail off ?b)) = int (length (payload q))"
      "off + slen (tail off ?b) = slen ?b"
    using dq(3,4) lb lc by (auto simp: payload_def)
  define short where "short \<longleftrightarrow> int (capacity (tail off ?b)) - int off < int (slen (tail off ?c)) + int (slen (tail off ?b)) - int (hlen p)"
  have run: "coalesceTCPPackets big coalescePrepend (tail off ?b) i (word_of_nat (length (payload p))) (seq_of p) psh it bufs off (v6 p) =
      (if short then Some (coalesceInsufficientCap, it, bufs)
       else if psh then Some (coalescePSHEnding, it, bufs)
       else if \<not> v1 then Some (coalesceItemInvalidCSum, it, bufs)
       else if \<not> v2 then Some (coalescePktInvalidCSum, it, bufs)
       else Some (coalesceSuccess, merged (word_of_nat (length (payload p))) (it\<lparr>ti_sentSeq := seq_of p\<rparr>),
         bufs[i := ?c, ?k := e]))"
    by (simp only: coalesceTCPPackets_def Let_def bidx_def [symmetric] nb bind.simps hl v1 v2 pl arith e(1)
        short_def [symmetric] simp_thms if_True prod.case)
  have "joined off bufs i it (merged (word_of_nat (length (payload p))) (it\<lparr>ti_sentSeq := seq_of p\<rparr>)) (bufs[i := ?c, ?k := e])"
    if "\<not> short"
  proof -
    have "buf_ok off e"
      using that e(3-5) i(4) arith lb by (auto simp: buf_ok_def short_def slice_ok_def payload_def)
    moreover have "pkt_at off e = p @ payload q"
      using e(2) i(4) lb by (simp add: pkt_at_def p_def buf_ok_def)
    moreover have "describes (merged (word_of_nat (length (payload p))) (it\<lparr>ti_sentSeq := seq_of p\<rparr>)) (p @ payload q)"
      "view (p @ payload q) = view q \<union> view p"
    proof -
      have "length (payload p) < 65536" "length (payload q) < 65536" using lb lc by (auto simp: payload_def)
      then show "describes (merged (word_of_nat (length (payload p))) (it\<lparr>ti_sentSeq := seq_of p\<rparr>)) (p @ payload q)"
        "view (p @ payload q) = view q \<union> view p"
        by (rule prepended [OF q(1,2) p(1) q(3) p(3,2)])+
    qed
    ultimately show ?thesis
      using i by (auto simp: joined_def bidx_def merged_def p_def q_def)
  qed
  then show ?thesis unfolding run by auto
qed

subsection \<open>One packet against its flow\<close>

lemma clearHdr_ok:
  assumes "k < length bufs" "buf_ok off (bufs ! k)" "virtioNetHdrLen \<le> off"
  shows "\<exists>c. clearHdr k off bufs = Some (bufs[k := c]) \<and> buf_ok off c \<and> pkt_at off c = pkt_at off (bufs ! k)"
proof -
  let ?b = "bufs ! k"
  let ?c = "?b\<lparr>backing := go_copy (backing ?b) (off - virtioNetHdrLen) (replicate virtioNetHdrLen 0)\<rparr>"
  have l: "off \<le> length (backing ?b)" using assms(2) by (auto simp: buf_ok_def slice_ok_def capacity_def)
  have "clearHdr k off bufs = Some (bufs[k := ?c])"
    using assms(1,3) l by (simp add: clearHdr_def nth_buf_def capacity_def)
  moreover have "pkt_at off ?c = pkt_at off ?b"
    using l assms(2,3) by (simp add: pkt_at_def content_def drop_take)
  moreover have "length (backing ?c) = length (backing ?b)" using l by simp
  then have "buf_ok off ?c" using assms(2) by (simp add: buf_ok_def slice_ok_def capacity_def)
  ultimately show ?thesis by blast
qed

lemma table_ok_cong:
  "table_ok off W bufs t \<Longrightarrow> (\<And>j. j \<in> W \<Longrightarrow> pkt_at off (bufs' ! j) = pkt_at off (bufs ! j)) \<Longrightarrow> table_ok off W bufs' t"
  by (simp add: table_ok_def)

lemma table_ok_mono:
  assumes "table_ok off W bufs t" "W \<subseteq> W'" "\<And>j. j \<in> W \<Longrightarrow> pkt_at off (bufs' ! j) = pkt_at off (bufs ! j)"
  shows "table_ok off W' bufs' t"
  using table_ok_cong [OF assms(1,3)] assms(2) unfolding table_ok_def by blast

lemma table_ok_sub:
  assumes "table_ok off W bufs t" "flows t k = Some l" "flows t' = (flows t)(k \<mapsto> l')"
    "set l' \<subseteq> set l" "distinct (map bidx l')"
  shows "table_ok off W bufs t'"
  using assms by (auto simp: table_ok_def split: if_splits)

lemma table_ok_joined:
  assumes t: "table_ok off W bufs t" "flows t k = Some l" "j < length l" "flows t' = (flows t)(k \<mapsto> l[j := it'])"
    and jn: "joined off bufs i (l ! j) it' bufs'" and i: "i \<notin> W"
  shows "table_ok off W bufs' t'"
proof -
  let ?it = "l ! j"
  have it: "?it \<in> set l" "distinct (map bidx l)" "ti_key ?it = k" "bidx ?it \<in> W"
    using t(1-3) by (auto simp: table_ok_def)
  have same: "describes x (pkt_at off (bufs' ! bidx x))" if "flows t k' = Some l'" "x \<in> set l'" "bidx x \<noteq> bidx ?it" for k' l' x
  proof -
    have "bidx x \<in> W" "describes x (pkt_at off (bufs ! bidx x))" using t(1) that(1,2) by (auto simp: table_ok_def)
    moreover have "bidx x \<noteq> i" using \<open>bidx x \<in> W\<close> i by blast
    ultimately show ?thesis using jn that(3) by (simp add: joined_def)
  qed
  show ?thesis
    unfolding table_ok_def
  proof (intro allI impI)
    fix k' l' assume l': "flows t' k' = Some l'"
    show "distinct (map bidx l') \<and> (\<forall>x \<in> set l'. ti_key x = k' \<and> bidx x \<in> W \<and> describes x (pkt_at off (bufs' ! bidx x)))"
    proof (cases "k' = k")
      case True
      then have e: "l' = l[j := it']" using l' t(4) by simp
      have "map bidx l' = map bidx l" using jn t(3) by (simp add: e map_update joined_def list_update_same_conv)
      then have d: "distinct (map bidx l')" using it(2) by simp
      have "ti_key x = k' \<and> bidx x \<in> W \<and> describes x (pkt_at off (bufs' ! bidx x))" if xl: "x \<in> set l'" for x
      proof (cases "x = it'")
        case True
        then show ?thesis using jn it \<open>k' = k\<close> by (auto simp: joined_def)
      next
        case False
        obtain m where m0: "m < length l" "x = l[j := it'] ! m" using xl unfolding e in_set_conv_nth by auto
        then have m: "m < length l" "m \<noteq> j" "x = l ! m" using False t(3) by (cases "m = j"; simp)+
        then have "bidx x \<noteq> bidx ?it" using it(2) t(3) by (auto simp: distinct_conv_nth)
        then show ?thesis using same [OF t(2)] t(1,2) m \<open>k' = k\<close> by (auto simp: table_ok_def)
      qed
      then show ?thesis using d by blast
    next
      case False
      then have f: "flows t k' = Some l'" using l' t(4) by simp
      have "bidx x \<noteq> bidx ?it" if "x \<in> set l'" for x
        using table_ok_other [OF t(1) f that t(2) it(1)] False by blast
      then show ?thesis using same [OF f] t(1) f by (auto simp: table_ok_def)
    qed
  qed
qed

lemma update_table:
  assumes "flows t k = Some l" "pool_ok n t" "t' = t\<lparr>itemsByFlow := AList.update k l' (itemsByFlow t)\<rparr>"
  shows "flows t' = (flows t)(k \<mapsto> l')" "pool_ok n t'"
proof -
  have "k \<in> fst ` set (itemsByFlow t)" using assms(1) by (metis flows_def domI dom_map_of_conv_image_fst)
  then show "flows t' = (flows t)(k \<mapsto> l')" "pool_ok n t'"
    using assms(2,3) by (auto simp: flows_upd pool_ok_def length_update distinct_update)
qed

lemma distinct_delete: "distinct (map f l) \<Longrightarrow> distinct (map f (take j l @ drop (Suc j) l))"
proof (cases "j < length l")
  case True
  assume "distinct (map f l)"
  then have "distinct (map f (take j l @ l ! j # drop (Suc j) l))" using id_take_nth_drop [OF True] by simp
  then show ?thesis by auto
qed simp

text \<open>The outcome of comparing packet \<open>i\<close> with the items of its flow.\<close>

definition outcome ::
    "nat \<Rightarrow> nat set \<Rightarrow> nat \<Rightarrow> gslice list \<Rightarrow> groResult option \<Rightarrow> gslice list \<Rightarrow> bool" where
  "outcome off W i bufs r bufs' \<longleftrightarrow> length bufs' = length bufs \<and> (\<forall>j < length bufs. buf_ok off (bufs' ! j)) \<and>
     (if r = Some groResultCoalesced
      then \<exists>k \<in> W. is_tcp (pkt_at off (bufs ! k)) \<and>
        view (pkt_at off (bufs' ! k)) = view (pkt_at off (bufs ! k)) \<union> view (pkt_at off (bufs ! i)) \<and>
        (\<forall>j < length bufs. j \<noteq> i \<and> j \<noteq> k \<longrightarrow> pkt_at off (bufs' ! j) = pkt_at off (bufs ! j)) \<and>
        (\<forall>j < length bufs. i < j \<longrightarrow> bufs' ! j = bufs ! j)
      else (\<forall>j < length bufs. pkt_at off (bufs' ! j) = pkt_at off (bufs ! j)) \<and>
        (\<forall>j < length bufs. i \<le> j \<longrightarrow> bufs' ! j = bufs ! j))"

lemma outcome_refl: "\<forall>j < length bufs. buf_ok off (bufs ! j) \<Longrightarrow> r \<noteq> Some groResultCoalesced \<Longrightarrow> outcome off W i bufs r bufs"
  by (simp add: outcome_def)

lemma outcome_trans:
  assumes "outcome off W i bufs None bufs1" "outcome off W i bufs1 r bufs2" "W \<subseteq> {..<i}" "i < length bufs"
  shows "outcome off W i bufs r bufs2"
proof -
  have e: "length bufs1 = length bufs" "\<forall>j < length bufs. pkt_at off (bufs1 ! j) = pkt_at off (bufs ! j)"
      "\<forall>j < length bufs. i \<le> j \<longrightarrow> bufs1 ! j = bufs ! j"
    using assms(1) by (auto simp: outcome_def)
  show ?thesis
  proof (cases "r = Some groResultCoalesced")
    case True
    then obtain k where k: "k \<in> W" "is_tcp (pkt_at off (bufs1 ! k))"
        "view (pkt_at off (bufs2 ! k)) = view (pkt_at off (bufs1 ! k)) \<union> view (pkt_at off (bufs1 ! i))"
        "\<forall>j < length bufs1. j \<noteq> i \<and> j \<noteq> k \<longrightarrow> pkt_at off (bufs2 ! j) = pkt_at off (bufs1 ! j)"
        "\<forall>j < length bufs1. i < j \<longrightarrow> bufs2 ! j = bufs1 ! j"
      using assms(2) by (auto simp: outcome_def)
    have "k < length bufs" using k(1) assms(3,4) by auto
    then show ?thesis using True k e assms(2,4) by (auto simp: outcome_def intro!: bexI [of _ k])
  qed (use e assms(2) in \<open>auto simp: outcome_def\<close>)
qed

lemma tcpItems_ok:
  fixes off b
  defines "p \<equiv> pkt_at off b"
  assumes p: "is_tcp p" "20 \<le> tcph p" "hlen p < length p" "length p < 65536" and off: "virtioNetHdrLen \<le> off"
    and W: "W \<subseteq> {..<i}"
  shows "i < length bufs \<Longrightarrow> bufs ! i = b \<Longrightarrow> \<forall>j < length bufs. buf_ok off (bufs ! j) \<Longrightarrow> table_ok off W bufs t \<Longrightarrow> pool_ok n t \<Longrightarrow>
    flows t (flow p) = Some cur \<Longrightarrow> j \<le> length cur \<Longrightarrow> j \<le> length items \<Longrightarrow> take j cur = take j items \<Longrightarrow>
    \<exists>r bufs' t'. tcpItems big (tail off b) i (word_of_nat (iph p)) (word_of_nat (tcph p)) (seq_of p) psh
        (word_of_nat (length (payload p))) items j bufs off t (v6 p) = Some (r, bufs', t') \<and>
      outcome off W i bufs r bufs' \<and> table_ok off W bufs' t' \<and> pool_ok n t' \<and> r \<noteq> Some groResultTableInsert"
proof (induction j arbitrary: bufs t cur)
  case 0
  then show ?case by (auto intro: outcome_refl)
next
  case (Suc j)
  let ?run = "\<lambda>bufs t. tcpItems big (tail off b) i (word_of_nat (iph p)) (word_of_nat (tcph p)) (seq_of p) psh
        (word_of_nat (length (payload p))) items j bufs off t (v6 p)"
  define it where "it = items ! j"
  have "take (Suc j) cur ! j = take (Suc j) items ! j" "take j (take (Suc j) cur) = take j (take (Suc j) items)"
    using Suc.prems(9) by simp_all
  then have cj: "cur ! j = it" "j < length cur" "take j cur = take j items"
    using Suc.prems(7) by (simp_all add: it_def min_def)
  have it: "it \<in> set cur" "ti_key it = flow p" "bidx it \<in> W" "describes it (pkt_at off (bufs ! bidx it))"
  proof -
    show "it \<in> set cur" using cj(1,2) nth_mem by blast
    then show "ti_key it = flow p" "bidx it \<in> W" "describes it (pkt_at off (bufs ! bidx it))"
      using Suc.prems(4,6) unfolding table_ok_def by blast+
  qed
  have k: "bidx it < length bufs" "bidx it \<noteq> i" "buf_ok off (bufs ! bidx it)" "buf_ok off (bufs ! i)"
    using it(3) W Suc.prems(1,3) by auto
  have fl: "flow p = flow (pkt_at off (bufs ! bidx it))" using it(2,4) by (simp add: describes_def)
  have b: "buf_ok off b" using k(4) Suc.prems(2) by simp
  obtain can where can: "tcpPacketsCanCoalesce (tail off b) (word_of_nat (iph p)) (word_of_nat (tcph p)) (seq_of p) psh
        (word_of_nat (length (payload p))) it bufs off = Some can"
      "can = coalesceAppend \<longrightarrow> appends p it (pkt_at off (bufs ! bidx it))"
      "can = coalescePrepend \<longrightarrow> prepends p it (pkt_at off (bufs ! bidx it))"
    using can_ok [where bufs = bufs and it = it and psh = psh, OF b, folded p_def, OF p k(1,3) it(4) fl] by blast
  have nb: "nth_buf items j = Some it" using Suc.prems(8) by (simp add: nth_buf_def it_def)
  show ?case
  proof (cases "can = coalesceUnavailable")
    case True
    then show ?thesis
      using Suc.IH [OF Suc.prems(1-6) _ _ cj(3)] Suc.prems(7,8) by (simp add: nb can(1))
  next
    case False
    have pe: "pkt_at off (bufs ! i) = p" using Suc.prems(2) by (simp add: p_def)
    obtain r it' bufs' where r: "coalesceTCPPackets big can (tail off b) i (word_of_nat (length (payload p)))
          (seq_of p) psh it bufs off (v6 p) = Some (r, it', bufs')"
        "r \<noteq> coalesceSuccess \<longrightarrow> it' = it \<and> bufs' = bufs" "r = coalesceSuccess \<longrightarrow> joined off bufs i it it' bufs'"
    proof (cases can)
      case coalesceAppend
      then show thesis
        using that coalesce_append [where i = i and bufs = bufs and it = it and off = off and big = big and psh = psh] Suc.prems(1,2) k pe p it(4) fl can(2) by simp blast
    next
      case coalescePrepend
      then show thesis
        using that coalesce_prepend [where i = i and bufs = bufs and it = it and off = off and big = big and psh = psh] Suc.prems(1,2) k pe p it(4) fl can(3) by simp blast
    qed (use False in simp)
    show ?thesis
    proof (cases "r = coalesceSuccess")
      case True
      then have jn: "joined off bufs i (cur ! j) it' bufs'" using r(3) cj(1) by simp
      define t' where "t' = t\<lparr>itemsByFlow := AList.update (flow p) (cur[j := it']) (itemsByFlow t)\<rparr>"
      note u = update_table [OF Suc.prems(6,5) t'_def]
      have "updateAt (ti_key it') it' j t = Some t'"
        using jn it(2) cj Suc.prems(6) by (simp add: updateAt_def joined_def t'_def flows_def)
      then have "tcpItems big (tail off b) i (word_of_nat (iph p)) (word_of_nat (tcph p)) (seq_of p) psh
          (word_of_nat (length (payload p))) items (Suc j) bufs off t (v6 p) = Some (Some groResultCoalesced, bufs', t')"
        using False r(1) True by (simp add: nb can(1))
      moreover have "table_ok off W bufs' t'"
        using W by (intro table_ok_joined [OF Suc.prems(4,6) cj(2) u(1) jn]) auto
      moreover have "outcome off W i bufs (Some groResultCoalesced) bufs'"
        unfolding outcome_def using jn it(3,4) cj(1) W Suc.prems(3)
        by (auto simp: joined_def describes_def intro!: bexI [of _ "bidx it"])
      ultimately show ?thesis using u by auto
    next
      case ns: False
      then have same: "it' = it" "bufs' = bufs" using r(2) by auto
      consider "r = coalesceItemInvalidCSum" | "r = coalescePktInvalidCSum" | "r = coalesceInsufficientCap \<or> r = coalescePSHEnding"
        using ns by (cases r) auto
      then show ?thesis
      proof cases
        case 1
        define t' where "t' = t\<lparr>itemsByFlow := AList.update (flow p) (take j cur @ drop (Suc j) cur) (itemsByFlow t)\<rparr>"
        note u = update_table [OF Suc.prems(6,5) t'_def]
        have "deleteAt (ti_key it) j t = Some t'"
          using it(2) cj Suc.prems(6) by (simp add: deleteAt_def t'_def flows_def)
        moreover obtain c where c: "clearHdr (bidx it) off bufs = Some (bufs[bidx it := c])" "buf_ok off c"
            "pkt_at off c = pkt_at off (bufs ! bidx it)"
          using clearHdr_ok [OF k(1,3) off] by blast
        ultimately have run: "tcpItems big (tail off b) i (word_of_nat (iph p)) (word_of_nat (tcph p)) (seq_of p) psh
          (word_of_nat (length (payload p))) items (Suc j) bufs off t (v6 p) = ?run (bufs[bidx it := c]) t'"
          using False r(1) 1 same by (simp add: nb can(1) bidx_def)
        have pk: "pkt_at off (bufs[bidx it := c] ! m) = pkt_at off (bufs ! m)" for m
          using c(3) k(1) by (cases "m = bidx it") auto
        have "distinct (map bidx cur)" using Suc.prems(4,6) by (simp add: table_ok_def)
        then have "table_ok off W bufs t'"
          by (intro table_ok_sub [OF Suc.prems(4,6) u(1)] distinct_delete) (auto dest: in_set_takeD in_set_dropD)
        then have t': "table_ok off W (bufs[bidx it := c]) t'" by (rule table_ok_cong) (rule pk)
        have okc: "buf_ok off (bufs[bidx it := c] ! m)" if "m < length bufs" for m
          using that Suc.prems(3) c(2) by (cases "m = bidx it") auto
        have below: "bidx it < i" using it(3) W by auto
        have oc: "outcome off W i bufs None (bufs[bidx it := c])"
          using pk okc below by (auto simp: outcome_def)
        have "\<exists>r bufs' t''. ?run (bufs[bidx it := c]) t' = Some (r, bufs', t'') \<and>
            outcome off W i (bufs[bidx it := c]) r bufs' \<and> table_ok off W bufs' t'' \<and> pool_ok n t'' \<and> r \<noteq> Some groResultTableInsert"
          using Suc.prems(1,2,7,8) k(2) okc cj(2,3)
          by (intro Suc.IH [OF _ _ _ t' u(2), of "take j cur @ drop (Suc j) cur"]) (auto simp: u(1))
        then show ?thesis unfolding run using outcome_trans [OF oc _ W Suc.prems(1)] by blast
      next
        case 2
        then show ?thesis
          using False r(1) same Suc.prems(3-6) by (auto simp: nb can(1) intro!: outcome_refl)
      next
        case 3
        then show ?thesis
          using Suc.IH [OF Suc.prems(1-6) _ _ cj(3)] Suc.prems(7,8) False r(1) same by (auto simp: nb can(1))
      qed
    qed
  qed
qed

lemma table_ok_insert:
  assumes "table_ok off W bufs t" "i \<notin> W" "bidx it = i" "describes it (pkt_at off (bufs ! i))" "k = flow (pkt_at off (bufs ! i))"
    "flows t' = (flows t)(k \<mapsto> (case flows t k of None \<Rightarrow> [] | Some l \<Rightarrow> l) @ [it])"
  shows "table_ok off (insert i W) bufs t'"
proof -
  have "ti_key it = k" using assms(4,5) by (simp add: describes_def)
  moreover have "distinct (map bidx l) \<and> i \<notin> bidx ` set l \<and> (\<forall>x \<in> set l. ti_key x = k \<and> bidx x \<in> W \<and> describes x (pkt_at off (bufs ! bidx x)))"
    if "flows t k = Some l" for l using assms(1,2) that by (auto simp: table_ok_def)
  ultimately show ?thesis
    using assms(1,3,4,6) by (auto simp: table_ok_def split: option.splits if_splits)
qed

lemma tcpGRO_ok:
  fixes off bufs i
  defines "p \<equiv> pkt_at off (bufs ! i)"
  assumes i: "i < length bufs" "length bufs \<le> IdealBatchSize" "W \<subseteq> {..<i}" "\<forall>j < length bufs. buf_ok off (bufs ! j)"
    and t: "table_ok off W bufs t" "pool_ok i t" and p: "is_tcp p" and off: "virtioNetHdrLen \<le> off"
  shows "\<exists>r bufs' t'. tcpGRO big bufs off i t (v6 p) = Some (r, bufs', t') \<and> outcome off W i bufs (Some r) bufs' \<and>
    pool_ok (Suc i) t' \<and> table_ok off (if r = groResultTableInsert then insert i W else W) bufs' t'"
proof -
  let ?b = "bufs ! i"
  have b: "buf_ok off ?b" using i by simp
  have nb: "nth_buf bufs i = Some ?b" "tail_slice off ?b = Some (tail off ?b)"
    using i b by (auto simp: nth_buf_def tail_slice_ok)
  have pool: "pool_ok (Suc i) t" using t(2) by (auto simp: pool_ok_def)
  have unch: "outcome off W i bufs (Some r) bufs" if "r \<noteq> groResultCoalesced" for r
    using i(4) that by (intro outcome_refl) auto
  have iW: "i \<notin> W" using i(3) by auto
  have ib: "i < IdealBatchSize" "i < 65536" using i(1,2) by (auto simp: IdealBatchSize_def)
  have c: "content (tail off ?b) = p" "slice_ok (tail off ?b)" using b by (auto simp: p_def buf_ok_def)
  consider "tcpParse (tail off ?b) (v6 p) = Some None"
    | psh where "tcpParse (tail off ?b) (v6 p) = Some (Some (iph p, tcph p, psh, word_of_nat (length (payload p))))"
      "20 \<le> tcph p" "hlen p < length p" "length p < 65536"
    using tcpParse_ok [of "tail off ?b"] p c by auto
  then show ?thesis
  proof cases
    case 1
    then show ?thesis using unch t(1) pool by (simp add: tcpGRO_def nb)
  next
    case (2 psh)
    have sq: "get32 (iph p + 4) (pkt_at off ?b) = Some (seq_of p)"
      using is_tcp_len [OF p] by (simp add: get32_def seq_of_def flip: p_def)
    have key: "newTCPFlowKey (tail off ?b) (srcAddrAt (v6 p)) (srcAddrAt (v6 p) + addrSize (v6 p)) (iph p) = Some (flow p)"
      using flow_key [of ?b off] b p by (simp add: buf_ok_def p_def tail_def)
    have ins: "\<exists>t' it. tcp_insert u (tail off ?b) (srcAddrAt (v6 p)) (srcAddrAt (v6 p) + addrSize (v6 p)) (iph p) (tcph p) i = Some t' \<and>
        pool_ok (Suc i) t' \<and> bidx it = i \<and> describes it p \<and>
        flows t' = (flows u)(flow p \<mapsto> (case flows u (flow p) of None \<Rightarrow> [] | Some l \<Rightarrow> l) @ [it])"
      if "pool_ok i u" for u
      using tcp_insert_ok [of off ?b i u i] b p 2(2-4) that ib unfolding p_def tail_def by simp
    show ?thesis
    proof (cases "flows t (flow p)")
      case None
      obtain t' it where t': "tcp_insert t (tail off ?b) (srcAddrAt (v6 p)) (srcAddrAt (v6 p) + addrSize (v6 p)) (iph p) (tcph p) i = Some t'"
          "pool_ok (Suc i) t'" "bidx it = i" "describes it p"
          "flows t' = (flows t)(flow p \<mapsto> (case flows t (flow p) of None \<Rightarrow> [] | Some l \<Rightarrow> l) @ [it])"
        using ins [OF t(2)] by blast
      have "tcpGRO big bufs off i t (v6 p) = Some (groResultTableInsert, bufs, t')"
        using None 2(1) by (simp add: tcpGRO_def nb sq tcp_lookupOrInsert_def key t'(1) flip: flows_def)
      moreover have "table_ok off (insert i W) bufs t'"
        using table_ok_insert [OF t(1) iW t'(3)] t'(4,5) by (simp add: p_def)
      ultimately show ?thesis using unch t'(2) by simp
    next
      case (Some cur)
      obtain r bufs' t' where r: "tcpItems big (tail off ?b) i (word_of_nat (iph p)) (word_of_nat (tcph p)) (seq_of p) psh
            (word_of_nat (length (payload p))) cur (length cur) bufs off t (v6 p) = Some (r, bufs', t')"
          "outcome off W i bufs r bufs'" "table_ok off W bufs' t'" "pool_ok i t'" "r \<noteq> Some groResultTableInsert"
        using tcpItems_ok [where b = ?b and off = off and bufs = bufs and items = cur and j = "length cur" and big = big and psh = psh,
            folded p_def, OF p 2(2-4) off i(3,1) refl i(4) t Some] by auto
      have run: "tcpGRO big bufs off i t (v6 p) = (case r of Some r \<Rightarrow> Some (r, bufs', t') | None \<Rightarrow> do {
            t' \<leftarrow> tcp_insert t' (tail off ?b) (srcAddrAt (v6 p)) (srcAddrAt (v6 p) + addrSize (v6 p)) (iph p) (tcph p) i;
            Some (groResultTableInsert, bufs', t')})"
        using Some 2(1) by (simp add: tcpGRO_def nb sq tcp_lookupOrInsert_def key r(1) flip: flows_def)
      show ?thesis
      proof (cases r)
        case None
        obtain t'' it where t': "tcp_insert t' (tail off ?b) (srcAddrAt (v6 p)) (srcAddrAt (v6 p) + addrSize (v6 p)) (iph p) (tcph p) i = Some t''"
            "pool_ok (Suc i) t''" "bidx it = i" "describes it p"
            "flows t'' = (flows t')(flow p \<mapsto> (case flows t' (flow p) of None \<Rightarrow> [] | Some l \<Rightarrow> l) @ [it])"
          using ins [OF r(4)] by blast
        have "bufs' ! i = ?b" using r(2) None i(1) by (simp add: outcome_def)
        then have "table_ok off (insert i W) bufs' t''"
          using table_ok_insert [OF r(3) iW t'(3)] t'(4,5) by (simp add: p_def)
        moreover have "outcome off W i bufs (Some groResultTableInsert) bufs'" using r(2) None by (simp add: outcome_def)
        ultimately show ?thesis using run None t'(1,2) by simp
      next
        case (Some x)
        then show ?thesis using run r(2-5) by (auto simp: pool_ok_def)
      qed
    qed
  qed
qed

subsection \<open>Accounting\<close>

text \<open>The accounting changes lengths and checksums only.\<close>

definition reheaded :: "bytes \<Rightarrow> bytes \<Rightarrow> bool" where
  "reheaded q r \<longleftrightarrow> length r = length q \<and>
     (\<forall>k < length q. k \<notin> (if v6 q then {4, 5} else {2, 3, 10, 11}) \<union> {iph q + 16, iph q + 17} \<longrightarrow> r ! k = q ! k)"

lemma reheaded_keeps:
  assumes "is_tcp q" "20 \<le> tcph q" "reheaded q r"
  shows "is_tcp r" "view r = view q" "describes it q \<Longrightarrow> describes it r"
proof -
  have l: "iph q + 20 \<le> length q" by (rule is_tcp_len [OF assms(1)])
  have i: "20 \<le> iph q" by (simp add: iph_def)
  have ag: "agree q r" using assms(3) l by (auto simp: agree_def reheaded_def split: if_splits)
  have dr: "drop (hlen q) r = drop (hlen q) q"
    using assms(2,3) i by (intro nth_equalityI) (auto simp: reheaded_def hlen_def split: if_splits)
  have len: "length r = length q" using assms(3) by (simp add: reheaded_def)
  note m = agree_meta [OF ag]
  show tcp: "is_tcp r" using agree_is_tcp [OF ag assms(1)] len by simp
  show "view r = view q"
    using agree_view [OF ag assms(1)] len dr assms(1) by (simp add: view_def carried_def payload_def)
  show "describes it r" if "describes it q"
    using that tcp m len dr by (simp add: describes_def payload_def)
qed

lemma newLength_ok:
  assumes "is_tcp q"
  shows "\<exists>r. newLength big (word_of_nat (iph q)) (v6 q) rest q = Some r \<and> length r = length q \<and>
    (\<forall>k < length q. k \<notin> (if v6 q then {4, 5} else {2, 3, 10, 11}) \<longrightarrow> r ! k = q ! k)"
proof -
  have l: "iph q + 20 \<le> length q" by (rule is_tcp_len [OF assms])
  show ?thesis
  proof (cases "v6 q")
    case True
    then show ?thesis using l by (auto simp: newLength_def put16_def iph_def nth_go_copy)
  next
    case False
    define a where "a = go_copy (q[10 := 0, 11 := 0]) 2 (BE_PutUint16 (word_of_nat (length q)))"
    have a: "length a = length q" "\<forall>k < length q. k \<notin> {2, 3, 10, 11} \<longrightarrow> a ! k = q ! k"
      using l by (auto simp: a_def nth_go_copy nth_list_update)
    define r where "r = go_copy a 10 (BE_PutUint16 (NOT (checksum big (take 20 a) 0)))"
    have r: "length r = length q" "\<forall>k < length q. k \<notin> {2, 3, 10, 11} \<longrightarrow> r ! k = q ! k"
      using l a by (auto simp: r_def nth_go_copy)
    have u: "unat (word_of_nat (iph q) :: byte) = 20" using False by (simp add: iph_def)
    have "newLength big (word_of_nat (iph q)) (v6 q) rest q = Some r"
    proof -
      have "20 \<le> length q" "q \<noteq> []" using l by auto
      then show ?thesis using False a(1)
        by (simp add: newLength_def set_elem_def put16_def u sub_def flip: a_def) (simp add: r_def)
    qed
    then show ?thesis using r False by auto
  qed
qed

lemma account_ok:
  fixes off c it
  defines "q \<equiv> pkt_at off c"
  assumes c: "buf_ok off c" "describes it q" "virtioNetHdrLen \<le> off"
  shows "\<exists>d. account big (tcpHdr it) IPPROTO_TCP (ti_iphLen it) (tk_isV6 (ti_key it)) off c = Some (d, None) \<and>
    buf_ok off d \<and> reheaded q (pkt_at off d)"
proof -
  have q: "is_tcp q" "20 \<le> tcph q" "ti_iphLen it = word_of_nat (iph q)" "tk_isV6 (ti_key it) = v6 q"
    using c(2) by (auto simp: describes_def flow_def Let_def)
  have l: "iph q + 20 \<le> length q" by (rule is_tcp_len [OF q(1)])
  let ?rest = "drop (slen c) (backing c)"
  obtain r where r: "newLength big (word_of_nat (iph q)) (v6 q) ?rest q = Some r" "length r = length q"
      "\<forall>k < length q. k \<notin> (if v6 q then {4, 5} else {2, 3, 10, 11}) \<longrightarrow> r ! k = q ! k"
    using newLength_ok [OF q(1)] by blast
  have lc: "length (content c) = slen c" "off \<le> slen c" "length q = slen c - off"
    using c(1) by (auto simp: buf_ok_def q_def)
  define e where "e = take off (content c) @ r"
  define h where "h = go_copy (drop (off - virtioNetHdrLen) e) 0 (hdr_bytes big (tcpHdr it))"
  define c2 where "c2 = take (off - virtioNetHdrLen) e @ h"
  have le: "length e = slen c" "drop off e = r" using lc r(2) by (auto simp: e_def)
  have h: "length h = slen c - (off - virtioNetHdrLen)" "drop virtioNetHdrLen h = r"
    using le lc(2) c(3) by (auto simp: h_def virtioNetHdrLen_def)
  have c2: "length c2 = slen c" "drop off c2 = r"
    using h le(1) lc(2) c(3) by (auto simp: c2_def)
  have enc: "encode big (tcpHdr it) (drop (off - virtioNetHdrLen) e) = Inr h"
    using le(1) lc(2) c(3) by (simp add: encode_def h_def)
  have cs: "unat (csumStart (tcpHdr it) + csumOffset (tcpHdr it)) = iph q + 16"
  proof -
    have "unat (ucast (word_of_nat (iph q) :: byte) :: u16) = iph q"
      using unat_byte_small [of "iph q"] by (auto simp: iph_def)
    then show ?thesis using unat_add_u16 [of "ucast (word_of_nat (iph q) :: byte)" 16]
      by (simp add: tcpHdr_def q(3) iph_def split: if_splits)
  qed
  obtain ps where ps: "pseudo big IPPROTO_TCP (v6 q) (r @ ?rest) (word_of_int (int (length r) - int (unat (word_of_nat (iph q) :: byte)))) = Some ps"
    using l r(2) by (simp add: pseudo_slice addrs_in_header iph_def Let_def split: if_splits)
  define w where "w = go_copy r (iph q + 16) (BE_PutUint16 (checksum big [] ps))"
  have w: "length w = length q" "reheaded q w"
    using r(2,3) l by (auto simp: w_def reheaded_def nth_go_copy)
  have pw: "put16 (iph q + 16) (checksum big [] ps) r = Some w" using l r(2) by (simp add: put16_def w_def)
  have tf: "tail_from off (content c) = Some q" "tail_from (off - virtioNetHdrLen) e = Some (drop (off - virtioNetHdrLen) e)"
    using lc le(1) by (auto simp: tail_from_def q_def pkt_at_def)
  have np: "(IPPROTO_TCP = IPPROTO_UDP) = False" "(off < virtioNetHdrLen) = False" using c(3) by (simp_all add: offload_consts)
  let ?d = "upd_content (take off c2 @ w) c"
  have "account big (tcpHdr it) IPPROTO_TCP (ti_iphLen it) (tk_isV6 (ti_key it)) off c = Some (?d, None)"
    by (simp only: account_def Let_def tf bind.simps q(3,4) r(1) e_def [symmetric] if_False enc sum.case
        c2_def [symmetric] np c2(2) ps pw cs)
  moreover have "pkt_at off ?d = w" "buf_ok off ?d"
    using c(1) w(1) lc c2(1) by (auto simp: pkt_at_def buf_ok_def)
  ultimately show ?thesis using w(2) by metis
qed

lemma accounting_ok:
  assumes "virtioNetHdrLen \<le> off" "\<forall>it \<in> set items. bidx it < length bufs \<and> describes it (pkt_at off (bufs ! bidx it))"
    "\<forall>j < length bufs. buf_ok off (bufs ! j)"
  shows "\<exists>bufs'. applyTCPCoalesceAccounting big off items bufs = Some (bufs', None) \<and> length bufs' = length bufs \<and>
    (\<forall>j < length bufs. view (pkt_at off (bufs' ! j)) = view (pkt_at off (bufs ! j)) \<and>
       (\<not> is_tcp (pkt_at off (bufs ! j)) \<longrightarrow> pkt_at off (bufs' ! j) = pkt_at off (bufs ! j)))"
  using assms(2,3)
proof (induction items arbitrary: bufs)
  case (Cons it items)
  let ?c = "bufs ! bidx it"
  let ?q = "pkt_at off ?c"
  have it: "bidx it < length bufs" "describes it ?q" "buf_ok off ?c" using Cons.prems by auto
  then have q: "is_tcp ?q" "20 \<le> tcph ?q" by (auto simp: describes_def)
  have refl: "reheaded ?q ?q" by (simp add: reheaded_def)
  obtain d where d: "(if ti_numMerged it > 0 then do {
        buf \<leftarrow> nth_buf bufs (unat (ti_bufsIndex it));
        (buf, err) \<leftarrow> account big (tcpHdr it) IPPROTO_TCP (ti_iphLen it) (tk_isV6 (ti_key it)) off buf;
        let bufs = bufs[unat (ti_bufsIndex it) := buf];
        if err \<noteq> None then Some (bufs, err) else applyTCPCoalesceAccounting big off items bufs}
      else do {
        bufs \<leftarrow> clearHdr (unat (ti_bufsIndex it)) off bufs;
        applyTCPCoalesceAccounting big off items bufs}) = applyTCPCoalesceAccounting big off items (bufs[bidx it := d])"
      "buf_ok off d" "reheaded ?q (pkt_at off d)"
  proof (cases "ti_numMerged it > 0")
    case True
    then show thesis
      using that account_ok [OF it(3,2) assms(1), of big] it(1) by (auto simp: nth_buf_def bidx_def)
  next
    case False
    then show thesis using that clearHdr_ok [OF it(1,3) assms(1)] refl by (auto simp: bidx_def)
  qed
  let ?b = "bufs[bidx it := d]"
  note keeps = reheaded_keeps [OF q d(3)]
  have pk: "view (pkt_at off (?b ! j)) = view (pkt_at off (bufs ! j)) \<and> (\<not> is_tcp (pkt_at off (bufs ! j)) \<longrightarrow> ?b ! j = bufs ! j) \<and>
      is_tcp (pkt_at off (?b ! j)) = is_tcp (pkt_at off (bufs ! j))" for j
    using keeps(1,2) q(1) it(1) by (cases "j = bidx it") auto
  have "describes x (pkt_at off (?b ! bidx x))" if "x \<in> set items" for x
    using keeps(3) that Cons.prems(1) it(1) by (cases "bidx x = bidx it") auto
  then have "\<forall>x \<in> set items. bidx x < length ?b \<and> describes x (pkt_at off (?b ! bidx x))" using Cons.prems(1) by simp
  moreover have "\<forall>j < length ?b. buf_ok off (?b ! j)"
    using Cons.prems(2) d(2) it(1) by (auto simp: nth_list_update)
  ultimately obtain bufs' where bufs': "applyTCPCoalesceAccounting big off items ?b = Some (bufs', None)" "length bufs' = length bufs"
      "\<forall>j < length bufs. view (pkt_at off (bufs' ! j)) = view (pkt_at off (?b ! j)) \<and>
       (\<not> is_tcp (pkt_at off (?b ! j)) \<longrightarrow> pkt_at off (bufs' ! j) = pkt_at off (?b ! j))"
    using Cons.IH [of ?b] by auto
  have "applyTCPCoalesceAccounting big off (it # items) bufs = Some (bufs', None)"
    unfolding applyTCPCoalesceAccounting.simps(2) d(1) bufs'(1) ..
  moreover have "view (pkt_at off (bufs' ! j)) = view (pkt_at off (bufs ! j)) \<and>
      (\<not> is_tcp (pkt_at off (bufs ! j)) \<longrightarrow> pkt_at off (bufs' ! j) = pkt_at off (bufs ! j))" if "j < length bufs" for j
    using bufs'(3) that pk [of j] by metis
  ultimately show ?case using bufs'(2) by blast
qed simp

subsection \<open>The batch\<close>

definition loop_inv :: "nat \<Rightarrow> gslice list \<Rightarrow> nat \<Rightarrow> gro_state \<Rightarrow> bool" where
  "loop_inv off orig i s \<longleftrightarrow> length (gs_bufs s) = length orig \<and> (\<forall>j < length orig. buf_ok off (gs_bufs s ! j)) \<and>
     (\<forall>j < length orig. i \<le> j \<longrightarrow> gs_bufs s ! j = orig ! j) \<and>
     set (gs_toWrite s) \<subseteq> {..<i} \<and> distinct (gs_toWrite s) \<and>
     table_ok off (set (gs_toWrite s)) (gs_bufs s) (gs_tcp s) \<and> pool_ok i (gs_tcp s) \<and> itemsByFlow (gs_udp s) = [] \<and>
     (\<Union>j \<in> set (gs_toWrite s). view (pkt_at off (gs_bufs s ! j))) = (\<Union>j < i. view (pkt_at off (orig ! j))) \<and>
     (\<forall>j < i. \<not> is_tcp (pkt_at off (orig ! j)) \<longrightarrow>
        j \<in> set (gs_toWrite s) \<and> pkt_at off (gs_bufs s ! j) = pkt_at off (orig ! j))"

lemma groPacket_tcp:
  "is_tcp p \<Longrightarrow> groPacket big off False i p s =
    do {(r, bufs, t) \<leftarrow> tcpGRO big (gs_bufs s) off i (gs_tcp s) (v6 p); Some (r, s\<lparr>gs_bufs := bufs, gs_tcp := t\<rparr>)}"
  by (auto simp: groPacket_def is_tcp_def Let_def v6_def packetIsGROCandidate_def split: if_splits)

lemma groPacket_other: "\<not> is_tcp p \<Longrightarrow> groPacket big off False i p s = Some (groResultNoop, s)"
  by (auto simp: groPacket_def is_tcp_def Let_def packetIsGROCandidate_def split: if_splits)

text \<open>One iteration, by the result of the comparison.\<close>

lemma inv_written:
  assumes inv: "loop_inv off orig i s" and i: "i < length orig"
    and b: "length bufs = length orig" "\<forall>j < length orig. buf_ok off (bufs ! j)"
      "\<forall>j < length orig. i < j \<longrightarrow> bufs ! j = gs_bufs s ! j"
      "\<forall>j < length orig. pkt_at off (bufs ! j) = pkt_at off (gs_bufs s ! j)"
    and t: "table_ok off (insert i (set (gs_toWrite s))) bufs t" "pool_ok (Suc i) t"
  shows "loop_inv off orig (Suc i) (s\<lparr>gs_bufs := bufs, gs_tcp := t, gs_toWrite := gs_toWrite s @ [i]\<rparr>)"
proof -
  let ?W = "set (gs_toWrite s)"
  have W: "?W \<subseteq> {..<i}" "distinct (gs_toWrite s)" "i \<notin> ?W" using inv by (auto simp: loop_inv_def)
  have "\<forall>j \<in> ?W. pkt_at off (bufs ! j) = pkt_at off (gs_bufs s ! j)" using b(4) W(1) i by auto
  moreover have pi: "pkt_at off (bufs ! i) = pkt_at off (orig ! i)" using inv b(4) i by (simp add: loop_inv_def)
  ultimately have "(\<Union>j \<in> insert i ?W. view (pkt_at off (bufs ! j))) = (\<Union>j < Suc i. view (pkt_at off (orig ! j)))"
    using inv by (simp add: loop_inv_def lessThan_Suc)
  moreover have "\<forall>j < length orig. Suc i \<le> j \<longrightarrow> bufs ! j = orig ! j" using inv b(3) by (simp add: loop_inv_def)
  moreover have "\<forall>j < Suc i. \<not> is_tcp (pkt_at off (orig ! j)) \<longrightarrow>
        j \<in> insert i ?W \<and> pkt_at off (bufs ! j) = pkt_at off (orig ! j)"
    using inv b(4) pi i by (auto simp: loop_inv_def less_Suc_eq)
  ultimately show ?thesis using inv W b(1,2) t by (auto simp: loop_inv_def)
qed

lemma inv_joined:
  assumes inv: "loop_inv off orig i s" and i: "i < length orig" "is_tcp (pkt_at off (orig ! i))"
    and o: "outcome off (set (gs_toWrite s)) i (gs_bufs s) (Some groResultCoalesced) bufs"
    and t: "table_ok off (set (gs_toWrite s)) bufs t" "pool_ok (Suc i) t"
  shows "loop_inv off orig (Suc i) (s\<lparr>gs_bufs := bufs, gs_tcp := t\<rparr>)"
proof -
  let ?W = "set (gs_toWrite s)"
  have W: "?W \<subseteq> {..<i}" "i \<notin> ?W" "length (gs_bufs s) = length orig" using inv by (auto simp: loop_inv_def)
  obtain k where k: "k \<in> ?W" "is_tcp (pkt_at off (gs_bufs s ! k))"
      "view (pkt_at off (bufs ! k)) = view (pkt_at off (gs_bufs s ! k)) \<union> view (pkt_at off (gs_bufs s ! i))"
      "\<forall>j < length orig. j \<noteq> i \<and> j \<noteq> k \<longrightarrow> pkt_at off (bufs ! j) = pkt_at off (gs_bufs s ! j)"
      "\<forall>j < length orig. i < j \<longrightarrow> bufs ! j = gs_bufs s ! j"
    using o W(3) by (auto simp: outcome_def)
  have same: "pkt_at off (bufs ! j) = pkt_at off (gs_bufs s ! j)" if "j < i" "j \<noteq> k" for j
    using k(4) that i(1) by auto
  have "(\<Union>j \<in> ?W. view (pkt_at off (bufs ! j))) =
      (\<Union>j \<in> ?W. view (pkt_at off (gs_bufs s ! j))) \<union> view (pkt_at off (gs_bufs s ! i))"
  proof -
    have "(\<Union>j \<in> ?W. view (pkt_at off (bufs ! j))) = (\<Union>j \<in> ?W - {k}. view (pkt_at off (bufs ! j))) \<union> view (pkt_at off (bufs ! k))"
      using k(1) by blast
    also have "(\<Union>j \<in> ?W - {k}. view (pkt_at off (bufs ! j))) = (\<Union>j \<in> ?W - {k}. view (pkt_at off (gs_bufs s ! j)))"
      using same W(1) by (intro SUP_cong) auto
    finally show ?thesis using k(1,3) by blast
  qed
  also have "\<dots> = (\<Union>j < Suc i. view (pkt_at off (orig ! j)))"
    using inv i by (auto simp: loop_inv_def lessThan_Suc)
  finally have u: "(\<Union>j \<in> ?W. view (pkt_at off (bufs ! j))) = (\<Union>j < Suc i. view (pkt_at off (orig ! j)))" .
  have "j \<in> ?W \<and> pkt_at off (bufs ! j) = pkt_at off (orig ! j)" if "j < Suc i" "\<not> is_tcp (pkt_at off (orig ! j))" for j
  proof -
    have "j < i" using that i(2) by (cases "j = i") auto
    then have "j \<in> ?W" "pkt_at off (gs_bufs s ! j) = pkt_at off (orig ! j)" using inv that(2) by (auto simp: loop_inv_def)
    moreover from this have "j \<noteq> k" using k(2) that(2) by auto
    ultimately show ?thesis using same \<open>j < i\<close> by simp
  qed
  moreover have "\<forall>j < length orig. Suc i \<le> j \<longrightarrow> bufs ! j = orig ! j"
    using inv k(5) by (auto simp: loop_inv_def)
  ultimately show ?thesis using inv W o t u by (auto simp: loop_inv_def outcome_def)
qed

lemma groLoop_ok:
  assumes off: "virtioNetHdrLen \<le> off" and o: "length orig \<le> IdealBatchSize" "\<forall>j < length orig. off < slen (orig ! j)"
  shows "loop_inv off orig i s \<Longrightarrow> i \<le> length orig \<Longrightarrow>
    \<exists>s'. groLoop big off False (length orig) i s = Some (s', None) \<and> loop_inv off orig (length orig) s'"
proof (induction "length orig - i" arbitrary: i s)
  case 0
  then show ?case by (simp add: groLoop.simps)
next
  case (Suc m)
  then have i: "i < length orig" by simp
  let ?b = "gs_bufs s ! i" and ?W = "set (gs_toWrite s)"
  define p where "p = pkt_at off ?b"
  have inv: "length (gs_bufs s) = length orig" "\<forall>j < length (gs_bufs s). buf_ok off (gs_bufs s ! j)" "?b = orig ! i"
      "?W \<subseteq> {..<i}" "table_ok off ?W (gs_bufs s) (gs_tcp s)" "pool_ok i (gs_tcp s)"
    using Suc.prems(1) i by (auto simp: loop_inv_def)
  have nb: "nth_buf (gs_bufs s) i = Some ?b" using inv(1) i by (simp add: nth_buf_def)
  have g: "\<not> (off < virtioNetHdrLen \<or> int off > int (slen ?b) - 1)" using off o(2) inv(3) i by auto
  have pe: "drop off (content ?b) = p" "pkt_at off (orig ! i) = p" using inv(3) by (auto simp: p_def pkt_at_def)
  have next_ok: "\<exists>s'. groLoop big off False (length orig) (Suc i) u = Some (s', None) \<and> loop_inv off orig (length orig) s'"
    if "loop_inv off orig (Suc i) u" for u using Suc.hyps that i by simp
  have noop: "\<exists>bufs. clearHdr i off b = Some bufs \<and> length bufs = length orig \<and> (\<forall>j < length orig. buf_ok off (bufs ! j)) \<and>
      (\<forall>j < length orig. pkt_at off (bufs ! j) = pkt_at off (b ! j)) \<and> (\<forall>j. j \<noteq> i \<longrightarrow> bufs ! j = b ! j)"
    if bb: "length b = length orig" "\<forall>j < length orig. buf_ok off (b ! j)" for b
  proof -
    obtain c where "clearHdr i off b = Some (b[i := c])" "buf_ok off c" "pkt_at off c = pkt_at off (b ! i)"
      using clearHdr_ok [of i b off] bb i off by auto
    then show ?thesis using bb i by (auto simp: nth_list_update)
  qed
  show ?case
  proof (cases "is_tcp p")
    case False
    obtain bufs where bufs: "clearHdr i off (gs_bufs s) = Some bufs" "length bufs = length orig"
        "\<forall>j < length orig. buf_ok off (bufs ! j)"
        "\<forall>j < length orig. pkt_at off (bufs ! j) = pkt_at off (gs_bufs s ! j)" "\<forall>j. j \<noteq> i \<longrightarrow> bufs ! j = gs_bufs s ! j"
      using noop [of "gs_bufs s"] inv(1,2) by auto
    have "loop_inv off orig (Suc i) (s\<lparr>gs_bufs := bufs, gs_toWrite := gs_toWrite s @ [i]\<rparr>)"
    proof -
      have "table_ok off (insert i ?W) bufs (gs_tcp s)"
        using bufs(4) inv(4) i by (intro table_ok_mono [OF inv(5)]) auto
      then show ?thesis
        using inv_written [OF Suc.prems(1) i bufs(2,3) _ bufs(4), of "gs_tcp s"] bufs(4,5) inv(6)
        by (auto simp: pool_ok_def)
    qed
    from next_ok [OF this] show ?thesis
      using False bufs(1) g i
      by (subst groLoop.simps) (simp add: nb groPacket_other pe)
  next
    case True
    obtain r bufs t where r: "tcpGRO big (gs_bufs s) off i (gs_tcp s) (v6 p) = Some (r, bufs, t)"
        "outcome off ?W i (gs_bufs s) (Some r) bufs" "pool_ok (Suc i) t"
        "table_ok off (if r = groResultTableInsert then insert i ?W else ?W) bufs t"
      using tcpGRO_ok [of i "gs_bufs s" ?W off "gs_tcp s" big] inv o(1) i True off by (auto simp: p_def)
    have oc: "length bufs = length orig" "\<forall>j < length orig. buf_ok off (bufs ! j)"
      using r(2) inv(1) by (auto simp: outcome_def)
    have oc2: "\<forall>j < length orig. pkt_at off (bufs ! j) = pkt_at off (gs_bufs s ! j)"
        "\<forall>j < length orig. i \<le> j \<longrightarrow> bufs ! j = gs_bufs s ! j" if "r \<noteq> groResultCoalesced"
      using r(2) that inv(1) by (auto simp: outcome_def)
    show ?thesis
    proof (cases r)
      case groResultCoalesced
      then have "loop_inv off orig (Suc i) (s\<lparr>gs_bufs := bufs, gs_tcp := t\<rparr>)"
        using inv_joined [OF Suc.prems(1) i] r True pe(2) by simp
      from next_ok [OF this] show ?thesis
        using True groResultCoalesced r(1) g i
        by (subst groLoop.simps) (simp add: nb groPacket_tcp pe)
    next
      case groResultTableInsert
      then have "loop_inv off orig (Suc i) (s\<lparr>gs_bufs := bufs, gs_tcp := t, gs_toWrite := gs_toWrite s @ [i]\<rparr>)"
        using inv_written [OF Suc.prems(1) i oc _ oc2(1), of t] oc2 r(3,4) by simp
      from next_ok [OF this] show ?thesis
        using True groResultTableInsert r(1) g i
        by (subst groLoop.simps) (simp add: nb groPacket_tcp pe)
    next
      case groResultNoop
      obtain c where c: "clearHdr i off bufs = Some c" "length c = length orig" "\<forall>j < length orig. buf_ok off (c ! j)"
          "\<forall>j < length orig. pkt_at off (c ! j) = pkt_at off (bufs ! j)" "\<forall>j. j \<noteq> i \<longrightarrow> c ! j = bufs ! j"
        using noop [OF oc] by auto
      have "table_ok off (insert i ?W) c t"
        using groResultNoop c(4) inv(4) i by (intro table_ok_mono [OF r(4)]) auto
      then have "loop_inv off orig (Suc i) (s\<lparr>gs_bufs := c, gs_tcp := t, gs_toWrite := gs_toWrite s @ [i]\<rparr>)"
        using inv_written [OF Suc.prems(1) i c(2,3) _ _ _ r(3)] c(4,5) oc2 groResultNoop by auto
      moreover have e: "s\<lparr>gs_tcp := t, gs_bufs := c, gs_toWrite := gs_toWrite s @ [i]\<rparr> =
          s\<lparr>gs_bufs := c, gs_tcp := t, gs_toWrite := gs_toWrite s @ [i]\<rparr>" by simp
      ultimately have "loop_inv off orig (Suc i) (s\<lparr>gs_tcp := t, gs_bufs := c, gs_toWrite := gs_toWrite s @ [i]\<rparr>)"
        by (simp only: e)
      from next_ok [OF this] show ?thesis
        using True groResultNoop r(1) g i c(1)
        by (subst groLoop.simps) (simp add: nb groPacket_tcp pe)
    qed
  qed
qed

subsection \<open>Properties\<close>

lemma table_items_flows:
  assumes "table_ok off W bufs t" "distinct (map fst (itemsByFlow t))" "it \<in> set (table_items t)"
  shows "bidx it \<in> W \<and> describes it (pkt_at off (bufs ! bidx it))"
proof -
  obtain k l where "(k, l) \<in> set (itemsByFlow t)" "it \<in> set l" using assms(3) by (auto simp: table_items_def)
  then have "flows t k = Some l" "it \<in> set l" using assms(2) by (auto simp: flows_def)
  then show ?thesis using assms(1) unfolding table_ok_def by blast
qed

text \<open>C21.  Without UDP offload, a batch of at most 128 nonempty packets in buffers below 64 KiB goes
  through \<open>handleGRO\<close> without a panic or an error, and joining loses, repeats and moves no byte of
  TCP: the packets selected for writing carry exactly the payload bytes of the batch, each with the
  flow (addresses, ports, acknowledgement) and the sequence number it arrived with, in whatever
  order and with whatever gaps, overlaps and wrap-around of sequence numbers; every packet that is
  not TCP is written as it came, and no buffer is written twice.\<close>

theorem gro_conserves:
  assumes "\<forall>b \<in> set bufs. slice_ok b \<and> off < slen b \<and> capacity b < 65536" "length bufs \<le> IdealBatchSize"
    "virtioNetHdrLen \<le> off"
  shows "\<exists>s. handleGRO big off False
      \<lparr>gs_bufs = bufs, gs_tcp = newTCPGROTable, gs_udp = newUDPGROTable, gs_toWrite = []\<rparr> = Some (s, []) \<and>
    distinct (gs_toWrite s) \<and> set (gs_toWrite s) \<subseteq> {..<length bufs} \<and>
    (\<Union>j \<in> set (gs_toWrite s). view (pkt_at off (gs_bufs s ! j))) = (\<Union>b \<in> set bufs. view (pkt_at off b)) \<and>
    (\<forall>j < length bufs. \<not> is_tcp (pkt_at off (bufs ! j)) \<longrightarrow>
       j \<in> set (gs_toWrite s) \<and> pkt_at off (gs_bufs s ! j) = pkt_at off (bufs ! j))"
proof -
  let ?s = "\<lparr>gs_bufs = bufs, gs_tcp = newTCPGROTable, gs_udp = newUDPGROTable, gs_toWrite = []\<rparr>"
  have "loop_inv off bufs 0 ?s"
  proof -
    have "buf_ok off (bufs ! j)" if "j < length bufs" for j
      using assms(1) nth_mem [OF that] by (auto simp: buf_ok_def)
    then show ?thesis
      by (simp add: loop_inv_def table_ok_def flows_def newTCPGROTable_def newUDPGROTable_def pool_ok_def)
  qed
  then obtain s where s: "groLoop big off False (length bufs) 0 ?s = Some (s, None)" "loop_inv off bufs (length bufs) s"
    using groLoop_ok [OF assms(3,2), of 0 ?s big] assms(1) by auto
  let ?W = "set (gs_toWrite s)"
  have inv: "length (gs_bufs s) = length bufs" "\<forall>j < length (gs_bufs s). buf_ok off (gs_bufs s ! j)" "?W \<subseteq> {..<length bufs}"
      "distinct (gs_toWrite s)" "table_ok off ?W (gs_bufs s) (gs_tcp s)" "itemsByFlow (gs_udp s) = []"
      "(\<Union>j \<in> ?W. view (pkt_at off (gs_bufs s ! j))) = (\<Union>j < length bufs. view (pkt_at off (bufs ! j)))"
      "\<forall>j < length bufs. \<not> is_tcp (pkt_at off (bufs ! j)) \<longrightarrow> j \<in> ?W \<and> pkt_at off (gs_bufs s ! j) = pkt_at off (bufs ! j)"
    using s(2) by (auto simp: loop_inv_def)
  have "\<forall>it \<in> set (table_items (gs_tcp s)). bidx it < length (gs_bufs s) \<and> describes it (pkt_at off (gs_bufs s ! bidx it))"
    using table_items_flows [OF inv(5)] s(2) inv(1,3) by (auto simp: loop_inv_def pool_ok_def)
  then obtain b' where b': "applyTCPCoalesceAccounting big off (table_items (gs_tcp s)) (gs_bufs s) = Some (b', None)"
      "length b' = length (gs_bufs s)"
      "\<forall>j < length (gs_bufs s). view (pkt_at off (b' ! j)) = view (pkt_at off (gs_bufs s ! j)) \<and>
       (\<not> is_tcp (pkt_at off (gs_bufs s ! j)) \<longrightarrow> pkt_at off (b' ! j) = pkt_at off (gs_bufs s ! j))"
    using accounting_ok [OF assms(3) _ inv(2)] by blast
  have "handleGRO big off False ?s = Some (s\<lparr>gs_bufs := b'\<rparr>, [])"
    using s(1) inv(6) b'(1) by (simp add: handleGRO_def table_items_def List.map_filter_def)
  moreover have "(\<Union>j \<in> ?W. view (pkt_at off (b' ! j))) = (\<Union>j \<in> ?W. view (pkt_at off (gs_bufs s ! j)))"
    using b'(3) inv(1,3) by (intro SUP_cong) auto
  moreover have "(\<Union>j < length bufs. view (pkt_at off (bufs ! j))) = (\<Union>b \<in> set bufs. view (pkt_at off b))"
    by (auto simp: set_conv_nth)
  moreover have other: "j \<in> ?W \<and> pkt_at off (b' ! j) = pkt_at off (bufs ! j)"
    if "j < length bufs" "\<not> is_tcp (pkt_at off (bufs ! j))" for j
    using inv(1,8) b'(3) that by simp
  ultimately show ?thesis
    using inv(1,3,4,7) other by (intro exI [of _ "s\<lparr>gs_bufs := b'\<rparr>"]) simp
qed

definition example_segment :: "byte \<Rightarrow> byte \<Rightarrow> gslice" where
  "example_segment seqno b = \<lparr>backing = replicate 10 0 @
     [0x45, 0, 0, 41, 0, 7, 0, 0, 64, 6, 0, 0, 10, 0, 0, 1, 10, 0, 0, 2,
      0, 80, 0, 80, 0, 0, 0, seqno, 0, 0, 0, 1, 0x50, 0x10, 0, 0, 0, 0, 0, 0, b] @ replicate 20 0, slen = 51\<rparr>"

theorem gro_conserves_witness:
  "\<exists>s. handleGRO False 10 False
      \<lparr>gs_bufs = [example_segment 5 1, example_segment 6 2], gs_tcp = newTCPGROTable, gs_udp = newUDPGROTable, gs_toWrite = []\<rparr> = Some (s, []) \<and>
    distinct (gs_toWrite s) \<and>
    (\<Union>j \<in> set (gs_toWrite s). view (pkt_at 10 (gs_bufs s ! j))) =
      view (pkt_at 10 (example_segment 5 1)) \<union> view (pkt_at 10 (example_segment 6 2))"
  using gro_conserves [of "[example_segment 5 1, example_segment 6 2]" 10 False]
  by (auto simp: example_segment_def slice_ok_def capacity_def IdealBatchSize_def virtioNetHdrLen_def)

end
