(* ===== verification/Udp_Offload.thy ===== *)
theory Udp_Offload
  imports Slices Device_State
begin

text \<open>
  conn/bind_std.go, conn/gso_linux.go and conn/sticky_linux.go: datagrams for one endpoint are joined
  into messages that the kernel segments (\<open>coalesceMessages\<close>), messages the kernel joined are split
  again (\<open>splitCoalescedMessages\<close>), \<open>Send\<close> and \<open>send\<close> drive them.  A message is the part of
  \<open>ipv6.Message\<close> the code uses; its only buffer and its control data are \<open>gslice\<close>s.  Control data is
  laid out as the 64-bit kernel has it; parsing one control message is \<open>unix\<close>'s and a parameter, as
  are the answers of the socket.  \<open>None\<close> is a panic.
\<close>

subsection \<open>Messages and control data\<close>

record message =
  Buffer :: gslice
  OOB :: gslice
  msgN :: nat
  msgNN :: nat
  msgAddr :: "(addr \<times> string \<times> u16) option"

record cmsghdr =
  Level :: u32
  Type :: u32

definition sizeOfGSOData :: nat where "sizeOfGSOData = 2"
definition SizeofCmsghdr :: nat where "SizeofCmsghdr = 16"
definition SOL_UDP :: u32 where "SOL_UDP = 17"
definition UDP_SEGMENT :: u32 where "UDP_SEGMENT = 103"
definition UDP_GRO :: u32 where "UDP_GRO = 104"
definition IPPROTO_IP :: u32 where "IPPROTO_IP = 0"
definition IP_PKTINFO :: u32 where "IP_PKTINFO = 8"
definition IPPROTO_IPV6 :: u32 where "IPPROTO_IPV6 = 41"
definition IPV6_PKTINFO :: u32 where "IPV6_PKTINFO = 50"
definition SizeofInet4Pktinfo :: nat where "SizeofInet4Pktinfo = 12"
definition SizeofInet6Pktinfo :: nat where "SizeofInet6Pktinfo = 20"

definition CmsgLen :: "nat \<Rightarrow> nat" where
  "CmsgLen n = SizeofCmsghdr + n"

definition CmsgSpace :: "nat \<Rightarrow> nat" where
  "CmsgSpace n = SizeofCmsghdr + (n + 7) div 8 * 8"

lemmas cmsg_consts = sizeOfGSOData_def SizeofCmsghdr_def SizeofInet4Pktinfo_def SizeofInet6Pktinfo_def
  CmsgLen_def CmsgSpace_def SOL_UDP_def UDP_SEGMENT_def UDP_GRO_def IPPROTO_IP_def IP_PKTINFO_def
  IPPROTO_IPV6_def IPV6_PKTINFO_def

type_synonym parser = "bytes \<Rightarrow> (cmsghdr \<times> bytes \<times> bytes) option"

text \<open>\<open>len(rem) > unix.SizeofCmsghdr\<close>: the parser returns a shorter remainder; a remainder that is not
  shorter would be a defect of \<open>unix\<close> and ends the model's loop with an error.\<close>

datatype control_error = ErrParse

function getGSOSize :: "bool \<Rightarrow> parser \<Rightarrow> bytes \<Rightarrow> control_error + nat" where
  "getGSOSize big parse control =
     (if length control > SizeofCmsghdr then
        (case parse control of
           None \<Rightarrow> Inl ErrParse
         | Some (hdr, data, rest) \<Rightarrow>
             if Level hdr = SOL_UDP \<and> Type hdr = UDP_GRO \<and> length data \<ge> sizeOfGSOData
             then Inr (native big (take 2 data))
             else if length rest < length control then getGSOSize big parse rest
             else Inl ErrParse)
      else Inr 0)"
  by pat_completeness auto
termination
  by (relation "measure (\<lambda>(big, parse, control). length control)") auto

definition native_put32 :: "bool \<Rightarrow> u32 \<Rightarrow> bytes" where
  "native_put32 big w = (if big then be_bytes 4 (unat w) else le_bytes 4 (unat w))"

definition native_put16 :: "bool \<Rightarrow> u16 \<Rightarrow> bytes" where
  "native_put16 big w = (if big then be_bytes 2 (unat w) else le_bytes 2 (unat w))"

text \<open>\<open>setGSOSize\<close>: the bytes after the message's data keep what the array held.\<close>

definition setGSOSize :: "bool \<Rightarrow> gslice \<Rightarrow> u16 \<Rightarrow> gslice" where
  "setGSOSize big control gsoSize =
     (let existingLen = slen control;
          space = CmsgSpace sizeOfGSOData;
          cmsg = native_put big (word_of_nat (CmsgLen sizeOfGSOData)) @ native_put32 big SOL_UDP @
            native_put32 big UDP_SEGMENT @ native_put16 big gsoSize
      in if capacity control - existingLen < space then control
         else control\<lparr>backing := go_copy (backing control) existingLen cmsg, slen := existingLen + space\<rparr>)"

definition setSrcControl :: "gslice \<Rightarrow> bytes \<Rightarrow> gslice" where
  "setSrcControl control src =
     (if capacity control < length src then control
      else control\<lparr>backing := go_copy (backing control) 0 src, slen := length src\<rparr>)"

text \<open>\<open>getSrcFromControl\<close> leaves the source empty when it finds none; the header it stores is the one
  it parsed.\<close>

definition pktinfo :: "(cmsghdr \<Rightarrow> bytes) \<Rightarrow> nat \<Rightarrow> cmsghdr \<Rightarrow> bytes \<Rightarrow> bytes" where
  "pktinfo hdrBuf n hdr data =
     go_copy (go_copy (replicate (CmsgSpace n) 0) 0 (hdrBuf hdr)) (CmsgLen 0) data"

function findSrc :: "(cmsghdr \<Rightarrow> bytes) \<Rightarrow> parser \<Rightarrow> bytes \<Rightarrow> bytes" where
  "findSrc hdrBuf parse control =
     (if length control > SizeofCmsghdr then
        (case parse control of
           None \<Rightarrow> []
         | Some (hdr, data, rest) \<Rightarrow>
             if Level hdr = IPPROTO_IP \<and> Type hdr = IP_PKTINFO then pktinfo hdrBuf SizeofInet4Pktinfo hdr data
             else if Level hdr = IPPROTO_IPV6 \<and> Type hdr = IPV6_PKTINFO
             then pktinfo hdrBuf SizeofInet6Pktinfo hdr data
             else if length rest < length control then findSrc hdrBuf parse rest
             else [])
      else [])"
  by pat_completeness auto
termination
  by (relation "measure (\<lambda>(hdrBuf, parse, control). length control)") auto

definition getSrcFromControl :: "(cmsghdr \<Rightarrow> bytes) \<Rightarrow> parser \<Rightarrow> bytes \<Rightarrow> Endpoint \<Rightarrow> Endpoint" where
  "getSrcFromControl hdrBuf parse control ep = (ClearSrc ep)\<lparr>ep_src := findSrc hdrBuf parse control\<rparr>"

declare getGSOSize.simps [simp del] findSrc.simps [simp del]

text \<open>\<open>SrcIP\<close> and \<open>SrcIfidx\<close> read the source as the control message says.\<close>

definition SrcIP :: "Endpoint \<Rightarrow> addr" where
  "SrcIP e =
     (if length (ep_src e) = CmsgSpace SizeofInet4Pktinfo then Addr4 (slice (CmsgLen 4) (CmsgLen 8) (ep_src e))
      else if length (ep_src e) = CmsgSpace SizeofInet6Pktinfo then Addr6 (slice (CmsgLen 0) (CmsgLen 16) (ep_src e))
      else Addr_invalid)"

definition SrcIfidx :: "bool \<Rightarrow> Endpoint \<Rightarrow> int" where
  "SrcIfidx big e =
     (if length (ep_src e) = CmsgSpace SizeofInet4Pktinfo
      then signed_take_bit 31 (int (native big (slice (CmsgLen 0) (CmsgLen 4) (ep_src e))))
      else if length (ep_src e) = CmsgSpace SizeofInet6Pktinfo
      then signed_take_bit 31 (int (native big (slice (CmsgLen 16) (CmsgLen 20) (ep_src e))))
      else 0)"

subsection \<open>Joining datagrams\<close>

definition maxIPv4PayloadLen :: nat where "maxIPv4PayloadLen = 65535 - 20 - 8"
definition maxIPv6PayloadLen :: nat where "maxIPv6PayloadLen = 65535 - 8"
definition udpSegmentMaxDatagrams :: nat where "udpSegmentMaxDatagrams = 64"

record co_state =
  base :: int
  co_gsoSize :: nat
  dgramCnt :: nat
  endBatch :: bool

definition co_init :: co_state where
  "co_init = \<lparr>base = -1, co_gsoSize = 0, dgramCnt = 0, endBatch = False\<rparr>"

definition msg_at :: "message list \<Rightarrow> int \<Rightarrow> message option" where
  "msg_at msgs k = (if 0 \<le> k \<and> nat k < length msgs then Some (msgs ! nat k) else None)"

definition fits :: "nat \<Rightarrow> gslice \<Rightarrow> nat \<Rightarrow> co_state \<Rightarrow> message list \<Rightarrow> bool option" where
  "fits maxPayloadLen buf i st msgs =
     (if i = 0 then Some False
      else do {
        m \<leftarrow> msg_at msgs (base st);
        let msgLen = slen buf;
        let baseLenBefore = slen (Buffer m);
        let freeBaseCap = capacity (Buffer m) - baseLenBefore;
        Some (msgLen + baseLenBefore \<le> maxPayloadLen \<and> msgLen \<le> co_gsoSize st \<and> msgLen \<le> freeBaseCap \<and>
          dgramCnt st < udpSegmentMaxDatagrams \<and> \<not> endBatch st)})"

definition setGSO_at :: "(gslice \<Rightarrow> u16 \<Rightarrow> gslice) \<Rightarrow> co_state \<Rightarrow> message list \<Rightarrow> message list option" where
  "setGSO_at setGSO st msgs = do {
     m \<leftarrow> msg_at msgs (base st);
     Some (msgs[nat (base st) := m\<lparr>OOB := setGSO (OOB m) (word_of_nat (co_gsoSize st))\<rparr>])}"

text \<open>One iteration of the loop; \<open>n\<close> is \<open>len(bufs)\<close>.\<close>

definition coalesceStep ::
    "(gslice \<Rightarrow> u16 \<Rightarrow> gslice) \<Rightarrow> (addr \<times> string \<times> u16) \<Rightarrow> Endpoint \<Rightarrow> nat \<Rightarrow> nat \<Rightarrow> nat \<Rightarrow> gslice \<Rightarrow>
     co_state \<times> message list \<Rightarrow> (co_state \<times> message list) option" where
  "coalesceStep setGSO a ep maxPayloadLen n i buf = (\<lambda>(st, msgs). do {
     fit \<leftarrow> fits maxPayloadLen buf i st msgs;
     if fit then do {
       m \<leftarrow> msg_at msgs (base st);
       let msgs = msgs[nat (base st) := m\<lparr>Buffer := append_slice (Buffer m) (content buf)\<rparr>];
       msgs \<leftarrow> (if i = n - 1 then setGSO_at setGSO st msgs else Some msgs);
       Some (st\<lparr>dgramCnt := dgramCnt st + 1, endBatch := (if slen buf < co_gsoSize st then True else endBatch st)\<rparr>, msgs)}
     else do {
       msgs \<leftarrow> (if dgramCnt st > 1 then setGSO_at setGSO st msgs else Some msgs);
       m \<leftarrow> msg_at msgs (base st + 1);
       Some (\<lparr>base = base st + 1, co_gsoSize = slen buf, dgramCnt = 1, endBatch = False\<rparr>,
         msgs[nat (base st + 1) :=
           m\<lparr>OOB := setSrcControl (OOB m) (ep_src ep), Buffer := buf, msgAddr := Some a\<rparr>])}})"

fun coalesceLoop ::
    "(gslice \<Rightarrow> u16 \<Rightarrow> gslice) \<Rightarrow> (addr \<times> string \<times> u16) \<Rightarrow> Endpoint \<Rightarrow> nat \<Rightarrow> nat \<Rightarrow> nat \<Rightarrow> gslice list \<Rightarrow>
     co_state \<times> message list \<Rightarrow> (co_state \<times> message list) option" where
  "coalesceLoop setGSO a ep maxPayloadLen n i [] s = Some s"
| "coalesceLoop setGSO a ep maxPayloadLen n i (buf # bufs) s = do {
     s \<leftarrow> coalesceStep setGSO a ep maxPayloadLen n i buf s;
     coalesceLoop setGSO a ep maxPayloadLen n (Suc i) bufs s}"

definition Is6 :: "addr \<Rightarrow> bool" where
  "Is6 a = (case a of Addr6 _ \<Rightarrow> True | _ \<Rightarrow> False)"

definition coalesceMessages ::
    "(gslice \<Rightarrow> u16 \<Rightarrow> gslice) \<Rightarrow> (addr \<times> string \<times> u16) \<Rightarrow> Endpoint \<Rightarrow> gslice list \<Rightarrow> message list \<Rightarrow>
     (int \<times> message list) option" where
  "coalesceMessages setGSO a ep bufs msgs = do {
     let maxPayloadLen = (if Is6 (ep_addr ep) then maxIPv6PayloadLen else maxIPv4PayloadLen);
     (st, msgs) \<leftarrow> coalesceLoop setGSO a ep maxPayloadLen (length bufs) 0 bufs (co_init, msgs);
     Some (base st + 1, msgs)}"

subsection \<open>Splitting messages\<close>

datatype split_error = ErrControl control_error | ErrSplitOverflow

text \<open>The loop over the pieces of message \<open>i\<close>.\<close>

fun splitPieces ::
    "nat \<Rightarrow> nat \<Rightarrow> nat \<Rightarrow> nat \<Rightarrow> nat \<Rightarrow> nat \<Rightarrow> message list \<Rightarrow> (split_error option \<times> nat \<times> message list) option" where
  "splitPieces 0 i gso start stop n msgs = Some (None, n, msgs)"
| "splitPieces (Suc pieces) i gso start stop n msgs =
     (if n > i then Some (Some ErrSplitOverflow, n, msgs)
      else do {
        msg \<leftarrow> nth_buf msgs i;
        dst \<leftarrow> nth_buf msgs n;
        piece \<leftarrow> sub start stop (backing (Buffer msg));
        let copied = min (slen (Buffer dst)) (length piece);
        let msgs = msgs[n := dst\<lparr>Buffer := upd_content (go_copy (content (Buffer dst)) 0 piece) (Buffer dst),
          msgN := copied, msgAddr := msgAddr msg\<rparr>];
        msg \<leftarrow> nth_buf msgs i;
        splitPieces pieces i gso stop (min (stop + gso) (msgN msg)) (Suc n) msgs})"

lemma splitPieces_length: "splitPieces k i gso start stop n msgs = Some (err, n', msgs') \<Longrightarrow> length msgs' = length msgs"
  by (induction k arbitrary: start stop n msgs) (auto simp: bind_eq_Some_conv Let_def split: if_splits)

function splitLoop ::
    "(bytes \<Rightarrow> control_error + nat) \<Rightarrow> nat \<Rightarrow> nat \<Rightarrow> message list \<Rightarrow> (split_error option \<times> nat \<times> message list) option" where
  "splitLoop getGSO i n msgs =
     (if i < length msgs then do {
        let msg = msgs ! i;
        if msgN msg = 0 then Some (None, n, msgs)
        else do {
          control \<leftarrow> sub 0 (msgNN msg) (backing (OOB msg));
          case getGSO control of
            Inl err \<Rightarrow> Some (Some (ErrControl err), n, msgs)
          | Inr gso \<Rightarrow> do {
              let numToSplit = (if gso > 0 then (msgN msg + gso - 1) div gso else 1);
              let stop = (if gso > 0 then gso else msgN msg);
              (err, n, msgs) \<leftarrow> splitPieces numToSplit i gso 0 stop n msgs;
              if err \<noteq> None then Some (err, n, msgs)
              else splitLoop getGSO (Suc i) n
                (if i \<noteq> n - 1 then (case nth_buf msgs i of None \<Rightarrow> msgs | Some m \<Rightarrow> msgs[i := m\<lparr>msgN := 0\<rparr>]) else msgs)}}}
      else Some (None, n, msgs))"
  by pat_completeness auto
termination
proof (relation "measure (\<lambda>(getGSO, i, n, msgs). length msgs - i)", goal_cases)
  case 2
  then show ?case by (auto simp: Let_def bind_eq_Some_conv dest!: splitPieces_length intro!: diff_less_mono2 split: option.splits)
qed simp

declare splitLoop.simps [simp del]

definition splitCoalescedMessages ::
    "(bytes \<Rightarrow> control_error + nat) \<Rightarrow> message list \<Rightarrow> nat \<Rightarrow> (split_error option \<times> nat \<times> message list) option" where
  "splitCoalescedMessages getGSO msgs firstMsgAt = splitLoop getGSO firstMsgAt 0 msgs"

end
