(* ===== verification/Udp_Batches.thy ===== *)
theory Udp_Batches
  imports Udp_Offload
begin

text \<open>
  What joining and splitting datagrams guarantee: cut at their segment size, the messages of
  \<open>coalesceMessages\<close> are the datagrams it was given, in order and within the kernel's limits, and
  \<open>splitCoalescedMessages\<close> cuts what was received at its segment size.
\<close>

subsection \<open>Segments\<close>

function chunks :: "nat \<Rightarrow> bytes \<Rightarrow> bytes list" where
  "chunks g b = (if b = [] then [] else if g = 0 then [b] else take g b # chunks g (drop g b))"
  by pat_completeness auto
termination
  by (relation "measure (\<lambda>(g, b). length b)") auto

declare chunks.simps [simp del]

lemma chunks_Nil [simp]: "chunks g [] = []"
  by (simp add: chunks.simps)

text \<open>A batch: datagrams of one size, the last possibly shorter.\<close>

definition batch :: "nat \<Rightarrow> bytes list \<Rightarrow> bool" where
  "batch maxLen B \<longleftrightarrow> B \<noteq> [] \<and> length B \<le> udpSegmentMaxDatagrams \<and>
     (\<forall>x \<in> set (butlast B). length x = length (hd B)) \<and> length (last B) \<le> length (hd B) \<and>
     (1 < length B \<longrightarrow> length (concat B) \<le> maxLen)"

lemma chunks_concat:
  assumes "\<forall>x \<in> set (butlast B). length x = g" "B \<noteq> [] \<longrightarrow> length (last B) \<le> g" "\<forall>x \<in> set B. x \<noteq> []" "0 < g"
  shows "chunks g (concat B) = B"
  using assms(1-3)
proof (induction B)
  case (Cons x B)
  show ?case
  proof (cases "B = []")
    case True
    then show ?thesis using Cons.prems assms(4) by (simp add: chunks.simps)
  next
    case False
    then have x: "length x = g" using Cons.prems(1) by simp
    have "chunks g (concat B) = B" using Cons.prems False by (intro Cons.IH) auto
    then show ?thesis using x Cons.prems(3) assms(4) by (subst chunks.simps) auto
  qed
qed simp

subsection \<open>Joining\<close>

definition src_oob :: "Endpoint \<Rightarrow> message list \<Rightarrow> nat \<Rightarrow> gslice" where
  "src_oob ep msgs0 j = setSrcControl (OOB (msgs0 ! j)) (ep_src ep)"

definition gso_oob :: "(gslice \<Rightarrow> u16 \<Rightarrow> gslice) \<Rightarrow> Endpoint \<Rightarrow> message list \<Rightarrow> bytes list \<Rightarrow> nat \<Rightarrow> gslice" where
  "gso_oob setGSO ep msgs0 B j =
     (if 1 < length B then setGSO (src_oob ep msgs0 j) (word_of_nat (length (hd B))) else src_oob ep msgs0 j)"

definition sends :: "(addr \<times> string \<times> u16) \<Rightarrow> bytes list \<Rightarrow> gslice \<Rightarrow> message \<Rightarrow> bool" where
  "sends a B oob m \<longleftrightarrow> content (Buffer m) = concat B \<and> slice_ok (Buffer m) \<and> OOB m = oob \<and> msgAddr m = Some a"

definition co_inv ::
    "(gslice \<Rightarrow> u16 \<Rightarrow> gslice) \<Rightarrow> (addr \<times> string \<times> u16) \<Rightarrow> Endpoint \<Rightarrow> nat \<Rightarrow> message list \<Rightarrow> gslice list \<Rightarrow> nat \<Rightarrow>
     bytes list list \<Rightarrow> co_state \<Rightarrow> message list \<Rightarrow> bool" where
  "co_inv setGSO a ep maxLen msgs0 bufs i Bs st msgs \<longleftrightarrow>
     concat Bs = map content (take i bufs) \<and> (\<forall>B \<in> set Bs. batch maxLen B) \<and> base st = int (length Bs) - 1 \<and>
     length msgs = length msgs0 \<and> (\<forall>j < length msgs. length Bs \<le> j \<longrightarrow> msgs ! j = msgs0 ! j) \<and>
     (\<forall>j < length Bs - 1. sends a (Bs ! j) (gso_oob setGSO ep msgs0 (Bs ! j) j) (msgs ! j)) \<and>
     (Bs = [] \<longrightarrow> dgramCnt st = 0) \<and>
     (Bs \<noteq> [] \<longrightarrow>
        sends a (last Bs) (if i = length bufs then gso_oob setGSO ep msgs0 (last Bs) (length Bs - 1)
          else src_oob ep msgs0 (length Bs - 1)) (msgs ! (length Bs - 1)) \<and>
        co_gsoSize st = length (hd (last Bs)) \<and> dgramCnt st = length (last Bs) \<and>
        endBatch st = (length (last (last Bs)) < length (hd (last Bs))))"

lemma length_le_concat: "\<forall>x \<in> set Bs. x \<noteq> [] \<Longrightarrow> length Bs \<le> length (concat Bs)"
  by (induction Bs) (auto simp: Suc_le_eq, fastforce simp: neq_Nil_conv)

lemma set_last: "B \<noteq> [] \<Longrightarrow> set B = insert (last B) (set (butlast B))"
  by (induction B) auto

text \<open>The datagram goes into the open batch.\<close>

lemma co_append:
  assumes inv: "co_inv setGSO a ep maxLen msgs0 bufs i Bs st msgs" and i: "i < length bufs" "length bufs \<le> length msgs0"
    and b: "slice_ok (bufs ! i)" and fit: "fits maxLen (bufs ! i) i st msgs = Some True"
  shows "\<exists>st' msgs' Bs'. coalesceStep setGSO a ep maxLen (length bufs) i (bufs ! i) (st, msgs) = Some (st', msgs') \<and>
    co_inv setGSO a ep maxLen msgs0 bufs (Suc i) Bs' st' msgs'"
proof -
  let ?buf = "bufs ! i" and ?k = "length Bs - 1" and ?B = "last Bs"
  obtain m where m: "msg_at msgs (base st) = Some m" "slen ?buf + slen (Buffer m) \<le> maxLen" "slen ?buf \<le> co_gsoSize st"
      "dgramCnt st < udpSegmentMaxDatagrams" "\<not> endBatch st" "i \<noteq> 0"
    using fit by (auto simp: fits_def Let_def bind_eq_Some_conv split: if_splits)
  have ne: "Bs \<noteq> []" using inv m(6) i by (auto simp: co_inv_def)
  have bs: "base st = int ?k" using inv ne by (simp add: co_inv_def of_nat_diff Suc_le_eq)
  then have k: "nat (base st) = ?k" "?k < length msgs" "m = msgs ! ?k"
    using m(1) by (auto simp: msg_at_def split: if_splits)
  have s: "sends a ?B (src_oob ep msgs0 ?k) m" "co_gsoSize st = length (hd ?B)" "dgramCnt st = length ?B"
      "length (last ?B) \<ge> length (hd ?B)"
    using inv ne k(3) i m(5) by (auto simp: co_inv_def)
  have B: "batch maxLen ?B" using inv ne by (simp add: co_inv_def)
  define B' where "B' = ?B @ [content ?buf]"
  have Bne: "?B \<noteq> []" "length (last ?B) = length (hd ?B)" using B s(4) by (auto simp: batch_def)
  have lens: "length (content ?buf) = slen ?buf" "length (concat ?B) = slen (Buffer m)"
    using b s(1) by (auto simp: sends_def) (metis length_content)
  have all: "\<forall>x \<in> set ?B. length x = length (hd ?B)"
    using B Bne(2) unfolding set_last [OF Bne(1)] by (simp add: batch_def)
  have B': "batch maxLen B'"
    unfolding batch_def B'_def
  proof (intro conjI)
    show "length (?B @ [content ?buf]) \<le> udpSegmentMaxDatagrams" using m(4) s(3) by simp
    show "\<forall>x \<in> set (butlast (?B @ [content ?buf])). length x = length (hd (?B @ [content ?buf]))"
    proof
      fix x assume "x \<in> set (butlast (?B @ [content ?buf]))"
      then have "length x = length (hd ?B)" using all by simp
      then show "length x = length (hd (?B @ [content ?buf]))" using Bne(1) by simp
    qed
    show "length (last (?B @ [content ?buf])) \<le> length (hd (?B @ [content ?buf]))"
      using m(3) s(2) lens(1) Bne(1) by simp
    show "1 < length (?B @ [content ?buf]) \<longrightarrow> length (concat (?B @ [content ?buf])) \<le> maxLen"
      using m(2) lens by (simp del: length_concat add: add.commute)
  qed simp
  define m1 where "m1 = m\<lparr>Buffer := append_slice (Buffer m) (content ?buf)\<rparr>"
  have s1: "sends a B' (src_oob ep msgs0 ?k) m1" using s(1) by (auto simp: sends_def m1_def B'_def)
  have lB: "1 < length B'" "hd B' = hd ?B" "last B' = content ?buf" using Bne(1) by (auto simp: B'_def Suc_lessI)
  define m2 where "m2 = (if i = length bufs - 1 then m1\<lparr>OOB := setGSO (OOB m1) (word_of_nat (co_gsoSize st))\<rparr> else m1)"
  have s2: "sends a B' (if Suc i = length bufs then gso_oob setGSO ep msgs0 B' ?k else src_oob ep msgs0 ?k) m2"
    using s1 lB s(2) i by (auto simp: sends_def m2_def gso_oob_def)
  define st' where "st' = st\<lparr>dgramCnt := dgramCnt st + 1, endBatch := (if slen ?buf < co_gsoSize st then True else endBatch st)\<rparr>"
  have run: "coalesceStep setGSO a ep maxLen (length bufs) i ?buf (st, msgs) = Some (st', msgs[?k := m2])"
    using fit bs k by (simp add: coalesceStep_def setGSO_at_def msg_at_def Let_def m2_def m1_def st'_def)
  have split: "Bs = butlast Bs @ [?B]" using ne by simp
  have nth: "(butlast Bs @ [B']) ! j = Bs ! j" if "j < ?k" for j using that by (simp add: nth_append nth_butlast)
  have "co_inv setGSO a ep maxLen msgs0 bufs (Suc i) (butlast Bs @ [B']) st' (msgs[?k := m2])"
  proof -
    have "concat (butlast Bs) @ ?B = concat Bs" using split by (metis concat.simps concat_append append_Nil2)
    then have "concat (butlast Bs @ [B']) = map content (take (Suc i) bufs)"
      using inv i by (simp add: B'_def co_inv_def take_Suc_conv_app_nth)
    moreover have "\<forall>B \<in> set (butlast Bs @ [B']). batch maxLen B"
      using inv B' by (auto simp: co_inv_def dest: in_set_butlastD)
    moreover have "\<forall>j < ?k. sends a ((butlast Bs @ [B']) ! j) (gso_oob setGSO ep msgs0 ((butlast Bs @ [B']) ! j) j) (msgs[?k := m2] ! j)"
      using inv nth by (simp add: co_inv_def)
    moreover have "\<forall>j < length msgs. length Bs \<le> j \<longrightarrow> msgs[?k := m2] ! j = msgs0 ! j"
    proof (intro allI impI)
      fix j assume j: "j < length msgs" "length Bs \<le> j"
      moreover have "0 < length Bs" using ne by simp
      ultimately have "?k \<noteq> j" by linarith
      then show "msgs[?k := m2] ! j = msgs0 ! j" using inv j by (simp add: co_inv_def)
    qed
    moreover have "length B' = Suc (length ?B)" by (simp add: B'_def)
    moreover have "length (butlast Bs @ [B']) = length Bs" using ne by simp
    moreover have "base st' = base st" "co_gsoSize st' = co_gsoSize st" "dgramCnt st' = Suc (dgramCnt st)"
        "endBatch st' = (slen ?buf < co_gsoSize st)"
      using m(5) by (auto simp: st'_def)
    ultimately show ?thesis
      using inv ne k(2) s(2,3) s2 lB lens(1) by (simp add: co_inv_def) (simp split: if_splits)
  qed
  then show ?thesis using run by blast
qed

text \<open>The datagram starts a new batch.\<close>

lemma co_start:
  assumes inv: "co_inv setGSO a ep maxLen msgs0 bufs i Bs st msgs" and i: "i < length bufs" "length bufs \<le> length msgs0"
    and len: "length Bs \<le> i"
    and b: "slice_ok (bufs ! i)" and fit: "fits maxLen (bufs ! i) i st msgs = Some False"
  shows "\<exists>st' msgs' Bs'. coalesceStep setGSO a ep maxLen (length bufs) i (bufs ! i) (st, msgs) = Some (st', msgs') \<and>
    co_inv setGSO a ep maxLen msgs0 bufs (Suc i) Bs' st' msgs'"
proof -
  let ?buf = "bufs ! i" and ?n = "length Bs" and ?B = "last Bs"
  have nl: "?n < length msgs" "base st + 1 = int ?n" "msgs ! ?n = msgs0 ! ?n"
    using inv i len by (auto simp: co_inv_def)
  obtain msgs1 where m1: "(if dgramCnt st > 1 then setGSO_at setGSO st msgs else Some msgs) = Some msgs1"
      "length msgs1 = length msgs" "\<forall>j < length msgs. ?n \<le> j \<longrightarrow> msgs1 ! j = msgs ! j"
      "\<forall>j < ?n. sends a (Bs ! j) (gso_oob setGSO ep msgs0 (Bs ! j) j) (msgs1 ! j)"
  proof (cases "Bs = []")
    case True
    then show thesis using that inv by (auto simp: co_inv_def)
  next
    case False
    let ?k = "?n - 1"
    have k: "base st = int ?k" "nat (base st) = ?k" "?k < length msgs"
      using inv False nl(1) by (auto simp: co_inv_def of_nat_diff Suc_le_eq)
    have s: "sends a ?B (src_oob ep msgs0 ?k) (msgs ! ?k)" "co_gsoSize st = length (hd ?B)" "dgramCnt st = length ?B"
      using inv False i(1) by (auto simp: co_inv_def)
    let ?m = "(msgs ! ?k)\<lparr>OOB := setGSO (OOB (msgs ! ?k)) (word_of_nat (co_gsoSize st))\<rparr>"
    have old: "\<forall>j < ?k. sends a (Bs ! j) (gso_oob setGSO ep msgs0 (Bs ! j) j) (msgs ! j)"
      using inv by (simp add: co_inv_def)
    have lastB: "Bs ! ?k = ?B" using False by (simp add: last_conv_nth)
    show thesis
    proof (cases "dgramCnt st > 1")
      case True
      have "sends a ?B (gso_oob setGSO ep msgs0 ?B ?k) ?m" using s True by (simp add: sends_def gso_oob_def)
      moreover have keep: "\<forall>j < length msgs. ?n \<le> j \<longrightarrow> msgs[?k := ?m] ! j = msgs ! j"
      proof (intro allI impI)
        fix j assume "?n \<le> j"
        moreover have "0 < ?n" using False by simp
        ultimately have "?k \<noteq> j" by linarith
        then show "msgs[?k := ?m] ! j = msgs ! j" by simp
      qed
      ultimately have "\<forall>j < ?n. sends a (Bs ! j) (gso_oob setGSO ep msgs0 (Bs ! j) j) (msgs[?k := ?m] ! j)"
        using old lastB k(3) False by (auto simp: nth_list_update less_Suc_eq_le Suc_pred intro: le_neq_implies_less)
      then show thesis
        using that [of "msgs[?k := ?m]"] True k keep by (simp add: setGSO_at_def msg_at_def)
    next
      case False
      have "sends a ?B (gso_oob setGSO ep msgs0 ?B ?k) (msgs ! ?k)" using s False by (simp add: gso_oob_def)
      then have "\<forall>j < ?n. sends a (Bs ! j) (gso_oob setGSO ep msgs0 (Bs ! j) j) (msgs ! j)"
        using old lastB by (metis One_nat_def Suc_pred less_SucE length_greater_0_conv gr_implies_not0 not_less_zero neq0_conv)
      then show thesis using that [of msgs] False by simp
    qed
  qed
  let ?m = "(msgs1 ! ?n)\<lparr>OOB := setSrcControl (OOB (msgs1 ! ?n)) (ep_src ep), Buffer := ?buf, msgAddr := Some a\<rparr>"
  let ?st = "\<lparr>base = base st + 1, co_gsoSize = slen ?buf, dgramCnt = 1, endBatch = False\<rparr>"
  have run: "coalesceStep setGSO a ep maxLen (length bufs) i ?buf (st, msgs) = Some (?st, msgs1[?n := ?m])"
    using fit m1(1,2) nl(1,2) by (simp add: coalesceStep_def msg_at_def)
  have new: "sends a [content ?buf] (src_oob ep msgs0 ?n) ?m"
    using b m1(3) nl by (simp add: sends_def src_oob_def)
  have "co_inv setGSO a ep maxLen msgs0 bufs (Suc i) (Bs @ [[content ?buf]]) ?st (msgs1[?n := ?m])"
  proof -
    have "concat (Bs @ [[content ?buf]]) = map content (take (Suc i) bufs)"
      using inv i by (simp add: co_inv_def take_Suc_conv_app_nth)
    moreover have "\<forall>B \<in> set (Bs @ [[content ?buf]]). batch maxLen B"
      using inv by (auto simp: co_inv_def batch_def udpSegmentMaxDatagrams_def)
    moreover have "\<forall>j < length (msgs1[?n := ?m]). length (Bs @ [[content ?buf]]) \<le> j \<longrightarrow> msgs1[?n := ?m] ! j = msgs0 ! j"
      using inv m1(2,3) by (simp add: co_inv_def)
    moreover have "\<forall>j < ?n. sends a ((Bs @ [[content ?buf]]) ! j) (gso_oob setGSO ep msgs0 ((Bs @ [[content ?buf]]) ! j) j) (msgs1[?n := ?m] ! j)"
      using m1(4) by (simp add: nth_append)
    moreover have "gso_oob setGSO ep msgs0 [content ?buf] ?n = src_oob ep msgs0 ?n" by (simp add: gso_oob_def)
    moreover have "length msgs = length msgs0" using inv by (simp add: co_inv_def)
    ultimately show ?thesis
      using new m1(2) nl(1,2) b by (simp add: co_inv_def)
  qed
  then show ?thesis using run by blast
qed

lemma batches_le: "\<forall>B \<in> set Bs. batch maxLen B \<Longrightarrow> length Bs \<le> length (concat Bs)"
  by (intro length_le_concat) (simp add: batch_def)

lemma coalesceLoop_ok:
  assumes "length bufs \<le> length msgs0" "\<forall>b \<in> set bufs. slice_ok b"
  shows "co_inv setGSO a ep maxLen msgs0 bufs i Bs st msgs \<Longrightarrow> i \<le> length bufs \<Longrightarrow>
    \<exists>st' msgs' Bs'. coalesceLoop setGSO a ep maxLen (length bufs) i (drop i bufs) (st, msgs) = Some (st', msgs') \<and>
      co_inv setGSO a ep maxLen msgs0 bufs (length bufs) Bs' st' msgs'"
proof (induction "length bufs - i" arbitrary: i Bs st msgs)
  case 0
  then show ?case by auto
next
  case (Suc n)
  then have i: "i < length bufs" by simp
  have b: "slice_ok (bufs ! i)" using assms(2) i by simp
  have inv: "concat Bs = map content (take i bufs)" "\<forall>B \<in> set Bs. batch maxLen B" "base st = int (length Bs) - 1"
      "length msgs = length msgs0"
    using Suc.prems(1) by (auto simp: co_inv_def)
  have l: "length Bs \<le> i" using batches_le [OF inv(2)] inv(1) i by simp
  have "length Bs = 0 \<Longrightarrow> i = 0" using inv(1) i by auto
  then have "\<exists>fit. fits maxLen (bufs ! i) i st msgs = Some fit"
    using inv(3,4) l i assms(1) by (cases "i = 0") (auto simp: fits_def msg_at_def Let_def)
  then obtain st' msgs' Bs' where s: "coalesceStep setGSO a ep maxLen (length bufs) i (bufs ! i) (st, msgs) = Some (st', msgs')"
      "co_inv setGSO a ep maxLen msgs0 bufs (Suc i) Bs' st' msgs'"
    using co_append [OF Suc.prems(1) i assms(1) b] co_start [OF Suc.prems(1) i assms(1) l b]
    by (metis (full_types))
  have "drop i bufs = bufs ! i # drop (Suc i) bufs" using i by (simp add: Cons_nth_drop_Suc)
  then show ?case using Suc.hyps(1) [OF _ s(2)] Suc.hyps(2) i s(1) by simp
qed

text \<open>\<open>coalesceMessages\<close> joins the datagrams for an endpoint into messages without losing,
  changing or reordering any: the messages are, in order, the concatenations of batches that
  together are the datagrams given, all addressed to the endpoint, each carrying the endpoint's
  source.  A message of more than one datagram is given its segment size exactly once and the
  kernel, cutting it there, sends back the datagrams of its batch; it has at most 64 of them and
  fits the payload limit of its IP version.  There are never more messages than datagrams.\<close>

lemma coalesce_exact:
  assumes "length bufs \<le> length msgs" "\<forall>b \<in> set bufs. slice_ok b \<and> content b \<noteq> []"
  shows "\<exists>msgs' Bs. coalesceMessages setGSO a ep bufs msgs = Some (int (length Bs), msgs') \<and>
    concat Bs = map content bufs \<and> length Bs \<le> length bufs \<and> length msgs' = length msgs \<and>
    (\<forall>j < length msgs. length Bs \<le> j \<longrightarrow> msgs' ! j = msgs ! j) \<and>
    (\<forall>j < length Bs. sends a (Bs ! j) (gso_oob setGSO ep msgs (Bs ! j) j) (msgs' ! j) \<and>
       chunks (length (hd (Bs ! j))) (content (Buffer (msgs' ! j))) = Bs ! j \<and>
       batch (if Is6 (ep_addr ep) then maxIPv6PayloadLen else maxIPv4PayloadLen) (Bs ! j))"
proof -
  let ?max = "if Is6 (ep_addr ep) then maxIPv6PayloadLen else maxIPv4PayloadLen"
  have "co_inv setGSO a ep ?max msgs bufs 0 [] co_init msgs" by (simp add: co_inv_def co_init_def)
  then obtain st msgs' Bs where r: "coalesceLoop setGSO a ep ?max (length bufs) 0 bufs (co_init, msgs) = Some (st, msgs')"
      "co_inv setGSO a ep ?max msgs bufs (length bufs) Bs st msgs'"
    using coalesceLoop_ok [of bufs msgs setGSO a ep ?max 0 "[]" co_init msgs] assms by auto
  have inv: "concat Bs = map content bufs" "\<forall>B \<in> set Bs. batch ?max B" "base st = int (length Bs) - 1"
    using r(2) by (auto simp: co_inv_def)
  have s: "sends a (Bs ! j) (gso_oob setGSO ep msgs (Bs ! j) j) (msgs' ! j)" if "j < length Bs" for j
  proof (cases "j = length Bs - 1")
    case True
    moreover have "Bs \<noteq> []" using that by auto
    ultimately show ?thesis using r(2) by (simp add: co_inv_def last_conv_nth)
  next
    case False
    then show ?thesis using r(2) that by (simp add: co_inv_def)
  qed
  have "chunks (length (hd (Bs ! j))) (content (Buffer (msgs' ! j))) = Bs ! j" if "j < length Bs" for j
  proof -
    have B: "batch ?max (Bs ! j)" using inv(2) that by simp
    have "set (Bs ! j) \<subseteq> set (concat Bs)" using that nth_mem by auto
    moreover have "\<forall>x \<in> set (concat Bs). x \<noteq> []" using assms(2) unfolding inv(1) by auto
    ultimately have ne: "\<forall>x \<in> set (Bs ! j). x \<noteq> []" by blast
    then have "0 < length (hd (Bs ! j))" using B by (auto simp: batch_def)
    then show ?thesis using chunks_concat [of "Bs ! j" "length (hd (Bs ! j))"] s [OF that] B ne
      by (auto simp: sends_def batch_def)
  qed
  moreover have "length Bs \<le> length bufs" using batches_le [OF inv(2)] inv(1) by (metis length_map)
  ultimately show ?thesis
    using r inv s by (intro exI [of _ msgs'] exI [of _ Bs]) (simp add: coalesceMessages_def co_inv_def)
qed

end
