(* ===== verification/Bind_Receive.thy ===== *)
theory Bind_Receive
  imports Udp_Offload
begin

text \<open>
  conn/bind_std.go, \<open>receiveIP\<close>: the messages read from the socket are passed on to the device, except
  STUN packets, which go to a callback, and empty ones.  The arrays behind the slices are an explicit
  store, because the function moves slices of its caller: \<open>bufs\<close> and the device's own \<open>bufsArrs\<close> are
  lists of array addresses, every slice covering its whole array.  What the socket returned is a
  parameter: for each message the datagram, its control data and its sender.
\<close>

subsection \<open>The store\<close>

type_synonym store = "nat \<Rightarrow> bytes"

record datagram =
  dg_data :: bytes
  dg_oob :: bytes
  dg_from :: "(addr \<times> string \<times> u16) option"

record rmsg =
  rm_buf :: nat
  rm_N :: nat
  rm_oob :: bytes
  rm_addr :: "(addr \<times> string \<times> u16) option"

text \<open>\<open>ReadBatch\<close> or \<open>ReadMsgUDP\<close>: datagram \<open>i\<close> is written to the front of the buffer of message \<open>i\<close>,
  cut to the buffer's size.\<close>

fun readInto :: "nat list \<Rightarrow> datagram list \<Rightarrow> store \<Rightarrow> store" where
  "readInto (b # bufs) (d # ds) st = readInto bufs ds (st(b := go_copy (st b) 0 (dg_data d)))"
| "readInto _ _ st = st"

definition messages :: "nat list \<Rightarrow> datagram list \<Rightarrow> store \<Rightarrow> rmsg list" where
  "messages bufs ds st = map (\<lambda>(b, d). \<lparr>rm_buf = b, rm_N = min (length (dg_data d)) (length (st b)),
     rm_oob = dg_oob d, rm_addr = dg_from d\<rparr>) (zip bufs ds)"

subsection \<open>The loop over the messages\<close>

definition isStun :: "bytes \<Rightarrow> nat \<Rightarrow> bool" where
  "isStun b n \<longleftrightarrow> n \<ge> 20 \<and> (b ! 0 = 0x00 \<or> b ! 0 = 0x01) \<and>
     b ! 4 = 0x21 \<and> b ! 5 = 0x12 \<and> b ! 6 = 0xA4 \<and> b ! 7 = 0x42"

record recv_state =
  rs_bufs :: "nat list"
  rs_sizes :: "nat list"
  rs_eps :: "Endpoint option list"
  rs_store :: store
  rs_stun :: "(bytes \<times> (addr \<times> string \<times> u16)) list"
  writeIdx :: nat

definition newEndpoint :: "(bytes \<Rightarrow> Endpoint \<Rightarrow> Endpoint) \<Rightarrow> rmsg \<Rightarrow> Endpoint option" where
  "newEndpoint getSrc msg = (case rm_addr msg of
     None \<Rightarrow> None
   | Some (a, z, p) \<Rightarrow> Some (getSrc (rm_oob msg) \<lparr>ep_addr = a, ep_zone = z, ep_port = p, ep_src = []\<rparr>))"

text \<open>One message; \<open>msg.Addr.(*net.UDPAddr)\<close> panics on a message without an address.\<close>

definition receiveMsg ::
    "bool \<Rightarrow> (bytes \<Rightarrow> Endpoint \<Rightarrow> Endpoint) \<Rightarrow> nat \<Rightarrow> rmsg \<Rightarrow> recv_state \<Rightarrow> recv_state option" where
  "receiveMsg onStun getSrc i msg s =
     (let b = rs_store s (rm_buf msg); n = rm_N msg; w = writeIdx s in
      if isStun b n then
        Some (case rm_addr msg of
            Some a \<Rightarrow> if onStun then s\<lparr>rs_stun := rs_stun s @ [(take n b, a)]\<rparr> else s
          | None \<Rightarrow> s)
      else if n = 0 then Some s
      else if w \<noteq> i then do {
        from_i \<leftarrow> nth_buf (rs_bufs s) i;
        _ \<leftarrow> nth_buf (rs_bufs s) w;
        ep \<leftarrow> newEndpoint getSrc msg;
        if length (rs_sizes s) \<le> w \<or> length (rs_eps s) \<le> w then None
        else Some (s\<lparr>rs_bufs := (rs_bufs s)[w := from_i],
          rs_store := (rs_store s)(from_i := go_copy (rs_store s from_i) 0 (take n b)),
          rs_sizes := (rs_sizes s)[w := n], rs_eps := (rs_eps s)[w := Some ep], writeIdx := Suc w\<rparr>)}
      else do {
        ep \<leftarrow> newEndpoint getSrc msg;
        if length (rs_sizes s) \<le> w \<or> length (rs_eps s) \<le> w then None
        else Some (s\<lparr>rs_sizes := (rs_sizes s)[w := n], rs_eps := (rs_eps s)[w := Some ep], writeIdx := Suc w\<rparr>)})"

fun receiveMsgs ::
    "bool \<Rightarrow> (bytes \<Rightarrow> Endpoint \<Rightarrow> Endpoint) \<Rightarrow> nat \<Rightarrow> rmsg list \<Rightarrow> recv_state \<Rightarrow> recv_state option" where
  "receiveMsgs onStun getSrc i [] s = Some s"
| "receiveMsgs onStun getSrc i (msg # msgs) s = do {
     s \<leftarrow> receiveMsg onStun getSrc i msg s;
     receiveMsgs onStun getSrc (Suc i) msgs s}"

text \<open>\<open>receiveIP\<close> on what the socket delivered; the number of packets is \<open>writeIdx\<close>.\<close>

definition receiveIP ::
    "bool \<Rightarrow> (bytes \<Rightarrow> Endpoint \<Rightarrow> Endpoint) \<Rightarrow> datagram list \<Rightarrow> nat list \<Rightarrow> nat list \<Rightarrow> Endpoint option list \<Rightarrow> store \<Rightarrow>
     recv_state option" where
  "receiveIP onStun getSrc ds bufs sizes eps st =
     receiveMsgs onStun getSrc 0 (messages bufs ds st)
       \<lparr>rs_bufs = bufs, rs_sizes = sizes, rs_eps = eps, rs_store = readInto bufs ds st, rs_stun = [], writeIdx = 0\<rparr>"

text \<open>device/receive.go: packet \<open>i\<close> is \<open>bufsArrs[i][:size]\<close>, for the sizes and endpoints reported.\<close>

definition devicePackets :: "nat list \<Rightarrow> recv_state \<Rightarrow> (bytes \<times> Endpoint option) list" where
  "devicePackets bufsArrs s =
     map (\<lambda>i. (take (rs_sizes s ! i) (rs_store s (bufsArrs ! i)), rs_eps s ! i)) [0..<writeIdx s]"


subsection \<open>What the loop keeps\<close>

definition kept :: "store \<Rightarrow> rmsg \<Rightarrow> bool" where
  "kept S m \<longleftrightarrow> \<not> isStun (S (rm_buf m)) (rm_N m) \<and> rm_N m \<noteq> 0"

definition reported :: "bool \<Rightarrow> store \<Rightarrow> rmsg \<Rightarrow> (bytes \<times> (addr \<times> string \<times> u16)) list" where
  "reported onStun S m = (case rm_addr m of
     Some a \<Rightarrow> if onStun \<and> isStun (S (rm_buf m)) (rm_N m) then [(take (rm_N m) (S (rm_buf m)), a)] else []
   | None \<Rightarrow> [])"

text \<open>After the messages \<open>ms\<close>: the arrays are as the socket left them, and the front of each of the
  caller's lists describes the messages kept.\<close>

definition recv_inv ::
    "bool \<Rightarrow> (bytes \<Rightarrow> Endpoint \<Rightarrow> Endpoint) \<Rightarrow> nat list \<Rightarrow> nat list \<Rightarrow> Endpoint option list \<Rightarrow> store \<Rightarrow> rmsg list \<Rightarrow>
     recv_state \<Rightarrow> bool" where
  "recv_inv onStun getSrc bufs sizes eps S ms s \<longleftrightarrow>
     (let K = filter (kept S) ms in
      rs_store s = S \<and> writeIdx s = length K \<and> rs_bufs s = map rm_buf K @ drop (length K) bufs \<and>
      rs_sizes s = map rm_N K @ drop (length K) sizes \<and>
      rs_eps s = map (newEndpoint getSrc) K @ drop (length K) eps \<and> rs_stun s = concat (map (reported onStun S) ms))"

lemma update_front: "length xs = k \<Longrightarrow> k < length ys \<Longrightarrow> (xs @ drop k ys)[k := v] = (xs @ [v]) @ drop (Suc k) ys"
  by (simp add: list_update_append Cons_nth_drop_Suc [symmetric])

lemma go_copy_take [simp]: "go_copy b 0 (take n b) = b"
  by (simp add: go_copy_def)

lemma receiveMsg_ok:
  assumes inv: "recv_inv onStun getSrc bufs sizes eps S ms s"
    and i: "length ms < length bufs" "length bufs \<le> length sizes" "length bufs \<le> length eps"
    and m: "rm_buf m = bufs ! length ms" "kept S m \<Longrightarrow> rm_addr m \<noteq> None"
  shows "\<exists>s'. receiveMsg onStun getSrc (length ms) m s = Some s' \<and> recv_inv onStun getSrc bufs sizes eps S (ms @ [m]) s'"
proof (cases "kept S m")
  case False
  then show ?thesis using inv
    by (cases "isStun (S (rm_buf m)) (rm_N m)")
      (auto simp: receiveMsg_def recv_inv_def Let_def kept_def reported_def split: option.splits)
next
  case True
  define K where "K = filter (kept S) ms"
  have k: "length K \<le> length ms" by (simp add: K_def)
  have f: "rs_store s = S" "writeIdx s = length K" "rs_bufs s = map rm_buf K @ drop (length K) bufs"
      "rs_sizes s = map rm_N K @ drop (length K) sizes"
      "rs_eps s = map (newEndpoint getSrc) K @ drop (length K) eps" "rs_stun s = concat (map (reported onStun S) ms)"
    using inv by (simp_all add: recv_inv_def K_def Let_def)
  obtain ep where ep: "newEndpoint getSrc m = Some ep" using m(2) True by (auto simp: newEndpoint_def)
  have r: "reported onStun S m = []" using True by (simp add: reported_def kept_def split: option.splits)
  have nth: "rs_bufs s ! length ms = rm_buf m" "length (rs_bufs s) = length bufs"
    using f(3) k i m(1) by (simp_all add: nth_append)
  have lens: "length K < length (rs_sizes s)" "length K < length (rs_eps s)" using f k i by auto
  define s' where "s' = s\<lparr>rs_bufs := (rs_bufs s)[length K := rm_buf m], rs_sizes := (rs_sizes s)[length K := rm_N m],
    rs_eps := (rs_eps s)[length K := Some ep], writeIdx := Suc (length K)\<rparr>"
  have "receiveMsg onStun getSrc (length ms) m s = Some s'"
  proof (cases "length K = length ms")
    case c: True
    have "(rs_bufs s)[length K := rm_buf m] = rs_bufs s" using nth c i by (metis list_update_id)
    then show ?thesis using True f(1,2) ep lens c by (simp add: receiveMsg_def Let_def kept_def s'_def)
  next
    case c: False
    show ?thesis using True f(1,2) ep lens c nth k i
      by (simp add: receiveMsg_def Let_def kept_def s'_def nth_buf_def)
  qed
  moreover have "recv_inv onStun getSrc bufs sizes eps S (ms @ [m]) s'"
    using True f ep r k i by (simp add: recv_inv_def Let_def K_def [symmetric] s'_def update_front)
  ultimately show ?thesis by blast
qed

lemma receiveMsgs_ok:
  assumes "recv_inv onStun getSrc bufs sizes eps S ms s"
    and "length ms + length rest \<le> length bufs" "length bufs \<le> length sizes" "length bufs \<le> length eps"
    and "\<forall>i < length rest. rm_buf (rest ! i) = bufs ! (length ms + i)" "\<forall>m \<in> set rest. kept S m \<longrightarrow> rm_addr m \<noteq> None"
  shows "\<exists>s'. receiveMsgs onStun getSrc (length ms) rest s = Some s' \<and> recv_inv onStun getSrc bufs sizes eps S (ms @ rest) s'"
  using assms
proof (induction rest arbitrary: ms s)
  case (Cons m rest)
  obtain s' where s': "receiveMsg onStun getSrc (length ms) m s = Some s'"
      "recv_inv onStun getSrc bufs sizes eps S (ms @ [m]) s'"
    using receiveMsg_ok [OF Cons.prems(1), of m] Cons.prems by (metis add_0_right length_Cons length_pos_if_in_set
        less_add_same_cancel1 list.set_intros(1) nth_Cons_0 order.strict_trans2)
  have "\<forall>i < length rest. rm_buf (rest ! i) = bufs ! (length (ms @ [m]) + i)" using Cons.prems(5) by auto
  then have "\<exists>s''. receiveMsgs onStun getSrc (length (ms @ [m])) rest s' = Some s'' \<and>
      recv_inv onStun getSrc bufs sizes eps S ((ms @ [m]) @ rest) s''"
    using Cons.prems s'(2) by (intro Cons.IH) auto
  then show ?case using s'(1) by simp
qed simp

subsection \<open>Reading\<close>

lemma readInto_other: "x \<notin> set bufs \<Longrightarrow> readInto bufs ds st x = st x"
  by (induction bufs ds st rule: readInto.induct) auto

lemma readInto_nth:
  "distinct bufs \<Longrightarrow> i < length ds \<Longrightarrow> length ds \<le> length bufs \<Longrightarrow>
   readInto bufs ds st (bufs ! i) = go_copy (st (bufs ! i)) 0 (dg_data (ds ! i))"
proof (induction bufs ds st arbitrary: i rule: readInto.induct)
  case (1 b bufs d ds st)
  show ?case
  proof (cases i)
    case 0
    then show ?thesis using "1.prems" by (simp add: readInto_other)
  next
    case (Suc j)
    then have "bufs ! j \<noteq> b" using "1.prems" by auto
    moreover have "readInto bufs ds (st(b := go_copy (st b) 0 (dg_data d))) (bufs ! j) =
        go_copy ((st(b := go_copy (st b) 0 (dg_data d))) (bufs ! j)) 0 (dg_data (ds ! j))"
      using "1.prems" Suc by (intro "1.IH") auto
    ultimately show ?thesis using Suc by simp
  qed
qed auto

lemma isStun_prefix: "isStun (p @ x) (length p) = isStun p (length p)"
  by (auto simp: isStun_def nth_append)

subsection \<open>What arrives\<close>

definition stun_dg :: "datagram \<Rightarrow> bool" where
  "stun_dg d \<longleftrightarrow> isStun (dg_data d) (length (dg_data d))"

definition passed :: "datagram \<Rightarrow> bool" where
  "passed d \<longleftrightarrow> \<not> stun_dg d \<and> dg_data d \<noteq> []"

definition dg_packet :: "(bytes \<Rightarrow> Endpoint \<Rightarrow> Endpoint) \<Rightarrow> datagram \<Rightarrow> bytes \<times> Endpoint option" where
  "dg_packet getSrc d = (dg_data d, case dg_from d of
     Some (a, z, p) \<Rightarrow> Some (getSrc (dg_oob d) \<lparr>ep_addr = a, ep_zone = z, ep_port = p, ep_src = []\<rparr>)
   | None \<Rightarrow> None)"

lemma filter_zip_snd: "length xs \<le> length ys \<Longrightarrow> map snd (filter (\<lambda>(y, x). P x) (zip ys xs)) = filter P xs"
  by (induction ys xs rule: list_induct2') auto

text \<open>The messages of a batch, by datagram.\<close>

lemma messages_props:
  assumes "distinct bufs" "length ds \<le> length bufs"
    "\<forall>i < length ds. length (dg_data (ds ! i)) \<le> length (st (bufs ! i))"
    and x: "(b, d) \<in> set (zip bufs ds)"
  shows "min (length (dg_data d)) (length (st b)) = length (dg_data d)"
    and "take (length (dg_data d)) (readInto bufs ds st b) = dg_data d"
    and "isStun (readInto bufs ds st b) (length (dg_data d)) = stun_dg d"
proof -
  obtain i where i: "i < length ds" "bufs ! i = b" "ds ! i = d" using x by (auto simp: set_zip)
  have l: "length (dg_data d) \<le> length (st b)" using assms(3) i by auto
  then show "min (length (dg_data d)) (length (st b)) = length (dg_data d)" by simp
  have r: "readInto bufs ds st b = dg_data d @ drop (length (dg_data d)) (st b)"
    using readInto_nth [OF assms(1) i(1) assms(2), of st] i(2,3) l by (simp add: go_copy_def)
  then show "take (length (dg_data d)) (readInto bufs ds st b) = dg_data d" by simp
  show "isStun (readInto bufs ds st b) (length (dg_data d)) = stun_dg d"
    unfolding r stun_dg_def by (rule isStun_prefix)
qed

lemma receiveIP_batch:
  assumes "distinct bufs" "length ds \<le> length bufs" "length bufs \<le> length sizes" "length bufs \<le> length eps"
    "\<forall>i < length ds. length (dg_data (ds ! i)) \<le> length (st (bufs ! i))"
    "\<forall>d \<in> set ds. dg_from d \<noteq> None"
  shows "\<exists>s. receiveIP onStun getSrc ds bufs sizes eps st = Some s \<and>
    recv_inv onStun getSrc bufs sizes eps (readInto bufs ds st) (messages bufs ds st) s"
proof -
  have "\<exists>s'. receiveMsgs onStun getSrc (length ([] :: rmsg list)) (messages bufs ds st)
      \<lparr>rs_bufs = bufs, rs_sizes = sizes, rs_eps = eps, rs_store = readInto bufs ds st, rs_stun = [], writeIdx = 0\<rparr> = Some s' \<and>
    recv_inv onStun getSrc bufs sizes eps (readInto bufs ds st) ([] @ messages bufs ds st) s'"
    using assms
    by (intro receiveMsgs_ok) (auto simp: recv_inv_def messages_def dest!: set_zip_rightD)
  then show ?thesis by (simp add: receiveIP_def)
qed

text \<open>The lists the messages come from, in terms of the datagrams.\<close>

lemma kept_datagrams:
  assumes "distinct bufs" "length ds \<le> length bufs" "\<forall>i < length ds. length (dg_data (ds ! i)) \<le> length (st (bufs ! i))"
  shows "map (\<lambda>m. (take (rm_N m) (readInto bufs ds st (rm_buf m)), newEndpoint getSrc m))
      (filter (kept (readInto bufs ds st)) (messages bufs ds st)) = map (dg_packet getSrc) (filter passed ds)"
proof -
  note props = messages_props [OF assms]
  let ?mk = "\<lambda>(b, d). \<lparr>rm_buf = b, rm_N = min (length (dg_data d)) (length (st b)), rm_oob = dg_oob d, rm_addr = dg_from d\<rparr>"
  have k: "kept (readInto bufs ds st) (?mk x) = passed (snd x)" if "x \<in> set (zip bufs ds)" for x
    using props [of "fst x" "snd x"] that by (auto simp: kept_def passed_def split: prod.splits)
  have p: "(take (rm_N (?mk x)) (readInto bufs ds st (rm_buf (?mk x))), newEndpoint getSrc (?mk x)) = dg_packet getSrc (snd x)"
    if "x \<in> set (zip bufs ds)" for x
    using props [of "fst x" "snd x"] that by (auto simp: dg_packet_def newEndpoint_def split: prod.splits option.splits)
  have "map (\<lambda>m. (take (rm_N m) (readInto bufs ds st (rm_buf m)), newEndpoint getSrc m))
      (filter (kept (readInto bufs ds st)) (messages bufs ds st)) =
    map (dg_packet getSrc) (map snd (filter (\<lambda>x. passed (snd x)) (zip bufs ds)))"
    using k p by (simp add: messages_def filter_map comp_def cong: filter_cong map_cong)
  then show ?thesis using filter_zip_snd [OF assms(2), of passed] by (simp only: case_prod_unfold)
qed

lemma concat_singles: "concat (map (\<lambda>x. if P x then [f x] else []) xs) = map f (filter P xs)"
  by (induction xs) auto

lemma reported_datagrams:
  assumes "distinct bufs" "length ds \<le> length bufs" "\<forall>i < length ds. length (dg_data (ds ! i)) \<le> length (st (bufs ! i))"
    "\<forall>d \<in> set ds. dg_from d \<noteq> None"
  shows "concat (map (reported onStun (readInto bufs ds st)) (messages bufs ds st)) =
    (if onStun then map (\<lambda>d. (dg_data d, the (dg_from d))) (filter stun_dg ds) else [])"
proof -
  note props = messages_props [OF assms(1-3)]
  let ?mk = "\<lambda>(b, d). \<lparr>rm_buf = b, rm_N = min (length (dg_data d)) (length (st b)), rm_oob = dg_oob d, rm_addr = dg_from d\<rparr>"
  have r: "reported onStun (readInto bufs ds st) (?mk x) =
      (if onStun \<and> stun_dg (snd x) then [(dg_data (snd x), the (dg_from (snd x)))] else [])" if "x \<in> set (zip bufs ds)" for x
    using props [of "fst x" "snd x"] that assms(4) set_zip_rightD [of "fst x" "snd x" bufs ds]
    by (auto simp: reported_def split: prod.splits)
  have "map (reported onStun (readInto bufs ds st)) (messages bufs ds st) =
      map (\<lambda>x. if onStun \<and> stun_dg x then [(dg_data x, the (dg_from x))] else []) (map snd (zip bufs ds))"
    using r by (simp add: messages_def)
  then show ?thesis using assms(2) by (simp add: concat_singles map_snd_zip_take)
qed

lemma devicePackets_front:
  assumes "recv_inv onStun getSrc bufs sizes eps S ms s" "\<forall>i < writeIdx s. arrs ! i = rs_bufs s ! i"
  shows "devicePackets arrs s = map (\<lambda>m. (take (rm_N m) (S (rm_buf m)), newEndpoint getSrc m)) (filter (kept S) ms)"
  using assms by (intro nth_equalityI) (auto simp: recv_inv_def Let_def devicePackets_def nth_append)


text \<open>A batch of one datagram and one STUN request, each in a buffer of its own.\<close>

definition example_stun :: datagram where
  "example_stun = \<lparr>dg_data = [1, 1, 0, 0, 0x21, 0x12, 0xA4, 0x42] @ replicate 12 7, dg_oob = [],
     dg_from = Some (Addr4 [192, 0, 2, 1], [], 3478)\<rparr>"

definition example_data :: datagram where
  "example_data = \<lparr>dg_data = [4, 0, 0, 0, 9, 9, 9, 9] @ replicate 24 5, dg_oob = [],
     dg_from = Some (Addr4 [192, 0, 2, 2], [], 51820)\<rparr>"

lemma example_stun: "stun_dg example_stun" "\<not> passed example_stun" "length (dg_data example_stun) = 20"
    "dg_from example_stun = Some (Addr4 [192, 0, 2, 1], [], 3478)"
  by (simp_all add: stun_dg_def passed_def isStun_def example_stun_def nth_append)

lemma example_data: "\<not> stun_dg example_data" "passed example_data" "length (dg_data example_data) = 32"
    "dg_from example_data = Some (Addr4 [192, 0, 2, 2], [], 51820)"
  by (simp_all add: stun_dg_def passed_def isStun_def example_data_def)


text \<open>
  C23.  A STUN packet ahead of a datagram in a batch makes the device process the wrong bytes:
  \<open>bufs[writeIdx] = bufs[i]\<close> (bind_std.go) moves the slice in the caller's \<open>bufs\<close>, but the device reads
  \<open>bufsArrs[0]\<close> (receive.go), which still holds the STUN packet.  The device gets one packet of the
  datagram's size that begins with the STUN packet's header and never is the datagram, and both entries of \<open>bufs\<close>
  name one array afterwards.
\<close>

theorem stun_displaces:
  assumes "b0 \<noteq> b1" "stun_dg p" "passed q" "20 \<le> length (dg_data q)" "dg_from p \<noteq> None" "dg_from q \<noteq> None"
    "length (dg_data p) \<le> length (st b0)" "length (dg_data q) \<le> length (st b1)" "2 \<le> length sizes" "2 \<le> length eps"
  shows "\<exists>s packet ep. receiveIP onStun getSrc [p, q] [b0, b1] sizes eps st = Some s \<and>
    devicePackets [b0, b1] s = [(packet, ep)] \<and> take 20 packet = take 20 (dg_data p) \<and> packet \<noteq> dg_data q \<and>
    rs_bufs s = [b1, b1]"
proof -
  let ?ds = "[p, q]" and ?bufs = "[b0, b1]" and ?P = "dg_data p" and ?Q = "dg_data q"
  let ?S = "readInto ?bufs ?ds st" and ?packet = "take (length (dg_data q)) (dg_data p @ drop (length (dg_data p)) (st b0))"
  have fit: "\<forall>i < length ?ds. length (dg_data (?ds ! i)) \<le> length (st (?bufs ! i))"
    using assms(7,8) by (auto simp: less_Suc_eq)
  obtain s where s: "receiveIP onStun getSrc ?ds ?bufs sizes eps st = Some s"
      "recv_inv onStun getSrc ?bufs sizes eps ?S (messages ?bufs ?ds st) s"
    using receiveIP_batch [of ?bufs ?ds sizes eps st onStun getSrc] assms fit by auto
  have S: "?S b0 = ?P @ drop (length ?P) (st b0)" using assms(1,7) by (simp add: go_copy_def)
  have "distinct ?bufs" "length ?ds \<le> length ?bufs" using assms(1) by simp_all
  note props = messages_props [OF this fit]
  have k: "kept ?S \<lparr>rm_buf = b1, rm_N = length ?Q, rm_oob = dg_oob q, rm_addr = dg_from q\<rparr>"
      "\<not> kept ?S \<lparr>rm_buf = b0, rm_N = length ?P, rm_oob = dg_oob p, rm_addr = dg_from p\<rparr>"
    using props(3) [of b1 q] props(3) [of b0 p] assms(2,3) by (auto simp: kept_def passed_def)
  then have f: "rs_store s = ?S" "writeIdx s = 1" "rs_bufs s = [b1, b1]" "rs_sizes s = length ?Q # drop 1 sizes"
    using s(2) assms(7,8) by (simp_all add: recv_inv_def Let_def messages_def min_absorb1)
  have "20 \<le> length ?P" using assms(2) by (simp add: stun_dg_def isStun_def)
  then have t: "take 20 ?packet = take 20 ?P" using assms(4) by simp
  have "?packet \<noteq> ?Q"
  proof
    assume "?packet = ?Q"
    then have "take 20 ?Q = take 20 ?P" using t by simp
    then have "?Q ! i = ?P ! i" if "i < 20" for i using that by (metis nth_take)
    then have "stun_dg q" using assms(2,4) by (simp add: stun_dg_def isStun_def)
    then show False using assms(3) by (simp add: passed_def)
  qed
  moreover have "devicePackets ?bufs s = [(?packet, rs_eps s ! 0)]" using f S by (simp add: devicePackets_def del: readInto.simps)
  ultimately show ?thesis using s(1) f(3) t by blast
qed

theorem stun_displaces_witness:
  "\<exists>s packet ep. receiveIP True (\<lambda>_ ep. ep) [example_stun, example_data] [0, 1] [0, 0] [None, None] (\<lambda>_. replicate 64 0) = Some s \<and>
    devicePackets [0, 1] s = [(packet, ep)] \<and> take 20 packet = take 20 (dg_data example_stun) \<and>
    packet \<noteq> dg_data example_data \<and> rs_bufs s = [1, 1]"
  using stun_displaces [of 0 1 example_stun example_data "\<lambda>_. replicate 64 0" "[0, 0]" "[None, None]" True "\<lambda>_ ep. ep"]
  by (simp add: example_data example_stun)

end
