(* ===== verification/Std_Bind.thy ===== *)
theory Std_Bind
  imports Udp_Batches Bind_Receive Gro
begin

text \<open>
  conn/bind_std.go, \<open>StdNetBind\<close>: opening and closing the two sockets, and \<open>Send\<close>.  The operating system's
  answers are parameters: for \<open>Open\<close> the outcome of each attempt to listen, for \<open>Send\<close> the list of answers of
  \<open>WriteBatch\<close> (messages taken, error), in the order they are given.  A socket is its port.  The messages given to
  the kernel are collected.  \<open>None\<close> is a panic, or that the answers end while \<open>send\<close> still waits for one.
\<close>

subsection \<open>The bind\<close>

datatype errno = EAFNOSUPPORT | EADDRINUSE | EIO | OtherErrno nat

record StdNetBind =
  sb_ipv4 :: "nat option"
  sb_ipv6 :: "nat option"
  ipv4TxOffload :: bool
  ipv4RxOffload :: bool
  ipv6TxOffload :: bool
  ipv6RxOffload :: bool
  OnStunPacket :: bool
  blackhole4 :: bool
  blackhole6 :: bool

definition NewStdNetBind :: StdNetBind where
  "NewStdNetBind = \<lparr>sb_ipv4 = None, sb_ipv6 = None, ipv4TxOffload = False, ipv4RxOffload = False, ipv6TxOffload = False,
     ipv6RxOffload = False, OnStunPacket = False, blackhole4 = False, blackhole6 = False\<rparr>"

definition stickyControlSize :: nat where "stickyControlSize = CmsgSpace SizeofInet6Pktinfo"
definition gsoControlSize :: nat where "gsoControlSize = CmsgSpace sizeOfGSOData"

text \<open>The messages of the pool, new or put back: \<open>putMessages\<close> keeps buffers and control arrays.\<close>

definition poolMessages :: "message list" where
  "poolMessages = replicate IdealBatchSize \<lparr>Buffer = \<lparr>backing = [], slen = 0\<rparr>,
     OOB = \<lparr>backing = replicate (stickyControlSize + gsoControlSize) 0, slen = 0\<rparr>, msgN = 0, msgNN = 0, msgAddr = None\<rparr>"

definition putMessages :: "message list \<Rightarrow> message list" where
  "putMessages msgs = map (\<lambda>m. m\<lparr>OOB := (OOB m)\<lparr>slen := 0\<rparr>, msgN := 0, msgNN := 0, msgAddr := None\<rparr>) msgs"

subsection \<open>Opening and closing\<close>

text \<open>\<open>listenNet\<close>: the answer of the system to listening on a port; on an error the port is 0.\<close>

type_synonym listener = "nat \<Rightarrow> bool \<Rightarrow> nat \<Rightarrow> errno + nat"

definition listenNet :: "errno + nat \<Rightarrow> nat option \<times> nat \<times> errno option" where
  "listenNet answer = (case answer of Inl e \<Rightarrow> (None, 0, Some e) | Inr port \<Rightarrow> (Some port, port, None))"

function openLoop :: "listener \<Rightarrow> nat \<Rightarrow> nat \<Rightarrow> errno + nat option \<times> nat option \<times> nat" where
  "openLoop listen uport tries =
     (case listenNet (listen tries False uport) of
        (v4, port, err) \<Rightarrow>
          if err \<noteq> None \<and> err \<noteq> Some EAFNOSUPPORT then Inl (the err)
          else case listenNet (listen tries True port) of
            (v6, port, err) \<Rightarrow>
              if uport = 0 \<and> err = Some EADDRINUSE \<and> tries < 100 then openLoop listen uport (Suc tries)
              else if err \<noteq> None \<and> err \<noteq> Some EAFNOSUPPORT then Inl (the err)
              else Inr (v4, v6, port))"
  by pat_completeness auto
termination
  by (relation "measure (\<lambda>(listen, uport, tries). 100 - tries)") auto

declare openLoop.simps [simp del]

datatype open_error = ErrBindAlreadyOpen | OpenErrno errno

text \<open>\<open>supports port\<close> is the answer of \<open>supportsUDPOffload\<close> for a socket; the number of receive functions is
  that of the sockets.\<close>

definition bind_Open ::
    "listener \<Rightarrow> (nat \<Rightarrow> bool \<times> bool) \<Rightarrow> u16 \<Rightarrow> StdNetBind \<Rightarrow> StdNetBind \<times> (open_error + u16)" where
  "bind_Open listen supports uport s =
     (if sb_ipv4 s \<noteq> None \<or> sb_ipv6 s \<noteq> None then (s, Inl ErrBindAlreadyOpen)
      else case openLoop listen (unat uport) 0 of
          Inl e \<Rightarrow> (s, Inl (OpenErrno e))
        | Inr (v4, v6, port) \<Rightarrow>
            let s = (case v4 of None \<Rightarrow> s
                     | Some c \<Rightarrow> s\<lparr>ipv4TxOffload := fst (supports c), ipv4RxOffload := snd (supports c), sb_ipv4 := Some c\<rparr>);
                s = (case v6 of None \<Rightarrow> s
                     | Some c \<Rightarrow> s\<lparr>ipv6TxOffload := fst (supports c), ipv6RxOffload := snd (supports c), sb_ipv6 := Some c\<rparr>)
            in if v4 = None \<and> v6 = None then (s, Inl (OpenErrno EAFNOSUPPORT))
               else (s, Inr (word_of_nat port)))"

definition bind_Close :: "errno option \<Rightarrow> errno option \<Rightarrow> StdNetBind \<Rightarrow> StdNetBind \<times> errno option" where
  "bind_Close close4 close6 s =
     (let err1 = (if sb_ipv4 s \<noteq> None then close4 else None);
          err2 = (if sb_ipv6 s \<noteq> None then close6 else None)
      in (s\<lparr>sb_ipv4 := None, sb_ipv6 := None, blackhole4 := False, blackhole6 := False, ipv4TxOffload := False,
            ipv4RxOffload := False, ipv6TxOffload := False, ipv6RxOffload := False\<rparr>,
          if err1 \<noteq> None then err1 else err2))"

definition bind_BatchSize :: "bool \<Rightarrow> nat" where
  "bind_BatchSize linux = (if linux then IdealBatchSize else 1)"

definition SendStunPacket :: "errno option \<Rightarrow> bytes \<Rightarrow> StdNetBind \<Rightarrow> bytes list \<times> bool" where
  "SendStunPacket answer packet s =
     (if sb_ipv4 s = None then ([], True) else if answer = None then ([packet], False) else ([], True))"

subsection \<open>Sending\<close>

type_synonym answers = "(nat \<times> errno option) list"

fun writeBatches :: "answers \<Rightarrow> message list \<Rightarrow> (message list \<times> errno option \<times> answers) option" where
  "writeBatches [] msgs = None"
| "writeBatches ((n, err) # rest) msgs =
     (if err \<noteq> None \<or> n = length msgs then Some (take n msgs, err, rest)
      else if length msgs < n then None
      else do {
        (w, err, rest) \<leftarrow> writeBatches rest (drop n msgs);
        Some (take n msgs @ w, err, rest)})"

text \<open>Elsewhere than on Linux, one \<open>WriteMsgUDP\<close> per message; its address must be there.\<close>

fun writeEach :: "answers \<Rightarrow> message list \<Rightarrow> (message list \<times> errno option \<times> answers) option" where
  "writeEach rest [] = Some ([], None, rest)"
| "writeEach [] (m # msgs) = None"
| "writeEach ((n, err) # rest) (m # msgs) =
     (if msgAddr m = None then None
      else if err \<noteq> None then Some ([], err, rest)
      else do {
        (w, err, rest) \<leftarrow> writeEach rest msgs;
        Some (m # w, err, rest)})"

definition bind_send :: "bool \<Rightarrow> answers \<Rightarrow> message list \<Rightarrow> (message list \<times> errno option \<times> answers) option" where
  "bind_send linux as msgs = (if linux then writeBatches as msgs else writeEach as msgs)"

definition errShouldDisableUDPGSO :: "errno option \<Rightarrow> bool" where
  "errShouldDisableUDPGSO err \<longleftrightarrow> err = Some EIO"

datatype send_error = SendErrno errno | ErrUDPGSODisabled "errno option"

definition sendAddr :: "Endpoint \<Rightarrow> (addr \<times> string \<times> u16) option" where
  "sendAddr ep = (if ep_addr ep = Addr_invalid then None else Some (ep_addr ep, [], ep_port ep))"

definition plainMessages :: "(addr \<times> string \<times> u16) \<Rightarrow> Endpoint \<Rightarrow> gslice list \<Rightarrow> message list \<Rightarrow> message list option" where
  "plainMessages ua ep bufs msgs =
     (if length msgs < length bufs then None
      else Some (map2 (\<lambda>b m. m\<lparr>msgAddr := Some ua, Buffer := b, OOB := setSrcControl (OOB m) (ep_src ep)\<rparr>) bufs msgs))"

definition sendPlain ::
    "bool \<Rightarrow> (addr \<times> string \<times> u16) \<Rightarrow> Endpoint \<Rightarrow> gslice list \<Rightarrow> message list \<Rightarrow> answers \<Rightarrow> (message list \<times> errno option) option" where
  "sendPlain linux ua ep bufs msgs as = do {
     msgs \<leftarrow> plainMessages ua ep bufs msgs;
     (w, err, _) \<leftarrow> bind_send linux as msgs;
     Some (w, err)}"

definition bind_Send ::
    "bool \<Rightarrow> bool \<Rightarrow> answers \<Rightarrow> gslice list \<Rightarrow> Endpoint \<Rightarrow> message list \<Rightarrow> StdNetBind \<Rightarrow>
     (StdNetBind \<times> message list \<times> send_error option) option" where
  "bind_Send big linux as bufs ep msgs s =
     (let is6 = Is6 (ep_addr ep);
          blackhole = (if is6 then blackhole6 s else blackhole4 s);
          conn = (if is6 then sb_ipv6 s else sb_ipv4 s);
          offload = (if is6 then ipv6TxOffload s else ipv4TxOffload s)
      in if blackhole then Some (s, [], None)
         else if conn = None then Some (s, [], Some (SendErrno EAFNOSUPPORT))
         else do {
           ua \<leftarrow> sendAddr ep;
           if offload then do {
             (n, msgs) \<leftarrow> coalesceMessages (setGSOSize big) ua ep bufs msgs;
             (w, err, rest) \<leftarrow> bind_send linux as (take (nat n) msgs);
             if errShouldDisableUDPGSO err then do {
               (w', err) \<leftarrow> sendPlain linux ua ep bufs msgs rest;
               Some (if is6 then s\<lparr>ipv6TxOffload := False\<rparr> else s\<lparr>ipv4TxOffload := False\<rparr>, w @ w', Some (ErrUDPGSODisabled err))}
             else Some (s, w, map_option SendErrno err)}
           else do {
             (w, err) \<leftarrow> sendPlain linux ua ep bufs msgs as;
             Some (s, w, map_option SendErrno err)}})"

subsection \<open>Kernel version\<close>

text \<open>conn/controlfns_linux.go: the first two numbers of the release; \<open>done\<close> are the values read.\<close>

fun releaseNumbers :: "nat list \<Rightarrow> nat \<Rightarrow> nat \<Rightarrow> nat \<Rightarrow> nat \<times> nat" where
  "releaseNumbers [] vi v0 value = (if vi = 0 then (0, 0) else (v0, 0))"
| "releaseNumbers (c # cs) vi v0 value =
     (if 48 \<le> c \<and> c \<le> 57 then releaseNumbers cs vi v0 (value * 10 + (c - 48))
      else if vi = 0 then releaseNumbers cs 1 value 0 else (v0, value))"

definition kernelVersion :: "nat list option \<Rightarrow> nat \<times> nat" where
  "kernelVersion release = (case release of None \<Rightarrow> (0, 0) | Some cs \<Rightarrow> releaseNumbers cs 0 0 0)"

subsection \<open>What is sent\<close>

text \<open>The kernel takes \<open>k\<close> messages in the answers given, some at a time.\<close>

fun accepts :: "answers \<Rightarrow> nat \<Rightarrow> bool" where
  "accepts [] k = False"
| "accepts ((n, err) # rest) k \<longleftrightarrow> err = None \<and> (n = k \<and> rest = [] \<or> n < k \<and> accepts rest (k - n))"

lemma writeBatches_accepts: "accepts as (length msgs) \<Longrightarrow> writeBatches as msgs = Some (msgs, None, [])"
proof (induction as msgs rule: writeBatches.induct)
  case (2 n err rest msgs)
  show ?case
  proof (cases "n = length msgs")
    case False
    then have "n < length msgs" "accepts rest (length (drop n msgs))" "err = None" using "2.prems" by auto
    then show ?thesis using "2.IH" by simp
  qed (use "2.prems" in auto)
qed simp

lemma capacity_setSrcControl [simp]: "capacity (setSrcControl c src) = capacity c"
  by (simp add: setSrcControl_def capacity_def)

lemma content_setSrcControl: "length src \<le> capacity c \<Longrightarrow> content (setSrcControl c src) = src"
  by (simp add: setSrcControl_def content_def capacity_def go_copy_def)

lemma capacity_setGSOSize [simp]: "slen c \<le> capacity c \<Longrightarrow> capacity (setGSOSize big c n) = capacity c"
  by (auto simp: setGSOSize_def capacity_def Let_def)

lemma capacity_gso_oob:
  assumes "length (ep_src ep) \<le> capacity (OOB (msgs ! j))"
  shows "capacity (gso_oob (setGSOSize big) ep msgs B j) = capacity (OOB (msgs ! j))"
proof -
  have "slen (src_oob ep msgs j) \<le> capacity (src_oob ep msgs j)"
    using assms by (simp add: src_oob_def setSrcControl_def capacity_def)
  then show ?thesis by (simp add: gso_oob_def src_oob_def)
qed

definition unsegmented :: "(addr \<times> string \<times> u16) \<Rightarrow> Endpoint \<Rightarrow> bytes \<Rightarrow> message \<Rightarrow> bool" where
  "unsegmented ua ep x m \<longleftrightarrow> content (Buffer m) = x \<and> msgAddr m = Some ua \<and> content (OOB m) = ep_src ep"

lemma plain_sent:
  assumes "length bufs \<le> length msgs" "\<forall>m \<in> set msgs. length (ep_src ep) \<le> capacity (OOB m)" "accepts as (length bufs)"
  shows "\<exists>w. sendPlain True ua ep bufs msgs as = Some (w, None) \<and> list_all2 (unsegmented ua ep) (map content bufs) w"
proof -
  let ?w = "map2 (\<lambda>b m. m\<lparr>msgAddr := Some ua, Buffer := b, OOB := setSrcControl (OOB m) (ep_src ep)\<rparr>) bufs msgs"
  have "length ?w = length bufs" using assms(1) by simp
  then have "bind_send True as ?w = Some (?w, None, [])" using assms(3) writeBatches_accepts [of as ?w] by (simp add: bind_send_def)
  moreover have "list_all2 (unsegmented ua ep) (map content bufs) ?w"
    using assms(1,2) by (auto simp: list_all2_conv_all_nth unsegmented_def content_setSrcControl)
  ultimately show ?thesis using assms(1) by (simp add: sendPlain_def plainMessages_def)
qed


definition example_bufs :: "gslice list" where
  "example_bufs = [\<lparr>backing = [1, 2, 3, 4, 0, 0], slen = 4\<rparr>, \<lparr>backing = [5, 6], slen = 2\<rparr>, \<lparr>backing = [7], slen = 1\<rparr>]"

definition example_bind :: StdNetBind where
  "example_bind = NewStdNetBind\<lparr>sb_ipv4 := Some 51820, ipv4TxOffload := True\<rparr>"

definition example_msgs :: "message list" where
  "example_msgs = replicate 3 \<lparr>Buffer = \<lparr>backing = [], slen = 0\<rparr>, OOB = \<lparr>backing = replicate 64 0, slen = 0\<rparr>,
     msgN = 0, msgNN = 0, msgAddr = None\<rparr>"

definition example_ep :: Endpoint where
  "example_ep = \<lparr>ep_addr = Addr4 [192, 0, 2, 1], ep_zone = [], ep_port = 51820, ep_src = []\<rparr>"


subsection \<open>Opening\<close>

text \<open>Without IPv6 the port reported is 0, whatever port the IPv4 socket listens on: \<open>listenNet\<close> returns port 0 with its error.
  Without IPv4 the IPv6 socket is opened on a port of the system's choice, not on the one asked for.\<close>

lemma open_without_ipv6:
  assumes "sb_ipv4 s = None" "sb_ipv6 s = None" "listen 0 False (unat uport) = Inr p" "listen 0 True p = Inl EAFNOSUPPORT"
  shows "\<exists>s'. bind_Open listen supports uport s = (s', Inr 0) \<and> sb_ipv4 s' = Some p \<and> sb_ipv6 s' = None"
  using assms by (simp add: bind_Open_def openLoop.simps listenNet_def)

lemma open_without_ipv4:
  assumes "sb_ipv4 s = None" "sb_ipv6 s = None" "listen 0 False (unat uport) = Inl EAFNOSUPPORT" "listen 0 True 0 = Inr p"
  shows "\<exists>s'. bind_Open listen supports uport s = (s', Inr (word_of_nat p)) \<and> sb_ipv4 s' = None \<and> sb_ipv6 s' = Some p"
  using assms by (simp add: bind_Open_def openLoop.simps listenNet_def)

text \<open>After \<open>Close\<close> the bind can be opened again; opening it twice is refused and changes nothing.\<close>

lemma close_open:
  "bind_Open listen supports uport (fst (bind_Close e4 e6 s)) \<noteq> (fst (bind_Close e4 e6 s), Inl ErrBindAlreadyOpen)"
  "bind_Open listen supports uport s = (s', Inr p) \<Longrightarrow> bind_Open listen' supports' uport' s' = (s', Inl ErrBindAlreadyOpen)"
  by (auto simp: bind_Open_def bind_Close_def Let_def split: sum.splits option.splits if_splits)

end
