(* ===== verification/Bind_Offload.thy ===== *)
theory Bind_Offload
  imports Std_Bind
begin

text \<open>
  \<open>receiveIP\<close> of conn/bind_std.go with receive offload: the kernel joins datagrams into the last two messages,
  \<open>splitCoalescedMessages\<close> spreads them over the messages from the first on, and the loop over the
  messages goes on as without offload.  As in the device, there are as many buffers as messages in the pool.
\<close>

subsection \<open>Receiving joined datagrams\<close>

definition blankMessage :: "bytes \<Rightarrow> message" where
  "blankMessage b = \<lparr>Buffer = \<lparr>backing = b, slen = length b\<rparr>, OOB = \<lparr>backing = [], slen = 0\<rparr>, msgN = 0, msgNN = 0, msgAddr = None\<rparr>"

definition readMessage :: "bytes \<Rightarrow> datagram \<Rightarrow> message" where
  "readMessage b d = \<lparr>Buffer = \<lparr>backing = go_copy b 0 (dg_data d), slen = length b\<rparr>,
     OOB = \<lparr>backing = dg_oob d, slen = length (dg_oob d)\<rparr>, msgN = min (length (dg_data d)) (length b),
     msgNN = length (dg_oob d), msgAddr = dg_from d\<rparr>"

definition offloadMessages :: "nat list \<Rightarrow> datagram list \<Rightarrow> nat \<Rightarrow> store \<Rightarrow> message list" where
  "offloadMessages bufs ds readAt st =
     map (\<lambda>b. blankMessage (st b)) (take readAt bufs) @ map2 (\<lambda>b d. readMessage (st b) d) (drop readAt bufs) ds @
     map (\<lambda>b. blankMessage (st b)) (drop (readAt + length ds) bufs)"

fun storeAll :: "nat list \<Rightarrow> message list \<Rightarrow> store \<Rightarrow> store" where
  "storeAll (b # bufs) (m # msgs) st = storeAll bufs msgs (st(b := content (Buffer m)))"
| "storeAll _ _ st = st"

definition splitMessages :: "nat list \<Rightarrow> message list \<Rightarrow> rmsg list" where
  "splitMessages bufs msgs = map2 (\<lambda>b m. \<lparr>rm_buf = b, rm_N = msgN m, rm_oob = take (msgNN m) (backing (OOB m)), rm_addr = msgAddr m\<rparr>) bufs msgs"

definition receiveIP_offload ::
    "(bytes \<Rightarrow> control_error + nat) \<Rightarrow> bool \<Rightarrow> (bytes \<Rightarrow> Endpoint \<Rightarrow> Endpoint) \<Rightarrow> datagram list \<Rightarrow> nat list \<Rightarrow> nat list \<Rightarrow>
     Endpoint option list \<Rightarrow> store \<Rightarrow> (split_error + recv_state) option" where
  "receiveIP_offload getGSO onStun getSrc ds bufs sizes eps st = do {
     let readAt = length bufs - IdealBatchSize div udpSegmentMaxDatagrams;
     (err, n, msgs) \<leftarrow> splitCoalescedMessages getGSO (offloadMessages bufs ds readAt st) readAt;
     case err of
       Some e \<Rightarrow> Some (Inl e)
     | None \<Rightarrow> do {
         s \<leftarrow> receiveMsgs onStun getSrc 0 (take n (splitMessages bufs msgs))
           \<lparr>rs_bufs = bufs, rs_sizes = sizes, rs_eps = eps, rs_store = storeAll bufs msgs st, rs_stun = [], writeIdx = 0\<rparr>;
         Some (Inr s)}}"

subsection \<open>Splitting\<close>

text \<open>A message holds the datagram \<open>x\<close> from \<open>a\<close>.\<close>

definition msg_holds :: "bytes \<Rightarrow> (addr \<times> string \<times> u16) option \<Rightarrow> message \<Rightarrow> bool" where
  "msg_holds x a m \<longleftrightarrow> msgN m = length x \<and> slice_ok (Buffer m) \<and> length x \<le> slen (Buffer m) \<and>
     take (length x) (content (Buffer m)) = x \<and> msgAddr m = a"

definition pieces :: "nat \<Rightarrow> bytes \<Rightarrow> bytes list" where
  "pieces g b = (if g = 0 then [b] else chunks g b)"

lemma piece_step:
  assumes "slice_ok (Buffer dst)" "length x \<le> slen (Buffer dst)"
  shows "msg_holds x a (dst\<lparr>Buffer := upd_content (go_copy (content (Buffer dst)) 0 x) (Buffer dst),
      msgN := min (slen (Buffer dst)) (length x), msgAddr := a\<rparr>)"
  using assms by (simp add: msg_holds_def slice_ok_def content_def upd_content_def capacity_def go_copy_def)

lemma splitPieces_ok:
  assumes "i < length msgs" "msgN (msgs ! i) \<le> capacity (Buffer (msgs ! i))" "0 < g" "start < msgN (msgs ! i)"
    and "ps = chunks g (slice start (msgN (msgs ! i)) (backing (Buffer (msgs ! i))))" "n + length ps \<le> Suc i"
    and "\<forall>j \<le> i. slice_ok (Buffer (msgs ! j)) \<and> g \<le> slen (Buffer (msgs ! j))"
  shows "\<exists>msgs'. splitPieces (length ps) i g start (min (start + g) (msgN (msgs ! i))) n msgs = Some (None, n + length ps, msgs') \<and>
    length msgs' = length msgs \<and> (\<forall>j < length ps. msg_holds (ps ! j) (msgAddr (msgs ! i)) (msgs' ! (n + j))) \<and>
    (\<forall>j < length msgs. j < n \<or> n + length ps \<le> j \<longrightarrow> msgs' ! j = msgs ! j)"
  using assms
proof (induction "length ps" arbitrary: start n msgs ps)
  case 0
  then show ?case by (auto simp: chunks.simps [of g] slice_def capacity_def)
next
  case (Suc k)
  let ?m = "msgs ! i" and ?dst = "msgs ! n"
  let ?N = "msgN ?m" and ?b = "backing (Buffer ?m)"
  let ?stop = "min (start + g) ?N"
  define x where "x = slice start ?stop ?b"
  have cap: "?N \<le> length ?b" using Suc.prems(2) by (simp add: capacity_def)
  have n: "n \<le> i" "n < length msgs" using Suc.hyps(2) Suc.prems(1,6) by auto
  have lx: "length x = ?stop - start" "0 < length x" "length x \<le> g" using cap Suc.prems(3,4) by (auto simp: x_def)
  have ps: "ps = x # chunks g (slice ?stop ?N ?b)"
  proof -
    have "slice start ?N ?b \<noteq> []" using cap Suc.prems(4) by (simp add: slice_def)
    moreover have "take g (slice start ?N ?b) = x" using cap Suc.prems(4) by (simp add: x_def slice_def take_drop min_def add.commute)
    moreover have "drop g (slice start ?N ?b) = slice ?stop ?N ?b" using cap by (auto simp: slice_def min_def drop_take add.commute)
    ultimately show ?thesis using Suc.prems(3,5) by (subst (asm) chunks.simps) simp
  qed
  let ?msgs = "msgs[n := ?dst\<lparr>Buffer := upd_content (go_copy (content (Buffer ?dst)) 0 x) (Buffer ?dst),
      msgN := min (slen (Buffer ?dst)) (length x), msgAddr := msgAddr ?m\<rparr>]"
  have dst: "slice_ok (Buffer ?dst)" "length x \<le> slen (Buffer ?dst)" using Suc.prems(7) n(1) lx(3) by force+
  have hx: "msg_holds x (msgAddr ?m) (?msgs ! n)" using piece_step [OF dst] n(2) by simp
  have parts: "nth_buf msgs i = Some ?m" "nth_buf msgs n = Some ?dst" "sub start ?stop ?b = Some x" "nth_buf ?msgs i = Some (?msgs ! i)" "\<not> i < n"
    using n Suc.prems(1,4) cap by (simp_all add: nth_buf_def sub_def x_def)
  have run: "splitPieces (length ps) i g start ?stop n msgs =
      splitPieces k i g ?stop (min (?stop + g) (msgN (?msgs ! i))) (Suc n) ?msgs"
    unfolding Suc.hyps(2) [symmetric] splitPieces.simps using parts by (simp add: Let_def)
  show ?case
  proof (cases "k = 0")
    case True
    then have "ps = [x]" using ps Suc.hyps(2) by simp
    then show ?thesis using run True hx by (auto intro!: exI [of _ ?msgs])
  next
    case False
    then have ni: "n < i" using Suc.hyps(2) Suc.prems(6) by simp
    then have same: "?msgs ! i = ?m" by simp
    define qs where "qs = chunks g (slice ?stop ?N ?b)"
    have qs: "length qs = k" "ps = x # qs" using ps Suc.hyps(2) by (simp_all add: qs_def)
    have lt: "?stop < ?N"
    proof (rule ccontr)
      assume "\<not> ?stop < ?N"
      then have "slice ?stop ?N ?b = []" by (simp add: slice_def)
      then show False using qs(1) False by (simp add: qs_def)
    qed
    have "\<exists>msgs'. splitPieces (length qs) i g ?stop (min (?stop + g) (msgN (?msgs ! i))) (Suc n) ?msgs = Some (None, Suc n + length qs, msgs') \<and>
      length msgs' = length ?msgs \<and> (\<forall>j < length qs. msg_holds (qs ! j) (msgAddr (?msgs ! i)) (msgs' ! (Suc n + j))) \<and>
      (\<forall>j < length ?msgs. j < Suc n \<or> Suc n + length qs \<le> j \<longrightarrow> msgs' ! j = ?msgs ! j)"
    proof (rule Suc.hyps(1))
      show "\<forall>j \<le> i. slice_ok (Buffer (?msgs ! j)) \<and> g \<le> slen (Buffer (?msgs ! j))"
        using Suc.prems(7) n dst(1) by (auto simp: nth_list_update slice_ok_def upd_content_def capacity_def content_def)
    qed (use same lt qs Suc.prems(1,2,3,6) in \<open>simp_all add: qs_def\<close>)
    then obtain msgs' where r: "splitPieces k i g ?stop (min (?stop + g) (msgN (?msgs ! i))) (Suc n) ?msgs = Some (None, n + length ps, msgs')"
        "length msgs' = length msgs" "\<forall>j < length qs. msg_holds (qs ! j) (msgAddr ?m) (msgs' ! (Suc n + j))"
        "\<forall>j < length msgs. j < Suc n \<or> Suc n + length qs \<le> j \<longrightarrow> msgs' ! j = ?msgs ! j"
      unfolding same using qs by auto
    have "msg_holds (ps ! j) (msgAddr ?m) (msgs' ! (n + j))" if "j < length ps" for j
      using that qs(2) r(3,4) hx n(2) by (cases j) auto
    moreover have "msgs' ! j = msgs ! j" if "j < length msgs" "j < n \<or> n + length ps \<le> j" for j
      using that r(4) qs by auto
    ultimately show ?thesis using run r(1,2) by auto
  qed
qed

lemma chunks_step: "0 < g \<Longrightarrow> b \<noteq> [] \<Longrightarrow> chunks g b = take g b # chunks g (drop g b)"
  by (subst chunks.simps) simp

lemma ceiling_step: "0 < g \<Longrightarrow> 0 < l \<Longrightarrow> (l + g - 1) div g = Suc ((l - g + g - 1) div g)" for g l :: nat
proof (cases "g \<le> l")
  case True
  moreover assume "0 < g" "0 < l"
  ultimately have "(l + g - 1) div g = ((l - g + g - 1) + g) div g" by (intro arg_cong [of _ _ "\<lambda>x. x div g"]) simp
  then show ?thesis using div_add_self2 [of g "l - g + g - 1"] \<open>0 < g\<close> by linarith
next
  case False
  moreover assume "0 < g" "0 < l"
  ultimately have "l + g - 1 = (l - 1) + g" "l - 1 < g" "l - g + g - 1 < g" by simp_all
  then show ?thesis using div_add_self2 [of g "l - 1"] \<open>0 < g\<close> by (simp only: div_less)
qed

lemma length_chunks: "0 < g \<Longrightarrow> length (chunks g b) = (length b + g - 1) div g"
proof (induction "length b" arbitrary: b rule: less_induct)
  case less
  show ?case
  proof (cases "b = []")
    case False
    then have "length (chunks g (drop g b)) = (length (drop g b) + g - 1) div g"
      using less.prems by (intro less.hyps) simp_all
    then show ?thesis using chunks_step [OF less.prems False] ceiling_step [OF less.prems, of "length b"] False by simp
  qed (use less.prems in simp)
qed

lemma pieces_nonempty: "b \<noteq> [] \<Longrightarrow> 0 < length (pieces g b)"
  using chunks_step [of g b] by (simp add: pieces_def)

text \<open>Splitting leaves every buffer with its array and its length.\<close>

definition same_buffer :: "message \<Rightarrow> message \<Rightarrow> bool" where
  "same_buffer m m' \<longleftrightarrow> slen (Buffer m') = slen (Buffer m) \<and> (slice_ok (Buffer m) \<longrightarrow> slice_ok (Buffer m'))"

lemma same_buffer_refl [simp]: "same_buffer m m"
  by (simp add: same_buffer_def)

lemma same_buffer_trans: "same_buffer a b \<Longrightarrow> same_buffer b c \<Longrightarrow> same_buffer a c"
  by (simp add: same_buffer_def)

lemma splitPieces_buffers:
  "splitPieces k i g start stop n msgs = Some (e, n', msgs') \<Longrightarrow> j < length msgs \<Longrightarrow> same_buffer (msgs ! j) (msgs' ! j)"
proof (induction k arbitrary: start stop n msgs)
  case (Suc k)
  show ?case
  proof (cases "n > i")
    case False
    then obtain piece where *: "n < length msgs"
        "splitPieces k i g stop (min (stop + g) (msgN (msgs[n := (msgs ! n)\<lparr>Buffer := upd_content (go_copy (content (Buffer (msgs ! n))) 0 piece) (Buffer (msgs ! n)),
          msgN := min (slen (Buffer (msgs ! n))) (length piece), msgAddr := msgAddr (msgs ! i)\<rparr>] ! i))) (Suc n)
          (msgs[n := (msgs ! n)\<lparr>Buffer := upd_content (go_copy (content (Buffer (msgs ! n))) 0 piece) (Buffer (msgs ! n)),
          msgN := min (slen (Buffer (msgs ! n))) (length piece), msgAddr := msgAddr (msgs ! i)\<rparr>]) = Some (e, n', msgs')"
      using Suc.prems(1) by (auto simp: bind_eq_Some_conv Let_def nth_buf_def split: if_splits)
    show ?thesis
      by (rule same_buffer_trans [OF _ Suc.IH [OF *(2)]])
        (use Suc.prems(2) *(1) in \<open>auto simp: nth_list_update same_buffer_def slice_ok_def upd_content_def capacity_def content_def\<close>)
  qed (use Suc.prems(1) in simp)
qed simp

lemma all_Suc_less: "(\<forall>k < Suc n. P k) \<longleftrightarrow> P 0 \<and> (\<forall>k < n. P (Suc k))"
  using less_Suc_eq_0_disj by auto

text \<open>The datagram \<open>b\<close>, to be cut at \<open>g\<close>, is in message \<open>m\<close>.\<close>

definition joined :: "(bytes \<Rightarrow> control_error + nat) \<Rightarrow> nat \<times> bytes \<times> (addr \<times> string \<times> u16) option \<Rightarrow> message \<Rightarrow> bool" where
  "joined getGSO x m \<longleftrightarrow> (case x of (g, b, a) \<Rightarrow>
     msgN m = length b \<and> b \<noteq> [] \<and> length b \<le> capacity (Buffer m) \<and> take (length b) (backing (Buffer m)) = b \<and> msgAddr m = a \<and>
     msgNN m \<le> length (backing (OOB m)) \<and> getGSO (take (msgNN m) (backing (OOB m))) = Inr g \<and> g \<le> length b)"

definition cut_pieces :: "nat \<times> bytes \<times> (addr \<times> string \<times> u16) option \<Rightarrow> (bytes \<times> (addr \<times> string \<times> u16) option) list" where
  "cut_pieces x = (case x of (g, b, a) \<Rightarrow> map (\<lambda>p. (p, a)) (pieces g b))"

lemma cut_pieces_triple: "cut_pieces (g, b, a) = map (\<lambda>p. (p, a)) (pieces g b)"
  by (simp add: cut_pieces_def)

lemma split_one:
  assumes "i < length msgs" "joined getGSO (g, b, a) (msgs ! i)" "n + length (pieces g b) \<le> Suc i"
    and "\<forall>j \<le> i. slice_ok (Buffer (msgs ! j)) \<and> length b \<le> slen (Buffer (msgs ! j))"
  shows "\<exists>msgs'. splitPieces (if g > 0 then (msgN (msgs ! i) + g - 1) div g else 1) i g 0 (if g > 0 then g else msgN (msgs ! i)) n msgs =
      Some (None, n + length (pieces g b), msgs') \<and>
    length msgs' = length msgs \<and> (\<forall>j < length (pieces g b). msg_holds (pieces g b ! j) a (msgs' ! (n + j))) \<and>
    (\<forall>j < length msgs. j < n \<or> n + length (pieces g b) \<le> j \<longrightarrow> msgs' ! j = msgs ! j)"
proof (cases "g = 0")
  case True
  let ?dst = "msgs ! n"
  let ?msgs = "msgs[n := ?dst\<lparr>Buffer := upd_content (go_copy (content (Buffer ?dst)) 0 b) (Buffer ?dst),
      msgN := min (slen (Buffer ?dst)) (length b), msgAddr := a\<rparr>]"
  have n: "n \<le> i" using assms(3) True by (simp add: pieces_def)
  have h: "msg_holds b a (?msgs ! n)" using piece_step [of ?dst b a] assms(1,4) n by simp
  have "sub 0 (length b) (backing (Buffer (msgs ! i))) = Some b" using assms(2) by (simp add: joined_def sub_def slice_def capacity_def)
  then have "splitPieces 1 i 0 0 (msgN (msgs ! i)) n msgs = Some (None, Suc n, ?msgs)"
    using assms(1,2) n by (simp add: joined_def nth_buf_def Let_def One_nat_def [symmetric] del: One_nat_def)
      (simp add: numeral_eq_Suc nth_buf_def)
  then show ?thesis using True h by (auto simp: pieces_def intro!: exI [of _ ?msgs])
next
  case False
  have j: "msgN (msgs ! i) = length b" "b \<noteq> []" "length b \<le> capacity (Buffer (msgs ! i))" "take (length b) (backing (Buffer (msgs ! i))) = b"
    "msgAddr (msgs ! i) = a" "g \<le> length b" using assms(2) by (auto simp: joined_def)
  have ps: "pieces g b = chunks g (slice 0 (msgN (msgs ! i)) (backing (Buffer (msgs ! i))))"
    using False j(1,4) by (simp add: pieces_def slice_def)
  have all: "\<forall>j \<le> i. slice_ok (Buffer (msgs ! j)) \<and> g \<le> slen (Buffer (msgs ! j))" using assms(4) j(6) by (meson order_trans)
  have "length (pieces g b) = (msgN (msgs ! i) + g - 1) div g" using length_chunks [of g b] False j(1) by (simp add: pieces_def)
  then show ?thesis
    using splitPieces_ok [OF assms(1) _ _ _ ps assms(3) all] False j by (auto simp: min_absorb1)
qed

lemma splitLoop_ok:
  assumes "i + length xs \<le> length msgs" "i + length xs = length msgs \<or> msgN (msgs ! (i + length xs)) = 0"
    and "\<forall>k < length xs. joined getGSO (xs ! k) (msgs ! (i + k))"
    and "\<forall>k < length xs. n + length (concat (map cut_pieces (take (Suc k) xs))) \<le> Suc (i + k)"
    and "\<forall>x \<in> set xs. \<forall>m \<in> set msgs. slice_ok (Buffer m) \<and> length (fst (snd x)) \<le> slen (Buffer m)"
  shows "\<exists>msgs'. splitLoop getGSO i n msgs = Some (None, n + length (concat (map cut_pieces xs)), msgs') \<and> length msgs' = length msgs \<and>
    (\<forall>j < length (concat (map cut_pieces xs)). msg_holds (fst (concat (map cut_pieces xs) ! j)) (snd (concat (map cut_pieces xs) ! j)) (msgs' ! (n + j))) \<and>
    (\<forall>j < n. j < length msgs \<longrightarrow> msgs' ! j = msgs ! j)"
  using assms
proof (induction xs arbitrary: i n msgs)
  case Nil
  then show ?case by (subst splitLoop.simps) auto
next
  case (Cons x xs)
  obtain g b a where x: "x = (g, b, a)" by (cases x) auto
  let ?k = "length (pieces g b)"
  have i: "i < length msgs" using Cons.prems(1) by simp
  have jo: "joined getGSO (g, b, a) (msgs ! i)" using Cons.prems(3) x by force
  have "length (concat (map cut_pieces (take 1 (x # xs)))) = ?k" by (simp add: x cut_pieces_triple)
  then have k: "n + ?k \<le> Suc i" "0 < ?k" using Cons.prems(4) jo pieces_nonempty [of b g] by (force, simp add: joined_def)
  have sl: "\<forall>j \<le> i. slice_ok (Buffer (msgs ! j)) \<and> length b \<le> slen (Buffer (msgs ! j))" using Cons.prems(5) i x by simp
  obtain msgs1 where s1: "splitPieces (if g > 0 then (msgN (msgs ! i) + g - 1) div g else 1) i g 0 (if g > 0 then g else msgN (msgs ! i)) n msgs =
      Some (None, n + ?k, msgs1)" "length msgs1 = length msgs"
      "\<forall>j < ?k. msg_holds (pieces g b ! j) a (msgs1 ! (n + j))"
      "\<forall>j < length msgs. j < n \<or> n + ?k \<le> j \<longrightarrow> msgs1 ! j = msgs ! j"
    using split_one [OF i jo k(1) sl] by blast
  define msgs2 where "msgs2 = (if i \<noteq> n + ?k - 1 then msgs1[i := (msgs1 ! i)\<lparr>msgN := 0\<rparr>] else msgs1)"
  have run: "splitLoop getGSO i n msgs = splitLoop getGSO (Suc i) (n + ?k) msgs2"
    using i jo s1(1,2) by (subst splitLoop.simps) (simp add: joined_def Let_def sub_def slice_def msgs2_def nth_buf_def)
  have len2: "length msgs2 = length msgs" by (simp add: msgs2_def s1(2))
  have keep: "msgs2 ! j = msgs1 ! j" if "j < n + ?k" for j using that k by (auto simp: msgs2_def)
  have later: "msgs2 ! j = msgs ! j" if "i < j" "j < length msgs" for j using that s1(4) k(1) by (simp add: msgs2_def)
  have same: "same_buffer (msgs ! j) (msgs2 ! j)" if "j < length msgs" for j
    using splitPieces_buffers [OF s1(1) that] s1(2) that i by (auto simp: msgs2_def same_buffer_def nth_list_update)
  have bufs2: "\<forall>x \<in> set xs. \<forall>m \<in> set msgs2. slice_ok (Buffer m) \<and> length (fst (snd x)) \<le> slen (Buffer m)"
    using Cons.prems(5) same len2 unfolding same_buffer_def by (metis in_set_conv_nth list.set_intros(2))
  let ?ys = "concat (map cut_pieces xs)"
  have "\<exists>msgs'. splitLoop getGSO (Suc i) (n + ?k) msgs2 = Some (None, n + ?k + length ?ys, msgs') \<and> length msgs' = length msgs2 \<and>
    (\<forall>j < length ?ys. msg_holds (fst (?ys ! j)) (snd (?ys ! j)) (msgs' ! (n + ?k + j))) \<and>
    (\<forall>j < n + ?k. j < length msgs2 \<longrightarrow> msgs' ! j = msgs2 ! j)"
  proof (rule Cons.IH)
    show "\<forall>k < length xs. joined getGSO (xs ! k) (msgs2 ! (Suc i + k))"
      using Cons.prems(1,3) later by (auto simp: all_Suc_less)
    show "\<forall>k < length xs. n + ?k + length (concat (map cut_pieces (take (Suc k) xs))) \<le> Suc (Suc i + k)"
      using Cons.prems(4) by (auto simp: all_Suc_less x cut_pieces_triple)
    show "Suc i + length xs = length msgs2 \<or> msgN (msgs2 ! (Suc i + length xs)) = 0"
      using Cons.prems(1,2) later len2 by (cases "Suc i + length xs = length msgs") auto
  qed (use Cons.prems(1) len2 bufs2 in auto)
  then obtain msgs' where m': "splitLoop getGSO (Suc i) (n + ?k) msgs2 = Some (None, n + ?k + length ?ys, msgs')" "length msgs' = length msgs"
      "\<forall>j < length ?ys. msg_holds (fst (?ys ! j)) (snd (?ys ! j)) (msgs' ! (n + ?k + j))"
      "\<forall>j < n + ?k. j < length msgs \<longrightarrow> msgs' ! j = msgs2 ! j"
    using len2 by auto
  have cat: "concat (map cut_pieces (x # xs)) = map (\<lambda>p. (p, a)) (pieces g b) @ ?ys" by (simp add: x cut_pieces_triple)
  have "msg_holds (fst (concat (map cut_pieces (x # xs)) ! j)) (snd (concat (map cut_pieces (x # xs)) ! j)) (msgs' ! (n + j))"
    if j: "j < length (concat (map cut_pieces (x # xs)))" for j
  proof (cases "j < ?k")
    case True
    then have "msgs' ! (n + j) = msgs1 ! (n + j)" using m'(4) keep k(1) i by simp
    then show ?thesis using True s1(3) unfolding cat by (simp add: nth_append)
  next
    case False
    then show ?thesis using m'(3) j unfolding cat by (auto simp: nth_append dest: spec [of _ "j - ?k"])
  qed
  moreover have "\<forall>j < n. j < length msgs \<longrightarrow> msgs' ! j = msgs ! j" using m'(4) keep s1(4) by simp
  ultimately show ?case using run m'(1,2) by (auto simp: x cut_pieces_triple)
qed

subsection \<open>What arrives\<close>

definition gsoOf :: "(bytes \<Rightarrow> control_error + nat) \<Rightarrow> datagram \<Rightarrow> nat" where
  "gsoOf getGSO d = (case getGSO (dg_oob d) of Inl _ \<Rightarrow> 0 | Inr g \<Rightarrow> g)"

definition sentDatagrams :: "(bytes \<Rightarrow> control_error + nat) \<Rightarrow> datagram \<Rightarrow> (bytes \<times> (addr \<times> string \<times> u16) option) list" where
  "sentDatagrams getGSO d = map (\<lambda>p. (p, dg_from d)) (pieces (gsoOf getGSO d) (dg_data d))"

definition sender :: "Endpoint option \<Rightarrow> (addr \<times> string \<times> u16) option" where
  "sender e = map_option (\<lambda>e. (ep_addr e, ep_zone e, ep_port e)) e"

definition wanted :: "bytes \<times> (addr \<times> string \<times> u16) option \<Rightarrow> bool" where
  "wanted x \<longleftrightarrow> \<not> isStun (fst x) (length (fst x)) \<and> fst x \<noteq> []"

lemma map_filter_pointwise:
  assumes "length ms = length ys" "\<forall>j < length ys. P (ms ! j) = Q (ys ! j)" "\<forall>j < length ys. P (ms ! j) \<longrightarrow> f (ms ! j) = ys ! j"
  shows "map f (filter P ms) = filter Q ys"
  using assms by (induction ms ys rule: list_induct2) (auto simp: all_Suc_less)

lemma storeAll_other: "x \<notin> set bufs \<Longrightarrow> storeAll bufs msgs st x = st x"
  by (induction bufs msgs st rule: storeAll.induct) auto

lemma storeAll_nth:
  "distinct bufs \<Longrightarrow> j < length bufs \<Longrightarrow> length msgs = length bufs \<Longrightarrow> storeAll bufs msgs st (bufs ! j) = content (Buffer (msgs ! j))"
proof (induction bufs msgs st arbitrary: j rule: storeAll.induct)
  case (1 b bufs m msgs st)
  then show ?case by (cases j) (auto simp: storeAll_other fun_upd_same simp del: fun_upd_apply)
qed auto

lemma offloadMessages_nth:
  assumes "readAt + length ds \<le> length bufs" "j < length bufs"
  shows "offloadMessages bufs ds readAt st ! j = (if readAt \<le> j \<and> j < readAt + length ds
    then readMessage (st (bufs ! j)) (ds ! (j - readAt)) else blankMessage (st (bufs ! j)))"
  using assms by (auto simp: offloadMessages_def nth_append)

lemma offloadMessages_length: "readAt + length ds \<le> length bufs \<Longrightarrow> length (offloadMessages bufs ds readAt st) = length bufs"
  by (simp add: offloadMessages_def)

lemma offload_buffer:
  "slice_ok (Buffer (readMessage b d))" "slen (Buffer (readMessage b d)) = length b"
  "slice_ok (Buffer (blankMessage b))" "slen (Buffer (blankMessage b)) = length b"
  by (simp_all add: readMessage_def blankMessage_def slice_ok_def capacity_def)

lemma readMessage_joined:
  assumes "getGSO (dg_oob d) = Inr g" "g \<le> length (dg_data d)" "dg_data d \<noteq> []" "length (dg_data d) \<le> length b"
  shows "joined getGSO (g, dg_data d, dg_from d) (readMessage b d)"
  using assms by (simp add: joined_def readMessage_def capacity_def go_copy_def)

text \<open>The joined datagrams of a batch become the messages from the first on, one for each datagram sent.\<close>

lemma offload_split:
  fixes getGSO :: "bytes \<Rightarrow> control_error + nat"
  defines "ys \<equiv> \<lambda>ds. concat (map (sentDatagrams getGSO) ds)"
  assumes at: "readAt + length ds \<le> length bufs"
    and gso: "\<forall>d \<in> set ds. \<exists>g. getGSO (dg_oob d) = Inr g \<and> g \<le> length (dg_data d)"
    and fits: "\<forall>d \<in> set ds. dg_data d \<noteq> [] \<and> (\<forall>b \<in> set bufs. length (dg_data d) \<le> length (st b))"
    and room: "\<forall>k < length ds. length (ys (take (Suc k) ds)) \<le> Suc (readAt + k)"
  shows "\<exists>msgs. splitCoalescedMessages getGSO (offloadMessages bufs ds readAt st) readAt = Some (None, length (ys ds), msgs) \<and>
    length msgs = length bufs \<and> (\<forall>j < length (ys ds). msg_holds (fst (ys ds ! j)) (snd (ys ds ! j)) (msgs ! j))"
proof -
  let ?M = "offloadMessages bufs ds readAt st"
  define xs where "xs = map (\<lambda>d. (gsoOf getGSO d, dg_data d, dg_from d)) ds"
  have cp: "map cut_pieces (take k xs) = map (sentDatagrams getGSO) (take k ds)" for k
    by (simp add: xs_def take_map cut_pieces_triple sentDatagrams_def)
  have lx: "length xs = length ds" by (simp add: xs_def)
  have cps: "concat (map cut_pieces xs) = ys ds" by (simp add: xs_def ys_def comp_def cut_pieces_triple sentDatagrams_def [abs_def])
  have "\<exists>msgs'. splitLoop getGSO readAt 0 ?M = Some (None, 0 + length (concat (map cut_pieces xs)), msgs') \<and> length msgs' = length ?M \<and>
    (\<forall>j < length (concat (map cut_pieces xs)). msg_holds (fst (concat (map cut_pieces xs) ! j)) (snd (concat (map cut_pieces xs) ! j)) (msgs' ! (0 + j))) \<and>
    (\<forall>j < 0. j < length ?M \<longrightarrow> msgs' ! j = ?M ! j)"
  proof (rule splitLoop_ok)
    show "readAt + length xs = length ?M \<or> msgN (?M ! (readAt + length xs)) = 0"
      using at offloadMessages_nth [OF at, of "readAt + length ds" st]
      by (cases "readAt + length ds = length bufs") (auto simp: xs_def offloadMessages_length blankMessage_def)
    show "\<forall>k < length xs. joined getGSO (xs ! k) (?M ! (readAt + k))"
    proof (intro allI impI)
      fix k assume "k < length xs"
      then have k: "k < length ds" "ds ! k \<in> set ds" "bufs ! (readAt + k) \<in> set bufs" using at by (simp_all add: xs_def)
      obtain g where g: "getGSO (dg_oob (ds ! k)) = Inr g" "g \<le> length (dg_data (ds ! k))" using gso k(2) by blast
      show "joined getGSO (xs ! k) (?M ! (readAt + k))"
        using readMessage_joined [of getGSO "ds ! k" g "st (bufs ! (readAt + k))", OF g] fits k at g(1)
        by (simp add: xs_def gsoOf_def offloadMessages_nth [OF at])
    qed
    show "\<forall>k < length xs. 0 + length (concat (map cut_pieces (take (Suc k) xs))) \<le> Suc (readAt + k)"
      using room lx by (simp add: cp ys_def)
    show "\<forall>x \<in> set xs. \<forall>m \<in> set ?M. slice_ok (Buffer m) \<and> length (fst (snd x)) \<le> slen (Buffer m)"
    proof (intro ballI)
      fix x m assume x: "x \<in> set xs" and "m \<in> set ?M"
      then obtain j where "j < length bufs" "m = ?M ! j" by (metis at in_set_conv_nth offloadMessages_length)
      then show "slice_ok (Buffer m) \<and> length (fst (snd x)) \<le> slen (Buffer m)"
        using x fits by (auto simp: xs_def offloadMessages_nth [OF at] offload_buffer)
    qed
  qed (use at in \<open>simp add: xs_def offloadMessages_length\<close>)
  then show ?thesis unfolding splitCoalescedMessages_def cps using offloadMessages_length [OF at, of st] by auto
qed

text \<open>
  Receive offload changes nothing for the caller: the kernel's joined datagrams come out of \<open>receiveIP\<close> as the datagrams
  that were sent, in order, each with its sender, less the STUN packets.
\<close>

lemma receive_offload_exact:
  fixes getGSO :: "bytes \<Rightarrow> control_error + nat"
  defines "ys \<equiv> \<lambda>ds. concat (map (sentDatagrams getGSO) ds)"
  assumes "distinct bufs" "length bufs \<le> length sizes" "length bufs \<le> length eps"
    and "2 \<le> length bufs" "length ds \<le> 2"
    and gso: "\<forall>d \<in> set ds. \<exists>g. getGSO (dg_oob d) = Inr g \<and> g \<le> length (dg_data d)"
    and fits: "\<forall>d \<in> set ds. dg_from d \<noteq> None \<and> dg_data d \<noteq> [] \<and> (\<forall>b \<in> set bufs. length (dg_data d) \<le> length (st b))"
    and room: "\<forall>k < length ds. length (ys (take (Suc k) ds)) \<le> length bufs - 1 + k"
    and src: "\<forall>c e. sender (Some (getSrc c e)) = sender (Some e)"
  shows "\<exists>s. receiveIP_offload getGSO onStun getSrc ds bufs sizes eps st = Some (Inr s) \<and>
    map (\<lambda>(p, e). (p, sender e)) (devicePackets (rs_bufs s) s) = filter wanted (ys ds)"
proof -
  define readAt where "readAt = length bufs - 2"
  have rA: "length bufs - IdealBatchSize div udpSegmentMaxDatagrams = readAt"
    by (simp add: readAt_def IdealBatchSize_def udpSegmentMaxDatagrams_def)
  have at: "readAt + length ds \<le> length bufs" using assms(5,6) by (simp add: readAt_def)
  have "\<forall>k < length ds. length (ys (take (Suc k) ds)) \<le> Suc (readAt + k)" using room assms(5) by (auto simp: readAt_def)
  then obtain msgs where m: "splitCoalescedMessages getGSO (offloadMessages bufs ds readAt st) readAt = Some (None, length (ys ds), msgs)"
      "length msgs = length bufs" "\<forall>j < length (ys ds). msg_holds (fst (ys ds ! j)) (snd (ys ds ! j)) (msgs ! j)"
    using offload_split [OF at gso, of st] fits unfolding ys_def by blast
  define S where "S = storeAll bufs msgs st"
  define rest where "rest = take (length (ys ds)) (splitMessages bufs msgs)"
  have N: "length (ys ds) \<le> length bufs"
  proof (cases "ds = []")
    case False
    then have "length ds - 1 < length ds" "Suc (length ds - 1) = length ds" by simp_all
    then show ?thesis using room [rule_format, of "length ds - 1"] assms(5,6) by simp
  qed (simp add: ys_def)
  have rest: "length rest = length (ys ds)" using N m(2) by (simp add: rest_def splitMessages_def)
  have nth: "rm_buf (rest ! j) = bufs ! j" "rm_addr (rest ! j) = snd (ys ds ! j)" "rm_N (rest ! j) = length (fst (ys ds ! j))"
      "take (length (fst (ys ds ! j))) (S (bufs ! j)) = fst (ys ds ! j)" if "j < length (ys ds)" for j
    using that N m(2) m(3) storeAll_nth [OF assms(2), of j msgs st]
    by (simp_all add: rest_def splitMessages_def msg_holds_def S_def)
  have org: "snd y \<noteq> None" if "y \<in> set (ys ds)" for y using that fits by (auto simp: ys_def sentDatagrams_def)
  have addr: "rm_addr m \<noteq> None" if "m \<in> set rest" for m using that org rest nth(2) by (metis in_set_conv_nth)
  have "\<exists>s'. receiveMsgs onStun getSrc (length ([] :: rmsg list)) rest
      \<lparr>rs_bufs = bufs, rs_sizes = sizes, rs_eps = eps, rs_store = S, rs_stun = [], writeIdx = 0\<rparr> = Some s' \<and>
    recv_inv onStun getSrc bufs sizes eps S ([] @ rest) s'"
    using assms(3,4) N rest nth(1) addr by (intro receiveMsgs_ok) (auto simp: recv_inv_def)
  then obtain s where s: "receiveMsgs onStun getSrc 0 rest
      \<lparr>rs_bufs = bufs, rs_sizes = sizes, rs_eps = eps, rs_store = S, rs_stun = [], writeIdx = 0\<rparr> = Some s"
      "recv_inv onStun getSrc bufs sizes eps S rest s" by auto
  have run: "receiveIP_offload getGSO onStun getSrc ds bufs sizes eps st = Some (Inr s)"
    using m(1) s(1) by (simp add: receiveIP_offload_def rA S_def rest_def Let_def)
  have "map (\<lambda>m. (take (rm_N m) (S (rm_buf m)), sender (newEndpoint getSrc m))) (filter (kept S) rest) = filter wanted (ys ds)"
  proof (rule map_filter_pointwise [OF rest]; intro allI impI)
    fix j assume j: "j < length (ys ds)"
    have "isStun (S (bufs ! j)) (length (fst (ys ds ! j))) = isStun (fst (ys ds ! j)) (length (fst (ys ds ! j)))"
      using isStun_prefix [of "fst (ys ds ! j)" "drop (length (fst (ys ds ! j))) (S (bufs ! j))"] nth(4) [OF j]
      by (metis append_take_drop_id)
    then show "kept S (rest ! j) = wanted (ys ds ! j)" by (simp add: kept_def wanted_def nth [OF j])
    obtain a z p where a: "snd (ys ds ! j) = Some (a, z, p)" using org [of "ys ds ! j"] j by (metis not_None_eq nth_mem surj_pair)
    then show "(take (rm_N (rest ! j)) (S (rm_buf (rest ! j))), sender (newEndpoint getSrc (rest ! j))) = ys ds ! j"
      using src by (simp add: nth [OF j] newEndpoint_def prod_eq_iff) (simp add: sender_def)
  qed
  then show ?thesis using run devicePackets_front [OF s(2), of "rs_bufs s"] by (auto simp: comp_def)
qed

end
