(* ===== verification/Netip.thy ===== *)
theory Netip
  imports Allowed_IPs Noise_Types "HOL-Library.Char_ord"
begin

text \<open>
  The text functions of the Go standard library that the configuration protocol uses: decimal
  numbers, \<open>strings.Cut\<close>, the lines of a \<open>bufio.Scanner\<close>, and the parsing and printing of addresses
  and prefixes of \<open>net/netip\<close>.  \<open>None\<close> is an error.
\<close>

subsection \<open>Numbers\<close>

fun decimal :: "string \<Rightarrow> nat \<Rightarrow> nat option" where
  "decimal [] n = Some n" |
  "decimal (c # s) n =
     (if 48 \<le> (of_char c :: nat) \<and> (of_char c :: nat) \<le> 57 then decimal s (10 * n + (of_char c - 48)) else None)"

definition ParseUint :: "string \<Rightarrow> nat \<Rightarrow> nat option" where
  "ParseUint s bitSize =
     (if s = [] then None
      else case decimal s 0 of None \<Rightarrow> None | Some n \<Rightarrow> if n < 2 ^ bitSize then Some n else None)"

fun digits :: "nat \<Rightarrow> string" where
  "digits n = (if n < 10 then [char_of (48 + n)] else digits (n div 10) @ [char_of (48 + n mod 10)])"

declare digits.simps [simp del]

text \<open>\<open>fmt\<close>'s \<open>%d\<close> of an integer.\<close>

definition show_int :: "int \<Rightarrow> string" where
  "show_int i = (if i < 0 then CHR ''-'' # digits (nat (- i)) else digits (nat i))"

subsection \<open>Splitting\<close>

fun Cut :: "char \<Rightarrow> string \<Rightarrow> (string \<times> string) option" where
  "Cut sep [] = None" |
  "Cut sep (c # s) =
     (if c = sep then Some ([], s) else case Cut sep s of None \<Rightarrow> None | Some (a, b) \<Rightarrow> Some (c # a, b))"

definition CutLast :: "char \<Rightarrow> string \<Rightarrow> (string \<times> string) option" where
  "CutLast sep s = (case Cut sep (rev s) of None \<Rightarrow> None | Some (b, a) \<Rightarrow> Some (rev a, rev b))"

fun Split :: "char \<Rightarrow> string \<Rightarrow> string list" where
  "Split sep [] = [[]]" |
  "Split sep (c # s) =
     (if c = sep then [] # Split sep s else case Split sep s of t # ts \<Rightarrow> (c # t) # ts | [] \<Rightarrow> [[c]])"

text \<open>The lines of a scanner: a carriage return at the end of a line is dropped, an empty rest after
  the last newline is not a line.\<close>

definition dropCR :: "string \<Rightarrow> string" where
  "dropCR line = (if line \<noteq> [] \<and> last line = CHR 0x0D then butlast line else line)"

definition scanLines :: "string \<Rightarrow> string list" where
  "scanLines input =
     (let ls = Split CHR 0x0A input
      in if last ls = [] then butlast ls else ls)"

subsection \<open>Addresses\<close>

definition octet :: "string \<Rightarrow> byte option" where
  "octet s =
     (if s = [] then None
      else if length s > 1 \<and> hd s = CHR ''0'' then None
      else case decimal s 0 of None \<Rightarrow> None | Some n \<Rightarrow> if n \<le> 255 then Some (word_of_nat n) else None)"

definition parseIPv4 :: "string \<Rightarrow> bytes option" where
  "parseIPv4 s =
     (case map octet (Split CHR ''.'' s) of
        [Some a, Some b, Some c, Some d] \<Rightarrow> Some [a, b, c, d]
      | _ \<Rightarrow> None)"

definition isHex :: "char \<Rightarrow> bool" where
  "isHex c \<longleftrightarrow> fromHexChar c \<noteq> None"

definition hexGroup :: "string \<Rightarrow> nat" where
  "hexGroup s = foldl (\<lambda>n c. 16 * n + (case fromHexChar c of Some v \<Rightarrow> unat v | None \<Rightarrow> 0)) 0 s"

text \<open>The loop of \<open>parseIPv6\<close>: the bytes so far and where the ellipsis stands; the result also has the
  text that is left.\<close>

function groups6 :: "string \<Rightarrow> bytes \<Rightarrow> nat option \<Rightarrow> (string \<times> bytes \<times> nat option) option" where
  "groups6 s ip ellipsis =
     (if length ip \<ge> 16 then Some (s, ip, ellipsis)
      else
        let run = takeWhile isHex s;
            more = dropWhile isHex s
        in if length run > 4 then None
           else if run = [] then None
           else if more \<noteq> [] \<and> hd more = CHR ''.'' then
             if ellipsis = None \<and> length ip \<noteq> 12 then None
             else if length ip + 4 > 16 then None
             else (case parseIPv4 s of None \<Rightarrow> None | Some b \<Rightarrow> Some ([], ip @ b, ellipsis))
           else
             let acc = hexGroup run;
                 ip' = ip @ [word_of_nat (acc div 256), word_of_nat acc]
             in case more of
                  [] \<Rightarrow> Some ([], ip', ellipsis)
                | c # s' \<Rightarrow>
                    if c \<noteq> CHR '':'' then None
                    else if s' = [] then None
                    else if hd s' = CHR '':'' then
                      if ellipsis \<noteq> None then None
                      else if tl s' = [] then Some ([], ip', Some (length ip'))
                      else groups6 (tl s') ip' (Some (length ip'))
                    else groups6 s' ip' ellipsis)"
  by pat_completeness auto
termination
  by (relation "measure (\<lambda>(s, ip, ellipsis). 16 - length ip)") auto

declare groups6.simps [simp del]

definition parseIPv6 :: "string \<Rightarrow> (bytes \<times> string) option" where
  "parseIPv6 s =
     (case (case Cut CHR ''%'' s of None \<Rightarrow> Some (s, []) | Some (a, zone) \<Rightarrow> if zone = [] then None else Some (a, zone)) of
        None \<Rightarrow> None
      | Some (s, zone) \<Rightarrow>
          let lead = (take 2 s = ''::'');
              s = (if lead then drop 2 s else s)
          in if lead \<and> s = [] then Some (replicate 16 0, zone)
             else case groups6 s [] (if lead then Some 0 else None) of
                 None \<Rightarrow> None
               | Some (left, ip, ellipsis) \<Rightarrow>
                   if left \<noteq> [] then None
                   else if length ip < 16 then
                     (case ellipsis of
                        None \<Rightarrow> None
                      | Some j \<Rightarrow> Some (take j ip @ replicate (16 - length ip) 0 @ drop j ip, zone))
                   else if ellipsis \<noteq> None then None
                   else Some (ip, zone))"

definition ParseAddr :: "string \<Rightarrow> (addr \<times> string) option" where
  "ParseAddr s =
     (case dropWhile (\<lambda>c. c \<notin> set ''.:%'') s of
        [] \<Rightarrow> None
      | c # _ \<Rightarrow>
          if c = CHR ''.'' then (case parseIPv4 s of None \<Rightarrow> None | Some b \<Rightarrow> Some (Addr4 b, []))
          else if c = CHR '':'' then (case parseIPv6 s of None \<Rightarrow> None | Some (b, zone) \<Rightarrow> Some (Addr6 b, zone))
          else None)"

definition ParsePrefix :: "string \<Rightarrow> prefix option" where
  "ParsePrefix s =
     (case CutLast CHR ''/'' s of
        None \<Rightarrow> None
      | Some (a, bits) \<Rightarrow>
          (case ParseAddr a of
             None \<Rightarrow> None
           | Some (ip, zone) \<Rightarrow>
               if zone \<noteq> [] then None
               else if length bits > 1 \<and> (hd bits < CHR ''1'' \<or> CHR ''9'' < hd bits) then None
               else if bits = [] then None
               else case decimal bits 0 of
                   None \<Rightarrow> None
                 | Some n \<Rightarrow> if n \<le> (case ip of Addr4 _ \<Rightarrow> 32 | _ \<Rightarrow> 128) then Some (ip, int n) else None))"

text \<open>The address, its zone and the port.\<close>

definition ParseAddrPort :: "string \<Rightarrow> (addr \<times> string \<times> u16) option" where
  "ParseAddrPort s =
     (case CutLast CHR '':'' s of
        None \<Rightarrow> None
      | Some (ip, port) \<Rightarrow>
          if ip = [] \<or> port = [] then None
          else
            let v6 = (hd ip = CHR ''['')
            in if v6 \<and> (length ip < 2 \<or> last ip \<noteq> CHR '']'') then None
               else
                 let ip = (if v6 then butlast (tl ip) else ip)
                 in case ParseUint port 16 of
                      None \<Rightarrow> None
                    | Some n \<Rightarrow>
                        (case ParseAddr ip of
                           None \<Rightarrow> None
                         | Some (Addr4 b, zone) \<Rightarrow> if v6 then None else Some (Addr4 b, zone, word_of_nat n)
                         | Some (a, zone) \<Rightarrow> if \<not> v6 then None else Some (a, zone, word_of_nat n)))"

subsection \<open>Printing\<close>

definition show4 :: "bytes \<Rightarrow> string" where
  "show4 b = digits (unat (b ! 0)) @ ''.'' @ digits (unat (b ! 1)) @ ''.'' @ digits (unat (b ! 2)) @ ''.'' @
     digits (unat (b ! 3))"

fun hexNat :: "nat \<Rightarrow> string" where
  "hexNat n = (if n < 16 then [hexDigits ! n] else hexNat (n div 16) @ [hexDigits ! (n mod 16)])"

declare hexNat.simps [simp del]

definition group :: "bytes \<Rightarrow> nat \<Rightarrow> nat" where
  "group b i = 256 * unat (b ! (2 * i)) + unat (b ! (2 * i + 1))"

text \<open>The first longest run of at least two zero groups, as \<open>appendTo6\<close> finds it.\<close>

definition zeroRun :: "bytes \<Rightarrow> nat \<times> nat" where
  "zeroRun b = fold (\<lambda>i (zs, ze).
     let j = i + length (takeWhile (\<lambda>k. group b k = 0) [i..<8])
     in if j - i \<ge> 2 \<and> j - i > ze - zs then (i, j) else (zs, ze)) [0..<8] (255, 255)"

definition show6 :: "bytes \<Rightarrow> string" where
  "show6 b =
     (let (zs, ze) = zeroRun b
      in concat (map (\<lambda>i.
           if i = zs then ''::''
           else if zs < i \<and> i < ze then []
           else (if i > 0 \<and> i \<noteq> ze then '':'' else []) @ hexNat (group b i)) [0..<8]))"

definition is4In6 :: "bytes \<Rightarrow> bool" where
  "is4In6 b \<longleftrightarrow> take 12 b = replicate 10 0 @ [255, 255]"

definition showAddr :: "addr \<Rightarrow> string \<Rightarrow> string" where
  "showAddr a zone =
     (case a of
        Addr_invalid \<Rightarrow> ''invalid IP''
      | Addr4 b \<Rightarrow> show4 b
      | Addr6 b \<Rightarrow> (if is4In6 b then ''::ffff:'' @ show4 (drop 12 b) else show6 b) @
                   (if zone = [] then [] else CHR ''%'' # zone))"

definition showPrefix :: "prefix \<Rightarrow> string" where
  "showPrefix pfx = showAddr (fst pfx) [] @ ''/'' @ show_int (snd pfx)"

definition showAddrPort :: "addr \<Rightarrow> string \<Rightarrow> u16 \<Rightarrow> string" where
  "showAddrPort a zone port =
     (case a of
        Addr_invalid \<Rightarrow> ''invalid AddrPort''
      | Addr4 b \<Rightarrow> show4 b @ '':'' @ digits (unat port)
      | Addr6 b \<Rightarrow> ''['' @ showAddr a zone @ '']:'' @ digits (unat port))"

subsection \<open>Reading what was printed\<close>

lemma decimal_append: "decimal (s @ t) n = (case decimal s n of None \<Rightarrow> None | Some m \<Rightarrow> decimal t m)"
  by (induction s n rule: decimal.induct) simp_all

lemma of_char_digit [simp]: "k < 10 \<Longrightarrow> of_char (char_of (48 + k :: nat) :: char) = 48 + k"
  by (simp add: of_char_of)

lemma decimal_digits [simp]: "decimal (digits n) 0 = Some n"
proof (induction n rule: digits.induct)
  case (1 n)
  show ?case
  proof (cases "n < 10")
    case True
    then show ?thesis by (subst digits.simps) (simp del: of_char_of)
  next
    case False
    have "n mod 10 < 10" by simp
    then show ?thesis using 1 False by (subst digits.simps) (simp add: decimal_append del: of_char_of)
  qed
qed

lemma digits_nonempty [simp]: "digits n \<noteq> []"
  by (subst digits.simps) simp

lemma digits_range: "c \<in> set (digits n) \<Longrightarrow> 48 \<le> (of_char c :: nat) \<and> (of_char c :: nat) \<le> 57"
proof (induction n rule: digits.induct)
  case (1 n)
  have "n mod 10 < 10" by simp
  show ?case
  proof (cases "n < 10")
    case True
    then show ?thesis using 1(2) by (subst (asm) digits.simps) (auto simp del: of_char_of)
  next
    case False
    then show ?thesis using 1 \<open>n mod 10 < 10\<close> by (subst (asm) (2) digits.simps) (auto simp del: of_char_of)
  qed
qed

lemma digits_hd: "0 < n \<Longrightarrow> 49 \<le> (of_char (hd (digits n)) :: nat)"
proof (induction n rule: digits.induct)
  case (1 n)
  then show ?case by (subst digits.simps) (auto simp: hd_append simp del: of_char_of)
qed

lemma digits_not_in:
  "CHR ''.'' \<notin> set (digits n)" "CHR ''/'' \<notin> set (digits n)" "CHR '':'' \<notin> set (digits n)" "CHR ''%'' \<notin> set (digits n)"
  "CHR ''['' \<notin> set (digits n)"
  using digits_range [of "CHR ''.''" n] digits_range [of "CHR ''/''" n] digits_range [of "CHR '':''" n]
    digits_range [of "CHR ''%''" n] digits_range [of "CHR ''[''" n] by auto

lemma octet_digits: "n \<le> 255 \<Longrightarrow> octet (digits n) = Some (word_of_nat n)"
proof -
  assume n: "n \<le> 255"
  have "\<not> (length (digits n) > 1 \<and> hd (digits n) = CHR ''0'')"
  proof
    assume "length (digits n) > 1 \<and> hd (digits n) = CHR ''0''"
    moreover from this have "0 < n" by (subst (asm) digits.simps) (auto split: if_splits)
    ultimately show False using digits_hd [of n] by simp
  qed
  then show ?thesis using n by (auto simp: octet_def)
qed

lemma Split_append: "sep \<notin> set a \<Longrightarrow> Split sep (a @ sep # b) = a # Split sep b"
  by (induction a) auto

lemma Split_none: "sep \<notin> set a \<Longrightarrow> Split sep a = [a]"
  by (induction a) auto

lemma parseIPv4_show4: "length b = 4 \<Longrightarrow> parseIPv4 (show4 b) = Some b"
proof -
  assume "length b = 4"
  then obtain x y z w where b: "b = [x, y, z, w]"
    by (auto simp: numeral_eq_Suc length_Suc_conv)
  have le: "unat v \<le> 255" for v :: byte using unsigned_less [of v, where ?'a = nat] by (simp add: less_Suc_eq_le [symmetric] del: less_Suc_eq_le)
  show ?thesis
    by (simp add: b parseIPv4_def show4_def Split_append Split_none digits_not_in octet_digits le)
qed

lemma Cut_append: "sep \<notin> set a \<Longrightarrow> Cut sep (a @ sep # b) = Some (a, b)"
  by (induction a) auto

lemma CutLast_append: "sep \<notin> set b \<Longrightarrow> CutLast sep (a @ sep # b) = Some (a, b)"
  using Cut_append [of sep "rev b" "rev a"] by (simp add: CutLast_def)

lemma ParseAddr_show4: "length b = 4 \<Longrightarrow> ParseAddr (show4 b) = Some (Addr4 b, [])"
proof -
  assume b: "length b = 4"
  have "dropWhile (\<lambda>c. c \<notin> set ''.:%'') (digits n @ CHR ''.'' # r) = CHR ''.'' # r" for n r
    using digits_not_in [of n] by (subst dropWhile_append2) auto
  then have "\<exists>r. dropWhile (\<lambda>c. c \<notin> set ''.:%'') (show4 b) = CHR ''.'' # r"
    unfolding show4_def by (metis append_Cons append_Nil append_assoc)
  then show ?thesis using parseIPv4_show4 [OF b] by (auto simp: ParseAddr_def)
qed

subsection \<open>What is parsed is well formed\<close>

lemma parseIPv4_length: "parseIPv4 s = Some b \<Longrightarrow> length b = 4"
  by (auto simp: parseIPv4_def split: list.splits option.splits)

lemma groups6_step:
  assumes "groups6 s ip ell = Some (left, ip', ell')" "length ip < 16"
  obtains (v4) b where "ip' = ip @ b" "length b = 4" "length ip + 4 \<le> 16" "ell' = ell"
  | (stop) a b where "ip' = ip @ [a, b]" "ell' = ell \<or> ell' = Some (length ip + 2)"
  | (more) t a b e where "groups6 t (ip @ [a, b]) e = Some (left, ip', ell')" "e = ell \<or> e = Some (length ip + 2)"
proof -
  define run where "run = takeWhile isHex s"
  define rem where "rem = dropWhile isHex s"
  note r = assms(1) [unfolded groups6.simps [of s ip ell] Let_def, folded run_def rem_def]
  show thesis
  proof (cases "rem \<noteq> [] \<and> hd rem = CHR ''.''")
    case True
    then show ?thesis using r assms(2)
      by (intro v4 [of "drop (length ip) ip'"]) (auto split: if_splits option.splits dest!: parseIPv4_length)
  next
    case False
    then show ?thesis using r assms(2) stop more by (cases rem) (auto split: if_splits)
  qed
qed

lemma groups6_shape:
  "groups6 s ip ell = Some (left, ip', ell') \<Longrightarrow> even (length ip) \<Longrightarrow> length ip \<le> 16 \<Longrightarrow>
   (\<forall>j. ell = Some j \<longrightarrow> j \<le> length ip) \<Longrightarrow>
   length ip' \<le> 16 \<and> (\<forall>j. ell' = Some j \<longrightarrow> j \<le> length ip')"
proof (induction "16 - length ip" arbitrary: s ip ell rule: less_induct)
  case less
  show ?case
  proof (cases "length ip < 16")
    case False
    then show ?thesis using less.prems by (subst (asm) groups6.simps) auto
  next
    case True
    then have l2: "length ip + 2 \<le> 16" using less.prems(2) by presburger
    show ?thesis
      using less.prems(1) True
    proof (cases rule: groups6_step)
      case (more t a b e)
      show ?thesis by (rule less.hyps [OF _ more(1)]) (use True l2 less.prems more(2) in auto)
    qed (use l2 less.prems in auto)
  qed
qed

lemma parseIPv6_length: "parseIPv6 s = Some (b, zone) \<Longrightarrow> length b = 16"
  unfolding parseIPv6_def Let_def
  by (auto split: option.splits if_splits prod.splits dest!: groups6_shape)

text \<open>
  IPv4 prefixes and endpoints survive their text: what \<open>IpcGetOperation\<close> prints for an allowed IP or an
  endpoint with an IPv4 address, \<open>handlePeerLine\<close> parses back to the same prefix, or the same address and port.
\<close>

lemma ipv4_text_roundtrip:
  assumes "length b = 4" "n \<le> 32"
  shows "ParsePrefix (showPrefix (Addr4 b, int n)) = Some (Addr4 b, int n) \<and>
    ParseAddrPort (showAddrPort (Addr4 b) [] port) = Some (Addr4 b, [], port)"
proof
  have "\<not> (length (digits n) > 1 \<and> (hd (digits n) < CHR ''1'' \<or> CHR ''9'' < hd (digits n)))"
  proof
    assume a: "length (digits n) > 1 \<and> (hd (digits n) < CHR ''1'' \<or> CHR ''9'' < hd (digits n))"
    then have "0 < n" by (subst (asm) digits.simps) (auto split: if_splits)
    then show False using a digits_hd [of n] digits_range [of "hd (digits n)" n] by (auto simp: less_char_def)
  qed
  then show "ParsePrefix (showPrefix (Addr4 b, int n)) = Some (Addr4 b, int n)"
    using assms CutLast_append [of "CHR ''/''" "digits n" "show4 b"] ParseAddr_show4 [OF assms(1)]
    by (auto simp: ParsePrefix_def showPrefix_def showAddr_def show_int_def digits_not_in)
  have "hd (show4 b) \<noteq> CHR ''[''" "show4 b \<noteq> []"
    using digits_not_in(5) [of "unat (b ! 0)"] hd_in_set [OF digits_nonempty, of "unat (b ! 0)"]
    by (metis (no_types) append_is_Nil_conv digits_nonempty hd_append2 show4_def)+
  moreover have "ParseUint (digits (unat port)) 16 = Some (unat port)"
    using unsigned_less [of port, where ?'a = nat] by (simp add: ParseUint_def)
  ultimately show "ParseAddrPort (showAddrPort (Addr4 b) [] port) = Some (Addr4 b, [], port)"
    using CutLast_append [of "CHR '':''" "digits (unat port)" "show4 b"] ParseAddr_show4 [OF assms(1)]
    by (simp add: ParseAddrPort_def showAddrPort_def digits_not_in)
qed

end
