(* ===== verification/Win_Bind.thy ===== *)
theory Win_Bind
  imports Device_State Netip "HOL-Library.Monad_Syntax"
begin

text \<open>
  conn/bind_windows.go: the bind on registered I/O.  A ring is an array of packets of which the kernel has those between \<open>head\<close>
  and \<open>tail\<close>, both 32-bit counters that wrap.  What Windows answers (handles, completions, errors) is a parameter of each
  operation; a panic is \<open>None\<close>.  A packet of a ring is named by its number in the array.
\<close>

subsection \<open>Rings\<close>

definition packetsPerRing :: nat where "packetsPerRing = 1024"
definition bytesPerPacket :: nat where "bytesPerPacket = 2048 - 32"
definition receiveSpins :: nat where "receiveSpins = 15"

record WinRingEndpoint =
  family :: u16
  we_data :: bytes

record ringPacket =
  rp_addr :: WinRingEndpoint
  rp_data :: bytes

record ringBuffer =
  rb_packets :: nat
  rb_head :: u32
  rb_tail :: u32
  rb_id :: nat
  rb_iocp :: nat
  rb_isFull :: bool
  rb_cq :: nat
  rb_mem :: "nat \<Rightarrow> ringPacket"

definition ring_Push :: "ringBuffer \<Rightarrow> (nat \<times> ringBuffer) option" where
  "ring_Push rb =
     (if rb_isFull rb then None
      else let ret = unat (rb_tail rb mod 1024); rb = rb\<lparr>rb_tail := rb_tail rb + 1\<rparr> in
        Some (ret, if rb_tail rb mod 1024 = rb_head rb mod 1024 then rb\<lparr>rb_isFull := True\<rparr> else rb))"

definition ring_Return :: "u32 \<Rightarrow> ringBuffer \<Rightarrow> ringBuffer" where
  "ring_Return c rb =
     (if rb_head rb mod 1024 = rb_tail rb mod 1024 \<and> \<not> rb_isFull rb then rb
      else rb\<lparr>rb_head := rb_head rb + c, rb_isFull := False\<rparr>)"

subsection \<open>Endpoints\<close>

definition AF_INET :: u16 where "AF_INET = 2"
definition AF_INET6 :: u16 where "AF_INET6 = 23"

text \<open>A \<open>sockaddr\<close> after its family: port in network order, then for IPv4 the address, for IPv6 flow, address and scope.\<close>

definition we_port :: "WinRingEndpoint \<Rightarrow> u16" where
  "we_port e = word_of_nat (be_nat (slice 0 2 (we_data e)))"

definition win_DstIP :: "WinRingEndpoint \<Rightarrow> addr" where
  "win_DstIP e =
     (if family e = AF_INET then Addr4 (slice 2 6 (we_data e))
      else if family e = AF_INET6 then Addr6 (slice 6 22 (we_data e)) else Addr_invalid)"

definition win_DstToBytes :: "WinRingEndpoint \<Rightarrow> bytes" where
  "win_DstToBytes e =
     (if family e = AF_INET then slice 2 6 (we_data e) @ [we_data e ! 1, we_data e ! 0]
      else if family e = AF_INET6 then slice 6 22 (we_data e) @ [we_data e ! 1, we_data e ! 0] else [])"

definition win_DstToString :: "WinRingEndpoint \<Rightarrow> string" where
  "win_DstToString e =
     (if family e = AF_INET then showAddrPort (Addr4 (slice 2 6 (we_data e))) [] (we_port e)
      else if family e = AF_INET6 then
        let scope = le_nat (slice 22 26 (we_data e)) in
        showAddrPort (Addr6 (slice 6 22 (we_data e))) (if scope > 0 then digits scope else []) (we_port e)
      else [])"

subsection \<open>Opening and closing\<close>

datatype win_error = WinErrClosed | WinErrShortBuffer | WinErrNoProgress | WinErrBindAlreadyOpen | WinErrWrongEndpointType | WinErrno nat

datatype handle = HCq nat | HIocp nat | HBuffer nat | HMemory nat | HSock nat

record afWinRingBind =
  af_sock :: nat
  af_rx :: ringBuffer
  af_tx :: ringBuffer
  af_rq :: nat
  af_blackhole :: bool

record WinRingBind =
  win_v4 :: afWinRingBind
  win_v6 :: afWinRingBind
  win_isOpen :: nat

definition zero_packet :: ringPacket where
  "zero_packet = \<lparr>rp_addr = \<lparr>family = 0, we_data = replicate 30 0\<rparr>, rp_data = replicate bytesPerPacket 0\<rparr>"

definition zero_ring :: ringBuffer where
  "zero_ring = \<lparr>rb_packets = 0, rb_head = 0, rb_tail = 0, rb_id = 0, rb_iocp = 0, rb_isFull = False, rb_cq = 0, rb_mem = (\<lambda>_. zero_packet)\<rparr>"

definition zero_af :: afWinRingBind where
  "zero_af = \<lparr>af_sock = 0, af_rx = zero_ring, af_tx = zero_ring, af_rq = 0, af_blackhole = False\<rparr>"

definition NewWinRingBind :: WinRingBind where
  "NewWinRingBind = \<lparr>win_v4 = zero_af, win_v6 = zero_af, win_isOpen = 0\<rparr>"

text \<open>\<open>CloseAndZero\<close> of a ring and of a socket, with the handles given back to Windows.\<close>

definition release :: "(nat \<Rightarrow> handle) \<Rightarrow> nat \<Rightarrow> handle list" where
  "release mk x = (if x \<noteq> 0 then [mk x] else [])"

definition ring_CloseAndZero :: "ringBuffer \<Rightarrow> handle list \<times> ringBuffer" where
  "ring_CloseAndZero rb =
     (release HCq (rb_cq rb) @ release HIocp (rb_iocp rb) @ release HBuffer (rb_id rb) @ release HMemory (rb_packets rb),
      rb\<lparr>rb_cq := 0, rb_iocp := 0, rb_id := 0, rb_packets := 0, rb_head := 0, rb_tail := 0, rb_isFull := False\<rparr>)"

definition af_CloseAndZero :: "afWinRingBind \<Rightarrow> handle list \<times> afWinRingBind" where
  "af_CloseAndZero af =
     (let (hs1, rx) = ring_CloseAndZero (af_rx af); (hs2, tx) = ring_CloseAndZero (af_tx af) in
      (hs1 @ hs2 @ release HSock (af_sock af), af\<lparr>af_rx := rx, af_tx := tx, af_sock := 0, af_blackhole := False\<rparr>))"

definition closeAndZero :: "WinRingBind \<Rightarrow> handle list \<times> WinRingBind" where
  "closeAndZero b =
     (let (hs1, v4) = af_CloseAndZero (win_v4 b); (hs2, v6) = af_CloseAndZero (win_v6 b) in
      (hs1 @ hs2, b\<lparr>win_isOpen := 0, win_v4 := v4, win_v6 := v6\<rparr>))"

record ring_answers =
  ra_packets :: "win_error + nat"
  ra_id :: "win_error + nat"
  ra_iocp :: "win_error + nat"
  ra_cq :: "win_error + nat"

record af_answers =
  aa_sock :: "nat \<times> win_error option"
  aa_rx :: ring_answers
  aa_tx :: ring_answers
  aa_rq :: "win_error + nat"
  aa_bind :: "win_error option"
  aa_name :: "win_error + u16"
  aa_insert :: "nat \<Rightarrow> win_error option"

text \<open>Go assigns the value returned beside an error too: 0.\<close>

definition handle_of :: "win_error + nat \<Rightarrow> nat" where
  "handle_of r = (case r of Inl _ \<Rightarrow> 0 | Inr h \<Rightarrow> h)"

definition error_of :: "win_error + 'a \<Rightarrow> win_error option" where
  "error_of r = (case r of Inl e \<Rightarrow> Some e | Inr _ \<Rightarrow> None)"

definition ring_Open :: "ring_answers \<Rightarrow> ringBuffer \<Rightarrow> win_error option \<times> ringBuffer" where
  "ring_Open a rb =
     (let rb = rb\<lparr>rb_packets := handle_of (ra_packets a), rb_mem := (\<lambda>_. zero_packet)\<rparr> in
      if error_of (ra_packets a) \<noteq> None then (error_of (ra_packets a), rb)
      else let rb = rb\<lparr>rb_id := handle_of (ra_id a)\<rparr> in
      if error_of (ra_id a) \<noteq> None then (error_of (ra_id a), rb)
      else let rb = rb\<lparr>rb_iocp := handle_of (ra_iocp a)\<rparr> in
      if error_of (ra_iocp a) \<noteq> None then (error_of (ra_iocp a), rb)
      else (error_of (ra_cq a), rb\<lparr>rb_cq := handle_of (ra_cq a)\<rparr>))"

text \<open>\<open>Open\<close> of one address family; the port asked for is part of what \<open>Bind\<close> and \<open>Getsockname\<close> answer.\<close>

definition af_Open :: "(u16 \<Rightarrow> af_answers) \<Rightarrow> u16 \<Rightarrow> afWinRingBind \<Rightarrow> (win_error + u16) \<times> afWinRingBind" where
  "af_Open as port af =
     (let a = as port; af = af\<lparr>af_sock := fst (aa_sock a)\<rparr> in
      case snd (aa_sock a) of Some e \<Rightarrow> (Inl e, af)
      | None \<Rightarrow> let (err, rx) = ring_Open (aa_rx a) (af_rx af); af = af\<lparr>af_rx := rx\<rparr> in
        case err of Some e \<Rightarrow> (Inl e, af)
        | None \<Rightarrow> let (err, tx) = ring_Open (aa_tx a) (af_tx af); af = af\<lparr>af_tx := tx\<rparr> in
          case err of Some e \<Rightarrow> (Inl e, af)
          | None \<Rightarrow> let af = af\<lparr>af_rq := handle_of (aa_rq a)\<rparr> in
            case aa_rq a of Inl e \<Rightarrow> (Inl e, af)
            | Inr _ \<Rightarrow> case aa_bind a of Some e \<Rightarrow> (Inl e, af)
              | None \<Rightarrow> (aa_name a, af))"

text \<open>Posting a receive: the packet pushed and the error of \<open>ReceiveEx\<close>.\<close>

definition InsertReceiveRequest :: "win_error option \<Rightarrow> afWinRingBind \<Rightarrow> (nat \<times> win_error option \<times> afWinRingBind) option" where
  "InsertReceiveRequest answer af = do {
     (packet, rx) \<leftarrow> ring_Push (af_rx af);
     Some (packet, answer, af\<lparr>af_rx := rx\<rparr>)}"

fun insertAll :: "(nat \<Rightarrow> win_error option) \<Rightarrow> (nat \<Rightarrow> win_error option) \<Rightarrow> nat \<Rightarrow> WinRingBind \<Rightarrow> (win_error option \<times> WinRingBind) option" where
  "insertAll a4 a6 0 b = Some (None, b)"
| "insertAll a4 a6 (Suc n) b = do {
     (_, err, v4) \<leftarrow> InsertReceiveRequest (a4 n) (win_v4 b);
     let b = b\<lparr>win_v4 := v4\<rparr>;
     if err \<noteq> None then Some (err, b)
     else do {
       (_, err, v6) \<leftarrow> InsertReceiveRequest (a6 n) (win_v6 b);
       let b = b\<lparr>win_v6 := v6\<rparr>;
       if err \<noteq> None then Some (err, b) else insertAll a4 a6 n b}}"

definition openSockets ::
    "(u16 \<Rightarrow> af_answers) \<Rightarrow> (u16 \<Rightarrow> af_answers) \<Rightarrow> u16 \<Rightarrow> WinRingBind \<Rightarrow> ((win_error + u16) \<times> WinRingBind) option" where
  "openSockets as4 as6 port b =
     (if win_isOpen b \<noteq> 0 then Some (Inl WinErrBindAlreadyOpen, b)
      else let (r4, v4) = af_Open as4 port (win_v4 b); b = b\<lparr>win_v4 := v4\<rparr> in
      case r4 of Inl e \<Rightarrow> Some (Inl e, b)
      | Inr port4 \<Rightarrow> let (r6, v6) = af_Open as6 port4 (win_v6 b); b = b\<lparr>win_v6 := v6\<rparr> in
        case r6 of Inl e \<Rightarrow> Some (Inl e, b)
        | Inr port6 \<Rightarrow> do {
            (err, b) \<leftarrow> insertAll (aa_insert (as4 port)) (aa_insert (as6 port4)) packetsPerRing b;
            case err of Some e \<Rightarrow> Some (Inl e, b) | None \<Rightarrow> Some (Inr port6, b\<lparr>win_isOpen := 1\<rparr>)})"

text \<open>\<open>Open\<close>, with the deferred function that closes everything when an error is returned.\<close>

definition win_Open ::
    "(u16 \<Rightarrow> af_answers) \<Rightarrow> (u16 \<Rightarrow> af_answers) \<Rightarrow> u16 \<Rightarrow> WinRingBind \<Rightarrow> (handle list \<times> (win_error + u16) \<times> WinRingBind) option" where
  "win_Open as4 as6 port b = do {
     (r, b) \<leftarrow> openSockets as4 as6 port b;
     case r of Inl e \<Rightarrow> (let (hs, b) = closeAndZero b in Some (hs, Inl e, b)) | Inr p \<Rightarrow> Some ([], Inr p, b)}"

text \<open>\<open>Close\<close>: the completion ports that get a wake-up, and the handles given back.\<close>

definition win_Close :: "WinRingBind \<Rightarrow> nat list \<times> handle list \<times> WinRingBind" where
  "win_Close b =
     (if win_isOpen b \<noteq> 1 then ([], [], b)
      else let (hs, b') = closeAndZero (b\<lparr>win_isOpen := 2\<rparr>) in
        ([rb_iocp (af_rx (win_v4 b)), rb_iocp (af_tx (win_v4 b)), rb_iocp (af_rx (win_v6 b)), rb_iocp (af_tx (win_v6 b))], hs, b'))"

definition win_BatchSize :: nat where
  "win_BatchSize = 1"

subsection \<open>Receiving\<close>

record rio_result =
  rio_status :: nat
  rio_bytes :: nat
  rio_packet :: nat

definition WSAEMSGSIZE :: nat where "WSAEMSGSIZE = 10040"

text \<open>What Windows and other goroutines do during one turn of \<open>Receive\<close>: what each load of \<open>isOpen\<close> and each \<open>DequeueCompletion\<close> gives,
  the answers of \<open>Notify\<close>, \<open>GetQueuedCompletionStatus\<close> and \<open>ReceiveEx\<close>, and the memory of the ring when the packet is read.\<close>

record attempt =
  at_open :: "nat \<Rightarrow> bool"
  at_dequeue :: "nat \<Rightarrow> rio_result option"
  at_notify :: "win_error option"
  at_wait :: "win_error option"
  at_insert :: "win_error option"
  at_mem :: "nat \<Rightarrow> ringPacket"

function spin :: "attempt \<Rightarrow> nat \<Rightarrow> win_error + rio_result option" where
  "spin a tries =
     (if tries < receiveSpins then
        if tries > 0 \<and> \<not> at_open a tries then Inl WinErrClosed
        else case at_dequeue a tries of Some r \<Rightarrow> Inr (Some r) | None \<Rightarrow> spin a (Suc tries)
      else Inr None)"
  by pat_completeness auto
termination by (relation "measure (\<lambda>(a, tries). receiveSpins - tries)") auto

declare spin.simps [simp del]

text \<open>The completion of a receive, waited for if spinning gave none; the loads and completions after the spins are numbered from \<open>receiveSpins\<close> on.\<close>

definition await :: "attempt \<Rightarrow> win_error + rio_result" where
  "await a =
     (case spin a 0 of
        Inl e \<Rightarrow> Inl e
      | Inr (Some r) \<Rightarrow> Inr r
      | Inr None \<Rightarrow>
          (case at_notify a of Some e \<Rightarrow> Inl e
           | None \<Rightarrow> (case at_wait a of Some e \<Rightarrow> Inl e
             | None \<Rightarrow> if \<not> at_open a receiveSpins then Inl WinErrClosed
                else (case at_dequeue a receiveSpins of None \<Rightarrow> Inl WinErrNoProgress | Some r \<Rightarrow> Inr r))))"

datatype 'a win_result = WinPanic | StillWaiting | Returned 'a

text \<open>\<open>Receive\<close> from \<open>retry\<close> on; a datagram too big for a packet starts a new turn.\<close>

fun receiveTurns ::
    "bytes \<Rightarrow> attempt list \<Rightarrow> afWinRingBind \<Rightarrow> ((win_error + nat \<times> bytes \<times> WinRingEndpoint) \<times> afWinRingBind) win_result" where
  "receiveTurns buf [] af = StillWaiting"
| "receiveTurns buf (a # as) af =
     (case await a of
        Inl e \<Rightarrow> Returned (Inl e, af)
      | Inr r \<Rightarrow>
          (case InsertReceiveRequest (at_insert a) (af\<lparr>af_rx := ring_Return 1 (af_rx af)\<rparr>) of
             None \<Rightarrow> WinPanic
           | Some (_, Some e, af) \<Rightarrow> Returned (Inl e, af)
           | Some (_, None, af) \<Rightarrow>
               if rio_status r = WSAEMSGSIZE then
                 if \<not> at_open a (Suc receiveSpins) then Returned (Inl WinErrClosed, af) else receiveTurns buf as af
               else if rio_status r \<noteq> 0 then Returned (Inl (WinErrno (rio_status r)), af)
               else if rio_bytes r > bytesPerPacket then WinPanic
               else let packet = at_mem a (rio_packet r); d = take (rio_bytes r) (rp_data packet) in
                 Returned (Inr (min (length buf) (length d), go_copy buf 0 d, rp_addr packet), af)))"

definition af_Receive ::
    "bytes \<Rightarrow> bool \<Rightarrow> attempt list \<Rightarrow> afWinRingBind \<Rightarrow> ((win_error + nat \<times> bytes \<times> WinRingEndpoint) \<times> afWinRingBind) win_result" where
  "af_Receive buf isOpen as af = (if \<not> isOpen then Returned (Inl WinErrClosed, af) else receiveTurns buf as af)"

subsection \<open>Sending\<close>

record send_answers =
  sa_open :: bool
  sa_dequeue :: u32
  sa_notify :: "win_error option"
  sa_wait :: "win_error option"
  sa_open2 :: bool
  sa_dequeue2 :: u32
  sa_send :: "win_error option"

text \<open>Space in the ring: the number of sends completed, or an error.\<close>

definition sendSpace :: "send_answers \<Rightarrow> ringBuffer \<Rightarrow> win_error + u32" where
  "sendSpace a tx =
     (if sa_dequeue a = 0 \<and> rb_isFull tx then
        (case sa_notify a of Some e \<Rightarrow> Inl e
         | None \<Rightarrow> (case sa_wait a of Some e \<Rightarrow> Inl e
           | None \<Rightarrow> if \<not> sa_open2 a then Inl WinErrClosed
              else if sa_dequeue2 a = 0 then Inl WinErrNoProgress else Inr (sa_dequeue2 a)))
      else Inr (sa_dequeue a))"

text \<open>\<open>Send\<close> of one buffer: the packet given to \<open>SendEx\<close>, with the length it is told.\<close>

definition af_Send ::
    "send_answers \<Rightarrow> bytes \<Rightarrow> WinRingEndpoint \<Rightarrow> afWinRingBind \<Rightarrow> ((nat \<times> nat) option \<times> win_error option \<times> afWinRingBind) option" where
  "af_Send a buf nend af =
     (if \<not> sa_open a then Some (None, Some WinErrClosed, af)
      else if length buf > bytesPerPacket then Some (None, Some WinErrShortBuffer, af)
      else case sendSpace a (af_tx af) of
        Inl e \<Rightarrow> Some (None, Some e, af)
      | Inr count \<Rightarrow> do {
          (packet, tx) \<leftarrow> ring_Push (if count > 0 then ring_Return count (af_tx af) else af_tx af);
          let tx = tx\<lparr>rb_mem := (rb_mem tx)(packet := \<lparr>rp_addr = nend, rp_data = go_copy (rp_data (rb_mem tx packet)) 0 buf\<rparr>)\<rparr>;
          Some (Some (packet, length buf), sa_send a, af\<lparr>af_tx := tx\<rparr>)})"

fun win_Send :: "WinRingEndpoint option \<Rightarrow> (send_answers \<times> bytes) list \<Rightarrow> WinRingBind \<Rightarrow> (win_error option \<times> WinRingBind) option" where
  "win_Send None bufs b = Some (Some WinErrWrongEndpointType, b)"
| "win_Send (Some nend) [] b = Some (None, b)"
| "win_Send (Some nend) ((a, buf) # bufs) b =
     (if family nend = AF_INET then
        if af_blackhole (win_v4 b) then win_Send (Some nend) bufs b
        else do {
          (_, err, v4) \<leftarrow> af_Send a buf nend (win_v4 b);
          if err \<noteq> None then Some (err, b\<lparr>win_v4 := v4\<rparr>) else win_Send (Some nend) bufs (b\<lparr>win_v4 := v4\<rparr>)}
      else if family nend = AF_INET6 then
        if af_blackhole (win_v6 b) then win_Send (Some nend) bufs b
        else do {
          (_, err, v6) \<leftarrow> af_Send a buf nend (win_v6 b);
          if err \<noteq> None then Some (err, b\<lparr>win_v6 := v6\<rparr>) else win_Send (Some nend) bufs (b\<lparr>win_v6 := v6\<rparr>)}
      else win_Send (Some nend) bufs b)"

text \<open>\<open>BindSocketToInterface4\<close> and \<open>6\<close>: the option value set, and the flag.\<close>

definition interfaceOption4 :: "u32 \<Rightarrow> nat" where
  "interfaceOption4 i = le_nat (be_bytes 4 (unat i))"

definition BindSocketToInterface4 :: "win_error option \<Rightarrow> bool \<Rightarrow> WinRingBind \<Rightarrow> win_error option \<times> WinRingBind" where
  "BindSocketToInterface4 answer hole b =
     (if win_isOpen b \<noteq> 1 then (Some WinErrClosed, b)
      else if answer \<noteq> None then (answer, b) else (None, b\<lparr>win_v4 := (win_v4 b)\<lparr>af_blackhole := hole\<rparr>\<rparr>))"

definition BindSocketToInterface6 :: "win_error option \<Rightarrow> bool \<Rightarrow> WinRingBind \<Rightarrow> win_error option \<times> WinRingBind" where
  "BindSocketToInterface6 answer hole b =
     (if win_isOpen b \<noteq> 1 then (Some WinErrClosed, b)
      else if answer \<noteq> None then (answer, b) else (None, b\<lparr>win_v6 := (win_v6 b)\<lparr>af_blackhole := hole\<rparr>\<rparr>))"

subsection \<open>Rings as queues\<close>

text \<open>The queue a ring stands for: numbers \<open>h\<close> to \<open>t\<close> of all packets ever pushed, counted without bound.\<close>

definition ring_rel :: "ringBuffer \<Rightarrow> nat \<Rightarrow> nat \<Rightarrow> bool" where
  "ring_rel rb h t \<longleftrightarrow> rb_head rb = word_of_nat h \<and> rb_tail rb = word_of_nat t \<and> h \<le> t \<and> t \<le> h + packetsPerRing \<and>
     rb_isFull rb = (t = h + packetsPerRing)"

lemma u32_mod_1024: "unat (word_of_nat n mod 1024 :: u32) = n mod 1024"
proof -
  have "unat (word_of_nat n mod 1024 :: u32) = (n mod 2 ^ 32) mod 1024" by (simp add: unat_mod unat_of_nat)
  also have "\<dots> = n mod 1024" by (rule mod_mod_cancel) (simp add: dvd_eq_mod_eq_0)
  finally show ?thesis .
qed

lemma u32_mod_eq: "(word_of_nat m mod 1024 :: u32) = word_of_nat n mod 1024 \<longleftrightarrow> m mod 1024 = n mod 1024"
  using u32_mod_1024 by (metis word_unat_eq_iff)

lemma near_mod_eq: "(h :: nat) \<le> t \<Longrightarrow> t \<le> h + 1024 \<Longrightarrow> h mod 1024 = t mod 1024 \<longleftrightarrow> t = h \<or> t = h + 1024"
proof -
  assume le: "h \<le> t" "t \<le> h + 1024"
  have "h mod 1024 = t mod 1024 \<longleftrightarrow> 1024 dvd t - h" using mod_eq_dvd_iff_nat [OF le(1), of 1024] by auto
  also have "\<dots> \<longleftrightarrow> t - h = 0 \<or> t - h = 1024" using le dvd_imp_le [of 1024 "t - h"] by auto
  finally show ?thesis using le by auto
qed

lemma Push_rel:
  assumes "ring_rel rb h t" "t < h + packetsPerRing"
  shows "\<exists>rb'. ring_Push rb = Some (t mod packetsPerRing, rb') \<and> ring_rel rb' h (Suc t) \<and> rb_mem rb' = rb_mem rb"
proof -
  have eq: "rb_tail rb + 1 = word_of_nat (Suc t)" using assms(1) by (simp add: ring_rel_def add.commute)
  have "(rb_tail rb + 1) mod 1024 = rb_head rb mod 1024 \<longleftrightarrow> Suc t = h + 1024"
  proof -
    have h: "rb_head rb = word_of_nat h" "h \<le> t" "t < h + 1024" using assms by (simp_all add: ring_rel_def packetsPerRing_def)
    then have "Suc t mod 1024 = h mod 1024 \<longleftrightarrow> Suc t = h + 1024" using near_mod_eq [of h "Suc t"] by (simp add: eq_commute)
    then show ?thesis by (simp only: eq h(1) u32_mod_eq)
  qed
  then show ?thesis using assms eq by (auto simp: ring_rel_def ring_Push_def Let_def u32_mod_1024 packetsPerRing_def add.commute)
qed

lemma Push_full: "ring_rel rb h (h + packetsPerRing) \<Longrightarrow> ring_Push rb = None"
  by (simp add: ring_rel_def ring_Push_def)

lemma Return_rel:
  assumes "ring_rel rb h t" "0 < c" "unat c \<le> t - h"
  shows "ring_rel (ring_Return c rb) (h + unat c) t"
proof -
  have "0 < unat c" using assms(2) by (simp add: word_less_nat_alt)
  moreover have "rb_head rb mod 1024 = rb_tail rb mod 1024 \<and> \<not> rb_isFull rb \<longleftrightarrow> t = h"
    using assms(1) near_mod_eq [of h t] by (auto simp: ring_rel_def u32_mod_eq packetsPerRing_def)
  ultimately show ?thesis using assms by (auto simp: ring_rel_def ring_Return_def packetsPerRing_def)
qed

subsection \<open>Any sequence of operations on a ring\<close>

datatype ring_op = PushOp | ReturnOp u32

fun ring_run :: "ring_op list \<Rightarrow> ringBuffer \<Rightarrow> (nat list \<times> ringBuffer) option" where
  "ring_run [] rb = Some ([], rb)"
| "ring_run (PushOp # ops) rb = do {
     (x, rb) \<leftarrow> ring_Push rb;
     (xs, rb) \<leftarrow> ring_run ops rb;
     Some (x # xs, rb)}"
| "ring_run (ReturnOp c # ops) rb = ring_run ops (ring_Return c rb)"

text \<open>The specification: a queue that holds at most \<open>packetsPerRing\<close> numbers, those from \<open>h\<close> to \<open>t\<close>.\<close>

fun bounded_queue :: "ring_op list \<Rightarrow> nat \<Rightarrow> nat \<Rightarrow> (nat list \<times> nat \<times> nat) option" where
  "bounded_queue [] h t = Some ([], h, t)"
| "bounded_queue (PushOp # ops) h t =
     (if t = h + packetsPerRing then None
      else do {
        (xs, r) \<leftarrow> bounded_queue ops h (Suc t);
        Some (t # xs, r)})"
| "bounded_queue (ReturnOp c # ops) h t = bounded_queue ops (h + unat c) t"

text \<open>Packets come back only after they were pushed, at least one at a time.\<close>

fun returns_ok :: "ring_op list \<Rightarrow> nat \<Rightarrow> nat \<Rightarrow> bool" where
  "returns_ok [] h t = True"
| "returns_ok (PushOp # ops) h t = returns_ok ops h (Suc t)"
| "returns_ok (ReturnOp c # ops) h t = (0 < c \<and> unat c \<le> t - h \<and> returns_ok ops (h + unat c) t)"

lemma ring_run_rel:
  assumes "ring_rel rb h t" "returns_ok ops h t"
  shows "rel_option (\<lambda>(xs, rb') (ys, h', t'). xs = map (\<lambda>y. y mod packetsPerRing) ys \<and> ring_rel rb' h' t') (ring_run ops rb) (bounded_queue ops h t)"
  using assms
proof (induction ops h t arbitrary: rb rule: bounded_queue.induct)
  case (2 ops h t)
  show ?case
  proof (cases "t = h + packetsPerRing")
    case True
    then show ?thesis using Push_full 2 by simp
  next
    case False
    then have "t < h + packetsPerRing" using "2.prems"(1) by (simp add: ring_rel_def)
    then obtain rb' where rb': "ring_Push rb = Some (t mod packetsPerRing, rb')" "ring_rel rb' h (Suc t)"
      using Push_rel "2.prems"(1) by blast
    then have "rel_option (\<lambda>(xs, rb') (ys, h', t'). xs = map (\<lambda>y. y mod packetsPerRing) ys \<and> ring_rel rb' h' t')
        (ring_run ops rb') (bounded_queue ops h (Suc t))"
      using "2.IH" [OF False rb'(2)] "2.prems"(2) by simp
    then show ?thesis using False rb'(1)
      by (cases "ring_run ops rb'"; cases "bounded_queue ops h (Suc t)") auto
  qed
next
  case (3 c ops h t)
  then show ?case using Return_rel [of rb h t c] by simp
qed simp

text \<open>
  C25.  The rings of the Windows bind are bounded queues: for every sequence of pushes and returns that gives back only what was
  pushed, \<open>Push\<close> names the packets in turn, panics exactly when \<open>packetsPerRing\<close> packets are out, and the flag and the two counters
  describe the queue, however often the 32-bit counters have wrapped.  No packet is out twice.
\<close>

theorem ring_refines_queue:
  assumes "returns_ok ops 0 0"
  shows "rel_option (\<lambda>(xs, rb') (ys, h, t). xs = map (\<lambda>y. y mod packetsPerRing) ys \<and> ring_rel rb' h t \<and>
      inj_on (\<lambda>y. y mod packetsPerRing) {h..<t}) (ring_run ops zero_ring) (bounded_queue ops 0 0)"
proof -
  have inj: "inj_on (\<lambda>y. y mod packetsPerRing) {h..<t}" if "ring_rel rb h t" for rb h t
  proof (rule inj_onI)
    fix x y assume "x \<in> {h..<t}" "y \<in> {h..<t}" "x mod packetsPerRing = y mod packetsPerRing"
    then have xy: "h \<le> x" "x < t" "h \<le> y" "y < t" "x mod 1024 = y mod 1024" "y mod 1024 = x mod 1024" by (simp_all add: packetsPerRing_def)
    have "t \<le> h + 1024" using that by (simp add: ring_rel_def packetsPerRing_def)
    then show "x = y"
      using xy(1-4) near_mod_eq [of x y, THEN iffD1, OF _ _ xy(5)] near_mod_eq [of y x, THEN iffD1, OF _ _ xy(6)] by linarith
  qed
  have "ring_rel zero_ring 0 0" by (simp add: ring_rel_def zero_ring_def packetsPerRing_def)
  from ring_run_rel [OF this assms] show ?thesis by (rule option.rel_mono_strong) (use inj in auto)
qed

theorem ring_refines_queue_witness:
  "rel_option (\<lambda>(xs, rb') (ys, h, t). xs = map (\<lambda>y. y mod packetsPerRing) ys \<and> ring_rel rb' h t \<and>
      inj_on (\<lambda>y. y mod packetsPerRing) {h..<t}) (ring_run [PushOp, PushOp, ReturnOp 1, PushOp] zero_ring)
    (bounded_queue [PushOp, PushOp, ReturnOp 1, PushOp] 0 0) \<and>
   bounded_queue [PushOp, PushOp, ReturnOp 1, PushOp] 0 0 = Some ([0, 1, 2], 1, 3)"
  using ring_refines_queue [of "[PushOp, PushOp, ReturnOp 1, PushOp]"] by (simp add: packetsPerRing_def)

subsection \<open>The bind as a whole\<close>

text \<open>One address family is in order: every packet of the receive ring is posted, and the send ring counts at least the
  \<open>n\<close> sends the kernel has not completed.\<close>

definition af_inv :: "afWinRingBind \<Rightarrow> nat \<Rightarrow> bool" where
  "af_inv af n \<longleftrightarrow> (\<exists>h. ring_rel (af_rx af) h (h + packetsPerRing)) \<and> (\<exists>h t. ring_rel (af_tx af) h t \<and> n \<le> t - h) \<and>
     (\<forall>i. length (rp_data (rb_mem (af_tx af) i)) = bytesPerPacket)"

lemma Insert_rel:
  assumes "ring_rel (af_rx af) h t" "t < h + packetsPerRing"
  shows "\<exists>rx. InsertReceiveRequest e af = Some (t mod packetsPerRing, e, af\<lparr>af_rx := rx\<rparr>) \<and> ring_rel rx h (Suc t)"
  using Push_rel [OF assms] by (auto simp: InsertReceiveRequest_def)

lemma insertAll_rel:
  assumes "ring_rel (af_rx (win_v4 b)) h4 t4" "t4 + n \<le> h4 + packetsPerRing" "ring_rel (af_rx (win_v6 b)) h6 t6" "t6 + n \<le> h6 + packetsPerRing"
  shows "\<exists>err b'. insertAll a4 a6 n b = Some (err, b') \<and> af_tx (win_v4 b') = af_tx (win_v4 b) \<and> af_tx (win_v6 b') = af_tx (win_v6 b) \<and>
    (err = None \<longrightarrow> ring_rel (af_rx (win_v4 b')) h4 (t4 + n) \<and> ring_rel (af_rx (win_v6 b')) h6 (t6 + n)) \<and>
    ((\<forall>k < n. a4 k = None \<and> a6 k = None) \<longrightarrow> err = None)"
  using assms
proof (induction n arbitrary: b t4 t6)
  case (Suc n)
  obtain rx4 where r4: "InsertReceiveRequest (a4 n) (win_v4 b) = Some (t4 mod packetsPerRing, a4 n, (win_v4 b)\<lparr>af_rx := rx4\<rparr>)" "ring_rel rx4 h4 (Suc t4)"
    using Insert_rel [OF Suc.prems(1)] Suc.prems(2) by force
  obtain rx6 where r6: "InsertReceiveRequest (a6 n) (win_v6 b) = Some (t6 mod packetsPerRing, a6 n, (win_v6 b)\<lparr>af_rx := rx6\<rparr>)" "ring_rel rx6 h6 (Suc t6)"
    using Insert_rel [OF Suc.prems(3)] Suc.prems(4) by force
  define b' where "b' = b\<lparr>win_v4 := (win_v4 b)\<lparr>af_rx := rx4\<rparr>, win_v6 := (win_v6 b)\<lparr>af_rx := rx6\<rparr>\<rparr>"
  have ih: "\<exists>err b''. insertAll a4 a6 n b' = Some (err, b'') \<and> af_tx (win_v4 b'') = af_tx (win_v4 b') \<and> af_tx (win_v6 b'') = af_tx (win_v6 b') \<and>
    (err = None \<longrightarrow> ring_rel (af_rx (win_v4 b'')) h4 (Suc t4 + n) \<and> ring_rel (af_rx (win_v6 b'')) h6 (Suc t6 + n)) \<and>
    ((\<forall>k < n. a4 k = None \<and> a6 k = None) \<longrightarrow> err = None)"
    by (rule Suc.IH) (use Suc.prems r4(2) r6(2) in \<open>simp_all add: b'_def\<close>)
  show ?case
  proof (cases "a4 n = None \<and> a6 n = None")
    case True
    then have "insertAll a4 a6 (Suc n) b = insertAll a4 a6 n b'" using r4(1) r6(1) by (simp add: b'_def)
    then show ?thesis using ih by (auto simp: b'_def)
  next
    case False
    then show ?thesis using r4(1) r6(1) by (cases "a4 n") auto
  qed
qed simp

definition af_closed :: "afWinRingBind \<Rightarrow> bool" where
  "af_closed af \<longleftrightarrow> ring_rel (af_rx af) 0 0 \<and> ring_rel (af_tx af) 0 0"

definition win_closed :: "WinRingBind \<Rightarrow> bool" where
  "win_closed b \<longleftrightarrow> win_isOpen b = 0 \<and> af_closed (win_v4 b) \<and> af_closed (win_v6 b)"

lemma zero_rel: "rb_head rb = 0 \<Longrightarrow> rb_tail rb = 0 \<Longrightarrow> \<not> rb_isFull rb \<Longrightarrow> ring_rel rb 0 0"
  by (simp add: ring_rel_def packetsPerRing_def)

lemma New_closed: "win_closed NewWinRingBind"
  by (simp add: win_closed_def af_closed_def NewWinRingBind_def zero_af_def zero_ring_def zero_rel)

lemma closeAndZero_closed: "win_closed (snd (closeAndZero b))"
  by (simp add: win_closed_def af_closed_def closeAndZero_def af_CloseAndZero_def ring_CloseAndZero_def zero_rel Let_def)

lemma ring_Open_keeps: "ring_Open a rb = (err, rb') \<Longrightarrow> ring_rel rb h t \<Longrightarrow> ring_rel rb' h t \<and> rb_mem rb' = (\<lambda>_. zero_packet)"
  by (auto simp: ring_Open_def Let_def ring_rel_def split: if_splits)

lemma af_Open_keeps:
  assumes "af_Open as port af = (r, af')" "af_closed af"
  shows "af_closed af' \<and> (\<forall>p. r = Inr p \<longrightarrow> rb_mem (af_tx af') = (\<lambda>_. zero_packet))"
  using assms ring_Open_keeps [of "aa_rx (as port)" "af_rx af" _ _ 0 0] ring_Open_keeps [of "aa_tx (as port)" "af_tx af" _ _ 0 0]
  by (auto simp: af_Open_def Let_def af_closed_def split: option.splits sum.splits prod.splits)

lemma af_inv_fresh: "ring_rel (af_rx af) 0 packetsPerRing \<Longrightarrow> ring_rel (af_tx af) 0 0 \<Longrightarrow> rb_mem (af_tx af) = (\<lambda>_. zero_packet) \<Longrightarrow> af_inv af 0"
  unfolding af_inv_def by (auto simp: zero_packet_def intro!: exI [of _ 0] exI [of _ "0 :: nat"])

text \<open>\<open>Open\<close> on a closed bind does not panic; it leaves the bind in order, or closed after an error.\<close>

lemma win_Open_ok:
  assumes "win_closed b"
  shows "\<exists>hs r b'. win_Open as4 as6 port b = Some (hs, r, b') \<and>
    (case r of Inl _ \<Rightarrow> win_closed b' | Inr _ \<Rightarrow> win_isOpen b' = 1 \<and> af_inv (win_v4 b') 0 \<and> af_inv (win_v6 b') 0)"
proof -
  have "\<exists>r b'. openSockets as4 as6 port b = Some (r, b') \<and>
    (\<forall>p. r = Inr p \<longrightarrow> win_isOpen b' = 1 \<and> af_inv (win_v4 b') 0 \<and> af_inv (win_v6 b') 0)"
  proof -
    obtain r4 v4 where o4: "af_Open as4 port (win_v4 b) = (r4, v4)" by fastforce
    note v4 = af_Open_keeps [OF o4]
    show ?thesis
    proof (cases r4)
      case (Inl e)
      then show ?thesis using assms o4 by (simp add: openSockets_def win_closed_def)
    next
      case p4: (Inr p4)
      obtain r6 v6 where o6: "af_Open as6 p4 (win_v6 b) = (r6, v6)" by fastforce
      note v6 = af_Open_keeps [OF o6]
      show ?thesis
      proof (cases r6)
        case (Inl e)
        then show ?thesis using assms o4 o6 p4 by (simp add: openSockets_def win_closed_def)
      next
        case p6: (Inr p6)
        let ?b = "b\<lparr>win_v4 := v4, win_v6 := v6\<rparr>"
        obtain err b' where i: "insertAll (aa_insert (as4 port)) (aa_insert (as6 p4)) packetsPerRing ?b = Some (err, b')"
            "af_tx (win_v4 b') = af_tx v4" "af_tx (win_v6 b') = af_tx v6"
            "err = None \<Longrightarrow> ring_rel (af_rx (win_v4 b')) 0 packetsPerRing \<and> ring_rel (af_rx (win_v6 b')) 0 packetsPerRing"
          using insertAll_rel [of ?b 0 0 packetsPerRing 0 0 "aa_insert (as4 port)" "aa_insert (as6 p4)"] v4 v6 assms
          by (auto simp: win_closed_def af_closed_def)
        have "af_inv (win_v4 b') 0 \<and> af_inv (win_v6 b') 0" if "err = None"
          using i(2-4) that v4 v6 assms p4 p6 by (auto simp: win_closed_def af_closed_def intro!: af_inv_fresh)
        then show ?thesis using assms o4 o6 p4 p6 i(1) by (cases err) (auto simp: openSockets_def win_closed_def)
      qed
    qed
  qed
  then obtain r b' where "openSockets as4 as6 port b = Some (r, b')"
    "\<forall>p. r = Inr p \<longrightarrow> win_isOpen b' = 1 \<and> af_inv (win_v4 b') 0 \<and> af_inv (win_v6 b') 0" by blast
  then show ?thesis using closeAndZero_closed [of b'] by (cases r) (auto simp: win_Open_def split: prod.splits)
qed

text \<open>\<open>Open\<close> on an open bind reports the error and closes the bind that was open.\<close>

lemma open_twice_closes:
  "win_isOpen b \<noteq> 0 \<Longrightarrow> win_Open as4 as6 port b = Some (fst (closeAndZero b), Inl WinErrBindAlreadyOpen, snd (closeAndZero b))"
  by (simp add: win_Open_def openSockets_def split: prod.splits)

text \<open>Receiving keeps the receive ring full and panics only on a completion that claims more bytes than a packet has.\<close>

definition rio_ok :: "attempt \<Rightarrow> bool" where
  "rio_ok a \<longleftrightarrow> (\<forall>k r. at_dequeue a k = Some r \<longrightarrow> rio_bytes r \<le> bytesPerPacket)"

lemma spin_result: "spin a k = Inr (Some r) \<Longrightarrow> \<exists>j. at_dequeue a j = Some r"
  by (induction a k rule: spin.induct) (subst (asm) (2) spin.simps, auto split: if_splits option.splits)

lemma await_ok: "await a = Inr r \<Longrightarrow> rio_ok a \<Longrightarrow> rio_bytes r \<le> bytesPerPacket"
  using spin_result [of a 0] by (auto simp: await_def rio_ok_def split: sum.splits option.splits if_splits)

lemma repost:
  assumes "af_inv af n"
  shows "\<exists>x af'. InsertReceiveRequest e (af\<lparr>af_rx := ring_Return 1 (af_rx af)\<rparr>) = Some (x, e, af') \<and> af_inv af' n"
proof -
  obtain h where h: "ring_rel (af_rx af) h (h + packetsPerRing)" using assms by (auto simp: af_inv_def)
  have "ring_rel (ring_Return 1 (af_rx af)) (Suc h) (h + packetsPerRing)"
    using Return_rel [OF h, of 1] by (simp add: packetsPerRing_def)
  then obtain rx where i: "InsertReceiveRequest e (af\<lparr>af_rx := ring_Return 1 (af_rx af)\<rparr>) =
      Some ((h + packetsPerRing) mod packetsPerRing, e, af\<lparr>af_rx := rx\<rparr>)" "ring_rel rx (Suc h) (Suc h + packetsPerRing)"
    using Insert_rel [of "af\<lparr>af_rx := ring_Return 1 (af_rx af)\<rparr>" "Suc h" "h + packetsPerRing" e] by auto
  have "\<exists>h. ring_rel rx h (h + packetsPerRing)" using i(2) by blast
  then show ?thesis using assms i(1) by (simp add: af_inv_def)
qed

lemma receiveTurns_inv:
  assumes "af_inv af n"
  shows "(receiveTurns buf as af = Returned (r, af') \<longrightarrow> af_inv af' n) \<and> ((\<forall>a \<in> set as. rio_ok a) \<longrightarrow> receiveTurns buf as af \<noteq> WinPanic)"
  using assms
proof (induction as arbitrary: af)
  case (Cons a as)
  show ?case
  proof (cases "await a")
    case (Inr res)
    obtain x af1 where i: "InsertReceiveRequest (at_insert a) (af\<lparr>af_rx := ring_Return 1 (af_rx af)\<rparr>) = Some (x, at_insert a, af1)" "af_inv af1 n"
      using repost [OF Cons.prems] by blast
    show ?thesis using Inr i Cons.IH [OF i(2)] await_ok [OF Inr]
      by (cases "at_insert a") (auto simp: Let_def not_less [symmetric])
  qed (use Cons.prems in auto)
qed simp

text \<open>The sends completed when \<open>Send\<close> runs.\<close>

definition completed :: "send_answers \<Rightarrow> bytes \<Rightarrow> ringBuffer \<Rightarrow> nat" where
  "completed a buf tx = (if sa_open a \<and> length buf \<le> bytesPerPacket then case sendSpace a tx of Inl _ \<Rightarrow> 0 | Inr c \<Rightarrow> unat c else 0)"

lemma af_Send_inv:
  assumes "af_inv af n" "completed a buf (af_tx af) \<le> n"
  shows "\<exists>out err af'. af_Send a buf e af = Some (out, err, af') \<and>
    af_inv af' (n - completed a buf (af_tx af) + (if out \<noteq> None \<and> err = None then 1 else 0)) \<and>
    (\<forall>packet len. out = Some (packet, len) \<longrightarrow> len = length buf \<and> take len (rp_data (rb_mem (af_tx af') packet)) = buf \<and>
       rp_addr (rb_mem (af_tx af') packet) = e)"
proof -
  consider "\<not> sa_open a \<or> length buf > bytesPerPacket" | er where "sa_open a" "length buf \<le> bytesPerPacket" "sendSpace a (af_tx af) = Inl er"
    | c where "sa_open a" "length buf \<le> bytesPerPacket" "sendSpace a (af_tx af) = Inr c"
    by (cases "sendSpace a (af_tx af)") fastforce+
  then show ?thesis
  proof cases
    case 3
    obtain h t where tx: "ring_rel (af_tx af) h t" "n \<le> t - h" using assms(1) by (auto simp: af_inv_def)
    let ?tx = "if c > 0 then ring_Return c (af_tx af) else af_tx af"
    have c: "unat c \<le> n" "completed a buf (af_tx af) = unat c" using assms(2) 3 by (simp_all add: completed_def)
    have rel: "ring_rel ?tx (h + unat c) t" using tx c Return_rel [OF tx(1), of c] by (cases "c = 0") (auto simp: word_neq_0_conv)
    have room: "t < h + unat c + packetsPerRing"
    proof (cases "c = 0")
      case True
      then have "\<not> rb_isFull (af_tx af)" using 3(3) by (auto simp: sendSpace_def split: if_splits option.splits)
      then show ?thesis using tx(1) True by (auto simp: ring_rel_def)
    next
      case False
      then have "0 < unat c" by (simp add: unat_gt_0)
      then show ?thesis using tx(1) by (simp add: ring_rel_def)
    qed
    obtain tx' where push: "ring_Push ?tx = Some (t mod packetsPerRing, tx')" "ring_rel tx' (h + unat c) (Suc t)" "rb_mem tx' = rb_mem ?tx"
      using Push_rel [OF rel room] by blast
    have mem: "rb_mem tx' = rb_mem (af_tx af)" using push(3) by (simp add: ring_Return_def)
    let ?x = "t mod packetsPerRing"
    define tx2 where "tx2 = tx'\<lparr>rb_mem := (rb_mem tx')(?x := \<lparr>rp_addr = e, rp_data = go_copy (rp_data (rb_mem tx' ?x)) 0 buf\<rparr>)\<rparr>"
    have send: "af_Send a buf e af = Some (Some (?x, length buf), sa_send a, af\<lparr>af_tx := tx2\<rparr>)"
      using 3 push(1) by (simp add: af_Send_def tx2_def Let_def)
    have len: "\<forall>i. length (rp_data (rb_mem (af_tx af) i)) = bytesPerPacket" using assms(1) by (simp add: af_inv_def)
    have inv: "af_inv (af\<lparr>af_tx := tx2\<rparr>) k" if "k \<le> Suc t - (h + unat c)" for k
    proof -
      have "ring_rel tx2 (h + unat c) (Suc t)" using push(2) by (simp add: tx2_def ring_rel_def)
      moreover have "\<forall>i. length (rp_data (rb_mem tx2 i)) = bytesPerPacket" using len mem 3(2) by (simp add: tx2_def go_copy_def)
      ultimately show ?thesis using that assms(1) unfolding af_inv_def by auto
    qed
    have "n - unat c + (if sa_send a = None then 1 else 0) \<le> Suc t - (h + unat c)" using tx c(1) by (auto simp: ring_rel_def)
    then have "af_inv (af\<lparr>af_tx := tx2\<rparr>) (n - unat c + (if sa_send a = None then 1 else 0))" by (rule inv)
    moreover have "take (length buf) (rp_data (rb_mem tx2 ?x)) = buf \<and> rp_addr (rb_mem tx2 ?x) = e"
      using len mem 3(2) by (simp add: tx2_def go_copy_def)
    ultimately show ?thesis using send c(2) by auto
  qed (use assms in \<open>auto simp: af_Send_def completed_def\<close>)
qed

text \<open>The runs of one address family: from a successful \<open>Open\<close> of a closed bind, any receives and sends, where the kernel completes only
  sends it was given; \<open>n\<close> counts those it has.\<close>

inductive af_runs :: "afWinRingBind \<Rightarrow> nat \<Rightarrow> bool" where
  opened: "win_closed b0 \<Longrightarrow> win_Open as4 as6 port b0 = Some (hs, Inr p, b) \<Longrightarrow> af = win_v4 b \<or> af = win_v6 b \<Longrightarrow> af_runs af 0"
| received: "af_runs af n \<Longrightarrow> af_Receive buf isOpen as af = Returned (r, af') \<Longrightarrow> af_runs af' n"
| sent: "af_runs af n \<Longrightarrow> completed a buf (af_tx af) \<le> n \<Longrightarrow> af_Send a buf e af = Some (out, err, af') \<Longrightarrow>
    af_runs af' (n - completed a buf (af_tx af) + (if out \<noteq> None \<and> err = None then 1 else 0))"

lemma af_runs_inv: "af_runs af n \<Longrightarrow> af_inv af n"
proof (induction rule: af_runs.induct)
  case (opened b0 as4 as6 port hs p b af)
  then show ?case using win_Open_ok [OF opened(1), of as4 as6 port] by auto
next
  case (received af n buf isOpen as r af')
  then show ?case using receiveTurns_inv [OF received.IH, of buf as r af'] by (auto simp: af_Receive_def split: if_splits)
next
  case (sent af n a buf e out err af')
  then show ?case using af_Send_inv [OF sent.IH sent.hyps(2), of e] by auto
qed

text \<open>
  C26.  The Windows bind does not panic: in every run from a successful \<open>Open\<close>, with any answers of Windows in which no completion claims more
  bytes than a packet has and only sends that were given are completed, \<open>Receive\<close> and \<open>Send\<close> never push to a full
  ring; the kernel holds at most \<open>packetsPerRing\<close> sends; and a send that reaches \<open>SendEx\<close> hands over a packet with
  exactly the datagram's bytes and address.
\<close>

theorem win_bind_safe:
  assumes "af_runs af n"
  shows "n \<le> packetsPerRing \<and> ((\<forall>a \<in> set as. rio_ok a) \<longrightarrow> af_Receive buf isOpen as af \<noteq> WinPanic) \<and>
    (completed a buf (af_tx af) \<le> n \<longrightarrow> (\<exists>out err af'. af_Send a buf e af = Some (out, err, af') \<and>
      (\<forall>packet len. out = Some (packet, len) \<longrightarrow> len = length buf \<and> take len (rp_data (rb_mem (af_tx af') packet)) = buf \<and>
        rp_addr (rb_mem (af_tx af') packet) = e)))"
proof -
  have inv: "af_inv af n" by (rule af_runs_inv [OF assms])
  then have "n \<le> packetsPerRing" by (auto simp: af_inv_def ring_rel_def)
  moreover have "(\<forall>a \<in> set as. rio_ok a) \<longrightarrow> af_Receive buf isOpen as af \<noteq> WinPanic"
    using receiveTurns_inv [OF inv] by (simp add: af_Receive_def)
  ultimately show ?thesis using af_Send_inv [OF inv, of a buf e] by blast
qed

text \<open>Answers of a system on which everything succeeds.\<close>

definition fine_ring :: ring_answers where
  "fine_ring = \<lparr>ra_packets = Inr 1, ra_id = Inr 2, ra_iocp = Inr 3, ra_cq = Inr 4\<rparr>"

definition fine_af :: "u16 \<Rightarrow> af_answers" where
  "fine_af port = \<lparr>aa_sock = (5, None), aa_rx = fine_ring, aa_tx = fine_ring, aa_rq = Inr 6, aa_bind = None, aa_name = Inr port, aa_insert = (\<lambda>_. None)\<rparr>"

lemma fine_Open: "\<exists>b. win_Open fine_af fine_af 51820 NewWinRingBind = Some ([], Inr 51820, b)"
proof -
  let ?ring = "zero_ring\<lparr>rb_packets := 1, rb_id := 2, rb_iocp := 3, rb_cq := 4\<rparr>"
  let ?af = "\<lparr>af_sock = 5, af_rx = ?ring, af_tx = ?ring, af_rq = 6, af_blackhole = False\<rparr>"
  have o: "af_Open fine_af 51820 zero_af = (Inr 51820, ?af)"
    by (simp add: af_Open_def fine_af_def fine_ring_def ring_Open_def handle_of_def error_of_def zero_af_def zero_ring_def)
  let ?b = "\<lparr>win_v4 = ?af, win_v6 = ?af, win_isOpen = 0\<rparr>"
  have "ring_rel ?ring 0 0" by (simp add: zero_rel zero_ring_def)
  then obtain b' where "insertAll (\<lambda>_. None) (\<lambda>_. None) packetsPerRing ?b = Some (None, b')"
    using insertAll_rel [of ?b 0 0 packetsPerRing 0 0 "\<lambda>_. None" "\<lambda>_. None"] by auto
  then show ?thesis using o
    by (simp add: win_Open_def openSockets_def NewWinRingBind_def) (simp add: fine_af_def)
qed

definition fine_send :: send_answers where
  "fine_send = \<lparr>sa_open = True, sa_dequeue = 0, sa_notify = None, sa_wait = None, sa_open2 = True, sa_dequeue2 = 0, sa_send = None\<rparr>"

theorem win_bind_safe_witness:
  "\<exists>af out err af'. af_runs af 0 \<and> af_Receive [] True [] af \<noteq> WinPanic \<and>
     af_Send fine_send [1, 2, 3] \<lparr>family = AF_INET, we_data = replicate 30 0\<rparr> af = Some (out, err, af')"
proof -
  obtain b where "win_Open fine_af fine_af 51820 NewWinRingBind = Some ([], Inr 51820, b)" using fine_Open by blast
  then have run: "af_runs (win_v4 b) 0" using af_runs.opened [OF New_closed] by blast
  have "completed fine_send [1, 2, 3] (af_tx (win_v4 b)) \<le> 0"
    by (simp add: completed_def sendSpace_def fine_send_def)
  then show ?thesis
    using run win_bind_safe [OF run, of "[]" "[]" True] win_bind_safe [OF run, of "[]" "[1, 2, 3]" True fine_send "\<lparr>family = AF_INET, we_data = replicate 30 0\<rparr>"]
    by (auto 0 4)
qed

text \<open>A send that \<open>SendEx\<close> refuses keeps its packet: after \<open>packetsPerRing\<close> such sends the ring is full although the kernel
  has nothing to complete, and no send gets through any more.\<close>

lemma failed_sends_fill:
  assumes "af_runs af0 0" "k \<le> packetsPerRing"
  shows "\<exists>af h t. af_runs af 0 \<and> ring_rel (af_tx af) h t \<and> k \<le> t - h"
  using assms(2)
proof (induction k)
  case 0
  then show ?case using assms(1) af_runs_inv [OF assms(1)] by (auto simp: af_inv_def)
next
  case (Suc k)
  then obtain af h t where s: "af_runs af 0" "ring_rel (af_tx af) h t" "k \<le> t - h" by auto
  show ?case
  proof (cases "Suc k \<le> t - h")
    case False
    let ?a = "fine_send\<lparr>sa_send := Some (WinErrno 1)\<rparr>"
    have room: "t < h + packetsPerRing" "h \<le> t" using False s(2,3) Suc.prems by (auto simp: ring_rel_def)
    obtain x tx' where push: "ring_Push (af_tx af) = Some (x, tx')" "ring_rel tx' h (Suc t)" using Push_rel [OF s(2) room(1)] by blast
    define af' where "af' = af\<lparr>af_tx := tx'\<lparr>rb_mem := (rb_mem tx')(x := \<lparr>rp_addr = \<lparr>family = AF_INET, we_data = []\<rparr>, rp_data = go_copy (rp_data (rb_mem tx' x)) 0 []\<rparr>)\<rparr>\<rparr>"
    have notfull: "\<not> rb_isFull (af_tx af)" using s(2) room by (simp add: ring_rel_def)
    have "af_Send ?a [] \<lparr>family = AF_INET, we_data = []\<rparr> af = Some (Some (x, 0), Some (WinErrno 1), af')"
      using push(1) notfull by (simp add: af_Send_def sendSpace_def fine_send_def af'_def Let_def)
    moreover have "completed ?a [] (af_tx af) = 0" using notfull by (simp add: completed_def sendSpace_def fine_send_def)
    ultimately have "af_runs af' 0" using af_runs.sent [OF s(1), of ?a "[]"] by fastforce
    moreover have "ring_rel (af_tx af') h (Suc t)" using push(2) by (simp add: af'_def ring_rel_def)
    ultimately show ?thesis using s(3) room(2) by (metis Suc_diff_le Suc_le_mono)
  qed (use s in blast)
qed

lemma failed_sends_block:
  "\<exists>af. af_runs af 0 \<and> (\<forall>a buf e out err af'. completed a buf (af_tx af) = 0 \<longrightarrow> af_Send a buf e af = Some (out, err, af') \<longrightarrow> out = None)"
proof -
  obtain b where "win_Open fine_af fine_af 51820 NewWinRingBind = Some ([], Inr 51820, b)" using fine_Open by blast
  then have "af_runs (win_v4 b) 0" using af_runs.opened [OF New_closed] by blast
  then obtain af h t where af: "af_runs af 0" "ring_rel (af_tx af) h t" "packetsPerRing \<le> t - h" using failed_sends_fill by blast
  then have full: "rb_isFull (af_tx af)" by (auto simp: ring_rel_def)
  have "out = None" if "completed a buf (af_tx af) = 0" "af_Send a buf e af = Some (out, err, af')" for a buf e out err af'
    using that full by (auto simp: completed_def af_Send_def sendSpace_def unat_eq_0 split: if_splits option.splits sum.splits)
  then show ?thesis using af(1) by blast
qed

text \<open>The bytes that cookies are bound to are those of the portable endpoint with the same address and port.\<close>

lemma win_DstToBytes_std:
  assumes "length (we_data e) = 30" "family e = AF_INET \<or> family e = AF_INET6"
  shows "win_DstToBytes e = DstToBytes \<lparr>ep_addr = win_DstIP e, ep_zone = [], ep_port = we_port e, ep_src = []\<rparr>"
proof -
  obtain x y zs where d: "we_data e = x # y # zs" using assms(1) that by (cases "we_data e"; cases "tl (we_data e)") auto
  have lt: "unat y + 256 * unat x < 2 ^ LENGTH(16)" using unat_byte_lt [of x] unat_byte_lt [of y] by (simp del: unat_byte_lt)
  have n: "be_nat (slice 0 2 (we_data e)) = unat y + 256 * unat x" by (simp add: d slice_def be_nat_def numeral_2_eq_2)
  have "unat (we_port e) = (unat y + 256 * unat x) mod 2 ^ LENGTH(16)" unfolding we_port_def n by (rule unat_of_nat)
  then have "unat (we_port e) = unat y + 256 * unat x" using lt by (simp only: mod_less)
  then have "le_bytes 2 (unat (we_port e)) = [y, x]" by (simp add: numeral_2_eq_2)
  then show ?thesis using assms(2) d by (auto simp: win_DstToBytes_def DstToBytes_def win_DstIP_def ascii_def AF_INET_def AF_INET6_def)
qed

end
