(* ===== verification/Ref_Queues.thy ===== *)
theory Ref_Queues
  imports Device_State
begin

text \<open>
  device/channels.go: the queues of the workers.  A queue is a buffered channel with a wait group that counts its writers;
  a goroutine started with the queue waits for the count to reach zero and closes the channel.  The three kinds
  (outbound, inbound, handshake) differ in the type of the elements and in the size.
\<close>

subsection \<open>The queue\<close>

record 'a ref_queue =
  rq_c :: "'a list"
  rq_size :: nat
  rq_closed :: bool
  rq_wg :: nat

definition newQueue :: "nat \<Rightarrow> 'a ref_queue" where
  "newQueue cap = \<lparr>rq_c = [], rq_size = cap, rq_closed = False, rq_wg = 1\<rparr>"

definition newOutboundQueue :: "'a ref_queue" where
  "newOutboundQueue = newQueue QueueOutboundSize"

definition newInboundQueue :: "'a ref_queue" where
  "newInboundQueue = newQueue QueueInboundSize"

definition newHandshakeQueue :: "'a ref_queue" where
  "newHandshakeQueue = newQueue QueueHandshakeSize"

datatype 'a chan_result = Done 'a | Wait | Panic

definition wg_Add :: "nat \<Rightarrow> 'a ref_queue \<Rightarrow> 'a ref_queue" where
  "wg_Add n q = q\<lparr>rq_wg := rq_wg q + n\<rparr>"

text \<open>\<open>Done\<close> panics when the counter would become negative.\<close>

definition wg_Done :: "'a ref_queue \<Rightarrow> 'a ref_queue chan_result" where
  "wg_Done q = (if rq_wg q = 0 then Panic else Done (q\<lparr>rq_wg := rq_wg q - 1\<rparr>))"

text \<open>The goroutine of the queue: \<open>wg.Wait\<close>, then \<open>close\<close>, which panics on a closed channel.\<close>

definition closer :: "'a ref_queue \<Rightarrow> 'a ref_queue chan_result" where
  "closer q = (if rq_wg q \<noteq> 0 then Wait else if rq_closed q then Panic else Done (q\<lparr>rq_closed := True\<rparr>))"

text \<open>Sending to and receiving from a buffered channel.\<close>

definition chan_send :: "'a \<Rightarrow> 'a ref_queue \<Rightarrow> 'a ref_queue chan_result" where
  "chan_send x q = (if rq_closed q then Panic else if rq_size q \<le> length (rq_c q) then Wait else Done (q\<lparr>rq_c := rq_c q @ [x]\<rparr>))"

definition chan_recv :: "'a ref_queue \<Rightarrow> ('a option \<times> 'a ref_queue) chan_result" where
  "chan_recv q = (case rq_c q of
     x # xs \<Rightarrow> Done (Some x, q\<lparr>rq_c := xs\<rparr>)
   | [] \<Rightarrow> if rq_closed q then Done (None, q) else Wait)"

subsection \<open>Its users\<close>

text \<open>The state of a run: the queue, whether its goroutine still waits, the references held, all that was sent and received, whether a
  reader has seen the end, and whether an operation panicked.\<close>

record 'a queue_run =
  rq :: "'a ref_queue"
  closing :: bool
  refs :: nat
  queue_sent :: "'a list"
  queue_got :: "'a list"
  saw_end :: bool
  crashed :: bool

definition queue_start :: "nat \<Rightarrow> 'a queue_run" where
  "queue_start cap = \<lparr>rq = newQueue cap, closing = True, refs = 1, queue_sent = [], queue_got = [], saw_end = False, crashed = False\<rparr>"

text \<open>The discipline the comment on \<open>outboundQueue\<close> asks for: whoever adds writers, sends or gives up a reference holds one.  A step
  that would wait is not taken.\<close>

definition after_chan :: "'a queue_run \<Rightarrow> ('b \<Rightarrow> 'a queue_run) \<Rightarrow> 'b chan_result \<Rightarrow> 'a queue_run option" where
  "after_chan s f r = (case r of Done x \<Rightarrow> Some (f x) | Wait \<Rightarrow> None | Panic \<Rightarrow> Some (s\<lparr>crashed := True\<rparr>))"

inductive queue_step :: "'a queue_run \<Rightarrow> 'a queue_run \<Rightarrow> bool" where
  add: "0 < refs s \<Longrightarrow> queue_step s (s\<lparr>rq := wg_Add n (rq s), refs := refs s + n\<rparr>)"
| drop: "0 < refs s \<Longrightarrow> after_chan s (\<lambda>q. s\<lparr>rq := q, refs := refs s - 1\<rparr>) (wg_Done (rq s)) = Some s' \<Longrightarrow> queue_step s s'"
| shut: "closing s \<Longrightarrow> after_chan s (\<lambda>q. s\<lparr>rq := q, closing := False\<rparr>) (closer (rq s)) = Some s' \<Longrightarrow> queue_step s s'"
| send: "0 < refs s \<Longrightarrow> after_chan s (\<lambda>q. s\<lparr>rq := q, queue_sent := queue_sent s @ [x]\<rparr>) (chan_send x (rq s)) = Some s' \<Longrightarrow> queue_step s s'"
| recv: "after_chan s (\<lambda>(r, q). case r of Some x \<Rightarrow> s\<lparr>rq := q, queue_got := queue_got s @ [x]\<rparr> | None \<Rightarrow> s\<lparr>rq := q, saw_end := True\<rparr>)
    (chan_recv (rq s)) = Some s' \<Longrightarrow> queue_step s s'"

inductive queue_runs :: "nat \<Rightarrow> 'a queue_run \<Rightarrow> bool" for cap :: nat where
  start: "queue_runs cap (queue_start cap)"
| step: "queue_runs cap s \<Longrightarrow> queue_step s s' \<Longrightarrow> queue_runs cap s'"

definition queue_inv :: "nat \<Rightarrow> 'a queue_run \<Rightarrow> bool" where
  "queue_inv cap s \<longleftrightarrow> \<not> crashed s \<and> rq_wg (rq s) = refs s \<and> rq_closed (rq s) = (\<not> closing s) \<and> (rq_closed (rq s) \<longrightarrow> refs s = 0) \<and>
     rq_size (rq s) = cap \<and> length (rq_c (rq s)) \<le> cap \<and> queue_sent s = queue_got s @ rq_c (rq s) \<and>
     (saw_end s \<longrightarrow> rq_closed (rq s) \<and> rq_c (rq s) = [])"

lemma queue_step_inv: "queue_step s s' \<Longrightarrow> queue_inv cap s \<Longrightarrow> queue_inv cap s'"
  by (induction rule: queue_step.induct)
    (auto simp: queue_inv_def after_chan_def wg_Add_def wg_Done_def closer_def chan_send_def chan_recv_def
      split: if_splits list.splits option.splits chan_result.splits)

lemma queue_runs_inv: "queue_runs cap s \<Longrightarrow> queue_inv cap s"
proof (induction rule: queue_runs.induct)
  case start
  show ?case by (simp add: queue_inv_def queue_start_def newQueue_def)
next
  case (step s s')
  then show ?case using queue_step_inv by blast
qed

text \<open>
  C28.  The reference counts of the worker queues (channels.go) work for any number of writers and readers that keep the
  discipline its comment states: no send hits a closed channel, no counter becomes negative and the channel is closed once; it is
  closed only after the last writer is gone; the readers have received, in order, what was sent, less what is still
  in the channel, and once one sees the end, everything sent has been received.  When the last reference is gone the queue's
  goroutine can close the channel.
\<close>

theorem queue_closes_after_writers:
  assumes "queue_runs cap s"
  shows "\<not> crashed s \<and> (rq_closed (rq s) \<longrightarrow> refs s = 0) \<and> queue_sent s = queue_got s @ rq_c (rq s) \<and> length (rq_c (rq s)) \<le> cap \<and>
    (saw_end s \<longrightarrow> queue_got s = queue_sent s \<and> refs s = 0) \<and>
    (refs s = 0 \<and> closing s \<longrightarrow> closer (rq s) = Done (rq s\<lparr>rq_closed := True\<rparr>))"
  using queue_runs_inv [OF assms] by (auto simp: queue_inv_def closer_def)

text \<open>One writer sends one element and leaves; the queue is closed with the element still in it.\<close>

definition example_queue :: "nat queue_run" where
  "example_queue = \<lparr>rq = \<lparr>rq_c = [7], rq_size = 2, rq_closed = True, rq_wg = 0\<rparr>, closing = False, refs = 0, queue_sent = [7], queue_got = [],
     saw_end = False, crashed = False\<rparr>"

lemma example_queue: "queue_runs 2 example_queue"
proof -
  let ?s1 = "(queue_start 2 :: nat queue_run)\<lparr>rq := (newQueue 2)\<lparr>rq_c := [7]\<rparr>, queue_sent := [7]\<rparr>"
  let ?s2 = "?s1\<lparr>rq := (newQueue 2)\<lparr>rq_c := [7], rq_wg := 0\<rparr>, refs := 0\<rparr>"
  note defs = queue_start_def newQueue_def after_chan_def
  have "queue_step (queue_start 2) ?s1" by (rule queue_step.send [where x = 7]) (simp_all add: defs chan_send_def)
  moreover have "queue_step ?s1 ?s2" by (rule queue_step.drop) (simp_all add: defs wg_Done_def)
  moreover have "queue_step ?s2 example_queue" by (rule queue_step.shut) (simp_all add: defs closer_def example_queue_def)
  ultimately show ?thesis by (meson queue_runs.intros)
qed

theorem queue_closes_after_writers_witness:
  "rq_closed (rq example_queue) \<and> refs example_queue = 0 \<and> queue_sent example_queue = queue_got example_queue @ [7]"
  using queue_closes_after_writers [OF example_queue] by (simp add: example_queue_def)

end
