(* ===== verification/Pools.thy ===== *)
theory Pools
  imports Ref_Queues "HOL-Library.Multiset"
begin

text \<open>
  device/pools.go: \<open>WaitPool\<close>, a \<open>sync.Pool\<close> whose users wait on a condition variable once \<open>max\<close> items are out.  An item is
  an address.  \<open>Get\<close> and \<open>Put\<close> are cut where the lock is taken and given back, so that other goroutines run between
  the parts: \<open>Get\<close> first reserves an item under the lock (or waits there) and then takes it from the pool; \<open>Put\<close> first hands
  it to the pool and then counts it under the lock.  Which item \<open>sync.Pool\<close> returns, and which waiter
  \<open>Signal\<close> wakes, is left open.
\<close>

subsection \<open>Sizes\<close>

text \<open>The queueconstants files: one set of sizes for each build.\<close>

record queue_constants =
  qc_staged :: nat
  qc_outbound :: nat
  qc_inbound :: nat
  qc_handshake :: nat
  qc_maxSegment :: nat
  qc_preallocated :: u32

definition constants_default :: queue_constants where
  "constants_default = \<lparr>qc_staged = QueueStagedSize, qc_outbound = QueueOutboundSize, qc_inbound = QueueInboundSize,
     qc_handshake = QueueHandshakeSize, qc_maxSegment = MaxSegmentSize, qc_preallocated = 0\<rparr>"

definition constants_android :: queue_constants where
  "constants_android = constants_default\<lparr>qc_preallocated := 4096\<rparr>"

definition constants_ios :: queue_constants where
  "constants_ios = \<lparr>qc_staged = 128, qc_outbound = 1024, qc_inbound = 1024, qc_handshake = 1024, qc_maxSegment = 1700, qc_preallocated = 1024\<rparr>"

definition constants_windows :: queue_constants where
  "constants_windows = \<lparr>qc_staged = 128, qc_outbound = 1024, qc_inbound = 1024, qc_handshake = 1024, qc_maxSegment = 2048 - 32, qc_preallocated = 0\<rparr>"

subsection \<open>The pool\<close>

record WaitPool =
  pool_items :: "nat multiset"
  wp_count :: u32
  wp_max :: u32
  wp_waiting :: "nat set"
  wp_woken :: "nat set"

definition NewWaitPool :: "u32 \<Rightarrow> WaitPool" where
  "NewWaitPool lim = \<lparr>pool_items = {#}, wp_count = 0, wp_max = lim, wp_waiting = {}, wp_woken = {}\<rparr>"

text \<open>The locked part of \<open>Get\<close> in goroutine \<open>t\<close>: one test of the loop, either on entry or when \<open>Wait\<close> returned.
  The result says whether \<open>t\<close> goes on to the pool.\<close>

definition get_lock :: "nat \<Rightarrow> WaitPool \<Rightarrow> WaitPool \<times> bool" where
  "get_lock t p =
     (let p = p\<lparr>wp_woken := wp_woken p - {t}\<rparr> in
      if wp_max p = 0 then (p, True)
      else if wp_max p \<le> wp_count p then (p\<lparr>wp_waiting := insert t (wp_waiting p)\<rparr>, False)
      else (p\<lparr>wp_count := wp_count p + 1\<rparr>, True))"

text \<open>\<open>p.pool.Get()\<close>: an item of the pool, or a new one.\<close>

definition pool_take :: "nat \<Rightarrow> WaitPool \<Rightarrow> WaitPool" where
  "pool_take x p = p\<lparr>pool_items := pool_items p - {#x#}\<rparr>"

definition pool_give :: "nat \<Rightarrow> WaitPool \<Rightarrow> WaitPool" where
  "pool_give x p = p\<lparr>pool_items := add_mset x (pool_items p)\<rparr>"

text \<open>The locked part of \<open>Put\<close>; \<open>w\<close> is the goroutine \<open>Signal\<close> wakes, if any waits.\<close>

definition put_lock :: "nat \<Rightarrow> WaitPool \<Rightarrow> WaitPool" where
  "put_lock w p =
     (if wp_max p = 0 then p
      else let p = p\<lparr>wp_count := wp_count p - 1\<rparr> in
        if w \<in> wp_waiting p then p\<lparr>wp_waiting := wp_waiting p - {w}, wp_woken := insert w (wp_woken p)\<rparr> else p)"

subsection \<open>Its users\<close>

text \<open>The goroutines between the parts: \<open>reserved\<close> have passed the lock in \<open>Get\<close>, \<open>in_use\<close> are the items handed out and not yet put back,
  \<open>returning\<close> the calls of \<open>Put\<close> that have not reached the lock.\<close>

record pool_run =
  wpool :: WaitPool
  reserved :: "nat set"
  in_use :: "nat multiset"
  returning :: nat

definition pool_start :: "u32 \<Rightarrow> pool_run" where
  "pool_start lim = \<lparr>wpool = NewWaitPool lim, reserved = {}, in_use = {#}, returning = 0\<rparr>"

inductive pool_step :: "pool_run \<Rightarrow> pool_run \<Rightarrow> bool" where
  get: "t \<notin> wp_waiting (wpool s) \<Longrightarrow> t \<notin> reserved s \<Longrightarrow> get_lock t (wpool s) = (p, ok) \<Longrightarrow>
    pool_step s (s\<lparr>wpool := p, reserved := (if ok then insert t (reserved s) else reserved s)\<rparr>)"
| take: "t \<in> reserved s \<Longrightarrow> x \<in># pool_items (wpool s) \<or> x \<notin># in_use s + pool_items (wpool s) \<Longrightarrow>
    pool_step s (s\<lparr>wpool := pool_take x (wpool s), reserved := reserved s - {t}, in_use := add_mset x (in_use s)\<rparr>)"
| give: "x \<in># in_use s \<Longrightarrow>
    pool_step s (s\<lparr>wpool := pool_give x (wpool s), in_use := in_use s - {#x#}, returning := Suc (returning s)\<rparr>)"
| put: "0 < returning s \<Longrightarrow> wp_waiting (wpool s) = {} \<or> w \<in> wp_waiting (wpool s) \<Longrightarrow>
    pool_step s (s\<lparr>wpool := put_lock w (wpool s), returning := returning s - 1\<rparr>)"
| collect: "items \<subseteq># pool_items (wpool s) \<Longrightarrow> pool_step s (s\<lparr>wpool := wpool s\<lparr>pool_items := items\<rparr>\<rparr>)"

inductive_cases pool_stepE: "pool_step s s'"

inductive pool_runs :: "u32 \<Rightarrow> pool_run \<Rightarrow> bool" for lim :: u32 where
  start: "pool_runs lim (pool_start lim)"
| step: "pool_runs lim s \<Longrightarrow> pool_step s s' \<Longrightarrow> pool_runs lim s'"

subsection \<open>The invariant\<close>

text \<open>\<open>count\<close> is the number of items reserved, in use or on their way back, and no more than \<open>max\<close>; no address is in
  the pool or in use twice; and whoever waits although items are left has been preceded by wake-ups for all of them.\<close>

definition pool_inv :: "u32 \<Rightarrow> pool_run \<Rightarrow> bool" where
  "pool_inv lim s \<longleftrightarrow> wp_max (wpool s) = lim \<and> finite (reserved s) \<and> finite (wp_waiting (wpool s)) \<and> finite (wp_woken (wpool s)) \<and>
     (\<forall>x. count (in_use s + pool_items (wpool s)) x \<le> 1) \<and>
     wp_waiting (wpool s) \<inter> wp_woken (wpool s) = {} \<and> (lim = 0 \<longrightarrow> wp_waiting (wpool s) = {}) \<and>
     (lim \<noteq> 0 \<longrightarrow> unat (wp_count (wpool s)) = card (reserved s) + size (in_use s) + returning s \<and> wp_count (wpool s) \<le> lim \<and>
       (wp_waiting (wpool s) \<noteq> {} \<longrightarrow> unat lim \<le> unat (wp_count (wpool s)) + card (wp_woken (wpool s))))"

lemma inc_less: "(c :: u32) < m \<Longrightarrow> unat (c + 1) = Suc (unat c)"
proof -
  assume "c < m"
  then have "unat c < unat m" by (simp add: word_less_nat_alt)
  then have "unat c + 1 < 2 ^ LENGTH(32)" using unsigned_less [of m, where ?'a = nat] by simp
  then show ?thesis by (simp add: unat_word_ariths)
qed

lemma dec_unat: "(c :: u32) \<noteq> 0 \<Longrightarrow> unat (c - 1) = unat c - 1"
  by (simp add: unat_minus_one)

lemma get_lock_inv:
  assumes "pool_inv lim s" "t \<notin> reserved s" "get_lock t (wpool s) = (p, ok)"
  shows "pool_inv lim (s\<lparr>wpool := p, reserved := (if ok then insert t (reserved s) else reserved s)\<rparr>)"
proof -
  let ?p = "wpool s"
  have woken: "card (wp_woken ?p) \<le> Suc (card (wp_woken ?p - {t}))"
    using card_Suc_Diff1 [of "wp_woken ?p" t] assms(1) by (cases "t \<in> wp_woken ?p") (simp_all add: pool_inv_def)
  consider "wp_max ?p = 0" | "wp_max ?p \<noteq> 0" "wp_max ?p \<le> wp_count ?p" | "wp_max ?p \<noteq> 0" "wp_count ?p < wp_max ?p" by fastforce
  then show ?thesis
  proof cases
    case 3
    then have p: "p = ?p\<lparr>wp_woken := wp_woken ?p - {t}, wp_count := wp_count ?p + 1\<rparr>" "ok"
      using assms(3) by (simp_all add: get_lock_def Let_def not_le [THEN iffD2])
    have "unat (wp_count ?p + 1) = Suc (unat (wp_count ?p))" "unat (wp_count ?p) < unat (wp_max ?p)"
      using 3 inc_less [OF 3(2)] by (simp_all add: word_less_nat_alt)
    then show ?thesis using assms(1,2) 3 woken unfolding p(1) by (auto simp: pool_inv_def p(2) word_le_nat_alt)
  qed (use assms in \<open>auto simp: pool_inv_def get_lock_def Let_def word_le_nat_alt\<close>)
qed

lemma put_lock_inv:
  assumes "pool_inv lim s" "0 < returning s" "wp_waiting (wpool s) = {} \<or> w \<in> wp_waiting (wpool s)"
  shows "pool_inv lim (s\<lparr>wpool := put_lock w (wpool s), returning := returning s - 1\<rparr>)"
proof (cases "lim = 0")
  case False
  let ?p = "wpool s"
  have c: "unat (wp_count ?p) = card (reserved s) + size (in_use s) + returning s" "wp_count ?p \<le> lim" using assms(1) False by (simp_all add: pool_inv_def)
  then have n0: "wp_count ?p \<noteq> 0" using assms(2) by (metis add_is_0 not_gr0 unat_0)
  have d: "unat (wp_count ?p - 1) = unat (wp_count ?p) - 1" "0 < unat (wp_count ?p)" using dec_unat [OF n0] n0 by (simp_all add: unat_gt_0)
  then have le: "wp_count ?p - 1 \<le> lim" using c(2) by (simp add: word_le_nat_alt)
  have "card (insert w (wp_woken ?p)) = Suc (card (wp_woken ?p))" if "w \<in> wp_waiting ?p"
  proof (rule card_insert_disjoint)
    show "finite (wp_woken ?p)" "w \<notin> wp_woken ?p" using that assms(1) unfolding pool_inv_def by blast+
  qed
  then show ?thesis using assms False c d le by (auto simp: pool_inv_def put_lock_def Let_def)
qed (use assms in \<open>simp add: pool_inv_def put_lock_def\<close>)

lemma pool_step_inv: "pool_step s s' \<Longrightarrow> pool_inv lim s \<Longrightarrow> pool_inv lim s'"
proof (induction rule: pool_step.induct)
  case (take t s x)
  then have "card (reserved s) = Suc (card (reserved s - {t}))" using card_Suc_Diff1 [of "reserved s" t] by (simp add: pool_inv_def)
  moreover have "count (add_mset x (in_use s) + (pool_items (wpool s) - {#x#})) y \<le> 1" for y
  proof -
    have "count (in_use s + pool_items (wpool s)) y \<le> 1" using take.prems by (simp add: pool_inv_def)
    moreover have "0 < count (pool_items (wpool s)) x \<or> count (in_use s) x = 0 \<and> count (pool_items (wpool s)) x = 0"
      using take.hyps(2) by (auto simp: count_eq_zero_iff)
    ultimately show ?thesis by (cases "y = x") (auto simp del: count_greater_zero_iff)
  qed
  ultimately show ?case using take.prems by (auto simp: pool_inv_def pool_take_def)
next
  case (give x s)
  then have "size (in_use s) = Suc (size (in_use s - {#x#}))" by (metis insert_DiffM size_add_mset)
  moreover have "count (in_use s - {#x#} + add_mset x (pool_items (wpool s))) y \<le> 1" for y
  proof -
    have "in_use s - {#x#} + add_mset x (pool_items (wpool s)) = in_use s + pool_items (wpool s)" using give.hyps by simp
    then show ?thesis using give.prems by (simp only: pool_inv_def)
  qed
  ultimately show ?case using give.prems
    by (auto simp: pool_inv_def pool_give_def simp del: count_union union_mset_add_mset_right union_mset_add_mset_left count_add_mset)
next
  case (collect items s)
  have "count (in_use s + items) y \<le> 1" for y
    using collect mset_subset_eq_count [OF collect.hyps, of y] by (auto simp: pool_inv_def dest!: spec [of _ y])
  then show ?case using collect.prems by (auto simp: pool_inv_def)
qed (use get_lock_inv put_lock_inv in auto)

lemma pool_runs_inv: "pool_runs lim s \<Longrightarrow> pool_inv lim s"
proof (induction rule: pool_runs.induct)
  case start
  show ?case by (simp add: pool_inv_def pool_start_def NewWaitPool_def)
next
  case (step s s')
  then show ?case using pool_step_inv by blast
qed

subsection \<open>What the pool promises\<close>

text \<open>\<open>PopulatePools\<close> gives each pool the build's bound: on the builds that have one, the buffers of a pool take no more
  memory than that many times the largest segment.\<close>

lemma pool_memory:
  assumes "pool_runs (qc_preallocated k) s" "qc_preallocated k \<noteq> 0"
  shows "size (in_use s) * qc_maxSegment k \<le> unat (qc_preallocated k) * qc_maxSegment k"
  using pool_runs_inv [OF assms(1)] assms(2) by (auto simp: pool_inv_def word_le_nat_alt intro!: mult_right_mono)


text \<open>
  C27.  A bounded \<open>WaitPool\<close> (pools.go) keeps its promise in every run of any number of goroutines that put back only what they got,
  each once: \<open>count\<close> is the number of items reserved, in use or being put back, never wraps and never exceeds \<open>max\<close>; no item
  is in use twice or in use and in the pool; and no wake-up is lost: when somebody waits in \<open>Get\<close> although
  fewer than \<open>max\<close> items are out, some goroutine has been woken whose next test of the loop succeeds.
\<close>

theorem pool_bounded:
  assumes "pool_runs lim s" "lim \<noteq> 0"
  shows "unat (wp_count (wpool s)) = card (reserved s) + size (in_use s) + returning s \<and> wp_count (wpool s) \<le> lim \<and>
    (\<forall>x. count (in_use s + pool_items (wpool s)) x \<le> 1) \<and>
    (wp_waiting (wpool s) \<noteq> {} \<and> wp_count (wpool s) < lim \<longrightarrow> (\<exists>t \<in> wp_woken (wpool s). snd (get_lock t (wpool s))))"
proof -
  have inv: "pool_inv lim s" using pool_runs_inv [OF assms(1)] .
  have "\<exists>t \<in> wp_woken (wpool s). snd (get_lock t (wpool s))" if w: "wp_waiting (wpool s) \<noteq> {}" "wp_count (wpool s) < lim"
  proof -
    have "unat lim \<le> unat (wp_count (wpool s)) + card (wp_woken (wpool s))" "wp_max (wpool s) = lim"
      using inv assms(2) w(1) by (simp_all add: pool_inv_def)
    moreover have "unat (wp_count (wpool s)) < unat lim" using w(2) by (simp add: word_less_nat_alt)
    ultimately obtain t where "t \<in> wp_woken (wpool s)" by (metis add_0_right card.empty ex_in_conv not_le)
    moreover have "snd (get_lock t (wpool s))" using w(2) \<open>wp_max (wpool s) = lim\<close> by (simp add: get_lock_def Let_def not_le [THEN iffD2])
    ultimately show ?thesis by blast
  qed
  then show ?thesis using inv assms(2) by (auto simp: pool_inv_def)
qed

text \<open>A pool of one item: goroutine 0 has it, goroutine 1 waits.\<close>

definition example_run :: pool_run where
  "example_run = \<lparr>wpool = \<lparr>pool_items = {#}, wp_count = 1, wp_max = 1, wp_waiting = {1}, wp_woken = {}\<rparr>, reserved = {},
     in_use = {#5#}, returning = 0\<rparr>"

lemma example_run: "pool_runs 1 example_run"
proof -
  let ?s1 = "\<lparr>wpool = \<lparr>pool_items = {#}, wp_count = 1, wp_max = 1, wp_waiting = {}, wp_woken = {}\<rparr>, reserved = {0}, in_use = {#}, returning = 0\<rparr>"
  let ?s2 = "\<lparr>wpool = \<lparr>pool_items = {#}, wp_count = 1, wp_max = 1, wp_waiting = {}, wp_woken = {}\<rparr>, reserved = {}, in_use = {#5#}, returning = 0\<rparr>"
  have "pool_step (pool_start 1) ?s1"
    using pool_step.get [of 0 "pool_start 1" "wpool ?s1" True] by (simp add: pool_start_def NewWaitPool_def get_lock_def)
  moreover have "pool_step ?s1 ?s2" using pool_step.take [of 0 ?s1 5] by (simp add: pool_take_def)
  moreover have "pool_step ?s2 example_run"
    using pool_step.get [of 1 ?s2 "wpool example_run" False] by (simp add: get_lock_def example_run_def)
  ultimately show ?thesis by (meson pool_runs.intros)
qed

theorem pool_bounded_witness:
  "unat (wp_count (wpool example_run)) = card (reserved example_run) + size (in_use example_run) + returning example_run \<and>
   size (in_use example_run) = 1 \<and> (\<forall>x. count (in_use example_run + pool_items (wpool example_run)) x \<le> 1)"
  using pool_bounded [OF example_run] by (simp add: example_run_def)

end
