(* ===== verification/Stun.thy ===== *)
theory Stun
  imports Slices
begin

text \<open>
  z/stun/client.go: the STUN client that learns the public address of the tunnel's socket.  What is
  outside (random bytes, name resolution, the socket, the send function of the shared mode) enters as an
  argument of the operation that uses it; requests sent and calls of the callback are logs in the
  client's state.  \<open>None\<close> is a panic.
\<close>

subsection \<open>The client\<close>

definition BindingRequest :: u16 where "BindingRequest = 0x0001"
definition BindingResponse :: u16 where "BindingResponse = 0x0101"
definition MagicCookie :: u32 where "MagicCookie = 0x2112A442"
definition XorMappedAddress :: u16 where "XorMappedAddress = 0x0020"

datatype stun_error = ShortMessage | ShortXorMapped | UnsupportedFamily byte | XorMappedNotFound
  | RandFailed | NoSendFunction | ResolveFailed | WriteFailed

record StunResult =
  sr_Address :: bytes
  sr_Port :: nat

text \<open>The stop channel is nil only in a client that was not made by \<open>NewStunClient\<close>; \<open>sc_conn\<close> tells
  whether the socket, if there is one, is open.\<close>

datatype stop_chan = StopOpen | StopClosed

record StunClient =
  sc_conn :: "bool option"
  sc_publicAddress :: "bytes option"
  sc_publicPort :: nat
  sc_onEndpointChanged :: bool
  sc_stopChan :: stop_chan
  sc_sendRequestFunc :: bool
  sc_requests :: "bytes list"
  sc_calls :: "(bytes \<times> nat \<times> bool) list"

definition NewStunClient :: StunClient where
  "NewStunClient = \<lparr>sc_conn = None, sc_publicAddress = None, sc_publicPort = 0, sc_onEndpointChanged = False,
     sc_stopChan = StopOpen, sc_sendRequestFunc = False, sc_requests = [], sc_calls = []\<rparr>"

subsection \<open>Requests\<close>

definition bindingRequest :: "bytes \<Rightarrow> bytes option" where
  "bindingRequest tid = do {
     let buf = replicate 20 0;
     buf \<leftarrow> put16 0 BindingRequest buf;
     buf \<leftarrow> put16 2 0 buf;
     buf \<leftarrow> put32 4 MagicCookie buf;
     copy_to 8 tid buf}"

text \<open>\<open>WriteToUDP\<close> fails on a closed socket and panics on a nil one.\<close>

definition sendBindingRequest :: "bytes option \<Rightarrow> bool \<Rightarrow> StunClient \<Rightarrow> (StunClient \<times> stun_error option) option" where
  "sendBindingRequest rand write_ok c =
     (case rand of
        None \<Rightarrow> Some (c, Some RandFailed)
      | Some tid \<Rightarrow> do {
          buf \<leftarrow> bindingRequest tid;
          open \<leftarrow> sc_conn c;
          if open \<and> write_ok then Some (c\<lparr>sc_requests := sc_requests c @ [buf]\<rparr>, None)
          else Some (c, Some WriteFailed)})"

definition sendBindingRequestShared :: "bytes option \<Rightarrow> bool \<Rightarrow> StunClient \<Rightarrow> (StunClient \<times> stun_error option) option" where
  "sendBindingRequestShared rand write_ok c =
     (case rand of
        None \<Rightarrow> Some (c, Some RandFailed)
      | Some tid \<Rightarrow> do {
          buf \<leftarrow> bindingRequest tid;
          if \<not> sc_sendRequestFunc c then Some (c, Some NoSendFunction)
          else if write_ok then Some (c\<lparr>sc_requests := sc_requests c @ [buf]\<rparr>, None)
          else Some (c, Some WriteFailed)})"

subsection \<open>Responses\<close>

text \<open>\<open>for offset%4 != 0 { offset++ }\<close>\<close>

definition align4 :: "nat \<Rightarrow> nat" where
  "align4 offset = (if offset mod 4 = 0 then offset else offset + (4 - offset mod 4))"

definition xorMapped :: "bytes \<Rightarrow> bytes \<Rightarrow> nat \<Rightarrow> nat \<Rightarrow> (stun_error + StunResult) option" where
  "xorMapped buf cookie offset attrLen =
     (if attrLen < 8 then Some (Inl ShortXorMapped)
      else do {
        family \<leftarrow> elem_at buf (offset + 5);
        if family \<noteq> 0x01 then Some (Inl (UnsupportedFamily family))
        else do {
          xPort \<leftarrow> get16 (offset + 6) buf;
          x \<leftarrow> sub (offset + 8) (offset + 12) buf;
          Some (Inr \<lparr>sr_Address = map2 (XOR) x cookie, sr_Port = unat (xPort XOR 0x2112)\<rparr>)}})"

function parseAttrs :: "bytes \<Rightarrow> bytes \<Rightarrow> nat \<Rightarrow> (stun_error + StunResult) option" where
  "parseAttrs buf cookie offset =
     (if offset + 4 \<le> length buf then do {
        attrType \<leftarrow> get16 offset buf;
        len \<leftarrow> get16 (offset + 2) buf;
        let attrLen = unat len;
        if offset + 4 + attrLen > length buf then Some (Inl XorMappedNotFound)
        else if attrType = XorMappedAddress then xorMapped buf cookie offset attrLen
        else parseAttrs buf cookie (align4 (offset + 4 + attrLen))}
      else Some (Inl XorMappedNotFound))"
  by pat_completeness auto
termination
  by (relation "measure (\<lambda>(buf, cookie, offset). length buf - offset)") (auto simp: align4_def)

declare parseAttrs.simps [simp del]

definition parse :: "bytes \<Rightarrow> (stun_error + StunResult) option" where
  "parse buf =
     (if length buf < 20 then Some (Inl ShortMessage)
      else do {
        cookie \<leftarrow> sub 4 8 buf;
        parseAttrs buf cookie 20})"

text \<open>The addresses compared are results of \<open>parse\<close>, four bytes each, so that \<open>Equal\<close> is equality.\<close>

definition publish :: "StunResult \<Rightarrow> StunClient \<Rightarrow> StunClient" where
  "publish res c =
     (let changed = sc_publicAddress c = None \<or> sc_publicAddress c \<noteq> Some (sr_Address res);
          c = c\<lparr>sc_publicAddress := Some (sr_Address res), sc_publicPort := sr_Port res\<rparr>
      in if sc_onEndpointChanged c
         then c\<lparr>sc_calls := sc_calls c @ [(sr_Address res, sr_Port res, changed)]\<rparr> else c)"

definition ProcessPacket :: "bytes \<Rightarrow> StunClient \<Rightarrow> StunClient option" where
  "ProcessPacket buf c = do {
     res \<leftarrow> parse buf;
     Some (case res of Inl _ \<Rightarrow> c | Inr res \<Rightarrow> publish res c)}"

text \<open>One turn of \<open>listenLoop\<close>: \<open>None\<close> for the read is a timeout or an error; the flag says whether
  the loop goes on.\<close>

definition listenTurn :: "bytes option \<Rightarrow> StunClient \<Rightarrow> (StunClient \<times> bool) option" where
  "listenTurn datagram c =
     (if sc_stopChan c = StopClosed then Some (c, False)
      else case datagram of
          None \<Rightarrow> Some (c, True)
        | Some b \<Rightarrow> do {
            c \<leftarrow> ProcessPacket (take 1024 b) c;
            Some (c, True)})"

subsection \<open>Start and stop\<close>

definition Start_stun :: "bool \<Rightarrow> bool \<Rightarrow> bytes option \<Rightarrow> bool \<Rightarrow> StunClient \<Rightarrow> (StunClient \<times> stun_error option) option" where
  "Start_stun resolved callback rand write_ok c =
     (if \<not> resolved then Some (c, Some ResolveFailed)
      else sendBindingRequest rand write_ok
        (c\<lparr>sc_conn := Some True, sc_onEndpointChanged := callback, sc_stopChan := StopOpen\<rparr>))"

definition StartShared :: "bool \<Rightarrow> bool \<Rightarrow> bytes option \<Rightarrow> bool \<Rightarrow> StunClient \<Rightarrow> (StunClient \<times> stun_error option) option" where
  "StartShared resolved callback rand write_ok c =
     (if \<not> resolved then Some (c, Some ResolveFailed)
      else sendBindingRequestShared rand write_ok
        (c\<lparr>sc_sendRequestFunc := True, sc_onEndpointChanged := callback, sc_stopChan := StopOpen\<rparr>))"

text \<open>One turn of the five-second ticker of \<open>StartShared\<close> and of \<open>Start\<close>.\<close>

definition tickShared :: "bytes option \<Rightarrow> bool \<Rightarrow> StunClient \<Rightarrow> (StunClient \<times> bool) option" where
  "tickShared rand write_ok c =
     (if sc_stopChan c = StopClosed then Some (c, False)
      else do {
        (c, _) \<leftarrow> sendBindingRequestShared rand write_ok c;
        Some (c, True)})"

definition tick :: "bytes option \<Rightarrow> bool \<Rightarrow> StunClient \<Rightarrow> (StunClient \<times> bool) option" where
  "tick rand write_ok c =
     (if sc_stopChan c = StopClosed then Some (c, False)
      else do {
        (c, _) \<leftarrow> sendBindingRequest rand write_ok c;
        Some (c, True)})"

definition Stop_stun :: "StunClient \<Rightarrow> StunClient" where
  "Stop_stun c = c\<lparr>sc_stopChan := StopClosed, sc_sendRequestFunc := False,
     sc_conn := (case sc_conn c of None \<Rightarrow> None | Some _ \<Rightarrow> Some False)\<rparr>"

subsection \<open>The request\<close>

lemma bindingRequest_layout:
  "length tid = 12 \<Longrightarrow> bindingRequest tid = Some (BE_PutUint16 BindingRequest @ BE_PutUint16 0 @ BE_PutUint32 MagicCookie @ tid)"
  by (simp add: bindingRequest_def put16_def put32_def copy_to_def go_copy_def byte_simps BE_PutUint16_def BE_PutUint32_def
      numeral_eq_Suc)

subsection \<open>Parsing\<close>

lemma align4_ge: "n \<le> align4 n" "4 dvd align4 n" "align4 n < n + 4"
  by (auto simp: align4_def) presburger+

text \<open>No input makes the parser panic.\<close>

lemma xorMapped_total: "offset + 4 + attrLen \<le> length buf \<Longrightarrow> \<exists>r. xorMapped buf cookie offset attrLen = Some r"
  by (auto simp: xorMapped_def elem_at_def get16_def sub_def)

lemma parseAttrs_total: "\<exists>r. parseAttrs buf cookie offset = Some r"
proof (induction buf cookie offset rule: parseAttrs.induct)
  case (1 buf cookie offset)
  show ?case
  proof (cases "offset + 4 \<le> length buf")
    case True
    then obtain t l where tl: "get16 offset buf = Some t" "get16 (offset + 2) buf = Some l" by (auto simp: get16_def)
    show ?thesis
      using "1.IH" [OF True tl refl] True tl xorMapped_total [of offset "unat l" buf cookie]
      by (subst parseAttrs.simps) (auto simp: Let_def)
  next
    case False
    then show ?thesis by (subst parseAttrs.simps) simp
  qed
qed

lemma parse_total: "\<exists>r. parse buf = Some r"
  using parseAttrs_total by (auto simp: parse_def sub_def)

text \<open>A message as a server lays it out: attributes of other types, the mapped address, anything.\<close>

definition attribute :: "u16 \<times> bytes \<Rightarrow> bytes" where
  "attribute a = BE_PutUint16 (fst a) @ BE_PutUint16 (word_of_nat (length (snd a))) @ snd a @
     replicate (align4 (length (snd a)) - length (snd a)) 0"

definition mapped :: "bytes \<Rightarrow> u16 \<Rightarrow> bytes" where
  "mapped ip port = BE_PutUint16 XorMappedAddress @ BE_PutUint16 8 @ [0, 1] @ BE_PutUint16 (port XOR 0x2112) @
     map2 (XOR) ip (BE_PutUint32 MagicCookie)"

definition stun_message :: "bytes \<Rightarrow> bytes \<Rightarrow> (u16 \<times> bytes) list \<Rightarrow> bytes \<Rightarrow> u16 \<Rightarrow> bytes \<Rightarrow> bytes" where
  "stun_message head tid before ip port after =
     head @ BE_PutUint32 MagicCookie @ tid @ concat (map attribute before) @ mapped ip port @ after"

lemma length_attribute: "length (attribute a) = 4 + align4 (length (snd a))"
  using align4_ge(1) [of "length (snd a)"] by (simp add: attribute_def)

lemma align4_add: "4 dvd k \<Longrightarrow> align4 (k + n) = k + align4 n"
proof -
  assume "4 dvd k"
  then have "(k + n) mod 4 = n mod 4" by (auto elim!: dvdE)
  then show ?thesis by (simp only: align4_def) (simp add: ac_simps)
qed

lemma parse_skip:
  assumes "4 dvd length p" "t \<noteq> XorMappedAddress" "length v < 2 ^ 16"
  shows "parseAttrs (p @ attribute (t, v) @ r) cookie (length p) =
    parseAttrs (p @ attribute (t, v) @ r) cookie (length (p @ attribute (t, v)))"
proof -
  let ?b = "p @ attribute (t, v) @ r"
  have len: "unat (word_of_nat (length v) :: u16) = length v" using assms(3) by (simp add: unat_of_nat)
  have g: "get16 (length p) ?b = Some t" "get16 (length p + 2) ?b = Some (word_of_nat (length v))"
    by (simp_all add: get16_def attribute_def)
  have al: "align4 (length p + 4 + length v) = length (p @ attribute (t, v))"
    using align4_add [of "length p + 4" "length v"] assms(1) by (simp add: length_attribute)
  have "length p + 4 + length v \<le> length ?b" by (simp add: attribute_def BE_PutUint16_def)
  then show ?thesis using g len assms(2) by (subst parseAttrs.simps) (simp add: al)
qed

lemma parse_skips:
  assumes "4 dvd length p" "\<forall>a \<in> set before. fst a \<noteq> XorMappedAddress \<and> length (snd a) < 2 ^ 16"
  shows "parseAttrs (p @ concat (map attribute before) @ r) cookie (length p) =
    parseAttrs (p @ concat (map attribute before) @ r) cookie (length (p @ concat (map attribute before)))"
  using assms
proof (induction before arbitrary: p)
  case (Cons a before)
  have "4 dvd length (p @ attribute a)"
    using Cons.prems(1) align4_ge(2) [of "length (snd a)"] dvd_add [of 4 "length p" "4 + align4 (length (snd a))"]
    by (simp add: length_attribute del: add_numeral_left)
  then have "parseAttrs ((p @ attribute a) @ concat (map attribute before) @ r) cookie (length (p @ attribute a)) =
      parseAttrs ((p @ attribute a) @ concat (map attribute before) @ r) cookie
        (length ((p @ attribute a) @ concat (map attribute before)))"
    using Cons.prems(2) by (intro Cons.IH) auto
  then show ?case
    using parse_skip [of p "fst a" "snd a" "concat (map attribute before) @ r" cookie] Cons.prems by simp
qed simp

lemma map2_xor_twice: "length x = length y \<Longrightarrow> map2 (XOR) (map2 (XOR) x y) y = (x :: bytes)"
  by (induction x y rule: list_induct2) (auto simp: xor.assoc)

lemma parse_mapped:
  assumes "length ip = 4"
  shows "parseAttrs (p @ mapped ip port @ r) (BE_PutUint32 MagicCookie) (length p) =
    Some (Inr \<lparr>sr_Address = ip, sr_Port = unat port\<rparr>)"
proof -
  let ?b = "p @ mapped ip port @ r"
  have "get16 (length p) ?b = Some XorMappedAddress" "get16 (length p + 2) ?b = Some 8"
    "elem_at ?b (length p + 5) = Some 1" "get16 (length p + 6) ?b = Some (port XOR 0x2112)"
    "sub (length p + 8) (length p + 12) ?b = Some (map2 (XOR) ip (BE_PutUint32 MagicCookie))"
    using assms by (simp_all add: get16_def mapped_def elem_at_def sub_def slice_def nth_append)
  moreover have "length p + 12 \<le> length ?b" using assms by (simp add: mapped_def)
  ultimately show ?thesis using assms map2_xor_twice [of ip "BE_PutUint32 MagicCookie"]
    by (subst parseAttrs.simps) (simp add: xorMapped_def xor.assoc)
qed

lemma parse_message:
  assumes "length head = 4" "length tid = 12" "length ip = 4"
    "\<forall>a \<in> set before. fst a \<noteq> XorMappedAddress \<and> length (snd a) < 2 ^ 16"
  shows "parse (stun_message head tid before ip port after) = Some (Inr \<lparr>sr_Address = ip, sr_Port = unat port\<rparr>)"
proof -
  let ?p = "head @ BE_PutUint32 MagicCookie @ tid" and ?m = "stun_message head tid before ip port after"
  have m: "?m = ?p @ concat (map attribute before) @ mapped ip port @ after"
    "?m = (?p @ concat (map attribute before)) @ mapped ip port @ after" by (simp_all add: stun_message_def)
  have p: "length ?p = 20" using assms by simp
  have "parse ?m = parseAttrs ?m (BE_PutUint32 MagicCookie) 20"
    using assms by (simp add: parse_def sub_def slice_def stun_message_def)
  also have "\<dots> = parseAttrs ?m (BE_PutUint32 MagicCookie) (length (?p @ concat (map attribute before)))"
    using parse_skips [of ?p before "mapped ip port @ after" "BE_PutUint32 MagicCookie"] assms(4) p by (simp only: m(1) p) simp
  finally show ?thesis using parse_mapped [OF assms(3)] by (simp only: m(2))
qed

text \<open>
  C36.  The STUN client (z/stun/client.go) never panics on a packet, and from every message that carries an
  XOR-MAPPED-ADDRESS for IPv4 after any other attributes it learns exactly the address and port the
  server saw: they become the public endpoint and the callback, if there is one, is called with them.  Neither the message
  type nor the transaction id matters, and \<open>changed\<close> is reported exactly when the address differs from the one
  known before: a new port alone is not a change.
\<close>

theorem stun_mapping_learned:
  assumes "length head = 4" "length tid = 12" "length ip = 4"
    "\<forall>a \<in> set before. fst a \<noteq> XorMappedAddress \<and> length (snd a) < 2 ^ 16"
  shows "(\<forall>buf. \<exists>c'. ProcessPacket buf c = Some c') \<and>
    (\<exists>c'. ProcessPacket (stun_message head tid before ip port after) c = Some c' \<and>
      sc_publicAddress c' = Some ip \<and> sc_publicPort c' = unat port \<and>
      sc_calls c' = sc_calls c @ (if sc_onEndpointChanged c
        then [(ip, unat port, sc_publicAddress c \<noteq> Some ip)] else []))"
proof (intro conjI allI)
  fix buf
  show "\<exists>c'. ProcessPacket buf c = Some c'" using parse_total [of buf] by (auto simp: ProcessPacket_def)
qed (use parse_message [OF assms, of port after] in \<open>auto simp: ProcessPacket_def publish_def Let_def\<close>)

theorem stun_mapping_learned_witness:
  "\<exists>c'. ProcessPacket (stun_message [1, 1, 0, 20] (replicate 12 9) [(0x8022, [1, 2, 3, 4, 5])] [203, 0, 113, 7] 40000 [])
      (NewStunClient\<lparr>sc_onEndpointChanged := True, sc_publicAddress := Some [203, 0, 113, 7], sc_publicPort := 51820\<rparr>) = Some c' \<and>
    sc_publicPort c' = 40000 \<and> sc_calls c' = [([203, 0, 113, 7], 40000, False)]"
  using stun_mapping_learned [of "[1, 1, 0, 20]" "replicate 12 9" "[203, 0, 113, 7]" "[(0x8022, [1, 2, 3, 4, 5])]"
    "NewStunClient\<lparr>sc_onEndpointChanged := True, sc_publicAddress := Some [203, 0, 113, 7], sc_publicPort := 51820\<rparr>" 40000 "[]"]
  by (auto simp: XorMappedAddress_def NewStunClient_def)

subsection \<open>Stopping\<close>

text \<open>A stopped client sends nothing, its loops end at their next turn, and stopping again changes nothing.\<close>

lemma stun_stopped:
  shows "Stop_stun (Stop_stun c) = Stop_stun c"
    and "tickShared rand w (Stop_stun c) = Some (Stop_stun c, False)"
    and "tick rand w (Stop_stun c) = Some (Stop_stun c, False)"
    and "listenTurn b (Stop_stun c) = Some (Stop_stun c, False)"
  by (simp_all add: Stop_stun_def tickShared_def tick_def listenTurn_def split: option.split)

lemma MagicCookie_bytes: "BE_PutUint32 MagicCookie = [0x21, 0x12, 0xA4, 0x42]"
proof -
  have "unat MagicCookie = 0x2112A442" by (simp add: MagicCookie_def)
  moreover have "(4 :: nat) = Suc (Suc (Suc (Suc 0)))" by simp
  ultimately show ?thesis by (simp only: BE_PutUint32_def be_bytes_def le_bytes.simps) simp
qed

lemma stun_request_recognised:
  "length tid = 12 \<Longrightarrow> \<exists>buf c'. bindingRequest tid = Some buf \<and> length buf = 20 \<and> take 4 (drop 4 buf) = [0x21, 0x12, 0xA4, 0x42] \<and>
     sendBindingRequestShared (Some tid) True (c\<lparr>sc_sendRequestFunc := True\<rparr>) = Some (c', None) \<and> sc_requests c' = sc_requests c @ [buf]"
  by (simp add: bindingRequest_layout sendBindingRequestShared_def MagicCookie_bytes)

end
