(* ===== verification/Timers.thy ===== *)
theory Timers
  imports Noise_Protocol
begin

text \<open>
  The timer operations of device/timers.go and the small state changes of device/peer.go that the
  senders and receivers use.  The expiry functions, which send, are in theory \<open>Peers\<close>.
\<close>

definition Timer_Mod :: "env \<Rightarrow> duration \<Rightarrow> Timer \<Rightarrow> Timer" where
  "Timer_Mod e d t = t\<lparr>isPending := True, deadline := now e + d\<rparr>"

definition Timer_Del :: "Timer \<Rightarrow> Timer" where
  "Timer_Del t = t\<lparr>isPending := False\<rparr>"

definition DelSync :: "Timer \<Rightarrow> Timer" where
  "DelSync t = Timer_Del (Timer_Del t)"

text \<open>\<open>runtime.fastrandn\<close> gives a number below its argument.\<close>

definition fastrandn :: "env \<Rightarrow> nat \<Rightarrow> nat" where
  "fastrandn e n = unat (jitter e) mod n"

definition timersActive :: "Device \<Rightarrow> peer_id \<Rightarrow> bool" where
  "timersActive d p \<longleftrightarrow> isRunning (peer_store d p) \<and> isUp d"

definition timersDataSent :: "env \<Rightarrow> peer_id \<Rightarrow> Device \<Rightarrow> Device" where
  "timersDataSent e p d =
     (if timersActive d p \<and> \<not> isPending (newHandshake (peer_store d p))
      then upd_peer p (\<lambda>pr. pr\<lparr>newHandshake := Timer_Mod e (KeepaliveTimeout + RekeyTimeout
             + Millisecond * int (fastrandn e RekeyTimeoutJitterMaxMs)) (newHandshake pr)\<rparr>) d
      else d)"

definition timersDataReceived :: "env \<Rightarrow> peer_id \<Rightarrow> Device \<Rightarrow> Device" where
  "timersDataReceived e p d =
     (if timersActive d p then
        if \<not> isPending (sendKeepalive (peer_store d p))
        then upd_peer p (\<lambda>pr. pr\<lparr>sendKeepalive := Timer_Mod e KeepaliveTimeout (sendKeepalive pr)\<rparr>) d
        else upd_peer p (\<lambda>pr. pr\<lparr>needAnotherKeepalive := True\<rparr>) d
      else d)"

definition timersAnyAuthenticatedPacketSent :: "peer_id \<Rightarrow> Device \<Rightarrow> Device" where
  "timersAnyAuthenticatedPacketSent p d =
     (if timersActive d p
      then upd_peer p (\<lambda>pr. pr\<lparr>sendKeepalive := Timer_Del (sendKeepalive pr)\<rparr>) d else d)"

definition timersAnyAuthenticatedPacketReceived :: "peer_id \<Rightarrow> Device \<Rightarrow> Device" where
  "timersAnyAuthenticatedPacketReceived p d =
     (if timersActive d p
      then upd_peer p (\<lambda>pr. pr\<lparr>newHandshake := Timer_Del (newHandshake pr)\<rparr>) d else d)"

definition timersHandshakeInitiated :: "env \<Rightarrow> peer_id \<Rightarrow> Device \<Rightarrow> Device" where
  "timersHandshakeInitiated e p d =
     (if timersActive d p
      then upd_peer p (\<lambda>pr. pr\<lparr>retransmitHandshake := Timer_Mod e (RekeyTimeout
             + Millisecond * int (fastrandn e RekeyTimeoutJitterMaxMs)) (retransmitHandshake pr)\<rparr>) d
      else d)"

definition timersHandshakeComplete :: "env \<Rightarrow> peer_id \<Rightarrow> Device \<Rightarrow> Device" where
  "timersHandshakeComplete e p d =
     (let d = (if timersActive d p
        then upd_peer p (\<lambda>pr. pr\<lparr>retransmitHandshake := Timer_Del (retransmitHandshake pr)\<rparr>) d else d)
      in upd_peer p (\<lambda>pr. pr\<lparr>handshakeAttempts := 0, sentLastMinuteHandshake := False,
           lastHandshakeNano := UnixNano (now e)\<rparr>) d)"

definition timersSessionDerived :: "env \<Rightarrow> peer_id \<Rightarrow> Device \<Rightarrow> Device" where
  "timersSessionDerived e p d =
     (if timersActive d p
      then upd_peer p (\<lambda>pr. pr\<lparr>zeroKeyMaterial := Timer_Mod e (RejectAfterTime * 3) (zeroKeyMaterial pr)\<rparr>) d
      else d)"

definition timersAnyAuthenticatedPacketTraversal :: "env \<Rightarrow> peer_id \<Rightarrow> Device \<Rightarrow> Device" where
  "timersAnyAuthenticatedPacketTraversal e p d =
     (let keepalive = persistentKeepaliveInterval (peer_store d p)
      in if keepalive > 0 \<and> timersActive d p
         then upd_peer p (\<lambda>pr. pr\<lparr>persistentKeepalive :=
                Timer_Mod e (int (unat keepalive) * Second) (persistentKeepalive pr)\<rparr>) d
         else d)"

definition timersStart :: "peer_id \<Rightarrow> Device \<Rightarrow> Device" where
  "timersStart p d = upd_peer p (\<lambda>pr. pr\<lparr>handshakeAttempts := 0, sentLastMinuteHandshake := False,
     needAnotherKeepalive := False\<rparr>) d"

definition timersInit :: "Peer \<Rightarrow> Peer" where
  "timersInit pr = pr\<lparr>retransmitHandshake := NewTimer, sendKeepalive := NewTimer,
     newHandshake := NewTimer, zeroKeyMaterial := NewTimer, persistentKeepalive := NewTimer\<rparr>"

definition timersStop :: "peer_id \<Rightarrow> Device \<Rightarrow> Device" where
  "timersStop p d = upd_peer p (\<lambda>pr. pr\<lparr>
     retransmitHandshake := DelSync (retransmitHandshake pr),
     sendKeepalive := DelSync (sendKeepalive pr),
     newHandshake := DelSync (newHandshake pr),
     zeroKeyMaterial := DelSync (zeroKeyMaterial pr),
     persistentKeepalive := DelSync (persistentKeepalive pr)\<rparr>) d"

subsection \<open>Endpoints\<close>

definition SetEndpointFromPacket :: "Endpoint \<Rightarrow> peer_id \<Rightarrow> Device \<Rightarrow> Device" where
  "SetEndpointFromPacket ep p d =
     (if disableRoaming (peer_store d p) then d
      else upd_peer p (\<lambda>pr. pr\<lparr>clearSrcOnTx := False, endpoint_val := Some ep\<rparr>) d)"

definition markEndpointSrcForClearing :: "peer_id \<Rightarrow> Device \<Rightarrow> Device" where
  "markEndpointSrcForClearing p d =
     (if endpoint_val (peer_store d p) = None then d
      else upd_peer p (\<lambda>pr. pr\<lparr>clearSrcOnTx := True\<rparr>) d)"

text \<open>\<open>SendBuffers\<close>: the device and whether an error is returned.\<close>

definition SendBuffers :: "env \<Rightarrow> Device \<Rightarrow> peer_id \<Rightarrow> bytes list \<Rightarrow> Device \<times> bool" where
  "SendBuffers e d p buffers =
     (if isClosed d then (d, False)
      else case endpoint_val (peer_store d p) of
          None \<Rightarrow> (d, True)
        | Some ep \<Rightarrow>
            let clear = clearSrcOnTx (peer_store d p);
                ep = (if clear then ClearSrc ep else ep);
                d = upd_peer p (\<lambda>pr. pr\<lparr>endpoint_val := Some ep, clearSrcOnTx := False\<rparr>) d;
                d = d\<lparr>sent := sent d @ map (\<lambda>b. (b, ep)) buffers\<rparr>
            in if send_err e then (d, True)
               else (upd_peer p (\<lambda>pr. pr\<lparr>txBytes := txBytes pr
                       + word_of_nat (sum_list (map length buffers))\<rparr>) d, False))"

subsection \<open>What these operations leave alone\<close>

text \<open>The fields that only timers and endpoints touch are irrelevant to keys and queues: two devices
  with the same \<open>core\<close> have the same keys, indices, queues, routes and packets.\<close>

definition core :: "Device \<Rightarrow> Device" where
  "core d = d\<lparr>peer_store := (\<lambda>p. (peer_store d p)\<lparr>
      txBytes := 0, rxBytes := 0, lastHandshakeNano := 0, endpoint_val := None, clearSrcOnTx := False,
      retransmitHandshake := NewTimer, sendKeepalive := NewTimer, newHandshake := NewTimer,
      zeroKeyMaterial := NewTimer, persistentKeepalive := NewTimer, handshakeAttempts := 0,
      needAnotherKeepalive := False, sentLastMinuteHandshake := False\<rparr>)\<rparr>"

lemma core_upd:
  assumes "\<And>pr. (f pr)\<lparr>txBytes := 0, rxBytes := 0, lastHandshakeNano := 0, endpoint_val := None, clearSrcOnTx := False,
      retransmitHandshake := NewTimer, sendKeepalive := NewTimer, newHandshake := NewTimer,
      zeroKeyMaterial := NewTimer, persistentKeepalive := NewTimer, handshakeAttempts := 0,
      needAnotherKeepalive := False, sentLastMinuteHandshake := False\<rparr> =
     pr\<lparr>txBytes := 0, rxBytes := 0, lastHandshakeNano := 0, endpoint_val := None, clearSrcOnTx := False,
      retransmitHandshake := NewTimer, sendKeepalive := NewTimer, newHandshake := NewTimer,
      zeroKeyMaterial := NewTimer, persistentKeepalive := NewTimer, handshakeAttempts := 0,
      needAnotherKeepalive := False, sentLastMinuteHandshake := False\<rparr>"
  shows "core (upd_peer p f d) = core d"
  by (auto simp: core_def upd_peer_def fun_eq_iff assms)

lemma core_timers [simp]:
  "core (timersDataSent e p d) = core d" "core (timersDataReceived e p d) = core d"
  "core (timersAnyAuthenticatedPacketSent p d) = core d"
  "core (timersAnyAuthenticatedPacketReceived p d) = core d"
  "core (timersHandshakeInitiated e p d) = core d" "core (timersHandshakeComplete e p d) = core d"
  "core (timersSessionDerived e p d) = core d"
  "core (timersAnyAuthenticatedPacketTraversal e p d) = core d"
  "core (timersStart p d) = core d" "core (timersStop p d) = core d"
  "core (SetEndpointFromPacket ep p d) = core d" "core (markEndpointSrcForClearing p d) = core d"
  by (simp_all add: timersDataSent_def timersDataReceived_def timersAnyAuthenticatedPacketSent_def
      timersAnyAuthenticatedPacketReceived_def timersHandshakeInitiated_def timersHandshakeComplete_def
      timersSessionDerived_def timersAnyAuthenticatedPacketTraversal_def timersStart_def timersStop_def
      SetEndpointFromPacket_def markEndpointSrcForClearing_def core_upd Let_def)

end
