(* ===== verification/Send.thy ===== *)
theory Send
  imports Timers "HOL-Library.Signed_Division"
begin

unbundle bit_operations_syntax

text \<open>
  The outbound path of device/send.go: handshake messages, staging of packets read from the TUN
  device, assignment of nonces, padding and encryption, and the sequential sender.

  Every goroutine of the program runs a loop; one iteration of the loop is a function here.  An
  iteration may be \<open>Blocked\<close> (empty queue, or a container whose lock a worker still holds),
  \<open>Panicked\<close>, or it has \<open>Ran\<close> to a new device.  Bounded queues other than the staging queue make
  their producers wait; the wait is not visible in the state, so a send on them is an append.
\<close>

datatype 'a outcome = Blocked | Panicked | Ran 'a

subsection \<open>Elements\<close>

definition NewOutboundElement :: OutElem where
  "NewOutboundElement = \<lparr>oe_packet = [], oe_nonce = 0, oe_keypair = None, oe_peer = None\<rparr>"

subsection \<open>Handshake messages\<close>

text \<open>The macs of a message, written by the generator of the peer.  \<open>AddMacs\<close> panics on messages
  shorter than the macs only, so its result is always there for the messages of the protocol.\<close>

definition addMacs :: "crypto \<Rightarrow> env \<Rightarrow> peer_id \<Rightarrow> bytes \<Rightarrow> Device \<Rightarrow> Device \<times> bytes" where
  "addMacs C e p packet d =
     (case AddMacs C (cookieGenerator (peer_store d p)) (now e) packet of
        Some (g, packet) \<Rightarrow> (upd_peer p (\<lambda>pr. pr\<lparr>cookieGenerator := g\<rparr>) d, packet)
      | None \<Rightarrow> (d, packet))"

text \<open>The error of \<open>marshal\<close> is dropped by the callers, which then send the zeroed packet.\<close>

definition packet_of :: "nat \<Rightarrow> (bytes \<Rightarrow> msg_error + bytes) \<Rightarrow> bytes" where
  "packet_of n marshal =
     (case marshal (replicate n 0) of Inr packet \<Rightarrow> packet | Inl _ \<Rightarrow> replicate n 0)"

definition SendHandshakeInitiation ::
  "crypto \<Rightarrow> env \<Rightarrow> bool \<Rightarrow> peer_id \<Rightarrow> Device \<Rightarrow> Device \<times> bool" where
  "SendHandshakeInitiation C e isRetry p d =
     (let d = (if isRetry then d else upd_peer p (\<lambda>pr. pr\<lparr>handshakeAttempts := 0\<rparr>) d)
      in if time_sub (now e) (hs_lastSentHandshake (hs_of d p)) < RekeyTimeout then (d, False)
         else
           let d = upd_handshake p (\<lambda>h. h\<lparr>hs_lastSentHandshake := now e\<rparr>) d;
               (d, r) = CreateMessageInitiation C e d p
           in case r of
                Inl _ \<Rightarrow> (d, True)
              | Inr msg \<Rightarrow>
                  let packet = packet_of MessageInitiationSize (MessageInitiation_marshal msg);
                      (d, packet) = addMacs C e p packet d;
                      d = timersAnyAuthenticatedPacketTraversal e p d;
                      d = timersAnyAuthenticatedPacketSent p d;
                      (d, err) = SendBuffers e d p [packet]
                  in (timersHandshakeInitiated e p d, err))"

definition SendHandshakeResponse :: "crypto \<Rightarrow> env \<Rightarrow> peer_id \<Rightarrow> Device \<Rightarrow> Device \<times> bool" where
  "SendHandshakeResponse C e p d =
     (let d = upd_handshake p (\<lambda>h. h\<lparr>hs_lastSentHandshake := now e\<rparr>) d;
          (d, r) = CreateMessageResponse C e d p
      in case r of
           Inl _ \<Rightarrow> (d, True)
         | Inr response \<Rightarrow>
             let packet = packet_of MessageResponseSize (MessageResponse_marshal response);
                 (d, packet) = addMacs C e p packet d;
                 (d, ok) = BeginSymmetricSession C e d p
             in if \<not> ok then (d, True)
                else
                  let d = timersSessionDerived e p d;
                      d = timersAnyAuthenticatedPacketTraversal e p d;
                      d = timersAnyAuthenticatedPacketSent p d
                  in SendBuffers e d p [packet])"

definition SendHandshakeCookie :: "crypto \<Rightarrow> env \<Rightarrow> HandshakeElem \<Rightarrow> Device \<Rightarrow> Device \<times> bool" where
  "SendHandshakeCookie C e initiatingElem d =
     (let sender = LE_Uint32 (slice 4 8 (he_packet initiatingElem))
      in case CreateReply C (cookieChecker d) (now e) (now e) (cookie_secret e) (cookie_nonce e)
                (he_packet initiatingElem) sender (DstToBytes (he_endpoint initiatingElem)) of
           None \<Rightarrow> (d, True)
         | Some (checker, None) \<Rightarrow> (d\<lparr>cookieChecker := checker\<rparr>, True)
         | Some (checker, Some reply) \<Rightarrow>
             let packet = packet_of MessageCookieReplySize (MessageCookieReply_marshal reply)
             in (d\<lparr>cookieChecker := checker,
                   sent := sent d @ [(packet, he_endpoint initiatingElem)]\<rparr>, False))"

definition keepKeyFreshSending :: "crypto \<Rightarrow> env \<Rightarrow> peer_id \<Rightarrow> Device \<Rightarrow> Device" where
  "keepKeyFreshSending C e p d =
     (case current (keypairs (peer_store d p)) of
        None \<Rightarrow> d
      | Some k \<Rightarrow>
          let keypair = keypair_store d k
          in if kp_sendNonce keypair > RekeyAfterMessages \<or>
                kp_isInitiator keypair \<and> time_sub (now e) (kp_created keypair) > RekeyAfterTime
             then fst (SendHandshakeInitiation C e False p d) else d)"

subsection \<open>Staging\<close>

text \<open>The channel of staged packets: a send on the full channel fails, then the oldest container is
  received and dropped and the send is tried again.\<close>

function stage :: "OutElem list \<Rightarrow> OutElem list list \<Rightarrow> OutElem list list" where
  "stage elems queue =
     (if length queue < QueueStagedSize then queue @ [elems] else stage elems (tl queue))"
  by pat_completeness auto
termination
  by (relation "measure (\<lambda>(elems, queue). length queue)") (auto simp: QueueStagedSize_def)

declare stage.simps [simp del]

definition StagePackets :: "OutElem list \<Rightarrow> peer_id \<Rightarrow> Device \<Rightarrow> Device" where
  "StagePackets elems p d = upd_peer p (\<lambda>pr. pr\<lparr>staged := stage elems (staged pr)\<rparr>) d"

text \<open>The assignment of nonces to the elements of one container: those that stay in it, those that
  found the keypair used up, and the keypair's counter.\<close>

fun assign :: "peer_id \<Rightarrow> keypair_id \<Rightarrow> u64 \<Rightarrow> OutElem list \<Rightarrow> OutElem list \<times> OutElem list \<times> u64" where
  "assign p k n [] = ([], [], n)" |
  "assign p k n (elem # elems) =
     (let nonce = (n + 1) - 1;
          elem = elem\<lparr>oe_peer := Some p, oe_nonce := nonce\<rparr>
      in if nonce \<ge> RejectAfterMessages
         then let (kept, ooo, n') = assign p k RejectAfterMessages elems in (kept, elem # ooo, n')
         else let (kept, ooo, n') = assign p k (n + 1) elems
              in (elem\<lparr>oe_keypair := Some k\<rparr> # kept, ooo, n'))"

text \<open>A container goes, locked, into the peer's sequential queue and the parallel queue of the
  encryption workers.\<close>

definition push_outbound :: "OutElem list \<Rightarrow> peer_id \<Rightarrow> Device \<Rightarrow> Device" where
  "push_outbound elems p d =
     (let c = next_cont d;
          d = d\<lparr>out_cont := (out_cont d)(c := \<lparr>oc_elems = elems, oc_locked = True\<rparr>), next_cont := c + 1\<rparr>;
          d = upd_peer p (\<lambda>pr. pr\<lparr>outbound := outbound pr @ [c]\<rparr>) d
      in d\<lparr>encryption_q := encryption_q d @ [c]\<rparr>)"

text \<open>One container of the loop of \<open>SendStagedPackets\<close>: the device, and whether some elements were put
  back because the keypair is used up, or the container was left empty (both go to \<open>top\<close>).\<close>

definition sendContainer :: "peer_id \<Rightarrow> keypair_id \<Rightarrow> OutElem list \<Rightarrow> Device \<Rightarrow> Device \<times> bool" where
  "sendContainer p k elems d =
     (let (kept, ooo, n) = assign p k (kp_sendNonce (keypair_store d k)) elems;
          d = upd_keypair k (\<lambda>kp. kp\<lparr>kp_sendNonce := n\<rparr>) d;
          d = (if ooo \<noteq> [] then StagePackets ooo p d else d)
      in if kept = [] then (d, True)
         else (if isRunning (peer_store d p) then push_outbound kept p d else d, ooo \<noteq> []))"

text \<open>\<open>None\<close> is the label \<open>top\<close>, \<open>Some k\<close> the loop under it with the keypair read at \<open>top\<close>.\<close>

function sendStaged :: "crypto \<Rightarrow> env \<Rightarrow> peer_id \<Rightarrow> keypair_id option \<Rightarrow> Device \<Rightarrow> Device" where
  "sendStaged C e p None d =
     (if staged (peer_store d p) = [] \<or> \<not> isUp d then d
      else case current (keypairs (peer_store d p)) of
          None \<Rightarrow> fst (SendHandshakeInitiation C e False p d)
        | Some k \<Rightarrow>
            if kp_sendNonce (keypair_store d k) \<ge> RejectAfterMessages \<or>
               time_sub (now e) (kp_created (keypair_store d k)) \<ge> RejectAfterTime
            then fst (SendHandshakeInitiation C e False p d)
            else sendStaged C e p (Some k) d)" |
  "sendStaged C e p (Some k) d =
     (case staged (peer_store d p) of
        [] \<Rightarrow> d
      | elems # rest \<Rightarrow>
          let (d, again) = sendContainer p k elems (upd_peer p (\<lambda>pr. pr\<lparr>staged := rest\<rparr>) d)
          in sendStaged C e p (if again then None else Some k) d)"
  by pat_completeness auto


lemma RejectAfterMessages_val: "unat RejectAfterMessages = 2 ^ 64 - 2 ^ 13 - 1"
  by (simp add: RejectAfterMessages_def)

lemma assign_used_up:
  assumes "RejectAfterMessages \<le> n" "assign p k n elems = (kept, ooo, n')"
  shows "kept = [] \<and> map oe_packet ooo = map oe_packet elems \<and>
    (elems \<noteq> [] \<longrightarrow> n' = RejectAfterMessages) \<and> (elems = [] \<longrightarrow> n' = n)"
  using assms by (induction elems arbitrary: n kept ooo n') (fastforce simp: Let_def split: prod.splits)+

lemma assign_spec:
  assumes "n \<le> RejectAfterMessages" "assign p k n elems = (kept, ooo, n')"
  shows "map oe_packet kept @ map oe_packet ooo = map oe_packet elems"
    and "map oe_nonce kept = map (\<lambda>i. n + of_nat i) [0..<length kept]"
    and "unat n' = unat n + length kept" "n' \<le> RejectAfterMessages"
    and "ooo \<noteq> [] \<longrightarrow> n' = RejectAfterMessages"
    and "\<forall>el\<in>set kept. oe_keypair el = Some k \<and> oe_peer el = Some p \<and> n \<le> oe_nonce el \<and> oe_nonce el < n'"
    and "distinct (map oe_nonce kept)"
proof -
  have "map oe_packet kept @ map oe_packet ooo = map oe_packet elems \<and>
    map oe_nonce kept = map (\<lambda>i. n + of_nat i) [0..<length kept] \<and>
    unat n' = unat n + length kept \<and> n' \<le> RejectAfterMessages \<and>
    (ooo \<noteq> [] \<longrightarrow> n' = RejectAfterMessages) \<and>
    (\<forall>el\<in>set kept. oe_keypair el = Some k \<and> oe_peer el = Some p \<and> n \<le> oe_nonce el \<and> oe_nonce el < n') \<and>
    distinct (map oe_nonce kept)"
    using assms
  proof (induction elems arbitrary: n kept ooo n')
    case Nil
    then show ?case by simp
  next
    case (Cons el elems)
    show ?case
    proof (cases "n = RejectAfterMessages")
      case True
      then show ?thesis using Cons.prems assign_used_up [of n p k "el # elems" kept ooo n'] by auto
    next
      case False
      with Cons.prems have lt: "n < RejectAfterMessages" by simp
      then have n1: "unat (n + 1) = unat n + 1" "n + 1 \<le> RejectAfterMessages"
        using RejectAfterMessages_val by (auto simp: word_less_nat_alt word_le_nat_alt unat_word_ariths)
      obtain kept1 where k1: "assign p k (n + 1) elems = (kept1, ooo, n')"
        and kept: "kept = el\<lparr>oe_peer := Some p, oe_nonce := n, oe_keypair := Some k\<rparr> # kept1"
        using Cons.prems(2) lt by (cases "assign p k (n + 1) elems") (auto simp: not_le [symmetric])
      note IH = Cons.IH [OF n1(2) k1]
      have above: "n < oe_nonce x" if "x \<in> set kept1" for x
        using IH that n1(1) by (auto simp: word_less_nat_alt word_le_nat_alt)
      have "n \<notin> set (map oe_nonce kept1)" using above by fastforce
      moreover have "distinct (map oe_nonce kept1)" using IH by blast
      ultimately have dist: "distinct (map oe_nonce kept)" using kept by simp
      have "n < n'" using IH n1 by (auto simp: word_less_nat_alt)
      moreover have "map (\<lambda>i. n + of_nat i) [0..<Suc m] = n # map (\<lambda>i. n + 1 + of_nat i) [0..<m]" for m
        by (subst upt_conv_Cons)
          (simp_all add: map_Suc_upt [symmetric] algebra_simps o_def del: map_Suc_upt upt_Suc)
      ultimately show ?thesis using IH n1 kept above
        by (intro conjI dist) (auto simp: less_imp_le simp del: upt_Suc)
    qed
  qed
  then show "map oe_packet kept @ map oe_packet ooo = map oe_packet elems"
    and "map oe_nonce kept = map (\<lambda>i. n + of_nat i) [0..<length kept]"
    and "unat n' = unat n + length kept" "n' \<le> RejectAfterMessages"
    and "ooo \<noteq> [] \<longrightarrow> n' = RejectAfterMessages"
    and "\<forall>el\<in>set kept. oe_keypair el = Some k \<and> oe_peer el = Some p \<and> n \<le> oe_nonce el \<and> oe_nonce el < n'"
    and "distinct (map oe_nonce kept)" by blast+
qed

lemma stage_length: "length (stage elems queue) \<le> max (length queue) QueueStagedSize"
  by (induction elems queue rule: stage.induct) (subst stage.simps, auto)

lemma stage_length': "length (stage elems queue) \<le> Suc (length queue)"
  by (induction elems queue rule: stage.induct) (subst stage.simps, auto)

lemma sendContainer_sel:
  assumes "sendContainer p k elems d = (d', again)" "assign p k (kp_sendNonce (keypair_store d k)) elems = (kept, ooo, n)"
  shows "keypair_store d' = (keypair_store d)(k := (keypair_store d k)\<lparr>kp_sendNonce := n\<rparr>)"
    and "keypairs (peer_store d' q) = keypairs (peer_store d q)"
    and "staged (peer_store d' p) = (if ooo = [] then staged (peer_store d p) else stage ooo (staged (peer_store d p)))"
    and "again \<longleftrightarrow> kept = [] \<or> ooo \<noteq> []"
  using assms by (auto simp: sendContainer_def push_outbound_def StagePackets_def Let_def upd_simps split: if_splits)

definition send_rank :: "peer_id \<Rightarrow> keypair_id option \<Rightarrow> Device \<Rightarrow> nat" where
  "send_rank p st d =
     (let n = length (staged (peer_store d p))
      in case current (keypairs (peer_store d p)) of
           None \<Rightarrow> (if st = None then 0 else 2 * n + 1)
         | Some k \<Rightarrow>
             (if st \<noteq> None \<and> st \<noteq> Some k then 2 * n + 5
              else if kp_sendNonce (keypair_store d k) \<ge> RejectAfterMessages then (if st = None then 0 else 1)
              else 2 * n + (if st = None then 3 else 2)))"

lemma send_rank_container:
  assumes st: "staged (peer_store d p) = elems # rest"
    and r: "sendContainer p k elems (upd_peer p (\<lambda>pr. pr\<lparr>staged := rest\<rparr>) d) = (d', again)"
  shows "send_rank p (if again then None else Some k) d' < send_rank p (Some k) d"
proof -
  let ?n = "kp_sendNonce (keypair_store d k)"
  obtain kept ooo n where a: "assign p k ?n elems = (kept, ooo, n)" by (cases "assign p k ?n elems")
  let ?d = "upd_peer p (\<lambda>pr. pr\<lparr>staged := rest\<rparr>) d"
  have a': "assign p k (kp_sendNonce (keypair_store ?d k)) elems = (kept, ooo, n)" using a by (simp add: upd_simps)
  note sel = sendContainer_sel [OF r a', simplified upd_simps]
  have cur: "current (keypairs (peer_store d' p)) = current (keypairs (peer_store d p))"
    using sel(2) [of p] by simp
  have len: "length (staged (peer_store d' p)) \<le> (if ooo = [] then length rest else Suc (length rest))"
    using sel(3) stage_length' by auto
  consider (x) "RejectAfterMessages \<le> ?n" | (f) "?n < RejectAfterMessages" by fastforce
  then show ?thesis
  proof cases
    case x
    then show ?thesis using assign_used_up [OF x a] sel cur len st
      by (cases "elems = []") (auto simp: send_rank_def Let_def split: option.splits if_splits)
  next
    case f
    then have le: "?n \<le> RejectAfterMessages" by simp
    have "ooo = [] \<longrightarrow> kept = [] \<longrightarrow> n = ?n" using assign_spec(3) [OF le a] by (auto simp: word_unat_eq_iff)
    then show ?thesis using assign_spec(4,5) [OF le a] sel cur len st f
      by (auto simp: send_rank_def Let_def split: option.splits if_splits)
  qed
qed

termination sendStaged
proof (relation "measure (\<lambda>(C, e, p, st, d). send_rank p st d)")
  fix C e p k and d :: Device
  assume "\<not> (staged (peer_store d p) = [] \<or> \<not> isUp d)" "current (keypairs (peer_store d p)) = Some k"
    "\<not> (RejectAfterMessages \<le> kp_sendNonce (keypair_store d k) \<or>
        RejectAfterTime \<le> time_sub (now e) (kp_created (keypair_store d k)))"
  then show "((C, e, p, Some k, d), C, e, p, None, d) \<in> measure (\<lambda>(C, e, p, st, d). send_rank p st d)"
    by (simp add: send_rank_def Let_def)
next
  fix C e p k d elems rest x d' again
  assume "staged (peer_store d p) = elems # rest"
    "x = sendContainer p k elems (upd_peer p (\<lambda>pr. pr\<lparr>staged := rest\<rparr>) d)" "(d', again) = x"
  then show "((C, e, p, if again then None else Some k, d'), C, e, p, Some k, d)
      \<in> measure (\<lambda>(C, e, p, st, d). send_rank p st d)"
    using send_rank_container [of d p elems rest k d' again] by simp
qed simp

declare sendStaged.simps [simp del]

definition SendStagedPackets :: "crypto \<Rightarrow> env \<Rightarrow> peer_id \<Rightarrow> Device \<Rightarrow> Device" where
  "SendStagedPackets C e p d = sendStaged C e p None d"

definition SendKeepalive :: "crypto \<Rightarrow> env \<Rightarrow> peer_id \<Rightarrow> Device \<Rightarrow> Device" where
  "SendKeepalive C e p d =
     (let d = (if staged (peer_store d p) = [] \<and> isRunning (peer_store d p) then
                 if length (staged (peer_store d p)) < QueueStagedSize
                 then upd_peer p (\<lambda>pr. pr\<lparr>staged := staged pr @ [[NewOutboundElement]]\<rparr>) d
                 else d
               else d)
      in SendStagedPackets C e p d)"

fun flush :: "OutElem list list \<Rightarrow> OutElem list list" where
  "flush [] = []" |
  "flush (elemsContainer # queue) = flush queue"

definition FlushStagedPackets :: "peer_id \<Rightarrow> Device \<Rightarrow> Device" where
  "FlushStagedPackets p d = upd_peer p (\<lambda>pr. pr\<lparr>staged := flush (staged pr)\<rparr>) d"

subsection \<open>Padding and encryption\<close>

text \<open>Go's \<open>%\<close> is \<open>smod\<close>: the remainder has the sign of the dividend.\<close>

definition calculatePaddingSize :: "int \<Rightarrow> int \<Rightarrow> int" where
  "calculatePaddingSize packetSize tunMtu =
     (let pm = int PaddingMultiple;
          lastUnit = packetSize
      in if tunMtu = 0 then ((lastUnit + pm - 1) AND NOT (pm - 1)) - lastUnit
         else
           let lastUnit = (if lastUnit > tunMtu then lastUnit smod tunMtu else lastUnit);
               paddedSize = (lastUnit + pm - 1) AND NOT (pm - 1);
               paddedSize = (if paddedSize > tunMtu then tunMtu else paddedSize)
           in paddedSize - lastUnit)"

text \<open>The transport header and the encryption of one element; \<open>None\<close> is a panic (no keypair, or a
  padding that is negative or longer than the array of zeros it is cut from).\<close>

definition transportHeader :: "u32 \<Rightarrow> u64 \<Rightarrow> bytes" where
  "transportHeader receiver nonce =
     LE_PutUint32 MessageTransportType @ LE_PutUint32 receiver @ LE_PutUint64 nonce"

definition transportNonce :: "u64 \<Rightarrow> bytes" where
  "transportNonce nonce = [0, 0, 0, 0] @ LE_PutUint64 nonce"

definition encryptElem :: "crypto \<Rightarrow> Device \<Rightarrow> OutElem \<Rightarrow> OutElem option" where
  "encryptElem C d elem =
     (case oe_keypair elem of
        None \<Rightarrow> None
      | Some k \<Rightarrow>
          let keypair = keypair_store d k;
              header = transportHeader (kp_remoteIndex keypair) (oe_nonce elem);
              paddingSize = calculatePaddingSize (int (length (oe_packet elem))) (mtu d)
          in if paddingSize < 0 \<or> paddingSize > int PaddingMultiple then None
             else
               let packet = oe_packet elem @ replicate (nat paddingSize) 0
               in Some (elem\<lparr>oe_packet :=
                    header @ chapoly_Seal C (kp_send keypair) (transportNonce (oe_nonce elem)) packet []\<rparr>))"

text \<open>A worker that has taken the \<open>i\<close>-th container of the queue (the workers run in parallel, so any of
  the waiting containers may be finished first) encrypts its elements and unlocks it.\<close>

definition RoutineEncryption :: "crypto \<Rightarrow> nat \<Rightarrow> Device \<Rightarrow> Device outcome" where
  "RoutineEncryption C i d =
     (if i \<ge> length (encryption_q d) then Blocked
      else
        let c = encryption_q d ! i;
            elems = map (encryptElem C d) (oc_elems (out_cont d c))
        in if None \<in> set elems then Panicked
           else Ran (d\<lparr>encryption_q := take i (encryption_q d) @ drop (Suc i) (encryption_q d),
                  out_cont := (out_cont d)(c := \<lparr>oc_elems = map the elems, oc_locked = False\<rparr>)\<rparr>))"

subsection \<open>The sequential sender\<close>

definition RoutineSequentialSender :: "crypto \<Rightarrow> env \<Rightarrow> peer_id \<Rightarrow> Device \<Rightarrow> Device outcome" where
  "RoutineSequentialSender C e p d =
     (case outbound (peer_store d p) of
        [] \<Rightarrow> Blocked
      | c # rest \<Rightarrow>
          if oc_locked (out_cont d c) then Blocked
          else
            let d = upd_peer p (\<lambda>pr. pr\<lparr>outbound := rest\<rparr>) d;
                elems = oc_elems (out_cont d c)
            in if \<not> isRunning (peer_store d p) then Ran d
               else
                 let dataSent = list_ex (\<lambda>elem. length (oe_packet elem) \<noteq> MessageKeepaliveSize) elems;
                     bufs = map oe_packet elems;
                     d = timersAnyAuthenticatedPacketTraversal e p d;
                     d = timersAnyAuthenticatedPacketSent p d;
                     (d, err) = SendBuffers e d p bufs;
                     d = (if dataSent then timersDataSent e p d else d)
                 in Ran (if err then d else keepKeyFreshSending C e p d))"

subsection \<open>The TUN reader\<close>

text \<open>The peer a packet is for: \<open>Some None\<close> when it is dropped, \<open>None\<close> a panic of the table.\<close>

definition tunPeer :: "Device \<Rightarrow> bytes \<Rightarrow> peer_id option option" where
  "tunPeer d packet =
     (if length packet < 1 then Some None
      else if drop_bit 4 (packet ! 0) = 4 then
        if length packet < 20 then Some None
        else AllowedIPs_Lookup (allowedips d) (slice IPv4offsetDst (IPv4offsetDst + 4) packet)
      else if drop_bit 4 (packet ! 0) = 6 then
        if length packet < 40 then Some None
        else AllowedIPs_Lookup (allowedips d) (slice IPv6offsetDst (IPv6offsetDst + 16) packet)
      else Some None)"

text \<open>\<open>elemsByPeer\<close> is an association list in the order in which the peers were met; Go iterates over
  the map in some order.\<close>

fun byPeer :: "Device \<Rightarrow> bytes list \<Rightarrow> (peer_id \<times> OutElem list) list \<Rightarrow> (peer_id \<times> OutElem list) list option" where
  "byPeer d [] m = Some m" |
  "byPeer d (packet # packets) m =
     (case tunPeer d packet of
        None \<Rightarrow> None
      | Some None \<Rightarrow> byPeer d packets m
      | Some (Some p) \<Rightarrow>
          let elem = NewOutboundElement\<lparr>oe_packet := packet\<rparr>;
              elems = (case map_of m p of None \<Rightarrow> [] | Some elems \<Rightarrow> elems)
          in byPeer d packets (AList.update p (elems @ [elem]) m))"

fun stageAll :: "crypto \<Rightarrow> (peer_id \<Rightarrow> env) \<Rightarrow> (peer_id \<times> OutElem list) list \<Rightarrow> Device \<Rightarrow> Device" where
  "stageAll C es [] d = d" |
  "stageAll C es ((p, elems) # m) d =
     stageAll C es m
       (if isRunning (peer_store d p) then SendStagedPackets C (es p) p (StagePackets elems p d) else d)"

datatype read_error = ErrTooManySegments | ErrOther

text \<open>One batch of the TUN reader.  The flags say whether the reader goes on and whether it has asked
  for the device to be closed.\<close>

definition RoutineReadFromTUN ::
  "crypto \<Rightarrow> (peer_id \<Rightarrow> env) \<Rightarrow> bytes list \<Rightarrow> read_error option \<Rightarrow> Device \<Rightarrow> (Device \<times> bool \<times> bool) option" where
  "RoutineReadFromTUN C es packets readErr d =
     (case byPeer d packets [] of
        None \<Rightarrow> None
      | Some m \<Rightarrow>
          let d = stageAll C es m d
          in case readErr of
               None \<Rightarrow> Some (d, True, False)
             | Some ErrTooManySegments \<Rightarrow> Some (d, True, False)
             | Some ErrOther \<Rightarrow> Some (d, False, \<not> isClosed d))"

end
