(* ===== verification/Receive.thy ===== *)
theory Receive
  imports Send
begin

unbundle bit_operations_syntax

text \<open>
  The inbound path of device/receive.go: classification of datagrams, parallel decryption, the
  handshake worker, and the sequential receiver that checks replay and source address before a
  packet reaches the TUN device.

  One environment serves one iteration: of the calls an iteration makes, at most one draws
  randomness, since \<open>SendHandshakeInitiation\<close> stops before its draw when a handshake message was
  sent less than \<open>RekeyTimeout\<close> ago.
\<close>

definition keepKeyFreshReceiving :: "crypto \<Rightarrow> env \<Rightarrow> peer_id \<Rightarrow> Device \<Rightarrow> Device" where
  "keepKeyFreshReceiving C e p d =
     (if sentLastMinuteHandshake (peer_store d p) then d
      else case current (keypairs (peer_store d p)) of
          None \<Rightarrow> d
        | Some k \<Rightarrow>
            if kp_isInitiator (keypair_store d k) \<and>
               time_sub (now e) (kp_created (keypair_store d k)) > RejectAfterTime - KeepaliveTimeout - RekeyTimeout
            then fst (SendHandshakeInitiation C e False p
                   (upd_peer p (\<lambda>pr. pr\<lparr>sentLastMinuteHandshake := True\<rparr>) d))
            else d)"

subsection \<open>Datagrams\<close>

text \<open>What becomes of a datagram: dropped, given to the handler of unknown packets, put into the
  container of a peer (\<open>None\<close> the nil peer), or offered to the handshake queue.\<close>

datatype packet_class = Drop | Unknown Endpoint | Transport "peer_id option" InElem | ToHandshake HandshakeElem

definition classify :: "env \<Rightarrow> Device \<Rightarrow> bytes \<Rightarrow> Endpoint \<Rightarrow> packet_class" where
  "classify e d packet ep =
     (if length packet < MinMessageSize then Drop
      else
        let msgType = LE_Uint32 (take 4 packet);
            handshake = (\<lambda>n. if length packet \<noteq> n then Drop
              else ToHandshake \<lparr>he_msgType = msgType, he_packet = packet, he_endpoint = ep\<rparr>)
        in if msgType = MessageTransportType then
             if length packet < MessageTransportSize then Drop
             else
               let receiver = LE_Uint32 (slice MessageTransportOffsetReceiver MessageTransportOffsetCounter packet);
                   value = it_Lookup (indexTable d) receiver
               in case ite_keypair value of
                    None \<Rightarrow> Drop
                  | Some k \<Rightarrow>
                      if kp_created (keypair_store d k) + RejectAfterTime < now e then Drop
                      else Transport (ite_peer value)
                             \<lparr>ie_packet = Some packet, ie_counter = 0, ie_keypair = k, ie_endpoint = ep\<rparr>
           else if msgType = MessageInitiationType then handshake MessageInitiationSize
           else if msgType = MessageResponseType then handshake MessageResponseSize
           else if msgType = MessageCookieReplyType then handshake MessageCookieReplySize
           else Unknown ep)"

text \<open>A full handshake queue drops the datagram.\<close>

fun receiveBatch :: "env \<Rightarrow> (bytes \<times> Endpoint) list \<Rightarrow> (peer_id \<times> InElem list) list \<Rightarrow> Device \<Rightarrow>
     ((peer_id \<times> InElem list) list \<times> Device) option" where
  "receiveBatch e [] m d = Some (m, d)" |
  "receiveBatch e ((packet, ep) # batch) m d =
     (case classify e d packet ep of
        Drop \<Rightarrow> receiveBatch e batch m d
      | Unknown _ \<Rightarrow> receiveBatch e batch m d
      | Transport None elem \<Rightarrow> None
      | Transport (Some p) elem \<Rightarrow>
          let elems = (case map_of m p of None \<Rightarrow> [] | Some elems \<Rightarrow> elems)
          in receiveBatch e batch (AList.update p (elems @ [elem]) m) d
      | ToHandshake he \<Rightarrow>
          receiveBatch e batch m
            (if length (handshake_q d) < QueueHandshakeSize
             then d\<lparr>handshake_q := handshake_q d @ [he]\<rparr> else d))"

definition push_inbound :: "InElem list \<Rightarrow> peer_id \<Rightarrow> Device \<Rightarrow> Device" where
  "push_inbound elems p d =
     (let c = next_cont d;
          d = d\<lparr>in_cont := (in_cont d)(c := \<lparr>ic_elems = elems, ic_locked = True\<rparr>), next_cont := c + 1\<rparr>;
          d = upd_peer p (\<lambda>pr. pr\<lparr>inbound := inbound pr @ [c]\<rparr>) d
      in d\<lparr>decryption_q := decryption_q d @ [c]\<rparr>)"

fun pushAll :: "(peer_id \<times> InElem list) list \<Rightarrow> Device \<Rightarrow> Device" where
  "pushAll [] d = d" |
  "pushAll ((p, elems) # m) d = pushAll m (if isRunning (peer_store d p) then push_inbound elems p d else d)"

definition RoutineReceiveIncoming :: "env \<Rightarrow> (bytes \<times> Endpoint) list \<Rightarrow> Device \<Rightarrow> Device outcome" where
  "RoutineReceiveIncoming e batch d =
     (case receiveBatch e batch [] d of None \<Rightarrow> Panicked | Some (m, d) \<Rightarrow> Ran (pushAll m d))"

text \<open>An error of the receive function: \<open>None\<close> when the routine ends, else the error count after it.\<close>

datatype recv_error = ErrClosed | NetError bool | OtherError

definition receiveError :: "recv_error \<Rightarrow> nat \<Rightarrow> nat option" where
  "receiveError err deathSpiral =
     (if err = ErrClosed then None
      else if err = NetError False then None
      else if deathSpiral < 10 then Some (deathSpiral + 1) else None)"

subsection \<open>Decryption\<close>

definition decryptElem :: "crypto \<Rightarrow> Device \<Rightarrow> InElem \<Rightarrow> InElem option" where
  "decryptElem C d elem =
     (case ie_packet elem of
        None \<Rightarrow> None
      | Some packet \<Rightarrow>
          if length packet < MessageTransportOffsetContent then None
          else
            let counter = LE_Uint64 (slice MessageTransportOffsetCounter MessageTransportOffsetContent packet);
                content = drop MessageTransportOffsetContent packet
            in Some (elem\<lparr>ie_counter := counter,
                 ie_packet := chapoly_Open C (kp_receive (keypair_store d (ie_keypair elem)))
                   (transportNonce counter) content []\<rparr>))"

definition RoutineDecryption :: "crypto \<Rightarrow> nat \<Rightarrow> Device \<Rightarrow> Device outcome" where
  "RoutineDecryption C i d =
     (if i \<ge> length (decryption_q d) then Blocked
      else
        let c = decryption_q d ! i;
            elems = map (decryptElem C d) (ic_elems (in_cont d c))
        in if None \<in> set elems then Panicked
           else Ran (d\<lparr>decryption_q := take i (decryption_q d) @ drop (Suc i) (decryption_q d),
                  in_cont := (in_cont d)(c := \<lparr>ic_elems = map the elems, ic_locked = False\<rparr>)\<rparr>))"

subsection \<open>The handshake worker\<close>

definition IsUnderLoad :: "env \<Rightarrow> Device \<Rightarrow> Device \<times> bool" where
  "IsUnderLoad e d =
     (if length (handshake_q d) \<ge> QueueHandshakeSize div 8
      then (d\<lparr>underLoadUntil := UnixNano (now e + UnderLoadAfterTime)\<rparr>, True)
      else (d, underLoadUntil d > UnixNano (now e)))"

text \<open>The mac fields and the rate limit of a message: the device, and whether the message goes on.\<close>

definition checkMacs :: "crypto \<Rightarrow> env \<Rightarrow> HandshakeElem \<Rightarrow> Device \<Rightarrow> (Device \<times> bool) option" where
  "checkMacs C e elem d =
     (case CheckMAC1 C (cookieChecker d) (he_packet elem) of
        None \<Rightarrow> None
      | Some False \<Rightarrow> Some (d, False)
      | Some True \<Rightarrow>
          let (d, underLoad) = IsUnderLoad e d
          in if \<not> underLoad then Some (d, True)
             else case CheckMAC2 C (cookieChecker d) (now e) (he_packet elem) (DstToBytes (he_endpoint elem)) of
                 None \<Rightarrow> None
               | Some False \<Rightarrow> Some (fst (SendHandshakeCookie C e elem d), False)
               | Some True \<Rightarrow>
                   (case Allow (limiter d) (DstIP (he_endpoint elem)) (now e) of
                      None \<Rightarrow> None
                    | Some (ok, rate) \<Rightarrow> Some (d\<lparr>limiter := rate\<rparr>, ok)))"

definition handleCookieReply :: "crypto \<Rightarrow> env \<Rightarrow> HandshakeElem \<Rightarrow> Device \<Rightarrow> Device" where
  "handleCookieReply C e elem d =
     (case MessageCookieReply_unmarshal (he_packet elem) of
        Inl _ \<Rightarrow> d
      | Inr reply \<Rightarrow>
          (case ite_peer (it_Lookup (indexTable d) (mc_Receiver reply)) of
             None \<Rightarrow> d
           | Some p \<Rightarrow>
               if isRunning (peer_store d p)
               then upd_peer p (\<lambda>pr. pr\<lparr>cookieGenerator :=
                      fst (ConsumeReply C (cookieGenerator pr) (now e) reply)\<rparr>) d
               else d))"

definition addRx :: "peer_id \<Rightarrow> nat \<Rightarrow> Device \<Rightarrow> Device" where
  "addRx p n d = upd_peer p (\<lambda>pr. pr\<lparr>rxBytes := rxBytes pr + word_of_nat n\<rparr>) d"

definition handleInitiation :: "crypto \<Rightarrow> env \<Rightarrow> HandshakeElem \<Rightarrow> Device \<Rightarrow> Device" where
  "handleInitiation C e elem d =
     (case MessageInitiation_unmarshal (he_packet elem) of
        Inl _ \<Rightarrow> d
      | Inr msg \<Rightarrow>
          (case ConsumeMessageInitiation C e d msg of
             (d, None) \<Rightarrow> d
           | (d, Some p) \<Rightarrow>
               let d = timersAnyAuthenticatedPacketTraversal e p d;
                   d = timersAnyAuthenticatedPacketReceived p d;
                   d = SetEndpointFromPacket (he_endpoint elem) p d;
                   d = addRx p (length (he_packet elem)) d
               in fst (SendHandshakeResponse C e p d)))"

definition handleResponse :: "crypto \<Rightarrow> env \<Rightarrow> HandshakeElem \<Rightarrow> Device \<Rightarrow> Device" where
  "handleResponse C e elem d =
     (case MessageResponse_unmarshal (he_packet elem) of
        Inl _ \<Rightarrow> d
      | Inr msg \<Rightarrow>
          (case ConsumeMessageResponse C d msg of
             (d, None) \<Rightarrow> d
           | (d, Some p) \<Rightarrow>
               let d = SetEndpointFromPacket (he_endpoint elem) p d;
                   d = addRx p (length (he_packet elem)) d;
                   d = timersAnyAuthenticatedPacketTraversal e p d;
                   d = timersAnyAuthenticatedPacketReceived p d;
                   (d, ok) = BeginSymmetricSession C e d p
               in if \<not> ok then d
                  else
                    let d = timersSessionDerived e p d;
                        d = timersHandshakeComplete e p d
                    in SendKeepalive C e p d))"

definition RoutineHandshake :: "crypto \<Rightarrow> env \<Rightarrow> Device \<Rightarrow> Device outcome" where
  "RoutineHandshake C e d =
     (case handshake_q d of
        [] \<Rightarrow> Blocked
      | elem # rest \<Rightarrow>
          let d = d\<lparr>handshake_q := rest\<rparr>
          in if he_msgType elem = MessageCookieReplyType then Ran (handleCookieReply C e elem d)
             else if he_msgType elem = MessageInitiationType \<or> he_msgType elem = MessageResponseType then
               (case checkMacs C e elem d of
                  None \<Rightarrow> Panicked
                | Some (d, False) \<Rightarrow> Ran d
                | Some (d, True) \<Rightarrow>
                    Ran (if he_msgType elem = MessageInitiationType then handleInitiation C e elem d
                         else handleResponse C e elem d))
             else Ran d)"

subsection \<open>The sequential receiver\<close>

text \<open>The checks of a decrypted packet: \<open>Some (Some b)\<close> when \<open>b\<close> is written, \<open>Some None\<close> when it is
  dropped.  Slicing \<open>elem.packet[:length]\<close> keeps the capacity, so the source address is read from the
  packet as it was received even when \<open>length\<close> is smaller than the header.  The IPv6 length is a
  16-bit sum.\<close>

definition checkPacket :: "Device \<Rightarrow> peer_id \<Rightarrow> bytes \<Rightarrow> bytes option option" where
  "checkPacket d p packet =
     (if drop_bit 4 (packet ! 0) = 4 then
        if length packet < 20 then Some None
        else
          let len = BE_Uint16 (slice IPv4offsetTotalLength (IPv4offsetTotalLength + 2) packet)
          in if unat len > length packet \<or> unat len < 20 then Some None
             else case AllowedIPs_Lookup (allowedips d) (slice IPv4offsetSrc (IPv4offsetSrc + 4) packet) of
                 None \<Rightarrow> None
               | Some owner \<Rightarrow> Some (if owner \<noteq> Some p then None else Some (take (unat len) packet))
      else if drop_bit 4 (packet ! 0) = 6 then
        if length packet < 40 then Some None
        else
          let len = BE_Uint16 (slice IPv6offsetPayloadLength (IPv6offsetPayloadLength + 2) packet);
              len = len + 40
          in if unat len > length packet then Some None
             else case AllowedIPs_Lookup (allowedips d) (slice IPv6offsetSrc (IPv6offsetSrc + 16) packet) of
                 None \<Rightarrow> None
               | Some owner \<Rightarrow> Some (if owner \<noteq> Some p then None else Some (take (unat len) packet))
      else Some None)"

record rcv =
  rc_dev :: Device
  rc_tail :: "Endpoint option"
  rc_data :: bool
  rc_rx :: u64
  rc_bufs :: "bytes list"

definition receiveElem :: "crypto \<Rightarrow> env \<Rightarrow> peer_id \<Rightarrow> InElem \<Rightarrow> rcv \<Rightarrow> rcv option" where
  "receiveElem C e p elem s =
     (case ie_packet elem of
        None \<Rightarrow> Some s
      | Some packet \<Rightarrow>
          let d = rc_dev s;
              k = ie_keypair elem;
              (ok, filter) = ValidateCounter (kp_replayFilter (keypair_store d k)) (ie_counter elem) RejectAfterMessages;
              d = upd_keypair k (\<lambda>kp. kp\<lparr>kp_replayFilter := filter\<rparr>) d
          in if \<not> ok then Some (s\<lparr>rc_dev := d\<rparr>)
             else
               let (d, rotated) = ReceivedWithKeypair d p k;
                   d = (if rotated
                        then SendStagedPackets C e p (timersHandshakeComplete e p (SetEndpointFromPacket (ie_endpoint elem) p d))
                        else d);
                   s = s\<lparr>rc_dev := d, rc_tail := Some (ie_endpoint elem),
                         rc_rx := rc_rx s + word_of_nat (length packet + MinMessageSize)\<rparr>
               in if packet = [] then Some s
                  else
                    let s = s\<lparr>rc_data := True\<rparr>
                    in case checkPacket d p packet of
                         None \<Rightarrow> None
                       | Some None \<Rightarrow> Some s
                       | Some (Some b) \<Rightarrow> Some (s\<lparr>rc_bufs := rc_bufs s @ [b]\<rparr>))"

fun receiveElems :: "crypto \<Rightarrow> env \<Rightarrow> peer_id \<Rightarrow> InElem list \<Rightarrow> rcv \<Rightarrow> rcv option" where
  "receiveElems C e p [] s = Some s" |
  "receiveElems C e p (elem # elems) s =
     (case receiveElem C e p elem s of None \<Rightarrow> None | Some s \<Rightarrow> receiveElems C e p elems s)"

definition receiveContainer :: "crypto \<Rightarrow> env \<Rightarrow> peer_id \<Rightarrow> InElem list \<Rightarrow> Device \<Rightarrow> Device outcome" where
  "receiveContainer C e p elems d =
     (case receiveElems C e p elems \<lparr>rc_dev = d, rc_tail = None, rc_data = False, rc_rx = 0, rc_bufs = []\<rparr> of
        None \<Rightarrow> Panicked
      | Some s \<Rightarrow>
          let d = upd_peer p (\<lambda>pr. pr\<lparr>rxBytes := rxBytes pr + rc_rx s\<rparr>) (rc_dev s);
              d = (case rc_tail s of
                     None \<Rightarrow> d
                   | Some ep \<Rightarrow>
                       let d = SetEndpointFromPacket ep p d;
                           d = keepKeyFreshReceiving C e p d;
                           d = timersAnyAuthenticatedPacketTraversal e p d
                       in timersAnyAuthenticatedPacketReceived p d);
              d = (if rc_data s then timersDataReceived e p d else d)
          in Ran (if rc_bufs s \<noteq> [] then d\<lparr>written := written d @ rc_bufs s\<rparr> else d))"

definition RoutineSequentialReceiver :: "crypto \<Rightarrow> env \<Rightarrow> peer_id \<Rightarrow> Device \<Rightarrow> Device outcome" where
  "RoutineSequentialReceiver C e p d =
     (case inbound (peer_store d p) of
        [] \<Rightarrow> Blocked
      | c # rest \<Rightarrow>
          if ic_locked (in_cont d c) then Blocked
          else receiveContainer C e p (ic_elems (in_cont d c)) (upd_peer p (\<lambda>pr. pr\<lparr>inbound := rest\<rparr>) d))"

end
