(* ===== verification/Peers.thy ===== *)
theory Peers
  imports Receive
begin

text \<open>
  The life of a peer (device/peer.go), the timers that drive it (the expiration functions of
  device/timers.go) and the draining of its queues (device/channels.go).
\<close>

primrec andThen :: "'a outcome \<Rightarrow> ('a \<Rightarrow> 'b outcome) \<Rightarrow> 'b outcome" where
  "andThen Blocked f = Blocked" |
  "andThen Panicked f = Panicked" |
  "andThen (Ran d) f = f d"

subsection \<open>Creation\<close>

datatype peer_error = errDeviceClosed | errTooManyPeers | errExistingPeer

definition NewPeer :: "crypto \<Rightarrow> NoisePublicKey \<Rightarrow> Device \<Rightarrow> Device \<times> (peer_error + peer_id)" where
  "NewPeer C pk d =
     (if isClosed d then (d, Inl errDeviceClosed)
      else if length (keyMap d) \<ge> MaxPeers then (d, Inl errTooManyPeers)
      else
        let p = next_peer d;
            peer = zeroPeer\<lparr>cookieGenerator := CookieGenerator_Init C (cookieGenerator zeroPeer) pk,
                     outbound := [], inbound := [], staged := []\<rparr>
        in if map_of (keyMap d) pk \<noteq> None then (d, Inl errExistingPeer)
           else
             let (ss, _) = sharedSecret C (privateKey d) pk;
                 h = (handshake peer)\<lparr>hs_precomputedStaticStatic := ss, hs_remoteStatic := pk\<rparr>;
                 peer = peer\<lparr>handshake := h, endpoint_val := None, disableRoaming := False, clearSrcOnTx := False\<rparr>;
                 peer = timersInit peer
             in (d\<lparr>peer_store := (peer_store d)(p := peer), next_peer := p + 1, keyMap := keyMap d @ [(pk, p)]\<rparr>,
                 Inr p))"

subsection \<open>Draining queues\<close>

text \<open>Locking a container that a worker still holds waits until the worker is done with it; in a
  sequential run the worker's step happens there.  The wait is for ever when no worker will come.\<close>

definition position :: "'a \<Rightarrow> 'a list \<Rightarrow> nat" where
  "position x xs = length (takeWhile (\<lambda>y. y \<noteq> x) xs)"

definition lockInbound :: "crypto \<Rightarrow> container_id \<Rightarrow> Device \<Rightarrow> Device outcome" where
  "lockInbound C c d =
     (if ic_locked (in_cont d c) then RoutineDecryption C (position c (decryption_q d)) d else Ran d)"

definition lockOutbound :: "crypto \<Rightarrow> container_id \<Rightarrow> Device \<Rightarrow> Device outcome" where
  "lockOutbound C c d =
     (if oc_locked (out_cont d c) then RoutineEncryption C (position c (encryption_q d)) d else Ran d)"

fun flushInbound :: "crypto \<Rightarrow> container_id list \<Rightarrow> Device \<Rightarrow> Device outcome" where
  "flushInbound C [] d = Ran d" |
  "flushInbound C (c # cs) d = andThen (lockInbound C c d) (flushInbound C cs)"

fun flushOutbound :: "crypto \<Rightarrow> container_id list \<Rightarrow> Device \<Rightarrow> Device outcome" where
  "flushOutbound C [] d = Ran d" |
  "flushOutbound C (c # cs) d = andThen (lockOutbound C c d) (flushOutbound C cs)"

definition flushInboundQueue :: "crypto \<Rightarrow> peer_id \<Rightarrow> Device \<Rightarrow> Device outcome" where
  "flushInboundQueue C p d =
     flushInbound C (inbound (peer_store d p)) (upd_peer p (\<lambda>pr. pr\<lparr>inbound := []\<rparr>) d)"

definition flushOutboundQueue :: "crypto \<Rightarrow> peer_id \<Rightarrow> Device \<Rightarrow> Device outcome" where
  "flushOutboundQueue C p d =
     flushOutbound C (outbound (peer_store d p)) (upd_peer p (\<lambda>pr. pr\<lparr>outbound := []\<rparr>) d)"

text \<open>The sequential receiver up to the nil container.\<close>

fun drainInbound :: "crypto \<Rightarrow> env \<Rightarrow> peer_id \<Rightarrow> container_id list \<Rightarrow> Device \<Rightarrow> Device outcome" where
  "drainInbound C e p [] d = Ran d" |
  "drainInbound C e p (c # cs) d =
     andThen (lockInbound C c d) (\<lambda>d.
       andThen (receiveContainer C e p (ic_elems (in_cont d c)) (upd_peer p (\<lambda>pr. pr\<lparr>inbound := cs\<rparr>) d))
         (drainInbound C e p cs))"

subsection \<open>Starting and stopping\<close>

definition Start :: "crypto \<Rightarrow> env \<Rightarrow> peer_id \<Rightarrow> Device \<Rightarrow> Device outcome" where
  "Start C e p d =
     (if isClosed d then Ran d
      else if isRunning (peer_store d p) then Ran d
      else
        let d = upd_handshake p (\<lambda>h. h\<lparr>hs_lastSentHandshake := now e - (RekeyTimeout + Second)\<rparr>) d;
            d = timersStart p d
        in andThen (flushInboundQueue C p d) (\<lambda>d.
             andThen (flushOutboundQueue C p d) (\<lambda>d.
               Ran (upd_peer p (\<lambda>pr. pr\<lparr>isRunning := True\<rparr>) d))))"

definition ZeroAndFlushAll :: "peer_id \<Rightarrow> Device \<Rightarrow> Device" where
  "ZeroAndFlushAll p d =
     (let kps = keypairs (peer_store d p);
          d = DeleteKeypair (previous kps) d;
          d = DeleteKeypair (current kps) d;
          d = DeleteKeypair (next_kp kps) d;
          d = upd_peer p (\<lambda>pr. pr\<lparr>keypairs := \<lparr>current = None, previous = None, next_kp = None\<rparr>\<rparr>) d;
          d = deleteIndex (hs_localIndex (hs_of d p)) d;
          d = upd_handshake p hs_Clear d
      in FlushStagedPackets p d)"

definition ExpireCurrentKeypairs :: "env \<Rightarrow> peer_id \<Rightarrow> Device \<Rightarrow> Device" where
  "ExpireCurrentKeypairs e p d =
     (let d = deleteIndex (hs_localIndex (hs_of d p)) d;
          d = upd_handshake p hs_Clear d;
          d = upd_handshake p (\<lambda>h. h\<lparr>hs_lastSentHandshake := now e - (RekeyTimeout + Second)\<rparr>) d;
          kps = keypairs (peer_store d p);
          expire = (\<lambda>k d. case k of None \<Rightarrow> d
                     | Some k \<Rightarrow> upd_keypair k (\<lambda>kp. kp\<lparr>kp_sendNonce := RejectAfterMessages\<rparr>) d)
      in expire (next_kp kps) (expire (current kps) d))"

definition Stop :: "crypto \<Rightarrow> env \<Rightarrow> peer_id \<Rightarrow> Device \<Rightarrow> Device outcome" where
  "Stop C e p d =
     (if \<not> isRunning (peer_store d p) then Ran d
      else
        let d = upd_peer p (\<lambda>pr. pr\<lparr>isRunning := False\<rparr>) d;
            d = timersStop p d
        in andThen (drainInbound C e p (inbound (peer_store d p)) d) (\<lambda>d.
             andThen (flushOutboundQueue C p d) (\<lambda>d. Ran (ZeroAndFlushAll p d))))"

subsection \<open>Timers\<close>

definition expiredRetransmitHandshake :: "crypto \<Rightarrow> env \<Rightarrow> peer_id \<Rightarrow> Device \<Rightarrow> Device" where
  "expiredRetransmitHandshake C e p d =
     (if unat (handshakeAttempts (peer_store d p)) > MaxTimerHandshakes then
        let d = (if timersActive d p
                 then upd_peer p (\<lambda>pr. pr\<lparr>sendKeepalive := Timer_Del (sendKeepalive pr)\<rparr>) d else d);
            d = FlushStagedPackets p d
        in if timersActive d p \<and> \<not> isPending (zeroKeyMaterial (peer_store d p))
           then upd_peer p (\<lambda>pr. pr\<lparr>zeroKeyMaterial := Timer_Mod e (RejectAfterTime * 3) (zeroKeyMaterial pr)\<rparr>) d
           else d
      else
        let d = upd_peer p (\<lambda>pr. pr\<lparr>handshakeAttempts := handshakeAttempts pr + 1\<rparr>) d;
            d = markEndpointSrcForClearing p d
        in fst (SendHandshakeInitiation C e True p d))"

definition expiredSendKeepalive :: "crypto \<Rightarrow> env \<Rightarrow> peer_id \<Rightarrow> Device \<Rightarrow> Device" where
  "expiredSendKeepalive C e p d =
     (let d = SendKeepalive C e p d
      in if needAnotherKeepalive (peer_store d p) then
           let d = upd_peer p (\<lambda>pr. pr\<lparr>needAnotherKeepalive := False\<rparr>) d
           in if timersActive d p
              then upd_peer p (\<lambda>pr. pr\<lparr>sendKeepalive := Timer_Mod e KeepaliveTimeout (sendKeepalive pr)\<rparr>) d
              else d
         else d)"

definition expiredNewHandshake :: "crypto \<Rightarrow> env \<Rightarrow> peer_id \<Rightarrow> Device \<Rightarrow> Device" where
  "expiredNewHandshake C e p d = fst (SendHandshakeInitiation C e False p (markEndpointSrcForClearing p d))"

definition expiredZeroKeyMaterial :: "peer_id \<Rightarrow> Device \<Rightarrow> Device" where
  "expiredZeroKeyMaterial p d = ZeroAndFlushAll p d"

definition expiredPersistentKeepalive :: "crypto \<Rightarrow> env \<Rightarrow> peer_id \<Rightarrow> Device \<Rightarrow> Device" where
  "expiredPersistentKeepalive C e p d =
     (if persistentKeepaliveInterval (peer_store d p) > 0 then SendKeepalive C e p d else d)"

text \<open>The function that \<open>NewTimer\<close> gives to \<open>time.AfterFunc\<close>, for each of the five timers that
  \<open>timersInit\<close> makes.\<close>

datatype timer_name = TRetransmitHandshake | TSendKeepalive | TNewHandshake | TZeroKeyMaterial | TPersistentKeepalive

primrec timer_of :: "timer_name \<Rightarrow> Peer \<Rightarrow> Timer" where
  "timer_of TRetransmitHandshake pr = retransmitHandshake pr" |
  "timer_of TSendKeepalive pr = sendKeepalive pr" |
  "timer_of TNewHandshake pr = newHandshake pr" |
  "timer_of TZeroKeyMaterial pr = zeroKeyMaterial pr" |
  "timer_of TPersistentKeepalive pr = persistentKeepalive pr"

primrec upd_timer :: "timer_name \<Rightarrow> (Timer \<Rightarrow> Timer) \<Rightarrow> Peer \<Rightarrow> Peer" where
  "upd_timer TRetransmitHandshake f pr = pr\<lparr>retransmitHandshake := f (retransmitHandshake pr)\<rparr>" |
  "upd_timer TSendKeepalive f pr = pr\<lparr>sendKeepalive := f (sendKeepalive pr)\<rparr>" |
  "upd_timer TNewHandshake f pr = pr\<lparr>newHandshake := f (newHandshake pr)\<rparr>" |
  "upd_timer TZeroKeyMaterial f pr = pr\<lparr>zeroKeyMaterial := f (zeroKeyMaterial pr)\<rparr>" |
  "upd_timer TPersistentKeepalive f pr = pr\<lparr>persistentKeepalive := f (persistentKeepalive pr)\<rparr>"

primrec expirationFunction :: "timer_name \<Rightarrow> crypto \<Rightarrow> env \<Rightarrow> peer_id \<Rightarrow> Device \<Rightarrow> Device" where
  "expirationFunction TRetransmitHandshake C e p d = expiredRetransmitHandshake C e p d" |
  "expirationFunction TSendKeepalive C e p d = expiredSendKeepalive C e p d" |
  "expirationFunction TNewHandshake C e p d = expiredNewHandshake C e p d" |
  "expirationFunction TZeroKeyMaterial C e p d = expiredZeroKeyMaterial p d" |
  "expirationFunction TPersistentKeepalive C e p d = expiredPersistentKeepalive C e p d"

definition timerFires :: "crypto \<Rightarrow> env \<Rightarrow> timer_name \<Rightarrow> peer_id \<Rightarrow> Device \<Rightarrow> Device" where
  "timerFires C e t p d =
     (if \<not> isPending (timer_of t (peer_store d p)) then d
      else expirationFunction t C e p (upd_peer p (upd_timer t (\<lambda>tm. tm\<lparr>isPending := False\<rparr>)) d))"

end
