(* ===== verification/Device_Ops.thy ===== *)
theory Device_Ops
  imports Peers
begin

text \<open>
  The operations of device/device.go, device/tun.go and device/mobilequirks.go: creation, the state
  machine of the device (down, up, closed), the bind, the private key, and the removal of peers.

  Operations that visit several peers take one environment per peer.  Go visits a map in some
  order; the model visits the association list in its order.  What the bind answers is an argument.
\<close>

subsection \<open>Peers\<close>

definition removePeerLocked :: "crypto \<Rightarrow> env \<Rightarrow> peer_id \<Rightarrow> NoisePublicKey \<Rightarrow> Device \<Rightarrow> Device outcome" where
  "removePeerLocked C e p key d =
     andThen (Stop C e p (d\<lparr>allowedips := RemoveByPeer (allowedips d) p\<rparr>)) (\<lambda>d.
       Ran (d\<lparr>keyMap := filter (\<lambda>(k, _). k \<noteq> key) (keyMap d)\<rparr>))"

definition RemovePeer :: "crypto \<Rightarrow> env \<Rightarrow> NoisePublicKey \<Rightarrow> Device \<Rightarrow> Device outcome" where
  "RemovePeer C e key d =
     (case map_of (keyMap d) key of None \<Rightarrow> Ran d | Some p \<Rightarrow> removePeerLocked C e p key d)"

fun forPeers :: "(NoisePublicKey \<times> peer_id \<Rightarrow> Device \<Rightarrow> Device outcome) \<Rightarrow> (NoisePublicKey \<times> peer_id) list \<Rightarrow>
     Device \<Rightarrow> Device outcome" where
  "forPeers f [] d = Ran d" |
  "forPeers f (kp # kps) d = andThen (f kp d) (forPeers f kps)"

definition RemoveAllPeers :: "crypto \<Rightarrow> (peer_id \<Rightarrow> env) \<Rightarrow> Device \<Rightarrow> Device outcome" where
  "RemoveAllPeers C es d =
     andThen (forPeers (\<lambda>(key, p). removePeerLocked C (es p) p key) (keyMap d) d)
       (\<lambda>d. Ran (d\<lparr>keyMap := []\<rparr>))"

definition SendKeepalivesToPeersWithCurrentKeypair :: "crypto \<Rightarrow> (peer_id \<Rightarrow> env) \<Rightarrow> Device \<Rightarrow> Device" where
  "SendKeepalivesToPeersWithCurrentKeypair C es d =
     (if \<not> isUp d then d
      else fold (\<lambda>(_, p) d.
        case current (keypairs (peer_store d p)) of
          None \<Rightarrow> d
        | Some k \<Rightarrow> if kp_created (keypair_store d k) + RejectAfterTime < now (es p) then d
                   else SendKeepalive C (es p) p d) (keyMap d) d)"

subsection \<open>The bind\<close>

text \<open>What the bind answers to \<open>Close\<close> (an error), \<open>Open\<close> (the port, or \<open>None\<close> on an error), the start of the
  route listener and \<open>SetMark\<close> (errors).\<close>

record net_env =
  ne_close :: bool
  ne_open :: "u16 \<Rightarrow> u16 option"
  ne_listener :: bool
  ne_mark :: bool

definition closeBindLocked :: "bool \<Rightarrow> Device \<Rightarrow> Device \<times> bool" where
  "closeBindLocked err d = (d\<lparr>bind_open := False\<rparr>, err)"

definition BindClose :: "bool \<Rightarrow> Device \<Rightarrow> Device \<times> bool" where
  "BindClose err d = closeBindLocked err d"

definition clearSources :: "Device \<Rightarrow> Device" where
  "clearSources d = fold (\<lambda>(_, p). markEndpointSrcForClearing p) (keyMap d) d"

definition BindSetMark :: "bool \<Rightarrow> u32 \<Rightarrow> Device \<Rightarrow> Device \<times> bool" where
  "BindSetMark err mark d =
     (if fwmark d = mark then (d, False)
      else
        let d = d\<lparr>fwmark := mark\<rparr>
        in if isUp d \<and> err then (d, True) else (clearSources d, False))"

definition BindUpdate :: "net_env \<Rightarrow> Device \<Rightarrow> Device \<times> bool" where
  "BindUpdate ne d =
     (case closeBindLocked (ne_close ne) d of
        (d, True) \<Rightarrow> (d, True)
      | (d, False) \<Rightarrow>
          if \<not> isUp d then (d, False)
          else case ne_open ne (net_port d) of
              None \<Rightarrow> (d\<lparr>net_port := 0\<rparr>, True)
            | Some port \<Rightarrow>
                let d = d\<lparr>net_port := port, bind_open := True\<rparr>
                in if ne_listener ne then (d\<lparr>bind_open := False, net_port := 0\<rparr>, True)
                   else if fwmark d \<noteq> 0 \<and> ne_mark ne then (d, True)
                   else (clearSources d, False))"

subsection \<open>The state machine\<close>

definition upLocked :: "crypto \<Rightarrow> (peer_id \<Rightarrow> env) \<Rightarrow> net_env \<Rightarrow> Device \<Rightarrow> (Device \<times> bool) outcome" where
  "upLocked C es ne d =
     (case BindUpdate ne d of
        (d, True) \<Rightarrow> Ran (d, True)
      | (d, False) \<Rightarrow>
          andThen (forPeers (\<lambda>(_, p) d.
              andThen (Start C (es p) p d) (\<lambda>d.
                Ran (if persistentKeepaliveInterval (peer_store d p) > 0 then SendKeepalive C (es p) p d else d)))
            (keyMap d) d)
            (\<lambda>d. Ran (d, False)))"

definition downLocked :: "crypto \<Rightarrow> (peer_id \<Rightarrow> env) \<Rightarrow> bool \<Rightarrow> Device \<Rightarrow> (Device \<times> bool) outcome" where
  "downLocked C es closeErr d =
     (let (d, err) = BindClose closeErr d
      in andThen (forPeers (\<lambda>(_, p). Stop C (es p) p) (keyMap d) d) (\<lambda>d. Ran (d, err)))"

text \<open>\<open>closeErr\<close> is the answer of \<open>Close\<close> on the way down, \<open>ne\<close> what the bind answers on the way up.\<close>

definition changeState ::
  "crypto \<Rightarrow> (peer_id \<Rightarrow> env) \<Rightarrow> net_env \<Rightarrow> bool \<Rightarrow> deviceState \<Rightarrow> Device \<Rightarrow> (Device \<times> bool) outcome" where
  "changeState C es ne closeErr want d =
     (let old = dstate d;
          down = (\<lambda>err d. andThen (downLocked C es closeErr (d\<lparr>dstate := deviceStateDown\<rparr>))
                   (\<lambda>(d, errDown). Ran (d, if err then err else errDown)))
      in if old = deviceStateClosed then Ran (d, False)
         else if want = old then Ran (d, False)
         else case want of
             deviceStateUp \<Rightarrow>
               andThen (upLocked C es ne (d\<lparr>dstate := deviceStateUp\<rparr>)) (\<lambda>(d, err).
                 if \<not> err then Ran (d, False) else down err d)
           | deviceStateDown \<Rightarrow> down False d
           | deviceStateClosed \<Rightarrow> Ran (d, False))"

definition Up :: "crypto \<Rightarrow> (peer_id \<Rightarrow> env) \<Rightarrow> net_env \<Rightarrow> bool \<Rightarrow> Device \<Rightarrow> (Device \<times> bool) outcome" where
  "Up C es ne closeErr d = changeState C es ne closeErr deviceStateUp d"

definition Down :: "crypto \<Rightarrow> (peer_id \<Rightarrow> env) \<Rightarrow> net_env \<Rightarrow> bool \<Rightarrow> Device \<Rightarrow> (Device \<times> bool) outcome" where
  "Down C es ne closeErr d = changeState C es ne closeErr deviceStateDown d"

text \<open>\<open>Close\<close>; the panic is that of closing the rate limiter's channel twice.\<close>

definition Close :: "crypto \<Rightarrow> (peer_id \<Rightarrow> env) \<Rightarrow> bool \<Rightarrow> Device \<Rightarrow> Device outcome" where
  "Close C es closeErr d =
     (if isClosed d then Ran d
      else
        andThen (downLocked C es closeErr (d\<lparr>dstate := deviceStateClosed\<rparr>)) (\<lambda>(d, _).
          andThen (RemoveAllPeers C es d) (\<lambda>d.
            case rl_Close (limiter d) of None \<Rightarrow> Panicked | Some rate \<Rightarrow> Ran (d\<lparr>limiter := rate\<rparr>))))"

subsection \<open>The private key\<close>

text \<open>The loop over a map that deletes from it as it goes is the loop over its entries at the start:
  a deletion removes the entry just visited.\<close>

definition SetPrivateKey :: "crypto \<Rightarrow> (peer_id \<Rightarrow> env) \<Rightarrow> NoisePrivateKey \<Rightarrow> Device \<Rightarrow> Device outcome" where
  "SetPrivateKey C es sk d =
     (if key_Equals sk (privateKey d) then Ran d
      else
        let pk = publicKey C sk
        in andThen (forPeers (\<lambda>(key, p) d.
             if key_Equals (hs_remoteStatic (hs_of d p)) pk then removePeerLocked C (es p) p key d else Ran d)
             (keyMap d) d) (\<lambda>d.
           let d = d\<lparr>privateKey := sk, public_key := pk, cookieChecker := CookieChecker_Init C (cookieChecker d) pk\<rparr>;
               d = fold (\<lambda>(_, p) d. upd_handshake p (\<lambda>h. h\<lparr>hs_precomputedStaticStatic :=
                     fst (sharedSecret C (privateKey d) (hs_remoteStatic h))\<rparr>) d) (keyMap d) d
           in Ran (fold (\<lambda>(_, p). ExpireCurrentKeypairs (es p) p) (keyMap d) d)))"

subsection \<open>Creation\<close>

text \<open>\<open>int32\<close> of an integer.\<close>

definition int32 :: "int \<Rightarrow> int" where
  "int32 n = sint (word_of_int n :: 32 word)"

text \<open>The answer of the TUN device's \<open>MTU\<close>, \<open>None\<close> an error.  The new limiter's channel is nil, so its
  \<open>Init\<close> does not panic.\<close>

definition NewDevice :: "int option \<Rightarrow> Device" where
  "NewDevice tunMTU =
     (let m = (case tunMTU of None \<Rightarrow> DefaultMTU | Some m \<Rightarrow> m);
          rate = (case rl_Init (limiter zeroDevice) of Some rate \<Rightarrow> rate | None \<Rightarrow> limiter zeroDevice)
      in zeroDevice\<lparr>dstate := deviceStateDown, mtu := int32 m, keyMap := [], limiter := rate, indexTable := it_Init,
           handshake_q := [], encryption_q := [], decryption_q := []\<rparr>)"

definition BatchSize :: "int \<Rightarrow> int \<Rightarrow> int" where
  "BatchSize bindSize tunSize = (if bindSize < tunSize then tunSize else bindSize)"

subsection \<open>Events of the TUN device\<close>

text \<open>The flags of an event, and what \<open>MTU\<close> answers.\<close>

record tun_event =
  EventMTUUpdate :: bool
  EventUp :: bool
  EventDown :: bool

definition updateMTU :: "int option \<Rightarrow> Device \<Rightarrow> Device option" where
  "updateMTU tunMTU d =
     (case tunMTU of
        None \<Rightarrow> None
      | Some m \<Rightarrow>
          if m < 0 then None
          else
            let m = (if m > int MaxContentSize then int MaxContentSize else m)
            in Some (d\<lparr>mtu := int32 m\<rparr>))"

definition RoutineTUNEventReader ::
  "crypto \<Rightarrow> (peer_id \<Rightarrow> env) \<Rightarrow> net_env \<Rightarrow> bool \<Rightarrow> tun_event \<Rightarrow> int option \<Rightarrow> Device \<Rightarrow> Device outcome" where
  "RoutineTUNEventReader C es ne closeErr event tunMTU d =
     (case (if EventMTUUpdate event then updateMTU tunMTU d else Some d) of
        None \<Rightarrow> Ran d
      | Some d \<Rightarrow>
          andThen (if EventUp event then andThen (Up C es ne closeErr d) (\<lambda>(d, _). Ran d) else Ran d) (\<lambda>d.
            if EventDown event then andThen (Down C es ne closeErr d) (\<lambda>(d, _). Ran d) else Ran d))"

definition DisableSomeRoamingForBrokenMobileSemantics :: "Device \<Rightarrow> Device" where
  "DisableSomeRoamingForBrokenMobileSemantics d =
     fold (\<lambda>(_, p). upd_peer p (\<lambda>pr. pr\<lparr>disableRoaming := endpoint_val pr \<noteq> None\<rparr>))
       (keyMap d) (d\<lparr>brokenRoaming := True\<rparr>)"

end
