(* ===== verification/Frames.thy ===== *)
theory Frames
  imports Device_Ops
begin

text \<open>
  What the operations of the device leave alone.  \<open>rest\<close> collects what sending and handshakes never
  touch, \<open>keys\<close> the keypairs and the nonces already assigned; each operation has its equations here,
  and the properties of whole runs rest on them.
\<close>

definition peer_rest :: "Peer \<Rightarrow> bool \<times> container_id list \<times> bool \<times> u32" where
  "peer_rest pr = (isRunning pr, inbound pr, disableRoaming pr, persistentKeepaliveInterval pr)"

definition rest where
  "rest d = (dstate d, bind_open d, net_port d, fwmark d, brokenRoaming d, privateKey d, public_key d,
     keyMap d, next_peer d, underLoadUntil d, limiter d, allowedips d, decryption_q d, in_cont d,
     handshake_q d, mtu d, written d, cookieChecker d, \<lambda>q. peer_rest (peer_store d q))"

definition keys where
  "keys d = (keypair_store d, next_keypair d, out_cont d, next_cont d, \<lambda>q. keypairs (peer_store d q))"

named_theorems frame \<open>what the operations leave alone\<close>

lemma rest_upd_peer:
  assumes "\<And>pr. peer_rest (f pr) = peer_rest pr"
  shows "rest (upd_peer p f d) = rest d"
  by (auto simp: rest_def upd_simps assms)

lemma keys_upd_peer:
  assumes "\<And>pr. keypairs (f pr) = keypairs pr"
  shows "keys (upd_peer p f d) = keys d"
  by (auto simp: keys_def upd_simps assms)

lemma frame_upd_handshake [frame]:
  "rest (upd_handshake p f d) = rest d" "keys (upd_handshake p f d) = keys d"
  unfolding upd_handshake_def by (simp_all add: rest_upd_peer keys_upd_peer peer_rest_def)

lemma frame_upd_keypair [frame]: "rest (upd_keypair k f d) = rest d"
  by (simp add: rest_def upd_simps)

lemma frame_indexTable [frame]:
  "rest (d\<lparr>indexTable := t\<rparr>) = rest d" "keys (d\<lparr>indexTable := t\<rparr>) = keys d"
  "rest (deleteIndex i d) = rest d" "keys (deleteIndex i d) = keys d"
  "rest (DeleteKeypair k d) = rest d" "keys (DeleteKeypair k d) = keys d"
  by (simp_all add: rest_def keys_def deleteIndex_def DeleteKeypair_def split: option.split)

lemma frame_newIndex [frame]:
  "newIndex e d p = (i, err, d') \<Longrightarrow> rest d' = rest d \<and> keys d' = keys d"
  by (cases rule: newIndex_cases [of e d p]) (auto simp: frame)

lemma frame_core: "core d' = core d \<Longrightarrow> rest d' = rest d \<and> keys d' = keys d"
proof -
  assume a: "core d' = core d"
  have "rest (core x) = rest x \<and> keys (core x) = keys x" for x
    by (auto simp: core_def rest_def keys_def peer_rest_def)
  then show ?thesis using a by metis
qed

lemmas frame_timers [frame] =
  core_timers [THEN frame_core, THEN conjunct1] core_timers [THEN frame_core, THEN conjunct2]

lemma frame_sent [frame]:
  "rest (d\<lparr>sent := s\<rparr>) = rest d" "keys (d\<lparr>sent := s\<rparr>) = keys d"
  "rest (d\<lparr>encryption_q := q\<rparr>) = rest d" "keys (d\<lparr>encryption_q := q\<rparr>) = keys d"
  by (simp_all add: rest_def keys_def)

lemma frame_SendBuffers [frame]:
  "rest (fst (SendBuffers e d p bs)) = rest d" "keys (fst (SendBuffers e d p bs)) = keys d"
  by (simp_all add: SendBuffers_def frame_sent rest_upd_peer keys_upd_peer peer_rest_def Let_def split: option.split)

lemma frame_addMacs [frame]:
  "rest (fst (addMacs C e p m d)) = rest d" "keys (fst (addMacs C e p m d)) = keys d"
  by (auto simp: addMacs_def rest_upd_peer keys_upd_peer peer_rest_def split: option.splits)

lemma frame_CreateMessageInitiation [frame]:
  "rest (fst (CreateMessageInitiation C e d p)) = rest d"
  "keys (fst (CreateMessageInitiation C e d p)) = keys d"
  by (auto simp: CreateMessageInitiation_def Let_def frame split: prod.splits dest: frame_newIndex)

lemma frame_CreateMessageResponse [frame]:
  "rest (fst (CreateMessageResponse C e d p)) = rest d"
  "keys (fst (CreateMessageResponse C e d p)) = keys d"
  by (auto simp: CreateMessageResponse_def Let_def frame split: prod.splits dest: frame_newIndex)

lemma frame_ConsumeMessageInitiation [frame]:
  "rest (fst (ConsumeMessageInitiation C e d msg)) = rest d"
  "keys (fst (ConsumeMessageInitiation C e d msg)) = keys d"
  by (simp_all add: ConsumeMessageInitiation_def Let_def frame split: prod.split option.split)

lemma frame_ConsumeMessageResponse [frame]:
  "rest (fst (ConsumeMessageResponse C d msg)) = rest d"
  "keys (fst (ConsumeMessageResponse C d msg)) = keys d"
  by (simp_all add: ConsumeMessageResponse_def Let_def frame split: prod.split option.split)

lemma frame_SendHandshakeInitiation [frame]:
  "rest (fst (SendHandshakeInitiation C e r p d)) = rest d"
  "keys (fst (SendHandshakeInitiation C e r p d)) = keys d"
  unfolding SendHandshakeInitiation_def Let_def case_prod_unfold
  by (simp_all add: frame rest_upd_peer keys_upd_peer peer_rest_def split: sum.split)

lemma frame_rotate [frame]: "rest (rotate i k p d) = rest d"
  by (simp add: rotate_def Let_def frame rest_upd_peer peer_rest_def)

lemma frame_BeginSymmetricSession [frame]: "rest (fst (BeginSymmetricSession C e d p)) = rest d"
proof -
  have "rest (x\<lparr>keypair_store := s, next_keypair := n\<rparr>) = rest x"
    "rest (x\<lparr>keypair_store := s, next_keypair := n, indexTable := t\<rparr>) = rest x" for x :: Device and s n t
    by (simp_all add: rest_def)
  then show ?thesis by (simp add: BeginSymmetricSession_def Let_def frame case_prod_unfold)
qed

lemma frame_ReceivedWithKeypair [frame]: "rest (fst (ReceivedWithKeypair d p k)) = rest d"
  by (simp add: ReceivedWithKeypair_def Let_def frame rest_upd_peer peer_rest_def)

lemma frame_SendHandshakeResponse [frame]: "rest (fst (SendHandshakeResponse C e p d)) = rest d"
  unfolding SendHandshakeResponse_def Let_def case_prod_unfold
  by (simp add: frame split: sum.split)

lemma frame_keepKeyFresh [frame]:
  "rest (keepKeyFreshSending C e p d) = rest d" "keys (keepKeyFreshSending C e p d) = keys d"
  "rest (keepKeyFreshReceiving C e p d) = rest d" "keys (keepKeyFreshReceiving C e p d) = keys d"
  by (simp_all add: keepKeyFreshSending_def keepKeyFreshReceiving_def Let_def frame rest_upd_peer keys_upd_peer
      peer_rest_def split: option.split)

lemma frame_sendContainer [frame]: "rest (fst (sendContainer p k elems d)) = rest d"
proof -
  have "rest (x\<lparr>out_cont := c, next_cont := n\<rparr>) = rest x" for x :: Device and c n by (simp add: rest_def)
  then show ?thesis
    by (simp add: sendContainer_def push_outbound_def StagePackets_def Let_def frame rest_upd_peer peer_rest_def
        case_prod_unfold)
qed

lemma frame_sendStaged: "rest (sendStaged C e p st d) = rest d"
proof (induction C e p st d rule: sendStaged.induct)
  case (1 C e p d)
  then show ?case by (subst sendStaged.simps) (auto simp: frame split: option.splits)
next
  case (2 C e p k d)
  show ?case
  proof (cases "staged (peer_store d p)")
    case Nil
    then show ?thesis by (simp add: sendStaged.simps)
  next
    case (Cons elems more)
    let ?d = "upd_peer p (\<lambda>pr. pr\<lparr>staged := more\<rparr>) d"
    obtain d' again where r: "sendContainer p k elems ?d = (d', again)" by fastforce
    have "rest d' = rest ?d" using frame_sendContainer [of p k elems ?d] r by simp
    also have "\<dots> = rest d" by (simp add: rest_upd_peer peer_rest_def)
    finally show ?thesis using 2 [OF Cons refl r [symmetric]] by (simp add: sendStaged.simps(2) Cons r)
  qed
qed

lemma frame_SendStagedPackets [frame]:
  "rest (SendStagedPackets C e p d) = rest d" "rest (SendKeepalive C e p d) = rest d"
  "rest (StagePackets elems p d) = rest d" "rest (FlushStagedPackets p d) = rest d"
  by (simp_all add: SendKeepalive_def SendStagedPackets_def StagePackets_def FlushStagedPackets_def frame_sendStaged Let_def
      rest_upd_peer peer_rest_def)

lemma restD:
  assumes "rest d' = rest d"
  shows "dstate d' = dstate d" "allowedips d' = allowedips d" "written d' = written d" "in_cont d' = in_cont d"
    "decryption_q d' = decryption_q d" "mtu d' = mtu d" "keyMap d' = keyMap d" "handshake_q d' = handshake_q d"
    "limiter d' = limiter d" "next_peer d' = next_peer d" "cookieChecker d' = cookieChecker d"
    "privateKey d' = privateKey d" "public_key d' = public_key d" "bind_open d' = bind_open d"
    "isRunning (peer_store d' q) = isRunning (peer_store d q)" "inbound (peer_store d' q) = inbound (peer_store d q)"
    "disableRoaming (peer_store d' q) = disableRoaming (peer_store d q)"
    "persistentKeepaliveInterval (peer_store d' q) = persistentKeepaliveInterval (peer_store d q)"
  using assms by (auto simp: rest_def peer_rest_def fun_eq_iff)

end
