(* ===== verification/Transport.thy ===== *)
theory Transport
  imports Frames
begin

unbundle bit_operations_syntax

text \<open>
  Properties of the transport path: padding, the round trip of a packet from one device to another,
  and what may reach the TUN device.
\<close>

subsection \<open>Padding\<close>

lemma and_minus_16: "(x :: int) AND - 16 = 16 * (x div 16)"
proof -
  have "x AND NOT (mask 4) = push_bit 4 (drop_bit 4 x)"
    by (auto intro!: bit_eqI simp: bit_simps)
  then show ?thesis by (simp add: push_bit_eq_mult drop_bit_eq_div mask_eq_exp_minus_1)
qed

lemma smod_nonneg: "0 \<le> n \<Longrightarrow> (n :: int) smod m = n mod \<bar>m\<bar>"
  by (cases "n = 0") (simp_all add: signed_modulo_int_def signed_divide_int_def minus_mult_div_eq_mod sgn_if
      abs_if mod_minus_right minus_div_mult_eq_mod flip: div_minus_right)

lemma padding_range:
  assumes "0 \<le> n" "0 \<le> m"
  shows "0 \<le> calculatePaddingSize n m \<and> calculatePaddingSize n m < 16"
proof -
  define r where "r x = 16 * ((x + 15) div 16)" for x :: int
  have r: "x \<le> r x" "r x < x + 16" for x by (auto simp: r_def)
  define u where "u = (if n > m then n mod m else n)"
  have u: "m \<noteq> 0 \<Longrightarrow> 0 \<le> u \<and> u \<le> m" using assms by (auto simp: u_def less_imp_le)
  have "calculatePaddingSize n m = (if m = 0 then r n - n else (if r u > m then m else r u) - u)"
    using assms by (simp add: calculatePaddingSize_def PaddingMultiple_def and_minus_16 Let_def smod_nonneg r_def u_def add.commute)
  then show ?thesis using r [of u] r [of n] u assms(2) by (simp split: if_splits)
qed

text \<open>
  C38. The padding is always between 0 and 15 bytes when the MTU is not negative: without an MTU it fills
  up to a multiple of 16; otherwise the last unit of the packet (the packet itself when it fits)
  is filled to a multiple of 16 or to the MTU, whichever is smaller.  A negative MTU gives a
  negative padding for every packet, on which the encryption worker panics.
\<close>

theorem padding_bounds:
  assumes "0 \<le> n"
  shows "(0 \<le> m \<longrightarrow> 0 \<le> calculatePaddingSize n m \<and> calculatePaddingSize n m < 16) \<and>
    (m = 0 \<longrightarrow> 16 dvd n + calculatePaddingSize n m) \<and>
    (0 < m \<longrightarrow> (let u = (if n > m then n mod m else n); s = u + calculatePaddingSize n m
        in s \<le> m \<and> (16 dvd s \<or> s = m))) \<and>
    (m < 0 \<longrightarrow> calculatePaddingSize n m < 0)"
proof -
  define r where "r x = 16 * ((x + 15) div 16)" for x :: int
  have r: "x \<le> r x" "r x < x + 16" "16 dvd r x" for x by (auto simp: r_def)
  have nn: "m < 0 \<Longrightarrow> m < 16 * ((n mod - m + 15) div 16)"
    using r(1) [of "n mod - m"] pos_mod_sign [of "- m" n] by (simp add: r_def del: pos_mod_sign)
  have calc: "calculatePaddingSize n m =
      (if m = 0 then r n - n
       else let u = (if n > m then n mod \<bar>m\<bar> else n) in (if r u > m then m else r u) - u)"
    using assms nn by (simp add: calculatePaddingSize_def PaddingMultiple_def and_minus_16 Let_def smod_nonneg r_def add.commute)
  show ?thesis
  proof (cases m "0 :: int" rule: linorder_cases)
    case less
    then have "0 \<le> n mod - m" by simp
    then have "m < n mod - m" using less by linarith
    moreover have "m < r (n mod - m)" using nn [OF less] by (simp add: r_def)
    ultimately show ?thesis using less assms by (simp add: calc Let_def)
  next
    case equal
    then show ?thesis using r [of n] calc by simp
  next
    case greater
    define u where "u = (if n > m then n mod m else n)"
    have u: "0 \<le> u" "u \<le> m" using greater assms by (auto simp: u_def less_imp_le)
    have "calculatePaddingSize n m = (if r u > m then m else r u) - u"
      using greater by (simp add: calc u_def Let_def)
    then show ?thesis using r [of u] u greater by (simp add: u_def [symmetric] Let_def)
  qed
qed

text \<open>The bounds at the default MTU of 1420: a packet of 1418 bytes is filled to the MTU, not beyond.\<close>

theorem padding_bounds_witness:
  "(0 :: int) \<le> 1418 \<and> 0 \<le> calculatePaddingSize 1418 1420 \<and> 1418 + calculatePaddingSize 1418 1420 \<le> 1420"
  using padding_bounds [of 1418 1420] by (simp add: Let_def)

subsection \<open>From one device to the other\<close>

lemma length_transportHeader [simp]: "length (transportHeader i n) = 16"
  by (simp add: transportHeader_def)

lemma datagram_fields:
  "LE_Uint32 (take 4 (transportHeader i n @ s)) = MessageTransportType"
  "LE_Uint32 (slice 4 8 (transportHeader i n @ s)) = i"
  "LE_Uint64 (slice 8 16 (transportHeader i n @ s)) = n"
  using LE_Uint32_Put [of MessageTransportType "[]"] LE_Uint32_Put [of i "[]"] LE_Uint64_Put [of n "[]"]
  by (simp_all add: transportHeader_def)

text \<open>A packet whose own length field says how long it is, with its source address.\<close>

definition ip_packet :: "bytes \<Rightarrow> bytes \<Rightarrow> bool" where
  "ip_packet src packet \<longleftrightarrow>
     20 \<le> length packet \<and> drop_bit 4 (packet ! 0) = 4 \<and>
       unat (BE_Uint16 (slice 2 4 packet)) = length packet \<and> src = slice 12 16 packet \<or>
     40 \<le> length packet \<and> drop_bit 4 (packet ! 0) = 6 \<and>
       unat (BE_Uint16 (slice 4 6 packet)) + 40 = length packet \<and> length packet < 2 ^ 16 \<and> src = slice 8 24 packet"

lemma ip_packet_nonempty: "ip_packet src packet \<Longrightarrow> packet \<noteq> []"
  by (auto simp: ip_packet_def)

lemma checkPacket_padded:
  assumes "ip_packet src packet" "AllowedIPs_Lookup (allowedips d) src = Some (Some p)"
  shows "checkPacket d p (packet @ pad) = Some (Some packet)"
  using assms(1) unfolding ip_packet_def
proof (elim disjE conjE)
  assume 4: "20 \<le> length packet" "drop_bit 4 (packet ! 0) = 4"
    "unat (BE_Uint16 (slice 2 4 packet)) = length packet" "src = slice 12 16 packet"
  then have "packet \<noteq> []" by auto
  then show ?thesis using 4 assms(2)
    by (simp add: checkPacket_def nth_append IPv4offsetTotalLength_def IPv4offsetSrc_def)
next
  assume 6: "40 \<le> length packet" "drop_bit 4 (packet ! 0) = 6"
    "unat (BE_Uint16 (slice 4 6 packet)) + 40 = length packet" "length packet < 2 ^ 16" "src = slice 8 24 packet"
  then have "packet \<noteq> []" by auto
  moreover have "unat (BE_Uint16 (slice 4 6 packet) + 40) = length packet"
    using 6 by (simp add: unat_word_ariths)
  ultimately show ?thesis using 6 assms(2)
    by (simp add: checkPacket_def nth_append IPv6offsetPayloadLength_def IPv6offsetSrc_def)
qed

lemma checkPacket_cong: "allowedips d' = allowedips d \<Longrightarrow> checkPacket d' p q = checkPacket d p q"
  by (simp only: checkPacket_def)

lemma receiveContainer_one:
  assumes "ie_packet elem = Some q" "q \<noteq> []" "checkPacket d p q = Some (Some b)"
    and "fst (ValidateCounter (kp_replayFilter (keypair_store d (ie_keypair elem))) (ie_counter elem) RejectAfterMessages)"
  shows "\<exists>d'. receiveContainer C e p [elem] d = Ran d' \<and> written d' = written d @ [b]"
proof -
  obtain f where v: "ValidateCounter (kp_replayFilter (keypair_store d (ie_keypair elem))) (ie_counter elem)
      RejectAfterMessages = (True, f)" using assms(4) by (cases "ValidateCounter (kp_replayFilter
        (keypair_store d (ie_keypair elem))) (ie_counter elem) RejectAfterMessages") simp
  let ?s = "\<lparr>rc_dev = d, rc_tail = None, rc_data = False, rc_rx = 0, rc_bufs = []\<rparr>"
  obtain d1 where d1: "rest d1 = rest d"
    and r: "receiveElem C e p elem ?s = (case checkPacket d1 p q of None \<Rightarrow> None
      | Some None \<Rightarrow> Some \<lparr>rc_dev = d1, rc_tail = Some (ie_endpoint elem), rc_data = True,
          rc_rx = word_of_nat (length q + MinMessageSize), rc_bufs = []\<rparr>
      | Some (Some b) \<Rightarrow> Some \<lparr>rc_dev = d1, rc_tail = Some (ie_endpoint elem), rc_data = True,
          rc_rx = word_of_nat (length q + MinMessageSize), rc_bufs = [b]\<rparr>)"
  proof -
    let ?k = "upd_keypair (ie_keypair elem) (\<lambda>kp. kp\<lparr>kp_replayFilter := f\<rparr>) d"
    obtain d0 rot where rw: "ReceivedWithKeypair ?k p (ie_keypair elem) = (d0, rot)" by fastforce
    have "rest d0 = rest d" using frame_ReceivedWithKeypair [of ?k p "ie_keypair elem"] rw by (simp add: frame)
    then have "rest (if rot then SendStagedPackets C e p (timersHandshakeComplete e p
        (SetEndpointFromPacket (ie_endpoint elem) p d0)) else d0) = rest d" by (simp add: frame)
    then show ?thesis
      by (rule that) (simp add: receiveElem_def assms(1,2) v rw Let_def split: option.split)
  qed
  have "checkPacket d1 p q = Some (Some b)" using assms(3) checkPacket_cong [OF restD(2) [OF d1]] by simp
  then have r': "receiveElem C e p elem ?s = Some \<lparr>rc_dev = d1, rc_tail = Some (ie_endpoint elem), rc_data = True,
          rc_rx = word_of_nat (length q + MinMessageSize), rc_bufs = [b]\<rparr>" using r by simp
  let ?d2 = "timersDataReceived e p (timersAnyAuthenticatedPacketReceived p (timersAnyAuthenticatedPacketTraversal e p
      (keepKeyFreshReceiving C e p (SetEndpointFromPacket (ie_endpoint elem) p
        (upd_peer p (\<lambda>pr. pr\<lparr>rxBytes := rxBytes pr + word_of_nat (length q + MinMessageSize)\<rparr>) d1)))))"
  have "rest ?d2 = rest d" using d1 by (simp add: frame rest_upd_peer peer_rest_def)
  then have "written ?d2 = written d" by (rule restD)
  then show ?thesis by (simp add: receiveContainer_def r' Let_def)
qed

lemma encryptElem_shape:
  assumes "oe_keypair elem = Some k" "0 \<le> mtu d"
  shows "\<exists>pad. encryptElem C d elem = Some (elem\<lparr>oe_packet :=
      transportHeader (kp_remoteIndex (keypair_store d k)) (oe_nonce elem) @
      chapoly_Seal C (kp_send (keypair_store d k)) (transportNonce (oe_nonce elem)) (oe_packet elem @ replicate pad 0) []\<rparr>)"
proof -
  let ?n = "calculatePaddingSize (int (length (oe_packet elem))) (mtu d)"
  have "0 \<le> ?n \<and> ?n < 16" using padding_range [of "int (length (oe_packet elem))" "mtu d"] assms(2) by simp
  then show ?thesis using assms(1)
    by (intro exI [of _ "nat ?n"]) (simp add: encryptElem_def Let_def PaddingMultiple_def)
qed

text \<open>
  C4. A packet arrives as it was sent: let the receiver hold a keypair, under the index the sender's keypair
  addresses, whose receiving key is the sender's sending key.  Then an IP packet encrypted by the
  sender's worker (whatever its MTU, if not negative, hence whatever the padding) is classified, queued, decrypted and
  written to the receiver's TUN device unchanged, with the padding cut off, provided the peer is
  running and has nothing queued before it, the keypair has not expired, the counter is acceptable to
  the replay filter, and the packet's source address belongs to the peer.
\<close>

theorem transport_roundtrip:
  assumes C: "crypto_ok C" and m: "0 \<le> mtu A"
    and el: "oe_keypair elem = Some ka" "ip_packet src (oe_packet elem)"
    and ks: "kp_send (keypair_store A ka) = kp_receive (keypair_store B kb)"
    and it: "it_Lookup (indexTable B) (kp_remoteIndex (keypair_store A ka)) =
      \<lparr>ite_peer = Some p, ite_handshake = h, ite_keypair = Some kb\<rparr>"
    and fresh: "now e \<le> kp_created (keypair_store B kb) + RejectAfterTime"
    and B: "isRunning (peer_store B p)" "inbound (peer_store B p) = []"
    and route: "AllowedIPs_Lookup (allowedips B) src = Some (Some p)"
    and ctr: "fst (ValidateCounter (kp_replayFilter (keypair_store B kb)) (oe_nonce elem) RejectAfterMessages)"
  shows "\<exists>el' B1 B2 B3. encryptElem C A elem = Some el' \<and>
    RoutineReceiveIncoming e [(oe_packet el', ep)] B = Ran B1 \<and>
    RoutineDecryption C (length (decryption_q B)) B1 = Ran B2 \<and>
    RoutineSequentialReceiver C e' p B2 = Ran B3 \<and> written B3 = written B @ [oe_packet elem]"
proof -
  let ?i = "kp_remoteIndex (keypair_store A ka)"
  let ?key = "kp_send (keypair_store A ka)"
  obtain pad where enc: "encryptElem C A elem = Some (elem\<lparr>oe_packet := transportHeader ?i (oe_nonce elem) @
      chapoly_Seal C ?key (transportNonce (oe_nonce elem)) (oe_packet elem @ replicate pad 0) []\<rparr>)"
    using encryptElem_shape [OF el(1) m] by blast
  define plain where "plain = oe_packet elem @ replicate pad 0"
  define seal where "seal = chapoly_Seal C ?key (transportNonce (oe_nonce elem)) plain []"
  define g where "g = transportHeader ?i (oe_nonce elem) @ seal"
  have len: "32 \<le> length g" by (simp add: g_def seal_def crypto_okD [OF C])
  define ie where "ie = \<lparr>ie_packet = Some g, ie_counter = 0, ie_keypair = kb, ie_endpoint = ep\<rparr>"
  have fields: "LE_Uint32 (take 4 g) = MessageTransportType" "LE_Uint32 (slice 4 8 g) = ?i"
    "LE_Uint64 (slice 8 16 g) = oe_nonce elem" "drop 16 g = seal"
    unfolding g_def by (simp_all only: datagram_fields) simp
  have cls: "classify e B g ep = Transport (Some p) ie"
    using len fresh fields it unfolding classify_def MinMessageSize_def MessageKeepaliveSize_def MessageTransportSize_def
      MessageTransportOffsetReceiver_def MessageTransportOffsetCounter_def MessageTransportHeaderSize_def TagSize_def Let_def
    by (simp add: ie_def)
  let ?c = "next_cont B"
  define B1 where "B1 = push_inbound [ie] p B"
  have in1: "RoutineReceiveIncoming e [(g, ep)] B = Ran B1"
    by (simp add: RoutineReceiveIncoming_def cls B1_def B)
  define ie' where "ie' = ie\<lparr>ie_counter := oe_nonce elem, ie_packet := Some plain\<rparr>"
  have dec: "decryptElem C B1 ie = Some ie'"
    using len fields ks crypto_okD(4) [OF C]
    by (simp add: decryptElem_def ie_def ie'_def B1_def push_inbound_def upd_simps Let_def
        MessageTransportOffsetContent_def MessageTransportOffsetCounter_def seal_def)
  define B2 where "B2 = B1\<lparr>decryption_q := decryption_q B,
      in_cont := (in_cont B1)(?c := \<lparr>ic_elems = [ie'], ic_locked = False\<rparr>)\<rparr>"
  have in2: "RoutineDecryption C (length (decryption_q B)) B1 = Ran B2"
    using dec by (simp add: RoutineDecryption_def B2_def B1_def push_inbound_def upd_simps Let_def)
  have q: "inbound (peer_store B2 p) = [?c]" "written B2 = written B" "allowedips B2 = allowedips B"
    "keypair_store B2 = keypair_store B" "in_cont B2 ?c = \<lparr>ic_elems = [ie'], ic_locked = False\<rparr>"
    by (simp_all add: B2_def B1_def push_inbound_def upd_simps Let_def B)
  define B2' where "B2' = upd_peer p (\<lambda>pr. pr\<lparr>inbound := []\<rparr>) B2"
  have "checkPacket B2' p plain = Some (Some (oe_packet elem))"
    using checkPacket_padded [OF el(2)] route q by (simp add: plain_def B2'_def upd_simps)
  moreover have "plain \<noteq> []" using ip_packet_nonempty [OF el(2)] by (simp add: plain_def)
  ultimately obtain B3 where "receiveContainer C e' p [ie'] B2' = Ran B3" "written B3 = written B @ [oe_packet elem]"
    using receiveContainer_one [of ie' plain B2' p "oe_packet elem" C e'] ctr q
    by (auto simp: ie'_def ie_def B2'_def upd_simps)
  then have "RoutineSequentialReceiver C e' p B2 = Ran B3 \<and> written B3 = written B @ [oe_packet elem]"
    using q by (simp add: RoutineSequentialReceiver_def B2'_def)
  then show ?thesis using enc in1 in2 by (auto simp: plain_def [symmetric] seal_def [symmetric] g_def [symmetric])
qed

text \<open>A sender, a receiver and an IPv4 packet from 10.0.0.2 of 20 bytes.\<close>

definition demo_keypair :: Keypair where
  "demo_keypair = \<lparr>kp_sendNonce = 0, kp_send = replicate 32 1, kp_receive = replicate 32 1,
     kp_replayFilter = Reset emptyFilter, kp_isInitiator = True, kp_created = 0, kp_localIndex = 7, kp_remoteIndex = 7\<rparr>"

definition demo_table :: "peer_id AllowedIPs" where
  "demo_table = the (AllowedIPs_Insert emptyAllowedIPs (Addr4 [10, 0, 0, 0], 8) 0)"

definition demo_packet :: bytes where
  "demo_packet = [69, 0, 0, 20, 0, 0, 0, 0, 64, 17, 0, 0, 10, 0, 0, 2, 10, 0, 0, 1]"

definition demo_device :: Device where
  "demo_device = zeroDevice\<lparr>dstate := deviceStateUp, mtu := 1420, keypair_store := (\<lambda>_. demo_keypair), next_keypair := 1,
     indexTable := [7 \<mapsto> \<lparr>ite_peer = Some 0, ite_handshake = None, ite_keypair = Some 0\<rparr>],
     allowedips := demo_table, next_peer := 1,
     peer_store := (\<lambda>_. zeroPeer\<lparr>isRunning := True, keypairs := \<lparr>current = Some 0, previous = None, next_kp = None\<rparr>\<rparr>)\<rparr>"

lemma demo_route: "AllowedIPs_Lookup demo_table [10, 0, 0, 2] = Some (Some 0)"
proof -
  let ?op = "OpInsert (Addr4 [10, 0, 0, 0], 8) (0 :: peer_id)"
  have v: "op_valid ?op" by (simp add: op_valid_def valid_prefix_def)
  obtain t where t: "table_op ?op emptyAllowedIPs = Some t" "table_rel t (spec_op ?op Map.empty)"
    using at.op_rel [OF at.empty_rel v] by blast
  have "spec_lookup (spec_op ?op Map.empty) [10, 0, 0, 2] = Some 0" by code_simp
  moreover have "demo_table = t" using t(1) by (simp add: demo_table_def table_op_def)
  ultimately show ?thesis using at.lookup_rel [OF t(2), of "[10, 0, 0, 2]"] by simp
qed

lemma demo_device_sel:
  "mtu demo_device = 1420" "keypair_store demo_device k = demo_keypair" "allowedips demo_device = demo_table"
  "isRunning (peer_store demo_device p)" "inbound (peer_store demo_device p) = []" "written demo_device = []"
  "isUp demo_device" "staged (peer_store demo_device p) = []" "current (keypairs (peer_store demo_device p)) = Some 0"
  "outbound (peer_store demo_device p) = []" "next_cont demo_device = 0" "next_keypair demo_device = 1"
  "encryption_q demo_device = []" "decryption_q demo_device = []"
  "it_Lookup (indexTable demo_device) 7 = \<lparr>ite_peer = Some 0, ite_handshake = None, ite_keypair = Some 0\<rparr>"
  by (simp_all add: demo_device_def zeroDevice_def zeroPeer_def it_Lookup_def isUp_def)

lemma RejectAfterMessages_num: "RejectAfterMessages = 18446744073709543423"
  by (simp add: RejectAfterMessages_def)

lemma demo_counter: "fst (ValidateCounter (Reset emptyFilter) 0 RejectAfterMessages)"
  by (simp add: ValidateCounter_def checkAndSet_def Reset_def emptyFilter_def RejectAfterMessages_num replay_consts Let_def)

lemma demo_ip: "ip_packet [10, 0, 0, 2] demo_packet"
  by (simp add: ip_packet_def demo_packet_def slice_def BE_Uint16_def be_nat_def)

definition demo_env :: env where
  "demo_env = \<lparr>now = 5, ephemeral = (replicate 32 9, False), index_draws = [], cookie_secret = ([], False),
      cookie_nonce = ([], False), jitter = 0, send_err = False\<rparr>"

definition demo_endpoint :: Endpoint where
  "demo_endpoint = \<lparr>ep_addr = Addr4 [192, 0, 2, 1], ep_zone = [], ep_port = 51820, ep_src = []\<rparr>"

theorem transport_roundtrip_witness:
  "\<exists>el' B1 B2 B3. encryptElem plain_crypto demo_device
      \<lparr>oe_packet = demo_packet, oe_nonce = 0, oe_keypair = Some 0, oe_peer = Some 0\<rparr> = Some el' \<and>
    RoutineReceiveIncoming demo_env [(oe_packet el', demo_endpoint)] demo_device = Ran B1 \<and>
    RoutineDecryption plain_crypto 0 B1 = Ran B2 \<and>
    RoutineSequentialReceiver plain_crypto demo_env 0 B2 = Ran B3 \<and> written B3 = [demo_packet]"
  using transport_roundtrip [of plain_crypto demo_device
      "\<lparr>oe_packet = demo_packet, oe_nonce = 0, oe_keypair = Some 0, oe_peer = Some 0\<rparr>" 0 "[10, 0, 0, 2]" demo_device 0 0 None
      demo_env demo_endpoint demo_env]
    plain_crypto_ok demo_ip demo_route demo_counter
  by (simp add: demo_device_sel demo_keypair_def RejectAfterTime_def Second_def demo_env_def)

end
