(* ===== verification/Delivery.thy ===== *)
theory Delivery
  imports Transport "HOL-Library.Sublist"
begin

unbundle bit_operations_syntax

text \<open>
  What may reach the TUN device: only packets that decrypted under a keypair, whose counter its replay
  filter accepted for the first time, and whose source address the routing table gives to the peer.
\<close>

subsection \<open>The replay filters of a device\<close>

definition rfilters :: "Device \<Rightarrow> keypair_id \<Rightarrow> Filter" where
  "rfilters d k = kp_replayFilter (keypair_store d k)"

lemma rfilters_keys: "keys d' = keys d \<Longrightarrow> rfilters d' = rfilters d"
  by (simp add: keys_def rfilters_def fun_eq_iff)

lemma rfilters_upd [simp]:
  "rfilters (upd_peer p f d) = rfilters d" "rfilters (upd_handshake p g d) = rfilters d"
  "rfilters (d\<lparr>encryption_q := q\<rparr>) = rfilters d" "rfilters (d\<lparr>out_cont := oc, next_cont := n\<rparr>) = rfilters d"
  "rfilters (upd_keypair k (\<lambda>kp. kp\<lparr>kp_sendNonce := m\<rparr>) d) = rfilters d"
  "rfilters (upd_keypair k (\<lambda>kp. kp\<lparr>kp_replayFilter := fl\<rparr>) d) = (rfilters d)(k := fl)"
  by (auto simp: rfilters_def upd_simps fun_eq_iff)

lemma rfilters_timers [simp]:
  "rfilters (timersHandshakeComplete e p d) = rfilters d" "rfilters (SetEndpointFromPacket ep p d) = rfilters d"
  by (rule rfilters_keys, simp add: frame)+

lemma rfilters_ReceivedWithKeypair [simp]: "rfilters (fst (ReceivedWithKeypair d p k)) = rfilters d"
proof -
  have "rfilters (DeleteKeypair q x) = rfilters x" for q x by (rule rfilters_keys) (simp add: frame)
  then show ?thesis by (simp add: ReceivedWithKeypair_def Let_def)
qed

lemma rfilters_SendHandshakeInitiation [simp]: "rfilters (fst (SendHandshakeInitiation C e r p d)) = rfilters d"
  by (rule rfilters_keys) (simp add: frame)

lemma rfilters_sendContainer [simp]: "rfilters (fst (sendContainer p k elems d)) = rfilters d"
  by (simp add: sendContainer_def push_outbound_def StagePackets_def Let_def case_prod_unfold)

lemma rfilters_sendStaged: "rfilters (sendStaged C e p st d) = rfilters d"
proof (induction C e p st d rule: sendStaged.induct)
  case (1 C e p d)
  then show ?case by (subst sendStaged.simps) (auto split: option.splits)
next
  case (2 C e p k d)
  show ?case
  proof (cases "staged (peer_store d p)")
    case Nil
    then show ?thesis by (simp add: sendStaged.simps)
  next
    case (Cons elems more)
    let ?d = "upd_peer p (\<lambda>pr. pr\<lparr>staged := more\<rparr>) d"
    obtain d' again where r: "sendContainer p k elems ?d = (d', again)" by fastforce
    have "rfilters d' = rfilters d" using rfilters_sendContainer [of p k elems ?d] r by simp
    then show ?thesis using 2 [OF Cons refl r [symmetric]] by (simp add: sendStaged.simps(2) Cons r)
  qed
qed

lemma rfilters_SendStagedPackets [simp]: "rfilters (SendStagedPackets C e p d) = rfilters d"
  by (simp add: SendStagedPackets_def rfilters_sendStaged)

text \<open>\<open>S k\<close> is the highest counter accepted under keypair \<open>k\<close> and the set of the accepted ones.\<close>

definition filters_rel :: "Device \<Rightarrow> (keypair_id \<Rightarrow> nat \<times> nat set) \<Rightarrow> bool" where
  "filters_rel d S \<longleftrightarrow> (\<forall>k. filter_rel (rfilters d k) (S k))"

subsection \<open>One element\<close>

definition source :: "bytes \<Rightarrow> bytes" where
  "source q = (if drop_bit 4 (q ! 0) = 4 then slice 12 16 q else slice 8 24 q)"

lemma checkPacket_source:
  "checkPacket d p q = Some (Some b) \<Longrightarrow>
    (\<exists>n. b = take n q) \<and> AllowedIPs_Lookup (allowedips d) (source q) = Some (Some p)"
  by (auto simp: checkPacket_def source_def Let_def IPv4offsetSrc_def IPv6offsetSrc_def split: if_splits option.splits)

definition delivered :: "Device \<Rightarrow> peer_id \<Rightarrow> InElem \<Rightarrow> bytes \<Rightarrow> bool" where
  "delivered d p el b \<longleftrightarrow>
     (\<exists>q n. ie_packet el = Some q \<and> b = take n q \<and> AllowedIPs_Lookup (allowedips d) (source q) = Some (Some p))"

lemma delivered_rest: "rest d' = rest d \<Longrightarrow> delivered d' = delivered d"
  by (frule restD(2)) (simp add: delivered_def fun_eq_iff)

text \<open>Either nothing is delivered and no filter forgets, or the element is, with a new counter.\<close>

lemma receiveElem_cases:
  assumes r: "receiveElem C e p el s = Some s'" and f: "filters_rel (rc_dev s) S"
  obtains (quiet) S' where "rest (rc_dev s') = rest (rc_dev s)" "filters_rel (rc_dev s') S'" "rc_bufs s' = rc_bufs s"
      "\<And>k. snd (S k) \<subseteq> snd (S' k)"
  | (deliver) b where "rest (rc_dev s') = rest (rc_dev s)" "rc_bufs s' = rc_bufs s @ [b]" "delivered (rc_dev s) p el b"
      "ie_counter el < RejectAfterMessages" "unat (ie_counter el) \<notin> snd (S (ie_keypair el))"
      "filters_rel (rc_dev s') (S(ie_keypair el := (max (fst (S (ie_keypair el))) (unat (ie_counter el)),
         insert (unat (ie_counter el)) (snd (S (ie_keypair el))))))"
proof (cases "ie_packet el")
  case None
  then show ?thesis using r f by (intro quiet [of S]) (auto simp: receiveElem_def)
next
  case (Some q)
  let ?k = "ie_keypair el"
  let ?c = "ie_counter el"
  obtain ok fl where v: "ValidateCounter (rfilters (rc_dev s) ?k) ?c RejectAfterMessages = (ok, fl)" by fastforce
  note v' = v [unfolded rfilters_def]
  have rel: "filter_rel (rfilters (rc_dev s) ?k) (S ?k)" using f by (simp add: filters_rel_def)
  note verdict = rf.validate_verdict [OF rel v] and step = rf.validate_rel [OF rel v]
  let ?d = "upd_keypair ?k (\<lambda>kp. kp\<lparr>kp_replayFilter := fl\<rparr>) (rc_dev s)"
  define S' where "S' = S(?k := spec_step (S ?k) (unat ?c) (unat RejectAfterMessages))"
  have f': "filters_rel ?d S'" using f step by (simp add: filters_rel_def S'_def)
  show ?thesis
  proof (cases ok)
    case False
    then show ?thesis using r Some v' f' verdict
      by (intro quiet [of S']) (auto simp: receiveElem_def Let_def frame S'_def spec_step_def)
  next
    case True
    obtain d1 rot where rw: "ReceivedWithKeypair ?d p ?k = (d1, rot)" by fastforce
    define d2 where "d2 = (if rot then SendStagedPackets C e p (timersHandshakeComplete e p
        (SetEndpointFromPacket (ie_endpoint el) p d1)) else d1)"
    have d1: "rest d1 = rest (rc_dev s)" "rfilters d1 = rfilters ?d"
      using frame_ReceivedWithKeypair [of ?d p ?k] rfilters_ReceivedWithKeypair [of ?d p ?k] rw by (simp_all add: frame)
    then have d2: "rest d2 = rest (rc_dev s)" "rfilters d2 = rfilters ?d" by (simp_all add: d2_def frame)
    then have f2: "filters_rel d2 S'" using f' by (simp add: filters_rel_def)
    have chk: "checkPacket d2 p q = checkPacket (rc_dev s) p q" using checkPacket_cong restD(2) [OF d2(1)] by blast
    have sub: "snd (S k) \<subseteq> snd (S' k)" for k by (auto simp: S'_def spec_step_def)
    have s': "rc_dev s' = d2 \<and> rc_bufs s' = rc_bufs s @
        (case checkPacket (rc_dev s) p q of Some (Some b) \<Rightarrow> if q = [] then [] else [b] | _ \<Rightarrow> [])"
      using r Some True v' rw chk
      by (auto simp: receiveElem_def Let_def d2_def [symmetric] split: option.splits if_splits)
    show ?thesis
    proof (cases "q \<noteq> [] \<and> (\<exists>b. checkPacket (rc_dev s) p q = Some (Some b))")
      case True
      then obtain b where "q \<noteq> []" and b: "checkPacket (rc_dev s) p q = Some (Some b)" by blast
      have acc: "spec_accepts (S ?k) (unat ?c) (unat RejectAfterMessages)" using verdict \<open>ok\<close> by simp
      show ?thesis
      proof (rule deliver)
        show "delivered (rc_dev s) p el b"
          using checkPacket_source [OF b] Some by (auto simp: delivered_def)
        show "rc_bufs s' = rc_bufs s @ [b]" using s' b \<open>q \<noteq> []\<close> by simp
        show "filters_rel (rc_dev s') (S(?k := (max (fst (S ?k)) (unat ?c), insert (unat ?c) (snd (S ?k)))))"
          using f2 s' acc by (simp add: S'_def spec_step_def)
      qed (use s' d2 acc in \<open>auto simp: spec_accepts_def word_less_nat_alt\<close>)
    next
      case False
      then show ?thesis using s' d2 f2 sub by (intro quiet [of S']) (auto split: option.split)
    qed
  qed
qed

subsection \<open>A container\<close>

text \<open>The elements that were delivered, the packets written for them, and the accepted counters after.\<close>

definition deliveries ::
  "Device \<Rightarrow> peer_id \<Rightarrow> (keypair_id \<Rightarrow> nat \<times> nat set) \<Rightarrow> InElem list \<Rightarrow> InElem list \<Rightarrow> bytes list \<Rightarrow>
     (keypair_id \<Rightarrow> nat \<times> nat set) \<Rightarrow> bool" where
  "deliveries d p S els es bs S' \<longleftrightarrow>
     subseq es els \<and> list_all2 (delivered d p) es bs \<and> (\<forall>k. snd (S k) \<subseteq> snd (S' k)) \<and>
     distinct (map (\<lambda>el. (ie_keypair el, ie_counter el)) es) \<and>
     (\<forall>el\<in>set es. ie_counter el < RejectAfterMessages \<and>
        unat (ie_counter el) \<notin> snd (S (ie_keypair el)) \<and> unat (ie_counter el) \<in> snd (S' (ie_keypair el)))"

lemma receiveElems_deliveries:
  assumes "receiveElems C e p els s = Some s'" "filters_rel (rc_dev s) S"
  shows "\<exists>es bs S'. rest (rc_dev s') = rest (rc_dev s) \<and> filters_rel (rc_dev s') S' \<and>
    rc_bufs s' = rc_bufs s @ bs \<and> deliveries (rc_dev s) p S els es bs S'"
  using assms
proof (induction els arbitrary: s S)
  case Nil
  then show ?case by (auto simp: deliveries_def intro!: exI [of _ S])
next
  case (Cons el els)
  obtain s1 where s1: "receiveElem C e p el s = Some s1" "receiveElems C e p els s1 = Some s'"
    using Cons.prems(1) by (auto split: option.splits)
  show ?case
  proof (cases rule: receiveElem_cases [OF s1(1) Cons.prems(2)])
    case (1 S1)
    obtain es bs S' where IH: "rest (rc_dev s') = rest (rc_dev s1)" "filters_rel (rc_dev s') S'"
        "rc_bufs s' = rc_bufs s1 @ bs" "deliveries (rc_dev s1) p S1 els es bs S'"
      using Cons.IH [OF s1(2) 1(2)] by blast
    have "deliveries (rc_dev s) p S (el # els) es bs S'"
      using IH(4) 1(4) delivered_rest [OF 1(1)] unfolding deliveries_def by (auto dest!: subsetD)
    then show ?thesis using IH 1 by (intro exI [of _ es] exI [of _ bs] exI [of _ S']) simp
  next
    case (2 b)
    let ?k = "ie_keypair el" and ?c = "unat (ie_counter el)"
    define S1 where "S1 = S(?k := (max (fst (S ?k)) ?c, insert ?c (snd (S ?k))))"
    have S1: "snd (S k) \<subseteq> snd (S1 k)" for k by (auto simp: S1_def)
    obtain es bs S' where IH: "rest (rc_dev s') = rest (rc_dev s1)" "filters_rel (rc_dev s') S'"
        "rc_bufs s' = rc_bufs s1 @ bs" "deliveries (rc_dev s1) p S1 els es bs S'"
      using Cons.IH [OF s1(2) 2(6) [folded S1_def]] by blast
    note D = IH(4) [unfolded deliveries_def delivered_rest [OF 2(1)]]
    have new: "(?k, ie_counter el) \<notin> set (map (\<lambda>el. (ie_keypair el, ie_counter el)) es)"
      using D by (force simp: S1_def)
    have "?c \<in> snd (S1 ?k)" by (simp add: S1_def)
    then have mem: "?c \<in> snd (S' ?k)" using D by blast
    have le: "snd (S k) \<subseteq> snd (S' k)" for k using S1 D by blast
    have "deliveries (rc_dev s) p S (el # els) (el # es) (b # bs) S'"
      unfolding deliveries_def
    proof (intro conjI)
      show "distinct (map (\<lambda>el. (ie_keypair el, ie_counter el)) (el # es))" using D new by simp
      show "\<forall>x\<in>set (el # es). ie_counter x < RejectAfterMessages \<and>
          unat (ie_counter x) \<notin> snd (S (ie_keypair x)) \<and> unat (ie_counter x) \<in> snd (S' (ie_keypair x))"
        using D 2(4,5) mem subsetD [OF S1] by auto
    qed (use D 2(3) le in auto)
    then show ?thesis using IH 2 by (intro exI [of _ "el # es"] exI [of _ "b # bs"] exI [of _ S']) simp
  qed
qed

text \<open>
  Only genuine packets reach the TUN device, and each once: whatever a container of decrypted
  elements holds, the packets the sequential receiver writes are, in order, prefixes of packets of a subsequence of its
  elements; each of them decrypted, its source address is routed to the peer, its counter is below
  the limit and was never accepted under its keypair before, and it is among the accepted ones
  afterwards, so no later container can deliver it again; counters accepted before stay accepted.
\<close>

lemma receiveContainer_deliveries:
  assumes "receiveContainer C e p els d = Ran d'" "filters_rel d S"
  shows "\<exists>es bs S'. written d' = written d @ bs \<and> filters_rel d' S' \<and> deliveries d p S els es bs S'"
proof -
  let ?s = "\<lparr>rc_dev = d, rc_tail = None, rc_data = False, rc_rx = 0, rc_bufs = []\<rparr>"
  obtain s where s: "receiveElems C e p els ?s = Some s"
    using assms(1) by (auto simp: receiveContainer_def split: option.splits)
  obtain es bs S' where R: "rest (rc_dev s) = rest d" "filters_rel (rc_dev s) S'" "rc_bufs s = bs"
      "deliveries d p S els es bs S'"
    using receiveElems_deliveries [OF s, of S] assms(2) by auto
  let ?u = "upd_peer p (\<lambda>pr. pr\<lparr>rxBytes := rxBytes pr + rc_rx s\<rparr>) (rc_dev s)"
  define d1 where "d1 = (case rc_tail s of None \<Rightarrow> ?u
     | Some ep \<Rightarrow> timersAnyAuthenticatedPacketReceived p (timersAnyAuthenticatedPacketTraversal e p
         (keepKeyFreshReceiving C e p (SetEndpointFromPacket ep p ?u))))"
  define d2 where "d2 = (if rc_data s then timersDataReceived e p d1 else d1)"
  have d2: "rest d2 = rest d" "keys d2 = keys (rc_dev s)"
    using R(1) by (simp_all add: d2_def d1_def frame rest_upd_peer keys_upd_peer peer_rest_def split: option.split)
  have "receiveContainer C e p els d = Ran (if bs \<noteq> [] then d2\<lparr>written := written d2 @ bs\<rparr> else d2)"
    by (simp only: receiveContainer_def s option.case Let_def d2_def d1_def R(3))
  then have d': "d' = (if bs \<noteq> [] then d2\<lparr>written := written d2 @ bs\<rparr> else d2)" using assms(1) by simp
  have "rfilters d' = rfilters d2" by (simp add: d' rfilters_def fun_eq_iff)
  then have "filters_rel d' S'" using R(2) rfilters_keys [OF d2(2)] by (simp add: filters_rel_def)
  moreover have "written d' = written d @ bs" using restD(3) [OF d2(1)] by (simp add: d')
  ultimately show ?thesis using R(4) by blast
qed

lemma demo_filters: "filters_rel demo_device (\<lambda>_. (0, {}))"
  using filter_rel_Reset [of emptyFilter]
  by (simp add: filters_rel_def rfilters_def demo_device_sel demo_keypair_def emptyFilter_def replay_consts)

subsection \<open>The IPv6 length\<close>

text \<open>
  C37. The IPv6 length check does not hold what it is for: the payload length is added to the header length
  in 16 bits, so for a payload length of 65496 and more the sum wraps.  Any packet of a peer with such
  a length field, however short, passes the check and is cut to fewer than 40 bytes, less than an IPv6 header, before
  it is written.  Below 65496 the check is exact: the packet is written in the length its header
  says, or dropped when it is shorter than that.
\<close>

theorem ipv6_length_wraps:
  assumes "40 \<le> length q" "drop_bit 4 (q ! 0) = (6 :: byte)"
    and "AllowedIPs_Lookup (allowedips d) (slice 8 24 q) = Some (Some p)"
    and "n = unat (BE_Uint16 (slice 4 6 q))"
  shows "(65496 \<le> n \<longrightarrow> checkPacket d p q = Some (Some (take (n - 65496) q)) \<and> n - 65496 < 40) \<and>
    (n < 65496 \<longrightarrow> checkPacket d p q = Some (if n + 40 \<le> length q then Some (take (n + 40) q) else None))"
proof -
  have lt: "n < 65536" using assms(4) unsigned_less [of "BE_Uint16 (slice 4 6 q)", where ?'a = nat] by simp
  have "unat (BE_Uint16 (slice 4 6 q) + 40) = (if n < 65496 then n + 40 else n - 65496)"
    using lt assms(4) by (auto simp: unat_word_ariths mod_if)
  then show ?thesis using assms lt
    by (auto simp: checkPacket_def Let_def IPv6offsetPayloadLength_def IPv6offsetSrc_def)
qed

text \<open>A 40-byte IPv6 packet with payload length 65500 is written as its first four bytes.\<close>

definition demo_packet6 :: bytes where
  "demo_packet6 = [96, 0, 0, 0, 255, 220, 59, 64] @ replicate 32 0"

definition demo_table6 :: "peer_id AllowedIPs" where
  "demo_table6 = the (AllowedIPs_Insert emptyAllowedIPs (Addr6 (replicate 16 0), 0) 0)"

lemma demo_route6: "AllowedIPs_Lookup demo_table6 (replicate 16 0) = Some (Some 0)"
proof -
  let ?op = "OpInsert (Addr6 (replicate 16 0), 0) (0 :: peer_id)"
  have v: "op_valid ?op" by (simp add: op_valid_def valid_prefix_def)
  obtain t where t: "table_op ?op emptyAllowedIPs = Some t" "table_rel t (spec_op ?op Map.empty)"
    using at.op_rel [OF at.empty_rel v] by blast
  have "spec_lookup (spec_op ?op Map.empty) (replicate 16 0) = Some 0" by code_simp
  moreover have "demo_table6 = t" using t(1) by (simp add: demo_table6_def table_op_def)
  ultimately show ?thesis using at.lookup_rel [OF t(2), of "replicate 16 0"] by simp
qed

theorem ipv6_length_wraps_witness:
  "checkPacket (demo_device\<lparr>allowedips := demo_table6\<rparr>) 0 demo_packet6 = Some (Some [96, 0, 0, 0])"
  using ipv6_length_wraps [of demo_packet6 "demo_device\<lparr>allowedips := demo_table6\<rparr>" 0 65500] demo_route6
  by (simp add: demo_packet6_def slice_def BE_Uint16_def be_nat_def)

end
