(* ===== verification/Uapi.thy ===== *)
theory Uapi
  imports Device_Ops Netip
begin

text \<open>
  The configuration protocol of device/uapi.go: \<open>IpcSetOperation\<close> line by line with its error codes, and the
  text of \<open>IpcGetOperation\<close>.
\<close>

subsection \<open>Errors\<close>

datatype IPCError = IpcErrorIO | IpcErrorProtocol | IpcErrorInvalid | IpcErrorPortInUse | IpcErrorUnknown

text \<open>The codes on Linux.\<close>

primrec ErrorCode :: "IPCError \<Rightarrow> int" where
  "ErrorCode IpcErrorIO = - 5" |
  "ErrorCode IpcErrorProtocol = - 71" |
  "ErrorCode IpcErrorInvalid = - 22" |
  "ErrorCode IpcErrorPortInUse = - 98" |
  "ErrorCode IpcErrorUnknown = - 55"

text \<open>The status line that ends the answer to an operation on the socket.\<close>

definition ipcStatus :: "IPCError option \<Rightarrow> string" where
  "ipcStatus err =
     (case err of Some e \<Rightarrow> ''errno='' @ show_int (ErrorCode e) @ [CHR 0x0A, CHR 0x0A]
      | None \<Rightarrow> ''errno=0'' @ [CHR 0x0A, CHR 0x0A])"

subsection \<open>Set\<close>

text \<open>The peer under configuration: \<open>sp_Peer\<close> is nil before the first \<open>public_key\<close> line, and \<open>sp_tmp\<close> is the placeholder
  that stands for the peer while \<open>sp_dummy\<close> is set.\<close>

record ipcSetPeer =
  sp_Peer :: "peer_id option"
  sp_tmp :: Peer
  sp_dummy :: bool
  sp_created :: bool
  sp_pkaOn :: bool

definition new_ipcSetPeer :: ipcSetPeer where
  "new_ipcSetPeer = \<lparr>sp_Peer = None, sp_tmp = zeroPeer, sp_dummy = False, sp_created = False, sp_pkaOn = False\<rparr>"

definition handlePostConfig :: "crypto \<Rightarrow> (peer_id \<Rightarrow> env) \<Rightarrow> ipcSetPeer \<Rightarrow> Device \<Rightarrow> Device outcome" where
  "handlePostConfig C es peer d =
     (if sp_dummy peer then Ran d
      else case sp_Peer peer of
          None \<Rightarrow> Ran d
        | Some p \<Rightarrow>
            let d = (if sp_created peer
                     then upd_peer p (\<lambda>pr. pr\<lparr>disableRoaming := brokenRoaming d \<and> endpoint_val pr \<noteq> None\<rparr>) d else d)
            in if isUp d then
                 andThen (Start C (es p) p d) (\<lambda>d.
                   let d = (if sp_pkaOn peer then SendKeepalive C (es p) p d else d)
                   in Ran (SendStagedPackets C (es p) p d))
               else Ran d)"

definition handleDeviceLine ::
  "crypto \<Rightarrow> (peer_id \<Rightarrow> env) \<Rightarrow> net_env \<Rightarrow> string \<Rightarrow> string \<Rightarrow> Device \<Rightarrow> (Device \<times> IPCError option) outcome" where
  "handleDeviceLine C es ne key value d =
     (if key = ''private_key'' then
        (case FromMaybeZeroHex (replicate 32 0) value of
           (sk, Some _) \<Rightarrow> Ran (d, Some IpcErrorInvalid)
         | (sk, None) \<Rightarrow> andThen (SetPrivateKey C es sk d) (\<lambda>d. Ran (d, None)))
      else if key = ''listen_port'' then
        (case ParseUint value 16 of
           None \<Rightarrow> Ran (d, Some IpcErrorInvalid)
         | Some port \<Rightarrow>
             let (d, err) = BindUpdate ne (d\<lparr>net_port := word_of_nat port\<rparr>)
             in Ran (d, if err then Some IpcErrorPortInUse else None))
      else if key = ''fwmark'' then
        (case ParseUint value 32 of
           None \<Rightarrow> Ran (d, Some IpcErrorInvalid)
         | Some mark \<Rightarrow>
             let (d, err) = BindSetMark (ne_mark ne) (word_of_nat mark) d
             in Ran (d, if err then Some IpcErrorPortInUse else None))
      else if key = ''replace_peers'' then
        if value \<noteq> ''true'' then Ran (d, Some IpcErrorInvalid)
        else andThen (RemoveAllPeers C es d) (\<lambda>d. Ran (d, None))
      else Ran (d, Some IpcErrorInvalid))"

definition handlePublicKeyLine ::
  "crypto \<Rightarrow> ipcSetPeer \<Rightarrow> string \<Rightarrow> Device \<Rightarrow> Device \<times> ipcSetPeer \<times> IPCError option" where
  "handlePublicKeyLine C peer value d =
     (case PublicKey_FromHex (replicate 32 0) value of
        (pk, Some _) \<Rightarrow> (d, peer, Some IpcErrorInvalid)
      | (pk, None) \<Rightarrow>
          let peer = peer\<lparr>sp_dummy := key_Equals (public_key d) pk\<rparr>
          in if sp_dummy peer then (d, peer\<lparr>sp_Peer := None, sp_tmp := zeroPeer, sp_created := False\<rparr>, None)
             else
               let peer = peer\<lparr>sp_Peer := LookupPeer d pk, sp_created := LookupPeer d pk = None\<rparr>
               in if sp_created peer then
                    (case NewPeer C pk d of
                       (d, Inl _) \<Rightarrow> (d, peer, Some IpcErrorInvalid)
                     | (d, Inr p) \<Rightarrow> (d, peer\<lparr>sp_Peer := Some p\<rparr>, None))
                  else (d, peer, None))"

text \<open>The peer's fields are those of the placeholder when the peer is a dummy.\<close>

definition set_field :: "ipcSetPeer \<Rightarrow> (Peer \<Rightarrow> Peer) \<Rightarrow> Device \<Rightarrow> Device \<times> ipcSetPeer" where
  "set_field peer f d =
     (case (if sp_dummy peer then None else sp_Peer peer) of
        None \<Rightarrow> (d, peer\<lparr>sp_tmp := f (sp_tmp peer)\<rparr>)
      | Some p \<Rightarrow> (upd_peer p f d, peer))"

definition get_peer :: "ipcSetPeer \<Rightarrow> Device \<Rightarrow> Peer" where
  "get_peer peer d =
     (case (if sp_dummy peer then None else sp_Peer peer) of None \<Rightarrow> sp_tmp peer | Some p \<Rightarrow> peer_store d p)"

definition ParseEndpoint :: "string \<Rightarrow> Endpoint option" where
  "ParseEndpoint s = (case ParseAddrPort s of
       None \<Rightarrow> None
     | Some (a, zone, port) \<Rightarrow> Some \<lparr>ep_addr = a, ep_zone = zone, ep_port = port, ep_src = []\<rparr>)"

definition removeSetPeer :: "crypto \<Rightarrow> (peer_id \<Rightarrow> env) \<Rightarrow> ipcSetPeer \<Rightarrow> Device \<Rightarrow> Device outcome" where
  "removeSetPeer C es peer d =
     (case sp_Peer peer of
        None \<Rightarrow> Panicked
      | Some p \<Rightarrow> RemovePeer C (es p) (hs_remoteStatic (hs_of d p)) d)"

definition handlePeerLine ::
  "crypto \<Rightarrow> (peer_id \<Rightarrow> env) \<Rightarrow> ipcSetPeer \<Rightarrow> string \<Rightarrow> string \<Rightarrow> Device \<Rightarrow>
     (Device \<times> ipcSetPeer \<times> IPCError option) outcome" where
  "handlePeerLine C es peer key value d =
     (let gone = peer\<lparr>sp_Peer := None, sp_tmp := zeroPeer, sp_dummy := True\<rparr>;
          invalid = Ran (d, peer, Some IpcErrorInvalid)
      in if key = ''update_only'' then
           if value \<noteq> ''true'' then invalid
           else if sp_created peer \<and> \<not> sp_dummy peer
           then andThen (removeSetPeer C es peer d) (\<lambda>d. Ran (d, gone, None))
           else Ran (d, peer, None)
         else if key = ''remove'' then
           if value \<noteq> ''true'' then invalid
           else if \<not> sp_dummy peer
           then andThen (removeSetPeer C es peer d) (\<lambda>d. Ran (d, gone, None))
           else Ran (d, gone, None)
         else if key = ''preshared_key'' then
           (case PresharedKey_FromHex (hs_presharedKey (handshake (get_peer peer d))) value of
              (psk, err) \<Rightarrow>
                let (d, peer) = set_field peer (\<lambda>pr. pr\<lparr>handshake := (handshake pr)\<lparr>hs_presharedKey := psk\<rparr>\<rparr>) d
                in Ran (d, peer, if err = None then None else Some IpcErrorInvalid))
         else if key = ''endpoint'' then
           (case ParseEndpoint value of
              None \<Rightarrow> invalid
            | Some endpoint \<Rightarrow>
                let (d, peer) = set_field peer (\<lambda>pr. pr\<lparr>endpoint_val := Some endpoint\<rparr>) d
                in Ran (d, peer, None))
         else if key = ''persistent_keepalive_interval'' then
           (case ParseUint value 16 of
              None \<Rightarrow> invalid
            | Some secs \<Rightarrow>
                let old = persistentKeepaliveInterval (get_peer peer d);
                    (d, peer) = set_field peer (\<lambda>pr. pr\<lparr>persistentKeepaliveInterval := word_of_nat secs\<rparr>) d
                in Ran (d, peer\<lparr>sp_pkaOn := old = 0 \<and> secs \<noteq> 0\<rparr>, None))
         else if key = ''replace_allowed_ips'' then
           if value \<noteq> ''true'' then invalid
           else (case (if sp_dummy peer then None else sp_Peer peer) of
                   None \<Rightarrow> Ran (d, peer, None)
                 | Some p \<Rightarrow> Ran (d\<lparr>allowedips := RemoveByPeer (allowedips d) p\<rparr>, peer, None))
         else if key = ''allowed_ip'' then
           let add = \<not> (value \<noteq> [] \<and> hd value = CHR ''-'');
               value = (if add then value else tl value)
           in (case ParsePrefix value of
                 None \<Rightarrow> invalid
               | Some pfx \<Rightarrow>
                   (case (if sp_dummy peer then None else sp_Peer peer) of
                      None \<Rightarrow> Ran (d, peer, None)
                    | Some p \<Rightarrow>
                        (case (if add then AllowedIPs_Insert (allowedips d) pfx p
                               else AllowedIPs_Remove (allowedips d) pfx p) of
                           None \<Rightarrow> Panicked
                         | Some t \<Rightarrow> Ran (d\<lparr>allowedips := t\<rparr>, peer, None))))
         else if key = ''protocol_version'' then
           if value \<noteq> ''1'' then invalid else Ran (d, peer, None)
         else invalid)"

text \<open>The scanner gives up on a line of 64 KiB.\<close>

definition maxLine :: nat where
  "maxLine = 65535"

fun ipcSetLines ::
  "crypto \<Rightarrow> (peer_id \<Rightarrow> env) \<Rightarrow> net_env \<Rightarrow> string list \<Rightarrow> bool \<Rightarrow> ipcSetPeer \<Rightarrow> Device \<Rightarrow> (Device \<times> IPCError option) outcome" where
  "ipcSetLines C es ne [] deviceConfig peer d =
     andThen (handlePostConfig C es peer d) (\<lambda>d. Ran (d, None))" |
  "ipcSetLines C es ne (raw # lines) deviceConfig peer d =
     (if length raw > maxLine then andThen (handlePostConfig C es peer d) (\<lambda>d. Ran (d, Some IpcErrorIO))
      else
        let line = dropCR raw
        in if line = [] then andThen (handlePostConfig C es peer d) (\<lambda>d. Ran (d, None))
           else case Cut CHR ''='' line of
               None \<Rightarrow> Ran (d, Some IpcErrorProtocol)
             | Some (key, value) \<Rightarrow>
                 if key = ''public_key'' then
                   andThen (handlePostConfig C es peer d) (\<lambda>d.
                     case handlePublicKeyLine C peer value d of
                       (d, peer, Some err) \<Rightarrow> Ran (d, Some err)
                     | (d, peer, None) \<Rightarrow> ipcSetLines C es ne lines False peer d)
                 else if deviceConfig then
                   andThen (handleDeviceLine C es ne key value d) (\<lambda>(d, err).
                     case err of
                       Some err \<Rightarrow> Ran (d, Some err)
                     | None \<Rightarrow> ipcSetLines C es ne lines deviceConfig peer d)
                 else
                   andThen (handlePeerLine C es peer key value d) (\<lambda>(d, peer, err).
                     case err of
                       Some err \<Rightarrow> Ran (d, Some err)
                     | None \<Rightarrow> ipcSetLines C es ne lines deviceConfig peer d))"

definition IpcSetOperation ::
  "crypto \<Rightarrow> (peer_id \<Rightarrow> env) \<Rightarrow> net_env \<Rightarrow> string \<Rightarrow> Device \<Rightarrow> (Device \<times> IPCError option) outcome" where
  "IpcSetOperation C es ne input d = ipcSetLines C es ne (scanLines input) True new_ipcSetPeer d"

subsection \<open>Get\<close>

definition sendf :: "string \<Rightarrow> string \<Rightarrow> string" where
  "sendf key value = key @ ''='' @ value @ [CHR 0x0A]"

definition keyf :: "string \<Rightarrow> bytes \<Rightarrow> string" where
  "keyf pre key = pre @ ''='' @ hexEncode key @ [CHR 0x0A]"

text \<open>The quotient and remainder of a nanosecond count have the sign of the count.\<close>

definition showPeer :: "Device \<Rightarrow> peer_id \<Rightarrow> string" where
  "showPeer d p =
     (let pr = peer_store d p;
          h = handshake pr;
          nano = lastHandshakeNano pr
      in keyf ''public_key'' (hs_remoteStatic h) @
         keyf ''preshared_key'' (hs_presharedKey h) @
         sendf ''protocol_version'' ''1'' @
         (case endpoint_val pr of None \<Rightarrow> []
          | Some ep \<Rightarrow> sendf ''endpoint'' (showAddrPort (ep_addr ep) (ep_zone ep) (ep_port ep))) @
         sendf ''last_handshake_time_sec'' (show_int (nano sdiv Second)) @
         sendf ''last_handshake_time_nsec'' (show_int (nano smod Second)) @
         sendf ''tx_bytes'' (digits (unat (txBytes pr))) @
         sendf ''rx_bytes'' (digits (unat (rxBytes pr))) @
         sendf ''persistent_keepalive_interval'' (digits (unat (persistentKeepaliveInterval pr))) @
         concat (map (\<lambda>pfx. sendf ''allowed_ip'' (showPrefix pfx)) (EntriesForPeer (allowedips d) p)))"

definition IpcGetOperation :: "Device \<Rightarrow> string" where
  "IpcGetOperation d =
     (if key_IsZero (privateKey d) then [] else keyf ''private_key'' (privateKey d)) @
     (if net_port d = 0 then [] else sendf ''listen_port'' (digits (unat (net_port d)))) @
     (if fwmark d = 0 then [] else sendf ''fwmark'' (digits (unat (fwmark d)))) @
     concat (map (\<lambda>(_, p). showPeer d p) (keyMap d))"

end
