(* ===== verification/Device_Run.thy ===== *)
theory Device_Run
  imports Delivery Uapi
begin

text \<open>
  Runs of a device.  \<open>dev_step\<close> has one rule for each thing that can happen: an iteration of a
  goroutine, a timer, a call of the interface of the device.  The locale \<open>device_invariant\<close> states what
  an invariant must withstand, in terms of the few operations that change keys, queues or routes;
  that every step preserves it is proved once, inside the locale, and the invariants of the
  development are its interpretations.
\<close>

subsection \<open>What invariants look at\<close>

definition peer_view where
  "peer_view pr = (keypairs pr, staged pr)"

definition view where
  "view d = (keypair_store d, next_keypair d, out_cont d, next_cont d, encryption_q d, in_cont d, decryption_q d,
     handshake_q d, allowedips d, mtu d, limiter d, dstate d, \<lambda>q. peer_view (peer_store d q))"

text \<open>A step is calm when it changes none of this and adds only entries without a keypair to the index table.
  The rules of \<open>view_frame\<close> extend a calm run by one more operation.\<close>

definition calm :: "Device \<Rightarrow> Device \<Rightarrow> bool" where
  "calm d d' \<longleftrightarrow> view d' = view d \<and>
     (\<forall>i x. indexTable d' i = Some x \<longrightarrow> indexTable d i = Some x \<or> ite_peer x \<noteq> None \<and> ite_keypair x = None)"

lemma calm_refl [simp]: "calm d d"
  by (simp add: calm_def)

lemma calm_same: "calm d0 d \<Longrightarrow> view d' = view d \<Longrightarrow> indexTable d' = indexTable d \<Longrightarrow> calm d0 d'"
  by (simp add: calm_def)

lemma view_peer: "calm d0 d \<Longrightarrow> (\<And>pr. peer_view (f pr) = peer_view pr) \<Longrightarrow> calm d0 (upd_peer p f d)"
  by (erule calm_same) (auto simp: view_def upd_simps)

named_theorems view_frame \<open>operations that change nothing an invariant looks at\<close>

lemma view_upd [view_frame]:
  assumes "calm d0 d"
  shows "calm d0 (upd_handshake p f d)" "calm d0 (d\<lparr>sent := s\<rparr>)" "calm d0 (d\<lparr>written := w\<rparr>)" "calm d0 (d\<lparr>cookieChecker := c\<rparr>)"
    "calm d0 (d\<lparr>keyMap := km\<rparr>)" "calm d0 (d\<lparr>net_port := po\<rparr>)" "calm d0 (d\<lparr>bind_open := bo\<rparr>)" "calm d0 (d\<lparr>fwmark := fm\<rparr>)"
    "calm d0 (d\<lparr>brokenRoaming := bo\<rparr>)" "calm d0 (d\<lparr>underLoadUntil := ul\<rparr>)"
    "calm d0 (deleteIndex i d)" "calm d0 (DeleteKeypair k d)"
proof -
  show "calm d0 (upd_handshake p f d)" unfolding upd_handshake_def using assms by (rule view_peer) (simp add: peer_view_def)
  have del: "calm d0 (deleteIndex j d)" for j using assms by (auto simp: calm_def view_def deleteIndex_def it_Delete_def)
  then show "calm d0 (deleteIndex i d)" "calm d0 (DeleteKeypair k d)" using assms by (simp_all add: DeleteKeypair_def split: option.split)
qed (rule calm_same [OF assms]; simp add: view_def)+

lemma view_core: "core d' = core d \<Longrightarrow> calm d0 d \<Longrightarrow> calm d0 d'"
proof -
  assume a: "core d' = core d" "calm d0 d"
  have "view (core x) = view x" "indexTable (core x) = indexTable x" for x by (auto simp: core_def view_def peer_view_def)
  then have "view d' = view d" "indexTable d' = indexTable d" using a by metis+
  then show ?thesis by (rule calm_same [OF a(2)])
qed

lemmas view_timers [view_frame] = core_timers [THEN view_core]

lemma view_newIndex: "newIndex e d p = (i, err, d') \<Longrightarrow> calm d0 d \<Longrightarrow> calm d0 d'"
proof (cases rule: newIndex_cases [of e d p])
  case (ok j)
  assume "newIndex e d p = (i, err, d')" "calm d0 d"
  then show ?thesis using ok by (fastforce simp: calm_def view_def split: if_splits)
qed simp

lemma view_newIndex' [view_frame]: "calm d0 d \<Longrightarrow> calm d0 (snd (snd (newIndex e d p)))"
  using view_newIndex [of e d p "fst (newIndex e d p)"] by (metis prod.collapse)

lemma view_SendBuffers [view_frame]: "calm d0 d \<Longrightarrow> calm d0 (fst (SendBuffers e d p bs))"
  by (simp add: SendBuffers_def view_frame view_peer peer_view_def Let_def split: option.split)

lemma view_addMacs [view_frame]: "calm d0 d \<Longrightarrow> calm d0 (fst (addMacs C e p m d))"
  by (auto simp: addMacs_def view_peer peer_view_def split: option.split)

lemma view_handshake [view_frame]:
  "calm d0 d \<Longrightarrow> calm d0 (fst (CreateMessageInitiation C e d p))"
  "calm d0 d \<Longrightarrow> calm d0 (fst (CreateMessageResponse C e d p))"
  "calm d0 d \<Longrightarrow> calm d0 (fst (ConsumeMessageInitiation C e d mi))"
  "calm d0 d \<Longrightarrow> calm d0 (fst (ConsumeMessageResponse C d mr))"
  by (simp_all add: CreateMessageInitiation_def CreateMessageResponse_def ConsumeMessageInitiation_def
      ConsumeMessageResponse_def Let_def case_prod_unfold view_frame split: option.split)

lemma view_SendHandshakeInitiation [view_frame]: "calm d0 d \<Longrightarrow> calm d0 (fst (SendHandshakeInitiation C e r p d))"
  unfolding SendHandshakeInitiation_def Let_def case_prod_unfold
  by (simp add: view_frame view_peer peer_view_def split: sum.split)

lemma view_keepKeyFresh [view_frame]:
  "calm d0 d \<Longrightarrow> calm d0 (keepKeyFreshSending C e p d)" "calm d0 d \<Longrightarrow> calm d0 (keepKeyFreshReceiving C e p d)"
  by (simp_all add: keepKeyFreshSending_def keepKeyFreshReceiving_def Let_def view_frame view_peer peer_view_def
      split: option.split)

lemma view_misc [view_frame]:
  "calm d0 d \<Longrightarrow> calm d0 (fst (SendHandshakeCookie C e he d))" "calm d0 d \<Longrightarrow> calm d0 (handleCookieReply C e he d)"
  "calm d0 d \<Longrightarrow> calm d0 (addRx p n d)" "calm d0 d \<Longrightarrow> calm d0 (fst (IsUnderLoad e d))"
  by (auto simp: SendHandshakeCookie_def handleCookieReply_def addRx_def IsUnderLoad_def view_frame view_peer
      peer_view_def Let_def split: option.split sum.split)

lemma view_clearSources [view_frame]: "calm d0 d \<Longrightarrow> calm d0 (clearSources d)"
proof -
  have "calm d0 x \<Longrightarrow> calm d0 (fold (\<lambda>(_, p). markEndpointSrcForClearing p) ks x)" for ks :: "('k \<times> peer_id) list" and x
    by (induction ks arbitrary: x) (auto simp: view_frame)
  then show "calm d0 d \<Longrightarrow> ?thesis" by (simp add: clearSources_def)
qed

lemma view_bind [view_frame]:
  "calm d0 d \<Longrightarrow> calm d0 (fst (BindUpdate ne d))" "calm d0 d \<Longrightarrow> calm d0 (fst (BindSetMark err m d))"
  "calm d0 d \<Longrightarrow> calm d0 (fst (BindClose err d))"
  by (auto simp: BindUpdate_def BindSetMark_def BindClose_def closeBindLocked_def Let_def view_frame
      split: bool.split option.split)

lemma andThen_Ran [simp]: "andThen r f = Ran y \<longleftrightarrow> (\<exists>x. r = Ran x \<and> f x = Ran y)"
  by (cases r) auto

lemma list_all_update: "list_all P al \<Longrightarrow> P (k, v) \<Longrightarrow> list_all P (AList.update k v al)"
  by (induction al) auto

subsection \<open>The contract of an invariant\<close>

definition inbound_ok :: "InElem \<Rightarrow> bool" where
  "inbound_ok el \<longleftrightarrow> (\<exists>q. ie_packet el = Some q \<and> MessageTransportSize \<le> length q)"

text \<open>An element that a datagram gave for peer \<open>p\<close>: its keypair is in the index table with the peer.\<close>

definition inbound_from :: "Device \<Rightarrow> peer_id \<Rightarrow> InElem \<Rightarrow> bool" where
  "inbound_from d p el \<longleftrightarrow> inbound_ok el \<and>
     (\<exists>i x. indexTable d i = Some x \<and> ite_peer x = Some p \<and> ite_keypair x = Some (ie_keypair el))"

definition handshake_ok :: "HandshakeElem \<Rightarrow> bool" where
  "handshake_ok he \<longleftrightarrow>
     (he_msgType he = MessageInitiationType \<and> length (he_packet he) = MessageInitiationSize) \<or>
     (he_msgType he = MessageResponseType \<and> length (he_packet he) = MessageResponseSize) \<or>
     (he_msgType he = MessageCookieReplyType \<and> length (he_packet he) = MessageCookieReplySize)"

lemma classify_ok:
  "classify e d packet ep = Transport (Some p) elem \<Longrightarrow> inbound_from d p elem"
  "classify e d packet ep = ToHandshake he \<Longrightarrow> handshake_ok he"
  by (auto simp: classify_def inbound_from_def inbound_ok_def handshake_ok_def it_Lookup_def Let_def
      split: if_splits option.splits) blast

lemma inbound_from_cong: "indexTable d' = indexTable d \<Longrightarrow> inbound_from d' = inbound_from d"
  by (simp add: inbound_from_def fun_eq_iff)

abbreviation no_keypairs :: Keypairs where
  "no_keypairs \<equiv> \<lparr>current = None, previous = None, next_kp = None\<rparr>"

locale device_invariant =
  fixes I :: "Device \<Rightarrow> bool"
  assumes unseen: "I d \<Longrightarrow> calm d d' \<Longrightarrow> I d'"
    and staging: "I d \<Longrightarrow> length q \<le> max (length (staged (peer_store d p))) QueueStagedSize \<Longrightarrow>
      I (upd_peer p (\<lambda>pr. pr\<lparr>staged := q\<rparr>) d)"
    and sending: "I d \<Longrightarrow> current (keypairs (peer_store d p)) = Some k \<Longrightarrow> I (fst (sendContainer p k elems d))"
    and filtering: "I d \<Longrightarrow>
      I (upd_keypair k (\<lambda>kp. kp\<lparr>kp_replayFilter := snd (ValidateCounter (kp_replayFilter (keypair_store d k)) c l)\<rparr>) d)"
    and expiring: "I d \<Longrightarrow> I (upd_keypair k (\<lambda>kp. kp\<lparr>kp_sendNonce := RejectAfterMessages\<rparr>) d)"
    and session: "I d \<Longrightarrow> I (fst (BeginSymmetricSession C e d p))"
    and confirming: "I d \<Longrightarrow> I (fst (ReceivedWithKeypair d p k))"
    and zeroing: "I d \<Longrightarrow> I (upd_peer p (\<lambda>pr. pr\<lparr>keypairs := no_keypairs\<rparr>) d)"
    and encrypting: "I d \<Longrightarrow> RoutineEncryption C i d = Ran d' \<Longrightarrow> I d'"
    and decrypting: "I d \<Longrightarrow> RoutineDecryption C i d = Ran d' \<Longrightarrow> I d'"
    and receiving: "I d \<Longrightarrow> list_all (inbound_from d p) els \<Longrightarrow> I (push_inbound els p d)"
    and queueing: "I d \<Longrightarrow> set hq \<subseteq> set (handshake_q d) \<union> Collect handshake_ok \<Longrightarrow> I (d\<lparr>handshake_q := hq\<rparr>)"
    and routing: "I d \<Longrightarrow> op_valid a \<Longrightarrow> table_op a (allowedips d) = Some t \<Longrightarrow> I (d\<lparr>allowedips := t\<rparr>)"
    and resizing: "I d \<Longrightarrow> 0 \<le> m \<Longrightarrow> I (d\<lparr>mtu := m\<rparr>)"
    and limiting: "I d \<Longrightarrow> rl_step (limiter d) ev = Some (ok, r) \<Longrightarrow> I (d\<lparr>limiter := r\<rparr>)"
    and unlimiting: "I d \<Longrightarrow> isClosed d \<Longrightarrow> rl_Close (limiter d) = Some r \<Longrightarrow> I (d\<lparr>limiter := r\<rparr>)"
    and changing: "I d \<Longrightarrow> \<not> isClosed d \<Longrightarrow> I (d\<lparr>dstate := st\<rparr>)"
    and joining: "I d \<Longrightarrow> I (fst (NewPeer C pk d))"
begin

lemma inv_sendStaged:
  "I d \<Longrightarrow> st = None \<or> st = current (keypairs (peer_store d p)) \<Longrightarrow> I (sendStaged C e p st d)"
proof (induction C e p st d rule: sendStaged.induct)
  case (1 C e p d)
  have "I (fst (SendHandshakeInitiation C e False p d))" by (rule unseen [OF "1.prems"(1)]) (simp add: view_frame)
  then show ?case using 1 by (subst sendStaged.simps) (auto split: option.splits)
next
  case (2 C e p k d)
  then have cur: "current (keypairs (peer_store d p)) = Some k" by auto
  show ?case
  proof (cases "staged (peer_store d p)")
    case Nil
    then show ?thesis using 2(2) by (simp add: sendStaged.simps(2))
  next
    case (Cons elems more)
    let ?d = "upd_peer p (\<lambda>pr. pr\<lparr>staged := more\<rparr>) d"
    obtain d' again where r: "sendContainer p k elems ?d = (d', again)" by fastforce
    have "I ?d" by (rule staging) (use 2 Cons in auto)
    then have I': "I d'" using sending [of ?d p k elems] cur r by (simp add: upd_simps)
    obtain kept ooo n where "assign p k (kp_sendNonce (keypair_store ?d k)) elems = (kept, ooo, n)"
      by (cases "assign p k (kp_sendNonce (keypair_store ?d k)) elems")
    then have "keypairs (peer_store d' p) = keypairs (peer_store d p)"
      using sendContainer_sel(2) [OF r, of _ _ _ p] by (simp add: upd_simps)
    then have "I (sendStaged C e p (if again then None else Some k) d')"
      using 2(1) [OF Cons refl r [symmetric] I'] cur by (cases again) auto
    then show ?thesis by (simp add: sendStaged.simps(2) Cons r)
  qed
qed

lemma inv_send:
  assumes "I d"
  shows "I (SendStagedPackets C e p d)" "I (SendKeepalive C e p d)" "I (StagePackets elems p d)" "I (FlushStagedPackets p d)"
proof -
  have *: "I (SendStagedPackets C e p x)" if "I x" for x
    using that by (simp add: SendStagedPackets_def inv_sendStaged)
  show "I (SendStagedPackets C e p d)" using assms by (rule *)
  have "I (upd_peer p (\<lambda>pr. pr\<lparr>staged := staged pr @ [[NewOutboundElement]]\<rparr>) d)"
    if "length (staged (peer_store d p)) < QueueStagedSize"
    using staging [OF assms, of "staged (peer_store d p) @ [[NewOutboundElement]]" p] that
    by (simp add: upd_peer_def)
  then show "I (SendKeepalive C e p d)" using assms * by (simp add: SendKeepalive_def)
  show "I (StagePackets elems p d)"
    using staging [OF assms stage_length, of p elems] by (simp add: StagePackets_def upd_peer_def)
  have "flush q = []" for q by (induction q rule: flush.induct) simp_all
  then show "I (FlushStagedPackets p d)" using staging [OF assms, of "[]" p] by (simp add: FlushStagedPackets_def)
qed

lemma inv_stageAll: "I d \<Longrightarrow> I (stageAll C es m d)"
  by (induction C es m d rule: stageAll.induct) (auto simp: inv_send)

lemma inv_RoutineReadFromTUN: "I d \<Longrightarrow> RoutineReadFromTUN C es ps err d = Some (d', b) \<Longrightarrow> I d'"
  by (auto simp: RoutineReadFromTUN_def inv_stageAll Let_def split: option.splits read_error.splits)

lemma inv_RoutineSequentialSender: "I d \<Longrightarrow> RoutineSequentialSender C e p d = Ran d' \<Longrightarrow> I d'"
proof -
  assume I: "I d" and r: "RoutineSequentialSender C e p d = Ran d'"
  then obtain c more where q: "outbound (peer_store d p) = c # more"
    by (auto simp: RoutineSequentialSender_def split: list.splits)
  let ?d = "upd_peer p (\<lambda>pr. pr\<lparr>outbound := more\<rparr>) d"
  have "I ?d" by (rule unseen [OF I]) (simp add: view_peer peer_view_def)
  moreover have "calm ?d d'"
    using r q by (auto simp: RoutineSequentialSender_def Let_def case_prod_unfold view_frame split: if_splits)
  ultimately show ?thesis by (rule unseen)
qed

lemma inv_pushAll: "I d \<Longrightarrow> list_all (\<lambda>(p, els). list_all (inbound_from d p) els) m \<Longrightarrow> I (pushAll m d)"
proof (induction m d rule: pushAll.induct)
  case (2 p els m d)
  have "inbound_from (push_inbound els p d) = inbound_from d"
    by (rule inbound_from_cong) (simp add: push_inbound_def Let_def upd_simps)
  then show ?case using 2 by (auto simp: receiving)
qed simp

lemma inv_receiveBatch:
  "I d \<Longrightarrow> list_all (\<lambda>(p, els). list_all (inbound_from d p) els) m \<Longrightarrow> receiveBatch e batch m d = Some (m', d') \<Longrightarrow>
   I d' \<and> list_all (\<lambda>(p, els). list_all (inbound_from d' p) els) m'"
proof (induction e batch m d rule: receiveBatch.induct)
  case (2 e packet ep batch m d)
  show ?case
  proof (cases "classify e d packet ep")
    case (Transport po elem)
    have "po \<noteq> None" using "2.prems"(3) Transport by (auto split: option.splits)
    then obtain p where po: "po = Some p" by blast
    have ok: "inbound_from d p elem" using classify_ok(1) Transport po by blast
    define els where "els = (case map_of m p of None \<Rightarrow> [] | Some elems \<Rightarrow> elems)"
    have els: "list_all (inbound_from d p) els"
    proof (cases "map_of m p")
      case (Some x)
      then have "(p, x) \<in> set m" by (rule map_of_SomeD)
      then show ?thesis using "2.prems"(2) Some by (auto simp: els_def list_all_iff)
    qed (simp add: els_def)
    have "list_all (\<lambda>(p, els). list_all (inbound_from d p) els) (AList.update p (els @ [elem]) m)"
      using "2.prems"(2) ok els by (intro list_all_update) simp_all
    then show ?thesis using "2.IH"(3) [OF Transport [unfolded po] refl] "2.prems" Transport po by (simp add: Let_def els_def)
  next
    case (ToHandshake he)
    have ok: "handshake_ok he" using classify_ok(2) [OF ToHandshake] .
    let ?d = "d\<lparr>handshake_q := handshake_q d @ [he]\<rparr>"
    have "I ?d" by (rule queueing [OF "2.prems"(1)]) (use ok in auto)
    moreover have "inbound_from ?d = inbound_from d" by (rule inbound_from_cong) simp
    ultimately show ?thesis using "2.IH"(4) [OF ToHandshake] "2.prems" ToHandshake by (auto split: if_splits)
  qed (use 2 in auto)
qed auto

lemma inv_RoutineReceiveIncoming: "I d \<Longrightarrow> RoutineReceiveIncoming e batch d = Ran d' \<Longrightarrow> I d'"
  using inv_receiveBatch [of d "[]" e batch] inv_pushAll
  by (fastforce simp: RoutineReceiveIncoming_def split: option.splits)

lemma inv_receiveElem:
  assumes "I (rc_dev s)" "receiveElem C e p el s = Some s'"
  shows "I (rc_dev s')"
proof (cases "ie_packet el")
  case None
  then show ?thesis using assms by (auto simp: receiveElem_def)
next
  case (Some q)
  let ?k = "ie_keypair el"
  let ?v = "ValidateCounter (kp_replayFilter (keypair_store (rc_dev s) ?k)) (ie_counter el) RejectAfterMessages"
  let ?d = "upd_keypair ?k (\<lambda>kp. kp\<lparr>kp_replayFilter := snd ?v\<rparr>) (rc_dev s)"
  have "I ?d" using filtering [OF assms(1)] .
  then have 1: "I (fst (ReceivedWithKeypair ?d p ?k))" by (rule confirming)
  then have 2: "I (SendStagedPackets C e p (timersHandshakeComplete e p
      (SetEndpointFromPacket (ie_endpoint el) p (fst (ReceivedWithKeypair ?d p ?k)))))"
    by (intro inv_send(1), elim unseen) (simp add: view_frame)
  show ?thesis using assms(2) Some 1 2 \<open>I ?d\<close>
    by (auto simp: receiveElem_def Let_def case_prod_unfold split: if_splits option.splits)
qed

lemma inv_receiveElems: "receiveElems C e p els s = Some s' \<Longrightarrow> I (rc_dev s) \<Longrightarrow> I (rc_dev s')"
  by (induction C e p els s rule: receiveElems.induct) (auto dest: inv_receiveElem split: option.splits)

lemma inv_receiveContainer:
  assumes "I d" "receiveContainer C e p els d = Ran d'"
  shows "I d'"
proof -
  obtain s where s: "receiveElems C e p els \<lparr>rc_dev = d, rc_tail = None, rc_data = False, rc_rx = 0, rc_bufs = []\<rparr> = Some s"
    using assms(2) by (auto simp: receiveContainer_def split: option.splits)
  have "calm (rc_dev s) d'"
    using assms(2) s by (auto simp: receiveContainer_def Let_def view_frame view_peer peer_view_def split: option.splits)
  moreover have "I (rc_dev s)" using inv_receiveElems [OF s] assms(1) by simp
  ultimately show ?thesis using unseen by blast
qed

lemma inv_RoutineSequentialReceiver:
  assumes "I d" "RoutineSequentialReceiver C e p d = Ran d'"
  shows "I d'"
proof -
  obtain c more where q: "inbound (peer_store d p) = c # more"
      "receiveContainer C e p (ic_elems (in_cont d c)) (upd_peer p (\<lambda>pr. pr\<lparr>inbound := more\<rparr>) d) = Ran d'"
    using assms(2) by (auto simp: RoutineSequentialReceiver_def split: list.splits if_splits)
  have "I (upd_peer p (\<lambda>pr. pr\<lparr>inbound := more\<rparr>) d)" 
    by (rule unseen [OF assms(1)]) (simp add: view_peer peer_view_def)
  then show ?thesis using inv_receiveContainer q(2) by blast
qed

lemma inv_SendHandshakeResponse: "I d \<Longrightarrow> I (fst (SendHandshakeResponse C e p d))"
proof -
  assume I: "I d"
  define d1 where "d1 = fst (CreateMessageResponse C e (upd_handshake p (\<lambda>h. h\<lparr>hs_lastSentHandshake := now e\<rparr>) d) p)"
  have 1: "I d1" by (rule unseen [OF I]) (simp add: d1_def view_frame)
  have "I (fst (addMacs C e p m d1))" for m by (rule unseen [OF 1]) (simp add: view_frame)
  then have 2: "I (fst (BeginSymmetricSession C e (fst (addMacs C e p m d1)) p))" for m by (rule session)
  have 3: "I (fst (SendBuffers e (timersAnyAuthenticatedPacketSent p (timersAnyAuthenticatedPacketTraversal e p
      (timersSessionDerived e p (fst (BeginSymmetricSession C e (fst (addMacs C e p m d1)) p))))) p bs))" for m bs
    by (rule unseen [OF 2 [of m]]) (simp add: view_frame)
  show ?thesis using 1 2 3 unfolding SendHandshakeResponse_def Let_def case_prod_unfold d1_def [symmetric]
    by (simp split: sum.split)
qed

lemma inv_handle:
  assumes "I d"
  shows "I (handleInitiation C e el d)" "I (handleResponse C e el d)" "I (handleCookieReply C e el d)"
proof -
  have *: "I x" if "calm d x" for x using that assms unseen by blast
  show "I (handleInitiation C e el d)"
  proof (cases "MessageInitiation_unmarshal (he_packet el)")
    case (Inr msg)
    obtain d1 po where r: "ConsumeMessageInitiation C e d msg = (d1, po)" by fastforce
    then have "calm d d1" using view_handshake(3) [of d d C e msg] by simp
    then show ?thesis
      using Inr r * by (cases po) (auto simp: handleInitiation_def Let_def view_frame intro!: inv_SendHandshakeResponse)
  qed (simp add: handleInitiation_def assms)
  show "I (handleResponse C e el d)"
  proof (cases "MessageResponse_unmarshal (he_packet el)")
    case (Inr msg)
    obtain d1 po where r: "ConsumeMessageResponse C d msg = (d1, po)" by fastforce
    then have v: "calm d d1" using view_handshake(4) [of d d C msg] by simp
    show ?thesis
    proof (cases po)
      case (Some p)
      define d2 where "d2 = timersAnyAuthenticatedPacketReceived p (timersAnyAuthenticatedPacketTraversal e p
          (addRx p (length (he_packet el)) (SetEndpointFromPacket (he_endpoint el) p d1)))"
      have "I (fst (BeginSymmetricSession C e d2 p))" using * [of d2] v by (simp add: d2_def view_frame session)
      moreover from this have "I (SendKeepalive C e p (timersHandshakeComplete e p (timersSessionDerived e p
          (fst (BeginSymmetricSession C e d2 p)))))"
        by (intro inv_send(2), elim unseen) (simp add: view_frame)
      ultimately show ?thesis using Inr r Some by (simp add: handleResponse_def Let_def d2_def [symmetric] case_prod_unfold)
    qed (use Inr r v * in \<open>auto simp: handleResponse_def\<close>)
  qed (simp add: handleResponse_def assms)
  show "I (handleCookieReply C e el d)" using * by (simp add: view_frame)
qed

lemma inv_checkMacs: "I d \<Longrightarrow> checkMacs C e el d = Some (d', ok) \<Longrightarrow> I d'"
proof -
  assume I: "I d" and r: "checkMacs C e el d = Some (d', ok)"
  obtain d1 ul where ul: "IsUnderLoad e d = (d1, ul)" by fastforce
  have 1: "I d1" using unseen [OF I] view_misc(4) [of d d e] ul by simp
  have "I (fst (SendHandshakeCookie C e el d1))" by (rule unseen [OF 1]) (simp add: view_frame)
  moreover have "I (d1\<lparr>limiter := rate\<rparr>)" if "Allow (limiter d1) (DstIP (he_endpoint el)) t = Some (b, rate)" for t b rate
    using limiting [OF 1, of "AllowEv (DstIP (he_endpoint el)) t"] that by simp
  ultimately show ?thesis using r ul I 1
    by (auto simp: checkMacs_def split: option.splits bool.splits if_splits prod.splits)
qed

lemma inv_RoutineHandshake:
  assumes "I d" "RoutineHandshake C e d = Ran d'"
  shows "I d'"
proof -
  obtain el more where q: "handshake_q d = el # more"
    using assms(2) by (auto simp: RoutineHandshake_def split: list.splits)
  have "I (d\<lparr>handshake_q := more\<rparr>)" by (rule queueing [OF assms(1)]) (auto simp: q)
  then show ?thesis using assms(2) q inv_checkMacs inv_handle
    by (auto simp: RoutineHandshake_def Let_def split: if_splits option.splits prod.splits bool.splits)
qed

lemma inv_ZeroAndFlushAll: "I d \<Longrightarrow> I (ZeroAndFlushAll p d)"
proof -
  assume I: "I d"
  define d1 where "d1 = DeleteKeypair (next_kp (keypairs (peer_store d p))) (DeleteKeypair (current (keypairs (peer_store d p)))
      (DeleteKeypair (previous (keypairs (peer_store d p))) d))"
  have "I d1" by (rule unseen [OF I]) (simp add: d1_def view_frame)
  then have z: "I (upd_peer p (\<lambda>pr. pr\<lparr>keypairs := no_keypairs\<rparr>) d1)" by (rule zeroing)
  define d2 where "d2 = upd_peer p (\<lambda>pr. pr\<lparr>keypairs := no_keypairs\<rparr>) d1"
  have "I (upd_handshake p hs_Clear (deleteIndex (hs_localIndex (hs_of d2 p)) d2))"
    by (rule unseen [OF z]) (simp add: d2_def view_frame)
  then show ?thesis using inv_send(4) by (simp add: ZeroAndFlushAll_def Let_def d1_def d2_def)
qed

lemma inv_ExpireCurrentKeypairs: "I d \<Longrightarrow> I (ExpireCurrentKeypairs e p d)"
proof -
  assume I: "I d"
  define d1 where "d1 = upd_handshake p (\<lambda>h. h\<lparr>hs_lastSentHandshake := now e - (RekeyTimeout + Second)\<rparr>)
    (upd_handshake p hs_Clear (deleteIndex (hs_localIndex (hs_of d p)) d))"
  have "I d1" by (rule unseen [OF I]) (simp add: d1_def view_frame)
  then show ?thesis
    using expiring by (simp add: ExpireCurrentKeypairs_def Let_def d1_def split: option.split)
qed

lemma inv_timers:
  assumes "I d"
  shows "I (timerFires C e t p d)"
proof -
  let ?d = "upd_peer p (upd_timer t (\<lambda>tm. tm\<lparr>isPending := False\<rparr>)) d"
  have "peer_view (upd_timer t f pr) = peer_view pr" for f pr by (cases t) (simp_all add: peer_view_def)
  then have 0: "I ?d" using unseen [OF assms] by (simp add: view_peer)
  have w: "I x" if "calm y x" "I y" for x y using that unseen by blast
  have "I (expirationFunction t C e p x)" if x: "I x" for x
  proof (cases t)
    case TRetransmitHandshake
    let ?u = "if timersActive x p then upd_peer p (\<lambda>pr. pr\<lparr>sendKeepalive := Timer_Del (sendKeepalive pr)\<rparr>) x else x"
    have "calm x ?u" by (simp add: view_peer peer_view_def)
    then have "I (FlushStagedPackets p ?u)" using inv_send(4) w x by blast
    then have "I (upd_peer p (\<lambda>pr. pr\<lparr>zeroKeyMaterial := tm pr\<rparr>) (FlushStagedPackets p ?u))" for tm
      by (rule unseen) (simp add: view_peer peer_view_def)
    moreover have "I (fst (SendHandshakeInitiation C e True p (markEndpointSrcForClearing p
        (upd_peer p (\<lambda>pr. pr\<lparr>handshakeAttempts := handshakeAttempts pr + 1\<rparr>) x))))"
      by (rule unseen [OF x]) (simp add: view_frame view_peer peer_view_def)
    ultimately show ?thesis using \<open>I (FlushStagedPackets p ?u)\<close>
      unfolding TRetransmitHandshake expirationFunction.simps expiredRetransmitHandshake_def Let_def by simp
  next
    case TSendKeepalive
    have k: "I (SendKeepalive C e p x)" using x by (rule inv_send)
    have "I (upd_peer p (\<lambda>pr. pr\<lparr>needAnotherKeepalive := False\<rparr>) (SendKeepalive C e p x))"
      "I (upd_peer p (\<lambda>pr. pr\<lparr>sendKeepalive := tm pr\<rparr>)
         (upd_peer p (\<lambda>pr. pr\<lparr>needAnotherKeepalive := False\<rparr>) (SendKeepalive C e p x)))" for tm
      by (rule unseen [OF k]; simp add: view_peer peer_view_def)+
    then show ?thesis using TSendKeepalive k by (simp add: expiredSendKeepalive_def Let_def)
  next
    case TNewHandshake
    have "I (fst (SendHandshakeInitiation C e False p (markEndpointSrcForClearing p x)))"
      by (rule unseen [OF x]) (simp add: view_frame)
    then show ?thesis using TNewHandshake by (simp add: expiredNewHandshake_def)
  next
    case TZeroKeyMaterial
    then show ?thesis using x by (simp add: expiredZeroKeyMaterial_def inv_ZeroAndFlushAll)
  next
    case TPersistentKeepalive
    then show ?thesis using x by (simp add: expiredPersistentKeepalive_def inv_send)
  qed
  then show ?thesis using 0 assms by (simp add: timerFires_def)
qed

lemma inv_lock:
  "lockInbound C c d = Ran d' \<Longrightarrow> I d \<Longrightarrow> I d'" "lockOutbound C c d = Ran d' \<Longrightarrow> I d \<Longrightarrow> I d'"
  by (auto simp: lockInbound_def lockOutbound_def split: if_splits intro: encrypting decrypting)

lemma inv_flush:
  "I d \<Longrightarrow> flushInbound C cs d = Ran d' \<Longrightarrow> I d'"
  "I d \<Longrightarrow> flushOutbound C cs d = Ran d' \<Longrightarrow> I d'"
  by (induction cs arbitrary: d) (auto dest: inv_lock)

lemma inv_flushQueues:
  "I d \<Longrightarrow> flushInboundQueue C p d = Ran d' \<Longrightarrow> I d'" "I d \<Longrightarrow> flushOutboundQueue C p d = Ran d' \<Longrightarrow> I d'"
  unfolding flushInboundQueue_def flushOutboundQueue_def
  by (erule inv_flush [rotated]; erule unseen; simp add: view_peer peer_view_def)+

lemma inv_drainInbound:
  "I d \<Longrightarrow> drainInbound C e p cs d = Ran d' \<Longrightarrow> I d'"
proof (induction cs arbitrary: d)
  case (Cons c cs)
  then obtain x y where r: "lockInbound C c d = Ran x" "drainInbound C e p cs y = Ran d'"
      "receiveContainer C e p (ic_elems (in_cont x c)) (upd_peer p (\<lambda>pr. pr\<lparr>inbound := cs\<rparr>) x) = Ran y"
    by auto
  have "I (upd_peer p (\<lambda>pr. pr\<lparr>inbound := cs\<rparr>) x)"
    by (rule unseen [OF inv_lock(1) [OF r(1) Cons.prems(1)]]) (simp add: view_peer peer_view_def)
  then show ?case using Cons.IH [OF inv_receiveContainer [OF _ r(3)] r(2)] by blast
qed simp

lemma inv_Start: "I d \<Longrightarrow> Start C e p d = Ran d' \<Longrightarrow> I d'"
proof -
  assume I: "I d" and r: "Start C e p d = Ran d'"
  define d1 where "d1 = timersStart p (upd_handshake p (\<lambda>h. h\<lparr>hs_lastSentHandshake := now e - (RekeyTimeout + Second)\<rparr>) d)"
  have 1: "I d1" by (rule unseen [OF I]) (simp add: d1_def view_frame)
  have run: "I (upd_peer p (\<lambda>pr. pr\<lparr>isRunning := True\<rparr>) x)" if "I x" for x
    by (rule unseen [OF that]) (simp add: view_peer peer_view_def)
  consider "d' = d" | x y where "flushInboundQueue C p d1 = Ran x" "flushOutboundQueue C p x = Ran y"
      "d' = upd_peer p (\<lambda>pr. pr\<lparr>isRunning := True\<rparr>) y"
    using r by (auto simp: Start_def Let_def d1_def [symmetric] split: if_splits)
  then show ?thesis using I 1 run inv_flushQueues by cases blast+
qed

lemma inv_Stop: "I d \<Longrightarrow> Stop C e p d = Ran d' \<Longrightarrow> I d'"
proof -
  assume I: "I d" and r: "Stop C e p d = Ran d'"
  define d1 where "d1 = timersStop p (upd_peer p (\<lambda>pr. pr\<lparr>isRunning := False\<rparr>) d)"
  have 1: "I d1" by (rule unseen [OF I]) (simp add: d1_def view_frame view_peer peer_view_def)
  consider "d' = d" | x y where "drainInbound C e p (inbound (peer_store d1 p)) d1 = Ran x"
      "flushOutboundQueue C p x = Ran y" "d' = ZeroAndFlushAll p y"
    using r by (auto simp: Stop_def Let_def d1_def [symmetric] split: if_splits)
  then show ?thesis using I 1 inv_ZeroAndFlushAll inv_flushQueues(2) inv_drainInbound by cases blast+
qed

lemma inv_forPeers:
  assumes f: "\<And>kp x y. I x \<Longrightarrow> f kp x = Ran y \<Longrightarrow> I y"
  shows "I d \<Longrightarrow> forPeers f kps d = Ran d' \<Longrightarrow> I d'"
proof (induction kps arbitrary: d)
  case (Cons kp kps)
  then obtain x where "f kp d = Ran x" "forPeers f kps x = Ran d'" by auto
  then show ?case using Cons f by blast
qed simp

lemma inv_removePeerLocked: "I d \<Longrightarrow> removePeerLocked C e p key d = Ran d' \<Longrightarrow> I d'"
proof -
  assume I: "I d" and r: "removePeerLocked C e p key d = Ran d'"
  then obtain x where x: "Stop C e p (d\<lparr>allowedips := RemoveByPeer (allowedips d) p\<rparr>) = Ran x"
      "d' = x\<lparr>keyMap := filter (\<lambda>(k, _). k \<noteq> key) (keyMap x)\<rparr>"
    by (auto simp: removePeerLocked_def)
  have "I (d\<lparr>allowedips := RemoveByPeer (allowedips d) p\<rparr>)"
    using routing [OF I, of "OpRemoveByPeer p"] by (simp add: table_op_def op_valid_def)
  then have "I x" using inv_Stop x(1) by blast
  then show ?thesis by (rule unseen) (simp add: x(2) view_frame)
qed

lemma inv_RemovePeer: "I d \<Longrightarrow> RemovePeer C e key d = Ran d' \<Longrightarrow> I d'"
  by (auto simp: RemovePeer_def inv_removePeerLocked split: option.splits)

lemma inv_RemoveAllPeers: "I d \<Longrightarrow> RemoveAllPeers C es d = Ran d' \<Longrightarrow> I d'"
proof -
  assume I: "I d" and r: "RemoveAllPeers C es d = Ran d'"
  then obtain x where x: "forPeers (\<lambda>(key, p). removePeerLocked C (es p) p key) (keyMap d) d = Ran x" "d' = x\<lparr>keyMap := []\<rparr>"
    by (auto simp: RemoveAllPeers_def)
  have "I x" by (rule inv_forPeers [OF _ I x(1)]) (auto dest: inv_removePeerLocked)
  then show ?thesis by (rule unseen) (simp add: x(2) view_frame)
qed

lemma inv_upLocked: "I d \<Longrightarrow> upLocked C es ne d = Ran (d', err) \<Longrightarrow> I d'"
proof -
  assume I: "I d" and r: "upLocked C es ne d = Ran (d', err)"
  obtain d1 b where b: "BindUpdate ne d = (d1, b)" by fastforce
  have 1: "I d1" by (rule unseen [OF I]) (use view_bind(1) [of d d ne] b in simp)
  let ?f = "\<lambda>(_, p) d. andThen (Start C (es p) p d) (\<lambda>d.
      Ran (if persistentKeepaliveInterval (peer_store d p) > 0 then SendKeepalive C (es p) p d else d))"
  have f: "I y" if "I x" "?f kp x = Ran y" for kp :: "NoisePublicKey \<times> peer_id" and x y
    using that inv_Start inv_send(2) by (cases kp) (fastforce split: if_splits)
  show ?thesis
  proof (cases b)
    case True
    then show ?thesis using r b 1 by (simp add: upLocked_def)
  next
    case False
    then have "forPeers ?f (keyMap d1) d1 = Ran d'" using r b by (simp add: upLocked_def)
    then show ?thesis by (rule inv_forPeers [of ?f d1 "keyMap d1" d', rotated 2]) (rule f, assumption+, rule 1)
  qed
qed

lemma inv_downLocked: "I d \<Longrightarrow> downLocked C es ce d = Ran (d', err) \<Longrightarrow> I d'"
proof -
  assume I: "I d" and r: "downLocked C es ce d = Ran (d', err)"
  have "I (fst (BindClose ce d))" by (rule unseen [OF I]) (simp add: view_bind)
  moreover have "forPeers (\<lambda>(_, p). Stop C (es p) p) (keyMap (fst (BindClose ce d))) (fst (BindClose ce d)) = Ran d'"
    using r by (auto simp: downLocked_def Let_def case_prod_unfold)
  ultimately show ?thesis using inv_forPeers [of "\<lambda>(_, p). Stop C (es p) p"] inv_Stop by (metis (no_types, lifting) case_prod_unfold)
qed

lemma inv_changeState: "I d \<Longrightarrow> changeState C es ne ce want d = Ran (d', err) \<Longrightarrow> I d'"
proof -
  assume I: "I d" and r: "changeState C es ne ce want d = Ran (d', err)"
  show ?thesis
  proof (cases "dstate d = deviceStateClosed \<or> want = dstate d \<or> want = deviceStateClosed")
    case True
    then show ?thesis using r I by (auto simp: changeState_def Let_def split: if_splits)
  next
    case False
    then have open_d: "\<not> isClosed d" by (simp add: isClosed_def)
    have down: "I y" if "downLocked C es ce (x\<lparr>dstate := deviceStateDown\<rparr>) = Ran (y, b)" "I x" "\<not> isClosed x" for x y b
      using that inv_downLocked changing by blast
    show ?thesis
    proof (cases "want = deviceStateUp")
      case True
      obtain x b where u: "upLocked C es ne (d\<lparr>dstate := deviceStateUp\<rparr>) = Ran (x, b)"
          "\<not> b \<longrightarrow> d' = x" "b \<longrightarrow> (\<exists>y c. downLocked C es ce (x\<lparr>dstate := deviceStateDown\<rparr>) = Ran (y, c) \<and> d' = y)"
        using r False True by (auto simp: changeState_def Let_def split: if_splits prod.splits)
      have "I x" using inv_upLocked [OF changing [OF I open_d] u(1)] .
      moreover have "b \<Longrightarrow> \<not> isClosed x"
        using u(1) by (auto simp: upLocked_def BindUpdate_def closeBindLocked_def Let_def isClosed_def
            split: if_splits bool.splits option.splits prod.splits)
      ultimately show ?thesis using u down by blast
    next
      case False': False
      then have "want = deviceStateDown" using False by (cases want) auto
      then show ?thesis using r False down [OF _ I open_d]
        by (auto simp: changeState_def Let_def split: if_splits prod.splits)
    qed
  qed
qed

end

subsection \<open>Closed is final\<close>

lemma encrypt_dstate: "RoutineEncryption C i d = Ran d' \<Longrightarrow> dstate d' = dstate d"
  by (auto simp: RoutineEncryption_def Let_def split: if_splits)

lemma decrypt_dstate: "RoutineDecryption C i d = Ran d' \<Longrightarrow> dstate d' = dstate d"
  by (auto simp: RoutineDecryption_def Let_def split: if_splits)

interpretation closed: device_invariant isClosed
proof unfold_locales
  fix d d' :: Device
  assume "isClosed d" "calm d d'"
  then show "isClosed d'" by (simp add: calm_def view_def isClosed_def)
next
  fix d p k elems
  assume "isClosed d"
  then show "isClosed (fst (sendContainer p k elems d))"
    using restD(1) [OF frame_sendContainer] by (simp add: isClosed_def)
next
  fix d C e p
  assume "isClosed d"
  then show "isClosed (fst (BeginSymmetricSession C e d p))"
    using restD(1) [OF frame_BeginSymmetricSession] by (simp add: isClosed_def)
next
  fix d p k
  assume "isClosed d"
  then show "isClosed (fst (ReceivedWithKeypair d p k))"
    using restD(1) [OF frame_ReceivedWithKeypair] by (simp add: isClosed_def)
next
  fix d d' C i
  assume "isClosed d" "RoutineEncryption C i d = Ran d'"
  then show "isClosed d'" by (simp add: isClosed_def encrypt_dstate)
next
  fix d d' C i
  assume "isClosed d" "RoutineDecryption C i d = Ran d'"
  then show "isClosed d'" by (simp add: isClosed_def decrypt_dstate)
qed (simp_all add: isClosed_def upd_simps push_inbound_def NewPeer_def Let_def)

context device_invariant
begin

lemma inv_Close: "I d \<Longrightarrow> Close C es ce d = Ran d' \<Longrightarrow> I d'"
proof -
  assume I: "I d" and r: "Close C es ce d = Ran d'"
  show ?thesis
  proof (cases "isClosed d")
    case True
    then show ?thesis using r I by (simp add: Close_def)
  next
    case False
    then obtain x b y rate where x: "downLocked C es ce (d\<lparr>dstate := deviceStateClosed\<rparr>) = Ran (x, b)"
        "RemoveAllPeers C es x = Ran y" "rl_Close (limiter y) = Some rate" "d' = y\<lparr>limiter := rate\<rparr>"
      using r by (auto simp: Close_def split: option.splits)
    have "I x" using inv_downLocked [OF changing [OF I False] x(1)] .
    then have "I y" using inv_RemoveAllPeers x(2) by blast
    moreover have "isClosed x" using closed.inv_downLocked [OF _ x(1)] by (simp add: isClosed_def)
    then have "isClosed y" using closed.inv_RemoveAllPeers x(2) by blast
    ultimately show ?thesis using unlimiting x(3,4) by blast
  qed
qed

lemma inv_SetPrivateKey: "I d \<Longrightarrow> SetPrivateKey C es sk d = Ran d' \<Longrightarrow> I d'"
proof -
  assume I: "I d" and r: "SetPrivateKey C es sk d = Ran d'"
  show ?thesis
  proof (cases "key_Equals sk (privateKey d)")
    case True
    then show ?thesis using r I by (simp add: SetPrivateKey_def)
  next
    case False
    let ?f = "\<lambda>(key, p) d. if key_Equals (hs_remoteStatic (hs_of d p)) (publicKey C sk)
        then removePeerLocked C (es p) p key d else Ran d"
    define upd where "upd = (\<lambda>x :: Device. x\<lparr>privateKey := sk, public_key := publicKey C sk,
        cookieChecker := CookieChecker_Init C (cookieChecker x) (publicKey C sk)\<rparr>)"
    define pre where "pre = (\<lambda>ks. fold (\<lambda>(_ :: NoisePublicKey, p) x. upd_handshake p (\<lambda>h. h\<lparr>hs_precomputedStaticStatic :=
        fst (sharedSecret C (privateKey x) (hs_remoteStatic h))\<rparr>) x) ks)"
    define ex where "ex = (\<lambda>ks. fold (\<lambda>(_ :: NoisePublicKey, p). ExpireCurrentKeypairs (es p) p) ks)"
    obtain x where x: "forPeers ?f (keyMap d) d = Ran x"
        "d' = ex (keyMap (pre (keyMap (upd x)) (upd x))) (pre (keyMap (upd x)) (upd x))"
      using r False by (auto simp: SetPrivateKey_def Let_def upd_def pre_def ex_def)
    have f: "I z" if "I y" "?f kp y = Ran z" for kp y z
      using that inv_removePeerLocked by (cases kp) (auto split: if_splits)
    have "I x" by (rule inv_forPeers [of ?f d "keyMap d" x, OF _ I x(1)]) (rule f)
    then have "I (upd x)" by (rule unseen) (simp add: upd_def calm_def view_def)
    moreover have "calm y z \<Longrightarrow> calm y (pre ks z)" for ks y z
      by (induction ks arbitrary: z) (auto simp: pre_def view_frame)
    ultimately have "I (pre ks (upd x))" for ks using unseen calm_refl by blast
    moreover have "I (ex ks y)" if "I y" for ks y
      using that by (induction ks arbitrary: y) (auto simp: ex_def inv_ExpireCurrentKeypairs)
    ultimately show ?thesis using x(2) by simp
  qed
qed

lemma inv_keepalives: "I d \<Longrightarrow> I (SendKeepalivesToPeersWithCurrentKeypair C es d)"
proof -
  have "I (fold (\<lambda>(_, p) d. case current (keypairs (peer_store d p)) of None \<Rightarrow> d
      | Some k \<Rightarrow> if kp_created (keypair_store d k) + RejectAfterTime < now (es p) then d
                 else SendKeepalive C (es p) p d) ks x)" if "I x" for ks :: "(NoisePublicKey \<times> peer_id) list" and x
    using that by (induction ks arbitrary: x) (auto simp: inv_send split: option.split)
  then show "I d \<Longrightarrow> ?thesis" by (simp add: SendKeepalivesToPeersWithCurrentKeypair_def)
qed

lemma inv_roaming: "I d \<Longrightarrow> I (DisableSomeRoamingForBrokenMobileSemantics d)"
proof -
  have *: "calm y x \<Longrightarrow> calm y (fold (\<lambda>(_, p). upd_peer p (\<lambda>pr. pr\<lparr>disableRoaming := endpoint_val pr \<noteq> None\<rparr>)) ks x)"
    for ks :: "(NoisePublicKey \<times> peer_id) list" and x y
    by (induction ks arbitrary: x) (auto simp: view_peer peer_view_def)
  show "I d \<Longrightarrow> ?thesis"
    unfolding DisableSomeRoamingForBrokenMobileSemantics_def by (elim unseen, rule *) (simp add: view_frame)
qed

lemma int32_small: "0 \<le> m \<Longrightarrow> m \<le> int MaxContentSize \<Longrightarrow> int32 m = m"
  by (simp add: int32_def MaxContentSize_def MaxSegmentSize_def MessageTransportSize_def MessageTransportHeaderSize_def
      TagSize_def sint_sbintrunc' signed_take_bit_int_eq_self)

lemma inv_tunEvent: "I d \<Longrightarrow> RoutineTUNEventReader C es ne ce ev m d = Ran d' \<Longrightarrow> I d'"
proof -
  assume I: "I d" and r: "RoutineTUNEventReader C es ne ce ev m d = Ran d'"
  have m: "I x" if "updateMTU m d = Some x" for x
    using that resizing [OF I] int32_small
    by (auto simp: updateMTU_def Let_def split: option.splits if_splits)
  show ?thesis
  proof (cases "if EventMTUUpdate ev then updateMTU m d else Some d")
    case None
    then show ?thesis using r I by (simp add: RoutineTUNEventReader_def)
  next
    case (Some x)
    then have x: "I x" using m I by (auto split: if_splits)
    obtain y where y: "(if EventUp ev then andThen (Up C es ne ce x) (\<lambda>(d, _). Ran d) else Ran x) = Ran y"
        "(if EventDown ev then andThen (Down C es ne ce y) (\<lambda>(d, _). Ran d) else Ran y) = Ran d'"
      using r Some by (auto simp: RoutineTUNEventReader_def)
    have "I y" using x y(1) inv_changeState by (auto simp: Up_def split: if_splits)
    then show ?thesis using y(2) inv_changeState by (auto simp: Down_def split: if_splits)
  qed
qed

end

end
