(* ===== verification/Device_Steps.thy ===== *)
theory Device_Steps
  imports Device_Run
begin

text \<open>
  The configuration protocol preserves every invariant, and the step relation of the device with the
  devices it reaches.
\<close>

subsection \<open>Parsed prefixes\<close>

lemma ParseAddr_ok:
  "ParseAddr s = Some (a, zone) \<Longrightarrow> (\<exists>b. a = Addr4 b \<and> length b = 4) \<or> (\<exists>b. a = Addr6 b \<and> length b = 16)"
  by (auto simp: ParseAddr_def split: list.splits if_splits option.splits dest: parseIPv4_length parseIPv6_length)

lemma ParsePrefix_valid: "ParsePrefix s = Some pfx \<Longrightarrow> valid_prefix pfx"
  by (auto simp: ParsePrefix_def valid_prefix_def split: option.splits if_splits dest!: ParseAddr_ok)

subsection \<open>Configuration lines\<close>

context device_invariant
begin

lemma inv_handlePostConfig: "I d \<Longrightarrow> handlePostConfig C es peer d = Ran d' \<Longrightarrow> I d'"
proof -
  assume I: "I d" and r: "handlePostConfig C es peer d = Ran d'"
  show ?thesis
  proof (cases "sp_dummy peer \<or> sp_Peer peer = None")
    case True
    then show ?thesis using r I by (auto simp: handlePostConfig_def split: if_splits)
  next
    case False
    then obtain p where p: "\<not> sp_dummy peer" "sp_Peer peer = Some p" by auto
    define d1 where "d1 = (if sp_created peer
        then upd_peer p (\<lambda>pr. pr\<lparr>disableRoaming := brokenRoaming d \<and> endpoint_val pr \<noteq> None\<rparr>) d else d)"
    have 1: "I d1" by (rule unseen [OF I]) (simp add: d1_def view_peer peer_view_def)
    have "d' = d1 \<or> (\<exists>x. Start C (es p) p d1 = Ran x \<and>
        d' = SendStagedPackets C (es p) p (if sp_pkaOn peer then SendKeepalive C (es p) p x else x))"
      using r p by (auto simp: handlePostConfig_def d1_def [symmetric] Let_def split: if_splits)
    then show ?thesis using 1 inv_Start inv_send by auto
  qed
qed

lemma inv_handleDeviceLine: "I d \<Longrightarrow> handleDeviceLine C es ne key value d = Ran (d', err) \<Longrightarrow> I d'"
proof -
  assume I: "I d" and r: "handleDeviceLine C es ne key value d = Ran (d', err)"
  have "I (fst (BindUpdate ne (d\<lparr>net_port := po\<rparr>)))" "I (fst (BindSetMark b m d))" for po b m
    by (rule unseen [OF I]; simp add: view_frame)+
  then show ?thesis using r I unfolding handleDeviceLine_def Let_def case_prod_unfold
    by (auto split: if_splits option.splits dest: inv_SetPrivateKey [OF I] inv_RemoveAllPeers [OF I])
qed

lemma inv_handlePublicKeyLine: "I d \<Longrightarrow> handlePublicKeyLine C peer value d = (d', r) \<Longrightarrow> I d'"
  using joining [of d C] unfolding handlePublicKeyLine_def Let_def
  by (auto split: prod.splits option.splits if_splits sum.splits) (metis fst_conv)+

lemma inv_set_field: "I d \<Longrightarrow> (\<And>pr. peer_view (f pr) = peer_view pr) \<Longrightarrow> I (fst (set_field peer f d))"
  by (auto simp: set_field_def split: option.splits intro!: unseen [of d, OF _ view_peer [OF calm_refl]])

lemma inv_handlePeerLine: "I d \<Longrightarrow> handlePeerLine C es peer key value d = Ran (d', r) \<Longrightarrow> I d'"
proof -
  assume I: "I d" and r: "handlePeerLine C es peer key value d = Ran (d', r)"
  have rm: "I x" if "removeSetPeer C es peer d = Ran x" for x
    using that I by (auto simp: removeSetPeer_def inv_RemovePeer split: option.splits)
  have f: "I (fst (set_field peer (\<lambda>pr. pr\<lparr>handshake := h pr\<rparr>) d))" "I (fst (set_field peer (\<lambda>pr. pr\<lparr>endpoint_val := ep\<rparr>) d))"
    "I (fst (set_field peer (\<lambda>pr. pr\<lparr>persistentKeepaliveInterval := n\<rparr>) d))" for h ep n
    by (rule inv_set_field [OF I]; simp add: peer_view_def)+
  have rt: "I (d\<lparr>allowedips := RemoveByPeer (allowedips d) p\<rparr>)" for p
    using routing [OF I, of "OpRemoveByPeer p"] by (simp add: table_op_def op_valid_def)
  have ins: "I (d\<lparr>allowedips := t\<rparr>)" if "AllowedIPs_Insert (allowedips d) pfx p = Some t" "ParsePrefix s = Some pfx" for pfx p t s
    using routing [OF I, of "OpInsert pfx p"] that ParsePrefix_valid by (simp add: table_op_def op_valid_def)
  have del: "I (d\<lparr>allowedips := t\<rparr>)" if "AllowedIPs_Remove (allowedips d) pfx p = Some t" "ParsePrefix s = Some pfx" for pfx p t s
    using routing [OF I, of "OpRemove pfx p"] that ParsePrefix_valid by (simp add: table_op_def op_valid_def)
  show ?thesis using r I f rt unfolding handlePeerLine_def Let_def case_prod_unfold
    by (auto split: if_splits option.splits dest: rm ins del)
qed

lemma inv_ipcSetLines: "I d \<Longrightarrow> ipcSetLines C es ne lines dc peer d = Ran (d', err) \<Longrightarrow> I d'"
proof (induction lines arbitrary: dc peer d)
  case Nil
  then show ?case using inv_handlePostConfig by auto
next
  case (Cons raw lines)
  show ?case
  proof (cases "length raw > maxLine \<or> dropCR raw = []")
    case True
    then show ?thesis using Cons.prems inv_handlePostConfig by (auto simp: Let_def split: if_splits)
  next
    case False
    show ?thesis
    proof (cases "Cut CHR ''='' (dropCR raw)")
      case None
      then show ?thesis using Cons.prems False by (auto simp: Let_def)
    next
      case (Some kv)
      obtain key v where kv: "kv = (key, v)" by fastforce
      consider (pk) "key = ''public_key''" | (dev) "key \<noteq> ''public_key''" dc | (peer) "key \<noteq> ''public_key''" "\<not> dc" by blast
      then show ?thesis
      proof cases
        case pk
        obtain x where x: "handlePostConfig C es peer d = Ran x"
            "(case handlePublicKeyLine C peer v x of (d, peer, Some err) \<Rightarrow> Ran (d, Some err)
              | (d, peer, None) \<Rightarrow> ipcSetLines C es ne lines False peer d) = Ran (d', err)"
          using Cons.prems(2) False Some kv pk by (auto simp: Let_def)
        obtain y q eo where y: "handlePublicKeyLine C peer v x = (y, q, eo)" by (cases "handlePublicKeyLine C peer v x") auto
        have "I x" using inv_handlePostConfig [OF Cons.prems(1) x(1)] .
        then have "I y" using inv_handlePublicKeyLine y by blast
        then show ?thesis using x(2) y Cons.IH by (cases eo) auto
      next
        case dev
        obtain y eo where y: "handleDeviceLine C es ne key v d = Ran (y, eo)"
            "(case eo of Some err \<Rightarrow> Ran (y, Some err) | None \<Rightarrow> ipcSetLines C es ne lines True peer y) = Ran (d', err)"
          using Cons.prems(2) False Some kv dev by (auto simp: Let_def)
        then have "I y" using inv_handleDeviceLine Cons.prems(1) by blast
        then show ?thesis using y(2) Cons.IH by (cases eo) auto
      next
        case peer
        obtain y q eo where y: "handlePeerLine C es peer key v d = Ran (y, q, eo)"
            "(case eo of Some err \<Rightarrow> Ran (y, Some err) | None \<Rightarrow> ipcSetLines C es ne lines False q y) = Ran (d', err)"
          using Cons.prems(2) False Some kv peer by (auto simp: Let_def)
        then have "I y" using inv_handlePeerLine Cons.prems(1) by blast
        then show ?thesis using y(2) Cons.IH by (cases eo) auto
      qed
    qed
  qed
qed

end

subsection \<open>Steps and runs\<close>

text \<open>Everything that can happen to a device: iterations of its goroutines that ran to their end, timers that
  fire, ticks of the limiter's collector, and calls of its interface.  Every choice of the environment
  (clock, randomness, datagrams, packets, answers of the bind) is a parameter of a rule.\<close>

inductive dev_step :: "crypto \<Rightarrow> Device \<Rightarrow> Device \<Rightarrow> bool" for C :: crypto where
  read_tun: "RoutineReadFromTUN C es packets err d = Some (d', b) \<Longrightarrow> dev_step C d d'"
| encrypt: "RoutineEncryption C i d = Ran d' \<Longrightarrow> dev_step C d d'"
| send_out: "RoutineSequentialSender C e p d = Ran d' \<Longrightarrow> dev_step C d d'"
| receive_in: "RoutineReceiveIncoming e batch d = Ran d' \<Longrightarrow> dev_step C d d'"
| decrypt: "RoutineDecryption C i d = Ran d' \<Longrightarrow> dev_step C d d'"
| handshake_in: "RoutineHandshake C e d = Ran d' \<Longrightarrow> dev_step C d d'"
| deliver: "RoutineSequentialReceiver C e p d = Ran d' \<Longrightarrow> dev_step C d d'"
| timer: "dev_step C d (timerFires C e t p d)"
| collect: "dev_step C d (d\<lparr>limiter := gcTick (limiter d) t\<rparr>)"
| tun_event: "RoutineTUNEventReader C es ne ce ev m d = Ran d' \<Longrightarrow> dev_step C d d'"
| new_peer: "dev_step C d (fst (NewPeer C pk d))"
| start: "Start C e p d = Ran d' \<Longrightarrow> dev_step C d d'"
| stop: "Stop C e p d = Ran d' \<Longrightarrow> dev_step C d d'"
| expire: "dev_step C d (ExpireCurrentKeypairs e p d)"
| keepalive: "dev_step C d (SendKeepalive C e p d)"
| keepalives: "dev_step C d (SendKeepalivesToPeersWithCurrentKeypair C es d)"
| remove: "RemovePeer C e key d = Ran d' \<Longrightarrow> dev_step C d d'"
| remove_all: "RemoveAllPeers C es d = Ran d' \<Longrightarrow> dev_step C d d'"
| set_key: "SetPrivateKey C es sk d = Ran d' \<Longrightarrow> dev_step C d d'"
| change: "changeState C es ne ce want d = Ran (d', b) \<Longrightarrow> dev_step C d d'"
| close: "Close C es ce d = Ran d' \<Longrightarrow> dev_step C d d'"
| bind_update: "dev_step C d (fst (BindUpdate ne d))"
| bind_mark: "dev_step C d (fst (BindSetMark err mark d))"
| roaming: "dev_step C d (DisableSomeRoamingForBrokenMobileSemantics d)"
| configure: "IpcSetOperation C es ne input d = Ran (d', err') \<Longrightarrow> dev_step C d d'"

inductive reaches :: "crypto \<Rightarrow> Device \<Rightarrow> Device \<Rightarrow> bool" for C :: crypto where
  reaches_refl: "reaches C d d"
| reaches_step: "reaches C d d' \<Longrightarrow> dev_step C d' d'' \<Longrightarrow> reaches C d d''"

inductive_cases dev_stepE: "dev_step C d d'"

context device_invariant
begin

lemma inv_step: "dev_step C d d' \<Longrightarrow> I d \<Longrightarrow> I d'"
proof (induction rule: dev_step.induct)
  case (collect d t)
  then show ?case using limiting [of d "TickEv t" False "gcTick (limiter d) t"] by simp
next
  case (bind_update d ne)
  then show ?case by (rule unseen) (simp add: view_frame)
next
  case (bind_mark d err mark)
  then show ?case by (rule unseen) (simp add: view_frame)
next
  case (configure es ne input d d' err')
  then show ?case by (auto simp: IpcSetOperation_def intro: inv_ipcSetLines)
next
  case (new_peer d pk)
  then show ?case by (rule joining)
qed (blast intro: inv_RoutineReadFromTUN encrypting inv_RoutineSequentialSender inv_RoutineReceiveIncoming
    decrypting inv_RoutineHandshake inv_RoutineSequentialReceiver inv_timers inv_tunEvent inv_Start inv_Stop
    inv_ExpireCurrentKeypairs inv_send(2) inv_keepalives inv_RemovePeer inv_RemoveAllPeers inv_SetPrivateKey
    inv_changeState inv_Close inv_roaming)+

lemma inv_reaches: "reaches C d d' \<Longrightarrow> I d \<Longrightarrow> I d'"
  by (induction rule: reaches.induct) (auto intro: inv_step)

end

end
