(* ===== verification/Nonces.thy ===== *)
theory Nonces
  imports Device_Steps
begin

text \<open>
  What holds of the keys in every state a device can reach: no nonce is given twice under a keypair, no
  counter is accepted twice, the staging queues stay bounded.  Each is an interpretation of
  \<open>device_invariant\<close>; the steps that can break it are the ones its laws name.
\<close>

subsection \<open>Nonces\<close>

text \<open>The nonces given out so far: the elements of all containers ever made, whether they still wait, are
  encrypted or were sent.\<close>

definition cont_uses :: "OutCont \<Rightarrow> (keypair_id option \<times> u64) list" where
  "cont_uses oc = map (\<lambda>el. (oe_keypair el, oe_nonce el)) (oc_elems oc)"

definition uses :: "Device \<Rightarrow> (keypair_id option \<times> u64) list" where
  "uses d = concat (map (\<lambda>c. cont_uses (out_cont d c)) [0..<next_cont d])"

definition kp_ids :: "Keypairs \<Rightarrow> keypair_id set" where
  "kp_ids kps = set_option (current kps) \<union> set_option (previous kps) \<union> set_option (next_kp kps)"

definition nonce_inv :: "Device \<Rightarrow> bool" where
  "nonce_inv d \<longleftrightarrow>
     distinct (uses d) \<and>
     (\<forall>(ko, n) \<in> set (uses d). \<exists>k < next_keypair d. ko = Some k \<and> n < kp_sendNonce (keypair_store d k)) \<and>
     (\<forall>k < next_keypair d. kp_sendNonce (keypair_store d k) \<le> RejectAfterMessages) \<and>
     (\<forall>p. \<forall>k \<in> kp_ids (keypairs (peer_store d p)). k < next_keypair d) \<and>
     (\<forall>c \<ge> next_cont d. oc_elems (out_cont d c) = [])"

lemma nonce_invI:
  assumes "distinct (uses d)"
    and "\<And>ko n. (ko, n) \<in> set (uses d) \<Longrightarrow> \<exists>k < next_keypair d. ko = Some k \<and> n < kp_sendNonce (keypair_store d k)"
    and "\<And>k. k < next_keypair d \<Longrightarrow> kp_sendNonce (keypair_store d k) \<le> RejectAfterMessages"
    and "\<And>p k. k \<in> kp_ids (keypairs (peer_store d p)) \<Longrightarrow> k < next_keypair d"
    and "\<And>c. next_cont d \<le> c \<Longrightarrow> oc_elems (out_cont d c) = []"
  shows "nonce_inv d"
  using assms unfolding nonce_inv_def by blast

lemma nonce_invD:
  assumes "nonce_inv d"
  shows "distinct (uses d)"
    "(ko, n) \<in> set (uses d) \<Longrightarrow> \<exists>k < next_keypair d. ko = Some k \<and> n < kp_sendNonce (keypair_store d k)"
    "k < next_keypair d \<Longrightarrow> kp_sendNonce (keypair_store d k) \<le> RejectAfterMessages"
    "k \<in> kp_ids (keypairs (peer_store d p)) \<Longrightarrow> k < next_keypair d"
    "next_cont d \<le> c \<Longrightarrow> oc_elems (out_cont d c) = []"
  using assms unfolding nonce_inv_def by blast+

lemma uses_cong:
  "out_cont d' = out_cont d \<Longrightarrow> next_cont d' = next_cont d \<Longrightarrow> uses d' = uses d"
  by (simp add: uses_def)

lemma uses_push_outbound: "uses (push_outbound els p d) = uses d @ cont_uses \<lparr>oc_elems = els, oc_locked = True\<rparr>"
proof -
  have "map (\<lambda>c. cont_uses (if c = next_cont d then x else out_cont d c)) [0..<next_cont d] =
      map (\<lambda>c. cont_uses (out_cont d c)) [0..<next_cont d]" for x by simp
  then show ?thesis by (simp add: push_outbound_def uses_def Let_def upd_simps del: map_eq_conv)
qed

lemma uses_encrypted:
  assumes "RoutineEncryption C i d = Ran d'"
  shows "uses d' = uses d"
    and "keypair_store d' = keypair_store d" "next_keypair d' = next_keypair d" "next_cont d' = next_cont d"
    and "peer_store d' = peer_store d" and "oc_elems (out_cont d c) = [] \<Longrightarrow> oc_elems (out_cont d' c) = []"
proof -
  let ?c = "encryption_q d ! i"
  let ?els = "map (encryptElem C d) (oc_elems (out_cont d ?c))"
  have r: "None \<notin> set ?els" "d' = d\<lparr>encryption_q := take i (encryption_q d) @ drop (Suc i) (encryption_q d),
      out_cont := (out_cont d)(?c := \<lparr>oc_elems = map the ?els, oc_locked = False\<rparr>)\<rparr>"
    using assms by (auto simp: RoutineEncryption_def Let_def split: if_splits)
  have same: "oe_keypair (the (encryptElem C d el)) = oe_keypair el \<and> oe_nonce (the (encryptElem C d el)) = oe_nonce el"
    if "el \<in> set (oc_elems (out_cont d ?c))" for el
    using r(1) that by (auto simp: encryptElem_def Let_def image_iff split: option.splits if_splits)
  then have "cont_uses \<lparr>oc_elems = map the ?els, oc_locked = False\<rparr> = cont_uses (out_cont d ?c)"
    by (simp add: cont_uses_def)
  then have "cont_uses (out_cont d' x) = cont_uses (out_cont d x)" for x using r(2) by simp
  then show "uses d' = uses d" using r(2) by (simp add: uses_def)
  show "keypair_store d' = keypair_store d" "next_keypair d' = next_keypair d" "next_cont d' = next_cont d"
    "peer_store d' = peer_store d" "oc_elems (out_cont d c) = [] \<Longrightarrow> oc_elems (out_cont d' c) = []"
    using r(2) by auto
qed

lemma nonce_inv_send:
  assumes I: "nonce_inv d" and cur: "current (keypairs (peer_store d p)) = Some k"
  shows "nonce_inv (fst (sendContainer p k elems d))"
proof -
  let ?n = "kp_sendNonce (keypair_store d k)"
  have k: "k < next_keypair d" using nonce_invD(4) [OF I, of k p] cur by (simp add: kp_ids_def)
  then have le: "?n \<le> RejectAfterMessages" using nonce_invD(3) [OF I] by blast
  obtain kept ooo n where a: "assign p k ?n elems = (kept, ooo, n)" by (cases "assign p k ?n elems")
  note spec = assign_spec [OF le a]
  have grow: "?n \<le> n" using spec(3) by (simp add: word_le_nat_alt)
  define d1 where "d1 = (let d = upd_keypair k (\<lambda>kp. kp\<lparr>kp_sendNonce := n\<rparr>) d
      in if ooo \<noteq> [] then StagePackets ooo p d else d)"
  have d1: "out_cont d1 = out_cont d" "next_cont d1 = next_cont d" "next_keypair d1 = next_keypair d"
      "keypair_store d1 = (keypair_store d)(k := (keypair_store d k)\<lparr>kp_sendNonce := n\<rparr>)"
      "\<And>q. keypairs (peer_store d1 q) = keypairs (peer_store d q)"
    by (auto simp: d1_def Let_def StagePackets_def upd_simps)
  have old: "\<exists>j < next_keypair d. ko = Some j \<and> m < kp_sendNonce (keypair_store d1 j)" if u: "(ko, m) \<in> set (uses d)" for ko m
    using nonce_invD(2) [OF I u] grow by (auto simp: d1(4) intro: less_le_trans)
  have I1: "nonce_inv d1"
  proof (rule nonce_invI)
    fix j assume "j < next_keypair d1"
    then show "kp_sendNonce (keypair_store d1 j) \<le> RejectAfterMessages"
      using nonce_invD(3) [OF I, of j] spec(4) by (simp add: d1)
  next
    fix q j assume "j \<in> kp_ids (keypairs (peer_store d1 q))"
    then show "j < next_keypair d1" using nonce_invD(4) [OF I, of j q] by (simp add: d1)
  next
    fix c assume "next_cont d1 \<le> c"
    then show "oc_elems (out_cont d1 c) = []" using nonce_invD(5) [OF I] by (simp add: d1)
  qed (use old nonce_invD(1) [OF I] uses_cong [of d1 d] in \<open>auto simp: d1\<close>)
  have new: "ko = Some k \<and> ?n \<le> m \<and> m < n" if "(ko, m) \<in> set (cont_uses \<lparr>oc_elems = kept, oc_locked = True\<rparr>)" for ko m
    using that spec(6) by (auto simp: cont_uses_def)
  have fresh: "nonce_inv (push_outbound kept p d1)"
  proof (rule nonce_invI)
    have "distinct (cont_uses \<lparr>oc_elems = kept, oc_locked = True\<rparr>)"
      using spec(7) by (auto simp: cont_uses_def distinct_map inj_on_def)
    moreover have "x \<notin> set (uses d1)" if "x \<in> set (cont_uses \<lparr>oc_elems = kept, oc_locked = True\<rparr>)" for x
    proof
      obtain ko m where x: "x = (ko, m)" by fastforce
      assume "x \<in> set (uses d1)"
      then have "(ko, m) \<in> set (uses d)" using x uses_cong [of d1 d] by (simp add: d1)
      then show False using nonce_invD(2) [OF I] new [of ko m] that x by fastforce
    qed
    ultimately show "distinct (uses (push_outbound kept p d1))"
      using nonce_invD(1) [OF I1] by (auto simp: uses_push_outbound)
  next
    fix ko m assume "(ko, m) \<in> set (uses (push_outbound kept p d1))"
    then have "(ko, m) \<in> set (uses d) \<or> (ko, m) \<in> set (cont_uses \<lparr>oc_elems = kept, oc_locked = True\<rparr>)"
      using uses_cong [of d1 d] by (auto simp: uses_push_outbound d1)
    then have "\<exists>j < next_keypair d. ko = Some j \<and> m < kp_sendNonce (keypair_store d1 j)"
      using old [of ko m] new [of ko m] k by (elim disjE) (blast, auto simp: d1(4))
    then show "\<exists>j < next_keypair (push_outbound kept p d1). ko = Some j \<and>
        m < kp_sendNonce (keypair_store (push_outbound kept p d1) j)"
      by (simp add: push_outbound_def Let_def upd_simps d1(3))
  next
    fix q j assume "j \<in> kp_ids (keypairs (peer_store (push_outbound kept p d1) q))"
    then show "j < next_keypair (push_outbound kept p d1)"
      using nonce_invD(4) [OF I1, of j q] by (auto simp: push_outbound_def Let_def upd_simps split: if_splits)
  qed (use nonce_invD(3,5) [OF I1] in \<open>auto simp: push_outbound_def Let_def upd_simps\<close>)
  have "fst (sendContainer p k elems d) = (if kept \<noteq> [] \<and> isRunning (peer_store d1 p) then push_outbound kept p d1 else d1)"
    by (simp add: sendContainer_def a d1_def Let_def)
  then show ?thesis using I1 fresh by simp
qed

lemma DeleteKeypair_keeps [simp]:
  "peer_store (DeleteKeypair k d) = peer_store d" "keypair_store (DeleteKeypair k d) = keypair_store d"
  "next_keypair (DeleteKeypair k d) = next_keypair d" "out_cont (DeleteKeypair k d) = out_cont d"
  "next_cont (DeleteKeypair k d) = next_cont d" "encryption_q (DeleteKeypair k d) = encryption_q d"
  by (simp_all add: DeleteKeypair_def deleteIndex_def split: option.split)

lemma rotate_keeps:
  "keypair_store (rotate i k p d) = keypair_store d" "next_keypair (rotate i k p d) = next_keypair d"
  "out_cont (rotate i k p d) = out_cont d" "next_cont (rotate i k p d) = next_cont d"
  "encryption_q (rotate i k p d) = encryption_q d"
  "staged (peer_store (rotate i k p d) q) = staged (peer_store d q)"
  "kp_ids (keypairs (peer_store (rotate i k p d) q)) \<subseteq> insert k (kp_ids (keypairs (peer_store d q)))"
  by (auto simp: rotate_def Let_def upd_simps kp_ids_def)

lemma DeleteKeypair_index: "indexTable (DeleteKeypair k d) j = Some x \<Longrightarrow> indexTable d j = Some x"
  by (auto simp: DeleteKeypair_def deleteIndex_def it_Delete_def split: option.splits if_splits)

lemma rotate_index: "indexTable (rotate i k p d) j = Some x \<Longrightarrow> indexTable d j = Some x"
  by (auto simp: rotate_def Let_def upd_simps split: if_splits dest!: DeleteKeypair_index)

lemma session_sel:
  assumes "BeginSymmetricSession C e d p = (d', ok)"
  obtains (failed) "d' = d"
  | (derived) kp where "keypair_store d' = (keypair_store d)(next_keypair d := kp)" "kp_sendNonce kp = 0"
      "kp_replayFilter kp = Reset emptyFilter" "next_keypair d' = Suc (next_keypair d)" "out_cont d' = out_cont d"
      "next_cont d' = next_cont d" "encryption_q d' = encryption_q d"
      "\<And>q. staged (peer_store d' q) = staged (peer_store d q)"
      "\<And>q. kp_ids (keypairs (peer_store d' q)) \<subseteq> insert (next_keypair d) (kp_ids (keypairs (peer_store d q)))"
      "\<And>j x. indexTable d' j = Some x \<Longrightarrow> indexTable d j = Some x \<or>
        ite_keypair x = Some (next_keypair d) \<and> (\<exists>y. indexTable d j = Some y \<and> ite_peer x = ite_peer y)"
proof (cases "hs_state (hs_of d p) \<noteq> handshakeResponseConsumed \<and> hs_state (hs_of d p) \<noteq> handshakeResponseCreated")
  case True
  then have "d' = d" using assms by (simp add: BeginSymmetricSession_def Let_def case_prod_unfold)
  then show ?thesis by (rule failed)
next
  case False
  then have "\<exists>i kp li h. rotate i (next_keypair d) p (upd_handshake p (\<lambda>_. h)
        (d\<lparr>keypair_store := (keypair_store d)(next_keypair d := kp), next_keypair := next_keypair d + 1,
           indexTable := SwapIndexForKeypair (indexTable (d\<lparr>keypair_store := (keypair_store d)(next_keypair d := kp),
             next_keypair := next_keypair d + 1\<rparr>)) li (Some (next_keypair d))\<rparr>)) = d' \<and>
      kp_sendNonce kp = 0 \<and> kp_replayFilter kp = Reset emptyFilter"
    using assms unfolding BeginSymmetricSession_def Let_def case_prod_unfold
    by (simp only: if_False simp_thms prod.inject) (elim conjE, intro exI conjI, assumption, simp_all)
  then obtain i kp li h where kp: "kp_sendNonce kp = 0" "kp_replayFilter kp = Reset emptyFilter"
      and d': "d' = rotate i (next_keypair d) p (upd_handshake p (\<lambda>_. h)
        (d\<lparr>keypair_store := (keypair_store d)(next_keypair d := kp), next_keypair := next_keypair d + 1,
           indexTable := SwapIndexForKeypair (indexTable d) li (Some (next_keypair d))\<rparr>))"
    by auto
  have "kp_ids (keypairs (peer_store d' q)) \<subseteq> insert (next_keypair d) (kp_ids (keypairs (peer_store d q)))" for q
    unfolding d' by (rule order_trans [OF rotate_keeps(7)]) (auto simp: upd_handshake_def upd_simps)
  moreover have "indexTable d j = Some x \<or> ite_keypair x = Some (next_keypair d) \<and> (\<exists>y. indexTable d j = Some y \<and> ite_peer x = ite_peer y)"
    if "indexTable d' j = Some x" for j x
    using that unfolding d' by (auto simp: upd_simps SwapIndexForKeypair_def split: option.splits if_splits dest!: rotate_index)
  ultimately show ?thesis
    by (intro derived [of kp]) (simp_all add: d' kp rotate_keeps(1-6) upd_handshake_def upd_simps)
qed

lemma nonce_inv_session:
  assumes I: "nonce_inv d"
  shows "nonce_inv (fst (BeginSymmetricSession C e d p))"
proof (cases rule: session_sel [OF surjective_pairing, of C e d p, case_names failed derived])
  case (derived kp)
  let ?d = "fst (BeginSymmetricSession C e d p)"
  have u: "uses ?d = uses d" using derived(5,6) by (rule uses_cong)
  show ?thesis
  proof (rule nonce_invI)
    fix ko n assume "(ko, n) \<in> set (uses ?d)"
    then have "(ko, n) \<in> set (uses d)" using u by simp
    then show "\<exists>k < next_keypair ?d. ko = Some k \<and> n < kp_sendNonce (keypair_store ?d k)"
      using nonce_invD(2) [OF I] derived(1,4) by (fastforce intro: less_SucI)
  next
    fix q k assume "k \<in> kp_ids (keypairs (peer_store ?d q))"
    then show "k < next_keypair ?d" using derived(4,9) nonce_invD(4) [OF I, of k q] by fastforce
  next
    fix k assume "k < next_keypair ?d"
    then show "kp_sendNonce (keypair_store ?d k) \<le> RejectAfterMessages"
      using nonce_invD(3) [OF I, of k] derived(1,2,4) by (auto simp: less_Suc_eq)
  qed (use nonce_invD(1,5) [OF I] u derived(5,6) in simp_all)
qed (use I in auto)

lemma nonce_inv_cong:
  assumes "nonce_inv d" "out_cont d' = out_cont d" "next_cont d' = next_cont d" "next_keypair d' = next_keypair d"
    and "\<And>k. kp_sendNonce (keypair_store d' k) = kp_sendNonce (keypair_store d k) \<or>
      kp_sendNonce (keypair_store d' k) = RejectAfterMessages"
    and "\<And>q. kp_ids (keypairs (peer_store d' q)) \<subseteq> kp_ids (keypairs (peer_store d q))"
  shows "nonce_inv d'"
proof (rule nonce_invI)
  have u: "uses d' = uses d" using assms by (rule_tac uses_cong)
  then show "distinct (uses d')" using nonce_invD(1) [OF assms(1)] by simp
  fix ko n assume "(ko, n) \<in> set (uses d')"
  then obtain k where "k < next_keypair d" "ko = Some k" "n < kp_sendNonce (keypair_store d k)"
    using nonce_invD(2) [OF assms(1)] u by metis
  then show "\<exists>k < next_keypair d'. ko = Some k \<and> n < kp_sendNonce (keypair_store d' k)"
    using assms(4) assms(5) [of k] nonce_invD(3) [OF assms(1), of k] by fastforce
next
  fix k assume "k < next_keypair d'"
  then show "kp_sendNonce (keypair_store d' k) \<le> RejectAfterMessages"
    using assms(4) assms(5) [of k] nonce_invD(3) [OF assms(1), of k] by auto
next
  fix q k assume "k \<in> kp_ids (keypairs (peer_store d' q))"
  then show "k < next_keypair d'" using assms(4) assms(6) [of q] nonce_invD(4) [OF assms(1), of k q] by auto
qed (use assms(2,3) nonce_invD(5) [OF assms(1)] in auto)

interpretation nonces: device_invariant nonce_inv
proof unfold_locales
  fix d d' :: Device
  assume "nonce_inv d" "calm d d'"
  then show "nonce_inv d'"
    by (elim nonce_inv_cong) (auto simp: calm_def view_def peer_view_def fun_eq_iff)
next
  fix d d' C i
  assume I: "nonce_inv d" and r: "RoutineEncryption C i d = Ran d'"
  show "nonce_inv d'"
    by (rule nonce_invI) (use nonce_invD [OF I] uses_encrypted [OF r] in auto)
next
  fix d d' C i
  assume "nonce_inv d" "RoutineDecryption C i d = Ran d'"
  then show "nonce_inv d'"
    by (elim nonce_inv_cong) (auto simp: RoutineDecryption_def Let_def split: if_splits)
next
  fix d :: Device and els p
  assume I: "nonce_inv d"
  have "uses (push_inbound els p d) = uses d"
    using nonce_invD(5) [OF I, of "next_cont d"] by (simp add: push_inbound_def uses_def cont_uses_def Let_def upd_simps)
  then show "nonce_inv (push_inbound els p d)"
    by (intro nonce_invI) (use nonce_invD [OF I] in \<open>auto simp: push_inbound_def Let_def upd_simps split: if_splits\<close>)
next
  fix d C pk
  assume "nonce_inv d"
  then show "nonce_inv (fst (NewPeer C pk d))"
    by (rule nonce_inv_cong) (auto simp: NewPeer_def Let_def timersInit_def zeroPeer_def kp_ids_def case_prod_unfold)
next
  fix d p k elems
  assume "nonce_inv d" "current (keypairs (peer_store d p)) = Some k"
  then show "nonce_inv (fst (sendContainer p k elems d))" by (rule nonce_inv_send)
next
  fix d C e p
  assume "nonce_inv d"
  then show "nonce_inv (fst (BeginSymmetricSession C e d p))" by (rule nonce_inv_session)
qed (auto elim!: nonce_inv_cong
    simp: upd_simps kp_ids_def ReceivedWithKeypair_def DeleteKeypair_def deleteIndex_def Let_def split: option.splits if_splits)

lemma nonce_inv_NewDevice: "nonce_inv (NewDevice m)"
  by (simp add: NewDevice_def zeroDevice_def zeroPeer_def nonce_inv_def uses_def kp_ids_def Let_def)

text \<open>
  C2. A nonce is never used twice.  In every state that a device can reach from its creation (or from
  another state with the invariant), by any
  interleaving of its goroutines, its timers and calls of its interface, with any datagrams, TUN
  packets, configuration texts, clocks and random draws: all transport elements that were ever given a
  nonce have different pairs of keypair and nonce, and every nonce is below the limit
  \<open>RejectAfterMessages\<close> and below the counter of its keypair.
\<close>

theorem nonce_never_reused:
  assumes start: "d0 = NewDevice m \<or> nonce_inv d0" and run: "reaches C d0 d"
  shows "distinct (uses d) \<and>
    (\<forall>(ko, n) \<in> set (uses d). \<exists>k. ko = Some k \<and> n < kp_sendNonce (keypair_store d k) \<and>
       kp_sendNonce (keypair_store d k) \<le> RejectAfterMessages)"
proof -
  have "nonce_inv d0" using start nonce_inv_NewDevice by blast
  then have I: "nonce_inv d" by (rule nonces.inv_reaches [OF run])
  have "\<exists>k. ko = Some k \<and> n < kp_sendNonce (keypair_store d k) \<and> kp_sendNonce (keypair_store d k) \<le> RejectAfterMessages"
    if "(ko, n) \<in> set (uses d)" for ko n
    using nonce_invD(2) [OF I that] nonce_invD(3) [OF I] by blast
  then show ?thesis using nonce_invD(1) [OF I] by auto
qed

text \<open>The demo device sends two keepalives, under the nonces 0 and 1.\<close>

lemma demo_nonce_inv: "nonce_inv demo_device"
  by (auto simp: nonce_inv_def uses_def kp_ids_def demo_device_def zeroDevice_def zeroPeer_def demo_keypair_def)

definition demo_ready :: "u64 \<Rightarrow> Device \<Rightarrow> bool" where
  "demo_ready n d \<longleftrightarrow> isUp d \<and> staged (peer_store d 0) = [] \<and> isRunning (peer_store d 0) \<and>
     current (keypairs (peer_store d 0)) = Some 0 \<and> kp_sendNonce (keypair_store d 0) = n \<and> kp_created (keypair_store d 0) = 0"

lemma demo_keepalive:
  assumes d: "demo_ready n d" and n: "n < 5"
  shows "demo_ready (n + 1) (SendKeepalive plain_crypto demo_env 0 d)"
    and "uses (SendKeepalive plain_crypto demo_env 0 d) = uses d @ [(Some 0, n)]"
proof -
  let ?el = "\<lparr>oe_packet = [], oe_nonce = n, oe_keypair = Some 0, oe_peer = Some 0\<rparr>"
  let ?d = "upd_keypair 0 (\<lambda>kp. kp\<lparr>kp_sendNonce := n + 1\<rparr>) (upd_peer 0 (\<lambda>pr. pr\<lparr>staged := []\<rparr>)
      (upd_peer 0 (\<lambda>pr. pr\<lparr>staged := [[NewOutboundElement]]\<rparr>) d))"
  have lt: "\<not> RejectAfterMessages \<le> n" using n by (auto simp: RejectAfterMessages_num word_le_nat_alt word_less_nat_alt)
  have t: "\<not> RejectAfterTime \<le> time_sub (now demo_env) 0"
    by (simp add: demo_env_def RejectAfterTime_def Second_def time_sub_def maxDuration_def minDuration_def)
  have "staged (peer_store (push_outbound [?el] 0 ?d) 0) = []" by (simp add: push_outbound_def Let_def upd_simps)
  then have eq: "SendKeepalive plain_crypto demo_env 0 d = push_outbound [?el] 0 ?d"
    using d lt t by (simp add: demo_ready_def SendKeepalive_def SendStagedPackets_def sendStaged.simps upd_simps
        QueueStagedSize_def sendContainer_def isUp_def Let_def NewOutboundElement_def upd_peer_def [where d = d])
  show "demo_ready (n + 1) (SendKeepalive plain_crypto demo_env 0 d)"
    using d by (simp add: eq demo_ready_def push_outbound_def Let_def upd_simps isUp_def)
  have "uses ?d = uses d" by (rule uses_cong) (simp_all add: upd_simps)
  then show "uses (SendKeepalive plain_crypto demo_env 0 d) = uses d @ [(Some 0, n)]"
    by (simp add: eq uses_push_outbound cont_uses_def)
qed

theorem nonce_never_reused_witness:
  "\<exists>d. reaches plain_crypto demo_device d \<and> uses d = [(Some 0, 0), (Some 0, 1)] \<and> distinct (uses d)"
proof -
  let ?d = "SendKeepalive plain_crypto demo_env 0 (SendKeepalive plain_crypto demo_env 0 demo_device)"
  have 0: "demo_ready 0 demo_device" by (simp add: demo_ready_def demo_device_sel demo_keypair_def)
  have run: "reaches plain_crypto demo_device ?d" by (rule reaches_step [OF reaches_step [OF reaches_refl keepalive] keepalive])
  have "uses demo_device = []" by (simp add: uses_def demo_device_sel)
  then have "uses ?d = [(Some 0, 0), (Some 0, 1)]"
    using demo_keepalive [OF 0] demo_keepalive(2) [of "0 + 1"] by simp
  then show ?thesis using nonce_never_reused [OF disjI2 [OF demo_nonce_inv] run] run by blast
qed

subsection \<open>Staging queues\<close>

definition staged_inv :: "Device \<Rightarrow> bool" where
  "staged_inv d \<longleftrightarrow> (\<forall>p. length (staged (peer_store d p)) \<le> QueueStagedSize)"

lemma staged_cong:
  "staged_inv d \<Longrightarrow> (\<And>q. staged (peer_store d' q) = staged (peer_store d q)) \<Longrightarrow> staged_inv d'"
  by (simp add: staged_inv_def)

lemma staged_sendContainer:
  assumes "staged_inv d"
  shows "staged_inv (fst (sendContainer p k elems d))"
proof -
  obtain kept ooo n where a: "assign p k (kp_sendNonce (keypair_store d k)) elems = (kept, ooo, n)"
    by (cases "assign p k (kp_sendNonce (keypair_store d k)) elems")
  obtain d' again where r: "sendContainer p k elems d = (d', again)" by fastforce
  have "staged (peer_store d' q) = staged (peer_store d q)" if "q \<noteq> p" for q
    using r a that by (auto simp: sendContainer_def push_outbound_def StagePackets_def Let_def upd_simps split: if_splits)
  moreover have "length (staged (peer_store d' p)) \<le> QueueStagedSize"
    using sendContainer_sel(3) [OF r a] stage_length [of ooo "staged (peer_store d p)"] assms
    by (auto simp: staged_inv_def max_def split: if_splits)
  ultimately have "length (staged (peer_store d' q)) \<le> QueueStagedSize" for q
    using assms by (cases "q = p") (auto simp: staged_inv_def)
  then show ?thesis using r by (simp add: staged_inv_def)
qed

interpretation stages: device_invariant staged_inv
proof unfold_locales
  fix d d' :: Device
  assume "staged_inv d" "calm d d'"
  then show "staged_inv d'" by (elim staged_cong) (auto simp: calm_def view_def peer_view_def fun_eq_iff)
next
  fix d :: Device and q :: "OutElem list list" and p
  assume "staged_inv d" "length q \<le> max (length (staged (peer_store d p))) QueueStagedSize"
  then show "staged_inv (upd_peer p (\<lambda>pr. pr\<lparr>staged := q\<rparr>) d)" by (fastforce simp: staged_inv_def upd_simps max_def split: if_splits)
next
  fix d C e p
  assume "staged_inv d"
  then show "staged_inv (fst (BeginSymmetricSession C e d p))"
    by - (rule session_sel [OF surjective_pairing, of C e d p], auto elim: staged_cong)
next
  fix d p k elems
  assume "staged_inv d"
  then show "staged_inv (fst (sendContainer p k elems d))" by (rule staged_sendContainer)
next
  fix d C pk
  assume "staged_inv d"
  then show "staged_inv (fst (NewPeer C pk d))"
    by (auto simp: staged_inv_def NewPeer_def Let_def timersInit_def zeroPeer_def case_prod_unfold)
qed (auto elim!: staged_cong simp: upd_simps ReceivedWithKeypair_def DeleteKeypair_def deleteIndex_def RoutineEncryption_def
    RoutineDecryption_def push_inbound_def Let_def split: option.splits if_splits)

subsection \<open>The index table\<close>

text \<open>Every entry has a peer, and keypairs in the table and in received elements exist.\<close>

definition index_inv :: "Device \<Rightarrow> bool" where
  "index_inv d \<longleftrightarrow>
     (\<forall>i x. indexTable d i = Some x \<longrightarrow> ite_peer x \<noteq> None \<and> (\<forall>k. ite_keypair x = Some k \<longrightarrow> k < next_keypair d)) \<and>
     (\<forall>c. \<forall>el \<in> set (ic_elems (in_cont d c)). ie_keypair el < next_keypair d)"

lemma index_invD:
  assumes "index_inv d"
  shows "indexTable d i = Some x \<Longrightarrow> ite_peer x \<noteq> None"
    "indexTable d i = Some x \<Longrightarrow> ite_keypair x = Some k \<Longrightarrow> k < next_keypair d"
    "el \<in> set (ic_elems (in_cont d c)) \<Longrightarrow> ie_keypair el < next_keypair d"
  using assms unfolding index_inv_def by blast+

lemma index_cong:
  assumes "index_inv d" "\<And>i x. indexTable d' i = Some x \<Longrightarrow> indexTable d i = Some x" "next_keypair d' = next_keypair d"
    "in_cont d' = in_cont d"
  shows "index_inv d'"
  using assms unfolding index_inv_def by metis

interpretation indices: device_invariant index_inv
proof unfold_locales
  fix d d' :: Device
  assume "index_inv d" "calm d d'"
  then show "index_inv d'" 
    by (simp add: index_inv_def calm_def view_def) (metis option.distinct(1))
next
  fix d C e p
  assume I: "index_inv d"
  show "index_inv (fst (BeginSymmetricSession C e d p))"
  proof (cases rule: session_sel [OF surjective_pairing, of C e d p, case_names failed derived])
    case (derived kp)
    moreover have "in_cont (fst (BeginSymmetricSession C e d p)) = in_cont d" using restD(4) [OF frame_BeginSymmetricSession] .
    ultimately show ?thesis using I derived(4,10) unfolding index_inv_def
      by (simp add: less_Suc_eq) (metis option.inject)
  qed (use I in simp)
next
  fix d p k elems
  assume "index_inv d"
  then show "index_inv (fst (sendContainer p k elems d))"
    by (elim index_cong) (auto simp: sendContainer_def push_outbound_def StagePackets_def Let_def upd_simps case_prod_unfold split: if_splits)
next
  fix d p k
  assume "index_inv d"
  then show "index_inv (fst (ReceivedWithKeypair d p k))"
    by (elim index_cong) (auto simp: ReceivedWithKeypair_def DeleteKeypair_def deleteIndex_def it_Delete_def Let_def upd_simps
        split: option.splits if_splits)
next
  fix d d' C i
  assume I: "index_inv d" and r: "RoutineDecryption C i d = Ran d'"
  let ?c = "decryption_q d ! i"
  let ?els = "map (decryptElem C d) (ic_elems (in_cont d ?c))"
  have r: "None \<notin> set ?els" "d' = d\<lparr>decryption_q := take i (decryption_q d) @ drop (Suc i) (decryption_q d),
      in_cont := (in_cont d)(?c := \<lparr>ic_elems = map the ?els, ic_locked = False\<rparr>)\<rparr>"
    using r by (auto simp: RoutineDecryption_def Let_def split: if_splits)
  have "ie_keypair (the (decryptElem C d el)) = ie_keypair el" if "el \<in> set (ic_elems (in_cont d ?c))" for el
    using r(1) that by (auto simp: decryptElem_def Let_def image_iff split: option.splits if_splits)
  then show "index_inv d'" using index_invD [OF I] by (auto simp: index_inv_def r(2))
next
  fix d :: Device and els p
  assume "index_inv d" "list_all (inbound_from d p) els"
  then show "index_inv (push_inbound els p d)"
    by (auto simp: index_inv_def push_inbound_def Let_def upd_simps inbound_from_def list_all_iff)
qed (auto elim!: index_cong simp: upd_simps NewPeer_def RoutineEncryption_def Let_def case_prod_unfold split: if_splits)

subsection \<open>Replays\<close>

text \<open>\<open>seen K A d\<close>: each keypair below \<open>K\<close> still refuses the counters that \<open>A\<close> says it has accepted.\<close>

definition seen :: "keypair_id \<Rightarrow> (keypair_id \<Rightarrow> nat set) \<Rightarrow> Device \<Rightarrow> bool" where
  "seen K A d \<longleftrightarrow> K \<le> next_keypair d \<and> (\<exists>S. filters_rel d S \<and> (\<forall>k < K. A k \<subseteq> snd (S k)))"

lemma seenI: "K \<le> next_keypair d \<Longrightarrow> filters_rel d S \<Longrightarrow> \<forall>k < K. A k \<subseteq> snd (S k) \<Longrightarrow> seen K A d"
  by (auto simp: seen_def)

lemma seen_cong:
  "seen K A d \<Longrightarrow> next_keypair d \<le> next_keypair d' \<Longrightarrow> rfilters d' = rfilters d \<Longrightarrow> seen K A d'"
  by (auto simp: seen_def filters_rel_def)

lemma seen_filtering:
  assumes "seen K A d"
  shows "seen K A (upd_keypair k (\<lambda>kp. kp\<lparr>kp_replayFilter := snd (ValidateCounter (kp_replayFilter (keypair_store d k)) c l)\<rparr>) d)"
proof -
  obtain S where S: "filters_rel d S" "\<forall>k < K. A k \<subseteq> snd (S k)" using assms by (auto simp: seen_def)
  obtain ok f where v: "ValidateCounter (rfilters d k) c l = (ok, f)" by fastforce
  let ?S = "S(k := spec_step (S k) (unat c) (unat l))"
  have "filter_rel f (spec_step (S k) (unat c) (unat l))"
    using ValidateCounter_refines(2) [OF _ v] S(1) by (simp add: filters_rel_def)
  then have "filters_rel (upd_keypair k (\<lambda>kp. kp\<lparr>kp_replayFilter := f\<rparr>) d) ?S"
    using S(1) by (simp add: filters_rel_def)
  moreover have "\<forall>j < K. A j \<subseteq> snd (?S j)" using S(2) by (auto simp: spec_step_def)
  ultimately show ?thesis using assms v by (intro seenI [of _ _ ?S]) (auto simp: seen_def rfilters_def upd_simps)
qed

lemma seen_session:
  assumes "seen K A d"
  shows "seen K A (fst (BeginSymmetricSession C e d p))"
proof (cases rule: session_sel [OF surjective_pairing, of C e d p, case_names failed derived])
  case (derived kp)
  obtain S where S: "filters_rel d S" "\<forall>k < K. A k \<subseteq> snd (S k)" "K \<le> next_keypair d" using assms by (auto simp: seen_def)
  let ?d = "fst (BeginSymmetricSession C e d p)" and ?S = "S(next_keypair d := (0, {}))"
  have "rfilters ?d = (rfilters d)(next_keypair d := Reset emptyFilter)" using derived(1,3) by (auto simp: rfilters_def)
  moreover have "filter_rel (Reset emptyFilter) (0, {})"
    by (rule filter_rel_Reset) (simp add: emptyFilter_def replay_consts)
  ultimately have "filters_rel ?d ?S" using S(1) by (simp add: filters_rel_def)
  moreover have "\<forall>j < K. A j \<subseteq> snd (?S j)" using S(2,3) by auto
  ultimately show ?thesis using S(3) derived(4) by (intro seenI [of _ _ ?S]) auto
qed (use assms in simp)

interpretation replays: device_invariant "seen K A" for K A
proof unfold_locales
  fix d d' :: Device
  assume "seen K A d" "calm d d'"
  then show "seen K A d'" by (elim seen_cong) (auto simp: calm_def view_def rfilters_def fun_eq_iff)
next
  fix d k c l
  assume "seen K A d"
  then show "seen K A (upd_keypair k (\<lambda>kp. kp\<lparr>kp_replayFilter := snd (ValidateCounter (kp_replayFilter (keypair_store d k)) c l)\<rparr>) d)"
    by (rule seen_filtering)
next
  fix d C e p
  assume "seen K A d"
  then show "seen K A (fst (BeginSymmetricSession C e d p))" by (rule seen_session)
next
  fix d p k elems
  assume "seen K A d"
  then show "seen K A (fst (sendContainer p k elems d))"
    by (elim seen_cong)
      (auto simp: sendContainer_def push_outbound_def StagePackets_def Let_def upd_simps rfilters_def case_prod_unfold)
next
  fix d p k
  assume "seen K A d"
  then show "seen K A (fst (ReceivedWithKeypair d p k))"
    by (elim seen_cong) (auto simp: ReceivedWithKeypair_def Let_def rfilters_def upd_simps)
next
  fix d :: Device and els p
  assume "seen K A d"
  then show "seen K A (push_inbound els p d)"
    by (elim seen_cong) (auto simp: push_inbound_def Let_def upd_simps rfilters_def)
next
  fix d C pk
  assume "seen K A d"
  then show "seen K A (fst (NewPeer C pk d))"
    by (elim seen_cong) (auto simp: NewPeer_def Let_def rfilters_def case_prod_unfold)
qed (auto elim!: seen_cong simp: upd_simps rfilters_def RoutineEncryption_def RoutineDecryption_def Let_def split: if_splits)

lemma seen_NewDevice: "seen 0 A (NewDevice m)"
proof -
  have "filter_rel emptyFilter (0, {})"
    by (auto simp: filter_rel_def emptyFilter_def replay_consts)
  then have "filters_rel (NewDevice m) (\<lambda>_. (0, {}))"
    by (simp add: filters_rel_def rfilters_def NewDevice_def zeroDevice_def Let_def)
  then show ?thesis by (auto simp: seen_def)
qed

lemma index_inv_NewDevice: "index_inv (NewDevice m)"
  by (simp add: index_inv_def NewDevice_def zeroDevice_def it_Init_def Let_def)

lemma seen_refuses:
  assumes "seen K A d" "k < K" "unat c \<in> A k"
  shows "\<not> fst (ValidateCounter (kp_replayFilter (keypair_store d k)) c l)"
proof -
  obtain S where S: "filters_rel d S" "\<forall>k < K. A k \<subseteq> snd (S k)" using assms(1) by (auto simp: seen_def)
  obtain ok f where v: "ValidateCounter (rfilters d k) c l = (ok, f)" by fastforce
  have "ok = spec_accepts (S k) (unat c) (unat l)"
    using ValidateCounter_refines(1) [OF _ v] S(1) by (simp add: filters_rel_def)
  moreover have "unat c \<in> snd (S k)" using S(2) assms(2,3) by blast
  ultimately show ?thesis using v by (simp add: rfilters_def spec_accepts_def)
qed

text \<open>What the property below asks of the state a run starts in; a new device has it.\<close>

definition receiver_ok :: "Device \<Rightarrow> bool" where
  "receiver_ok d \<longleftrightarrow> index_inv d \<and> (\<exists>S. filters_rel d S)"

lemma receiver_ok_NewDevice: "receiver_ok (NewDevice m)"
  using index_inv_NewDevice seen_NewDevice [of "\<lambda>_. {}"] by (auto simp: receiver_ok_def seen_def)

text \<open>
  C3. Only genuine packets reach the TUN device, and each once, over the whole life of a device.  Take any
  state \<open>d\<close> reachable from the creation of the device, or from any other state whose replay
  filters and index table are in order, a run of the sequential receiver of peer \<open>p\<close> there, and any
  state \<open>d'\<close> reached later.  The packets the receiver writes are, in order, prefixes of packets of a
  subsequence of the elements of its first container; each element decrypted, its source address is
  routed to \<open>p\<close>, and its counter is below the limit; the pairs of keypair and counter are all
  different; and in \<open>d'\<close>, whatever happened in between, the keypair refuses the counter.
\<close>

theorem delivered_once:
  assumes start: "d0 = NewDevice m \<or> receiver_ok d0" and run: "reaches C d0 d"
    and r: "RoutineSequentialReceiver C e p d = Ran d1" and later: "reaches C d1 d'"
  shows "\<exists>c es bs. c = hd (inbound (peer_store d p)) \<and> written d1 = written d @ bs \<and> subseq es (ic_elems (in_cont d c)) \<and>
    list_all2 (delivered d p) es bs \<and> distinct (map (\<lambda>el. (ie_keypair el, ie_counter el)) es) \<and>
    (\<forall>el \<in> set es. ie_counter el < RejectAfterMessages \<and>
       \<not> fst (ValidateCounter (kp_replayFilter (keypair_store d' (ie_keypair el))) (ie_counter el) l))"
proof -
  have "receiver_ok d0" using start receiver_ok_NewDevice by blast
  then have 0: "index_inv d0" "seen 0 (\<lambda>_. {}) d0" by (auto simp: receiver_ok_def seen_def)
  have "index_inv d" "seen 0 (\<lambda>_. {}) d"
    using indices.inv_reaches [OF run 0(1)] replays.inv_reaches [OF run 0(2)] .
  then obtain S where S: "filters_rel d S" by (auto simp: seen_def)
  obtain c more where q: "inbound (peer_store d p) = c # more"
      "receiveContainer C e p (ic_elems (in_cont d c)) (upd_peer p (\<lambda>pr. pr\<lparr>inbound := more\<rparr>) d) = Ran d1"
    using r by (auto simp: RoutineSequentialReceiver_def split: list.splits if_splits)
  let ?d = "upd_peer p (\<lambda>pr. pr\<lparr>inbound := more\<rparr>) d"
  have "filters_rel ?d S" using S by (simp add: filters_rel_def)
  then obtain es bs S' where D: "written d1 = written ?d @ bs" "filters_rel d1 S'"
      "deliveries ?d p S (ic_elems (in_cont d c)) es bs S'"
    using receiveContainer_deliveries [OF q(2)] by blast
  have "seen (next_keypair d) (\<lambda>_. {}) d" using S by (intro seenI) auto
  then have "seen (next_keypair d) (\<lambda>_. {}) d1" by (rule replays.inv_RoutineSequentialReceiver [OF _ r])
  then have "next_keypair d \<le> next_keypair d1" by (simp add: seen_def)
  then have "seen (next_keypair d) (\<lambda>k. snd (S' k)) d1" using D(2) by (intro seenI) auto
  then have fin: "seen (next_keypair d) (\<lambda>k. snd (S' k)) d'" by (rule replays.inv_reaches [OF later])
  have "\<not> fst (ValidateCounter (kp_replayFilter (keypair_store d' (ie_keypair el))) (ie_counter el) l)" if "el \<in> set es" for el
  proof -
    have "el \<in> set (ic_elems (in_cont d c))" using that D(3) by (auto simp: deliveries_def elim: list_emb_set)
    then have "ie_keypair el < next_keypair d" using index_invD(3) [OF \<open>index_inv d\<close>] by blast
    moreover have "unat (ie_counter el) \<in> snd (S' (ie_keypair el))" using that D(3) by (simp add: deliveries_def)
    ultimately show ?thesis by (rule seen_refuses [OF fin])
  qed
  moreover have "delivered ?d = delivered d" by (auto simp: delivered_def upd_simps fun_eq_iff)
  ultimately show ?thesis using D q(1) by (intro exI [of _ c] exI [of _ es] exI [of _ bs]) (auto simp: deliveries_def upd_simps)
qed

text \<open>The demo device with one decrypted element in the queue of its peer; after its delivery nothing happens.\<close>

definition demo_elem :: InElem where
  "demo_elem = \<lparr>ie_packet = Some demo_packet, ie_counter = 0, ie_keypair = 0, ie_endpoint = demo_endpoint\<rparr>"

definition demo_queued :: Device where
  "demo_queued = upd_peer 0 (\<lambda>pr. pr\<lparr>inbound := [0]\<rparr>)
     (demo_device\<lparr>in_cont := (\<lambda>_. \<lparr>ic_elems = [], ic_locked = False\<rparr>)(0 := \<lparr>ic_elems = [demo_elem], ic_locked = False\<rparr>)\<rparr>)"

lemma demo_receiver_ok: "receiver_ok demo_queued"
proof -
  have "filters_rel demo_queued (\<lambda>_. (0, {}))"
    using demo_filters by (simp add: filters_rel_def rfilters_def demo_queued_def upd_simps demo_device_def)
  moreover have "index_inv demo_queued"
    by (auto simp: index_inv_def demo_queued_def upd_simps demo_device_def demo_elem_def split: if_splits)
  ultimately show ?thesis by (auto simp: receiver_ok_def)
qed

lemma demo_delivery:
  "\<exists>d1. RoutineSequentialReceiver plain_crypto demo_env 0 demo_queued = Ran d1 \<and> written d1 = [demo_packet]"
proof -
  let ?d = "upd_peer 0 (\<lambda>pr. pr\<lparr>inbound := []\<rparr>) demo_queued"
  have sel: "allowedips ?d = demo_table" "keypair_store ?d 0 = demo_keypair" "written ?d = []"
    by (simp_all add: demo_queued_def upd_simps demo_device_sel)
  have "checkPacket ?d 0 demo_packet = Some (Some demo_packet)"
    using checkPacket_padded [OF demo_ip, of ?d 0 "[]"] demo_route sel by simp
  then have "\<exists>d1. receiveContainer plain_crypto demo_env 0 [demo_elem] ?d = Ran d1 \<and> written d1 = [demo_packet]"
    using receiveContainer_one [of demo_elem demo_packet ?d 0 demo_packet plain_crypto demo_env] demo_counter sel
    by (simp add: demo_elem_def demo_keypair_def demo_packet_def)
  then show ?thesis by (simp add: RoutineSequentialReceiver_def demo_queued_def upd_simps)
qed

theorem delivered_once_witness:
  "\<exists>d1. RoutineSequentialReceiver plain_crypto demo_env 0 demo_queued = Ran d1 \<and> written d1 = [demo_packet] \<and>
     \<not> fst (ValidateCounter (kp_replayFilter (keypair_store d1 0)) 0 RejectAfterMessages)"
proof -
  obtain d1 where d1: "RoutineSequentialReceiver plain_crypto demo_env 0 demo_queued = Ran d1" "written d1 = [demo_packet]"
    using demo_delivery by blast
  have q: "hd (inbound (peer_store demo_queued 0)) = 0" "ic_elems (in_cont demo_queued 0) = [demo_elem]" "written demo_queued = []"
    by (simp_all add: demo_queued_def upd_simps demo_device_sel)
  obtain es bs where R: "written d1 = written demo_queued @ bs" "subseq es [demo_elem]" "list_all2 (delivered demo_queued 0) es bs"
      "\<forall>el \<in> set es. \<not> fst (ValidateCounter (kp_replayFilter (keypair_store d1 (ie_keypair el))) (ie_counter el) RejectAfterMessages)"
    using delivered_once [OF disjI2 [OF demo_receiver_ok] reaches_refl d1(1) reaches_refl, of RejectAfterMessages] q by auto
  have "es = [demo_elem]" using R d1(2) q(3) by (cases es) (auto dest: list_emb_length simp: subseq_Cons2_iff split: if_splits)
  then show ?thesis using R(4) d1 by (auto simp: demo_elem_def)
qed

end
