(* ===== verification/Workers.thy ===== *)
theory Workers
  imports Nonces
begin

text \<open>
  The goroutines of a device never panic, and shutting it down always comes to an end.  The invariant
  \<open>sound\<close> ties each locked container to the queue of the workers that will unlock it, and says that what
  the queues hold is well formed.
\<close>

definition queue_ok :: "(container_id \<Rightarrow> bool) \<Rightarrow> container_id list \<Rightarrow> nat \<Rightarrow> bool" where
  "queue_ok locked q n \<longleftrightarrow> distinct q \<and> (\<forall>c. locked c \<longleftrightarrow> c \<in> set q) \<and> (\<forall>c \<in> set q. c < n)"

definition contents_ok :: "Device \<Rightarrow> bool" where
  "contents_ok d \<longleftrightarrow>
     (\<forall>c. \<forall>el \<in> set (oc_elems (out_cont d c)). oe_keypair el \<noteq> None) \<and>
     (\<forall>c \<in> set (decryption_q d). list_all inbound_ok (ic_elems (in_cont d c))) \<and>
     list_all handshake_ok (handshake_q d)"

definition queues_ok :: "Device \<Rightarrow> bool" where
  "queues_ok d \<longleftrightarrow> queue_ok (\<lambda>c. oc_locked (out_cont d c)) (encryption_q d) (next_cont d) \<and>
     queue_ok (\<lambda>c. ic_locked (in_cont d c)) (decryption_q d) (next_cont d)"

definition sound :: "Device \<Rightarrow> bool" where
  "sound d \<longleftrightarrow> 0 \<le> mtu d \<and> (\<exists>m. table_rel (allowedips d) m) \<and> contents_ok d \<and> queues_ok d \<and>
     (\<not> isClosed d \<longrightarrow> gc_alive (limiter d))"

subsection \<open>The invariant\<close>

lemma queue_ok_push:
  "queue_ok locked q n \<Longrightarrow> (\<And>c. locked' c \<longleftrightarrow> c = n \<or> locked c) \<Longrightarrow> queue_ok locked' (q @ [n]) (Suc n)"
  by (auto simp: queue_ok_def less_Suc_eq)

lemma queue_ok_more: "queue_ok locked q n \<Longrightarrow> queue_ok locked q (Suc n)"
  by (auto simp: queue_ok_def less_Suc_eq)

lemma queue_ok_take:
  assumes "queue_ok locked q n" "i < length q" "\<And>c. locked' c \<longleftrightarrow> c \<noteq> q ! i \<and> locked c"
  shows "queue_ok locked' (take i q @ drop (Suc i) q) n"
proof -
  have "q = take i q @ q ! i # drop (Suc i) q" using assms(2) by (rule id_take_nth_drop)
  then have "distinct (take i q @ q ! i # drop (Suc i) q)" "set q = insert (q ! i) (set (take i q @ drop (Suc i) q))"
    using assms(1) by (metis queue_ok_def, metis (no_types) Un_insert_right list.set(2) set_append)
  then show ?thesis using assms(1,3) by (auto simp: queue_ok_def)
qed

lemma sound_cong:
  assumes "sound d" "mtu d' = mtu d" "allowedips d' = allowedips d" "out_cont d' = out_cont d" "in_cont d' = in_cont d"
    "encryption_q d' = encryption_q d" "decryption_q d' = decryption_q d" "next_cont d' = next_cont d"
    "handshake_q d' = handshake_q d" "limiter d' = limiter d" "dstate d' = dstate d"
  shows "sound d'"
  using assms by (simp add: sound_def contents_ok_def queues_ok_def isClosed_def)

lemma soundD:
  assumes "sound d"
  shows "0 \<le> mtu d" "contents_ok d" "queues_ok d" "\<exists>m. table_rel (allowedips d) m" "\<not> isClosed d \<Longrightarrow> gc_alive (limiter d)"
  using assms by (auto simp: sound_def)

lemma sound_encrypting:
  assumes s: "sound d" and r: "RoutineEncryption C i d = Ran d'"
  shows "sound d'"
proof -
  let ?c = "encryption_q d ! i"
  let ?els = "map (encryptElem C d) (oc_elems (out_cont d ?c))"
  have r: "i < length (encryption_q d)" "None \<notin> set ?els"
      "d' = d\<lparr>encryption_q := take i (encryption_q d) @ drop (Suc i) (encryption_q d),
      out_cont := (out_cont d)(?c := \<lparr>oc_elems = map the ?els, oc_locked = False\<rparr>)\<rparr>"
    using r by (auto simp: RoutineEncryption_def Let_def split: if_splits)
  have "oe_keypair (the (encryptElem C d el)) = oe_keypair el" if "el \<in> set (oc_elems (out_cont d ?c))" for el
    using r(2) that by (auto simp: encryptElem_def Let_def image_iff split: option.splits if_splits)
  then have "contents_ok d'" using soundD(2) [OF s] by (auto simp: contents_ok_def r(3))
  moreover have "queue_ok (\<lambda>c. oc_locked (out_cont d' c)) (take i (encryption_q d) @ drop (Suc i) (encryption_q d)) (next_cont d)"
    using soundD(3) [OF s] by (intro queue_ok_take [OF _ r(1)]) (auto simp: queues_ok_def r(3))
  then have "queues_ok d'" using soundD(3) [OF s] by (simp add: queues_ok_def r(3))
  ultimately show ?thesis using s by (simp add: sound_def r(3) isClosed_def)
qed

lemma sound_decrypting:
  assumes s: "sound d" and r: "RoutineDecryption C i d = Ran d'"
  shows "sound d'"
proof -
  let ?c = "decryption_q d ! i"
  let ?els = "map (decryptElem C d) (ic_elems (in_cont d ?c))"
  have r: "i < length (decryption_q d)"
      "d' = d\<lparr>decryption_q := take i (decryption_q d) @ drop (Suc i) (decryption_q d),
      in_cont := (in_cont d)(?c := \<lparr>ic_elems = map the ?els, ic_locked = False\<rparr>)\<rparr>"
    using r by (auto simp: RoutineDecryption_def Let_def split: if_splits)
  have q: "queue_ok (\<lambda>c. ic_locked (in_cont d' c)) (take i (decryption_q d) @ drop (Suc i) (decryption_q d)) (next_cont d)"
    using soundD(3) [OF s] by (intro queue_ok_take [OF _ r(1)]) (auto simp: queues_ok_def r(2))
  moreover have "\<not> ic_locked (in_cont d' ?c)" by (simp add: r(2))
  ultimately have "?c \<notin> set (take i (decryption_q d) @ drop (Suc i) (decryption_q d))" unfolding queue_ok_def by blast
  moreover have "set (take i (decryption_q d) @ drop (Suc i) (decryption_q d)) \<subseteq> set (decryption_q d)"
    by (auto dest: in_set_takeD in_set_dropD)
  ultimately have "contents_ok d'" using soundD(2) [OF s] by (auto simp: contents_ok_def r(2) split: if_splits)
  moreover have "queues_ok d'" using q soundD(3) [OF s] by (simp add: queues_ok_def r(2))
  ultimately show ?thesis using s by (simp add: sound_def r(2) isClosed_def)
qed

lemma assign_keypair: "assign p k n els = (kept, ooo, n') \<Longrightarrow> el \<in> set kept \<Longrightarrow> oe_keypair el = Some k"
  by (induction els arbitrary: n kept ooo n') (auto simp: Let_def split: if_splits prod.splits)

lemma sound_push_outbound:
  assumes "sound d" "\<And>el. el \<in> set els \<Longrightarrow> oe_keypair el \<noteq> None"
  shows "sound (push_outbound els p d)"
proof -
  let ?d = "push_outbound els p d"
  have sel: "out_cont ?d = (out_cont d)(next_cont d := \<lparr>oc_elems = els, oc_locked = True\<rparr>)" "next_cont ?d = Suc (next_cont d)"
      "encryption_q ?d = encryption_q d @ [next_cont d]" "decryption_q ?d = decryption_q d" "in_cont ?d = in_cont d"
      "mtu ?d = mtu d" "allowedips ?d = allowedips d" "handshake_q ?d = handshake_q d" "limiter ?d = limiter d" "dstate ?d = dstate d"
    by (simp_all add: push_outbound_def Let_def upd_simps)
  have "queue_ok (\<lambda>c. oc_locked (out_cont ?d c)) (encryption_q d @ [next_cont d]) (Suc (next_cont d))"
    using soundD(3) [OF assms(1)] by (intro queue_ok_push [of "\<lambda>c. oc_locked (out_cont d c)"]) (auto simp: queues_ok_def sel)
  then have "queues_ok ?d" using soundD(3) [OF assms(1)] queue_ok_more by (simp add: queues_ok_def sel(2-5))
  moreover have "contents_ok ?d" using soundD(2) [OF assms(1)] assms(2) by (auto simp: contents_ok_def sel)
  ultimately show ?thesis using assms(1) by (simp add: sound_def sel isClosed_def)
qed

lemma sound_sending:
  assumes "sound d"
  shows "sound (fst (sendContainer p k elems d))"
proof -
  obtain kept ooo n where a: "assign p k (kp_sendNonce (keypair_store d k)) elems = (kept, ooo, n)"
    by (cases "assign p k (kp_sendNonce (keypair_store d k)) elems")
  define d1 where "d1 = (let d = upd_keypair k (\<lambda>kp. kp\<lparr>kp_sendNonce := n\<rparr>) d
      in if ooo \<noteq> [] then StagePackets ooo p d else d)"
  have "sound d1" by (rule sound_cong [OF assms]) (simp_all add: d1_def Let_def StagePackets_def upd_simps)
  moreover have "fst (sendContainer p k elems d) = (if kept \<noteq> [] \<and> isRunning (peer_store d1 p) then push_outbound kept p d1 else d1)"
    by (simp add: sendContainer_def a d1_def Let_def)
  ultimately show ?thesis using assign_keypair [OF a] sound_push_outbound by auto
qed

lemma sound_receiving:
  assumes "sound d" "list_all (inbound_from d p) els"
  shows "sound (push_inbound els p d)"
proof -
  let ?d = "push_inbound els p d"
  have sel: "in_cont ?d = (in_cont d)(next_cont d := \<lparr>ic_elems = els, ic_locked = True\<rparr>)" "next_cont ?d = Suc (next_cont d)"
      "decryption_q ?d = decryption_q d @ [next_cont d]" "encryption_q ?d = encryption_q d" "out_cont ?d = out_cont d"
      "mtu ?d = mtu d" "allowedips ?d = allowedips d" "handshake_q ?d = handshake_q d" "limiter ?d = limiter d" "dstate ?d = dstate d"
    by (simp_all add: push_inbound_def Let_def upd_simps)
  have "queue_ok (\<lambda>c. ic_locked (in_cont ?d c)) (decryption_q d @ [next_cont d]) (Suc (next_cont d))"
    using soundD(3) [OF assms(1)] by (intro queue_ok_push [of "\<lambda>c. ic_locked (in_cont d c)"]) (auto simp: queues_ok_def sel)
  then have "queues_ok ?d" using soundD(3) [OF assms(1)] queue_ok_more by (simp add: queues_ok_def sel(2-5))
  moreover have "next_cont d \<notin> set (decryption_q d)" using soundD(3) [OF assms(1)] by (auto simp: queues_ok_def queue_ok_def)
  then have "contents_ok ?d" using soundD(2) [OF assms(1)] assms(2)
    by (auto simp: contents_ok_def sel inbound_from_def list_all_iff)
  ultimately show ?thesis using assms(1) by (simp add: sound_def sel isClosed_def)
qed

interpretation workers: device_invariant sound
proof unfold_locales
  fix d d' :: Device
  assume s: "sound d" and "calm d d'"
  then show "sound d'" by (intro sound_cong [OF s]) (simp_all add: calm_def view_def)
next
  fix d C e p
  assume s: "sound d"
  have v: "rest (fst (BeginSymmetricSession C e d p)) = rest d" by (rule frame_BeginSymmetricSession)
  show "sound (fst (BeginSymmetricSession C e d p))"
    by (cases rule: session_sel [OF surjective_pairing, of C e d p]; use s in \<open>intro sound_cong [OF s]\<close>)
      (simp_all add: restD [OF v])
next
  fix d p k
  assume s: "sound d"
  have v: "rest (fst (ReceivedWithKeypair d p k)) = rest d" by (rule frame_ReceivedWithKeypair)
  show "sound (fst (ReceivedWithKeypair d p k))"
    by (rule sound_cong [OF s]) (simp_all add: restD [OF v], simp_all add: ReceivedWithKeypair_def Let_def upd_simps)
next
  fix d :: Device and hq
  assume "sound d" "set hq \<subseteq> set (handshake_q d) \<union> Collect handshake_ok"
  then show "sound (d\<lparr>handshake_q := hq\<rparr>)"
    by (auto simp: sound_def contents_ok_def queues_ok_def list_all_iff isClosed_def)
next
  fix d :: Device and a t
  assume "sound d" "op_valid a" "table_op a (allowedips d) = Some t"
  then show "sound (d\<lparr>allowedips := t\<rparr>)" using at.op_rel [of "allowedips d" _ a]
    by (fastforce simp: sound_def contents_ok_def queues_ok_def isClosed_def)
next
  fix d :: Device and ev ok r
  assume s: "sound d" "rl_step (limiter d) ev = Some (ok, r)"
  then show "sound (d\<lparr>limiter := r\<rparr>)"
    using gc_alive_step [of "limiter d" ev] by (auto simp: sound_def contents_ok_def queues_ok_def isClosed_def)
next
  fix d :: Device and m :: int
  assume "sound d" "0 \<le> m"
  then show "sound (d\<lparr>mtu := m\<rparr>)" by (simp add: sound_def contents_ok_def queues_ok_def isClosed_def)
next
  fix d :: Device and r
  assume "sound d" "isClosed d"
  then show "sound (d\<lparr>limiter := r\<rparr>)" by (simp add: sound_def contents_ok_def queues_ok_def isClosed_def)
next
  fix d :: Device and st
  assume "sound d" "\<not> isClosed d"
  then show "sound (d\<lparr>dstate := st\<rparr>)" by (simp add: sound_def contents_ok_def queues_ok_def isClosed_def)
next
  fix d C pk
  assume s: "sound d"
  show "sound (fst (NewPeer C pk d))" by (rule sound_cong [OF s]) (simp_all add: NewPeer_def Let_def case_prod_unfold)
qed (erule (1) sound_encrypting sound_decrypting sound_receiving | erule sound_sending
  | erule sound_cong; simp add: upd_simps)+

subsection \<open>No panics\<close>

lemma sound_lookup:
  "sound d \<Longrightarrow> length ip = 4 \<or> length ip = 16 \<Longrightarrow> \<exists>owner. AllowedIPs_Lookup (allowedips d) ip = Some owner"
  using at.lookup_rel soundD(4) by blast

lemma sound_encrypts:
  assumes "sound d" "i < length (encryption_q d)"
  shows "\<exists>d'. RoutineEncryption C i d = Ran d'"
proof -
  have "encryptElem C d el \<noteq> None" if "el \<in> set (oc_elems (out_cont d c))" for el c
    using soundD(1,2) [OF assms(1)] that encryptElem_shape [of el _ d C] by (fastforce simp: contents_ok_def)
  then have "None \<notin> set (map (encryptElem C d) (oc_elems (out_cont d (encryption_q d ! i))))" by fastforce
  then show ?thesis using assms(2) by (simp add: RoutineEncryption_def Let_def)
qed

lemma sound_decrypts:
  assumes "sound d" "i < length (decryption_q d)"
  shows "\<exists>d'. RoutineDecryption C i d = Ran d'"
proof -
  have "inbound_ok el" if "el \<in> set (ic_elems (in_cont d (decryption_q d ! i)))" for el
    using soundD(2) [OF assms(1)] assms(2) that by (auto simp: contents_ok_def list_all_iff)
  then have "decryptElem C d el \<noteq> None" if "el \<in> set (ic_elems (in_cont d (decryption_q d ! i)))" for el
    using that by (force simp: inbound_ok_def decryptElem_def MessageTransportSize_def MessageTransportHeaderSize_def
        MessageTransportOffsetContent_def MessageTransportOffsetCounter_def Let_def TagSize_def)
  then have "None \<notin> set (map (decryptElem C d) (ic_elems (in_cont d (decryption_q d ! i))))" by fastforce
  then show ?thesis using assms(2) by (simp add: RoutineDecryption_def Let_def)
qed

lemma sound_checks: "sound d \<Longrightarrow> checkPacket d p q \<noteq> None"
  using sound_lookup [of d "slice 12 16 q"] sound_lookup [of d "slice 8 24 q"]
  by (auto simp: checkPacket_def Let_def IPv4offsetSrc_def IPv6offsetSrc_def slice_def split: option.splits)

lemma sound_receives: "sound (rc_dev s) \<Longrightarrow> receiveElem C e p el s \<noteq> None"
proof (cases "ie_packet el")
  case (Some q)
  assume s: "sound (rc_dev s)"
  let ?k = "ie_keypair el"
  let ?v = "ValidateCounter (kp_replayFilter (keypair_store (rc_dev s) ?k)) (ie_counter el) RejectAfterMessages"
  let ?d = "upd_keypair ?k (\<lambda>kp. kp\<lparr>kp_replayFilter := snd ?v\<rparr>) (rc_dev s)"
  have 1: "sound (fst (ReceivedWithKeypair ?d p ?k))" by (intro workers.confirming workers.filtering s)
  have "sound (timersHandshakeComplete e p (SetEndpointFromPacket (ie_endpoint el) p (fst (ReceivedWithKeypair ?d p ?k))))"
    by (rule workers.unseen [OF 1]) (simp add: view_frame)
  then have "sound (SendStagedPackets C e p (timersHandshakeComplete e p
      (SetEndpointFromPacket (ie_endpoint el) p (fst (ReceivedWithKeypair ?d p ?k)))))"
    by (rule workers.inv_send(1))
  from sound_checks [OF this, of p q] show ?thesis using Some sound_checks [OF 1, of p q]
    by (auto simp: receiveElem_def Let_def case_prod_unfold split: option.splits)
qed (simp add: receiveElem_def)

lemma sound_receiveElems: "sound (rc_dev s) \<Longrightarrow> \<exists>s'. receiveElems C e p els s = Some s'"
proof (induction els arbitrary: s)
  case (Cons el els)
  then obtain s1 where "receiveElem C e p el s = Some s1" using sound_receives [OF Cons.prems] by blast
  then show ?case using Cons workers.inv_receiveElem by fastforce
qed simp

lemma sound_container: "sound d \<Longrightarrow> \<exists>d'. receiveContainer C e p els d = Ran d'"
  using sound_receiveElems [of "\<lparr>rc_dev = d, rc_tail = None, rc_data = False, rc_rx = 0, rc_bufs = []\<rparr>" C e p els]
  by (auto simp: receiveContainer_def Let_def)

lemma sound_sequential: "sound d \<Longrightarrow> RoutineSequentialReceiver C e p d \<noteq> Panicked"
proof -
  assume s: "sound d"
  have "sound (upd_peer p (\<lambda>pr. pr\<lparr>inbound := q\<rparr>) d)" for q
    by (rule sound_cong [OF s]) (simp_all add: upd_simps)
  then have "receiveContainer C e p els (upd_peer p (\<lambda>pr. pr\<lparr>inbound := q\<rparr>) d) \<noteq> Panicked" for q els
    using sound_container by (metis outcome.distinct(6))
  then show ?thesis by (auto simp: RoutineSequentialReceiver_def split: list.splits)
qed

lemma indexed_batch:
  assumes "\<And>i x. indexTable d i = Some x \<Longrightarrow> ite_peer x \<noteq> None"
  shows "receiveBatch e batch m d \<noteq> None"
  using assms
proof (induction e batch m d rule: receiveBatch.induct)
  case (2 e packet ep batch m d)
  have "classify e d packet ep \<noteq> Transport None elem" for elem
    using "2.prems" by (fastforce simp: classify_def it_Lookup_def Let_def split: if_splits option.splits)
  then show ?case using 2 by (auto simp: Let_def split: packet_class.splits option.splits)
qed simp

lemma sound_tun: "sound d \<Longrightarrow> byPeer d packets m \<noteq> None"
proof (induction d packets m rule: byPeer.induct)
  case (2 d packet packets m)
  have "tunPeer d packet \<noteq> None"
    using sound_lookup [OF 2(3), of "slice 16 20 packet"] sound_lookup [OF 2(3), of "slice 24 40 packet"]
    by (auto simp: tunPeer_def IPv4offsetDst_def IPv4offsetSrc_def IPv6offsetDst_def IPv6offsetSrc_def slice_def)
  then show ?case using 2 by (auto simp: Let_def split: option.splits)
qed simp

lemma sound_macs:
  assumes "sound d" "\<not> isClosed d" "handshake_ok el"
  shows "checkMacs C e el d \<noteq> None"
proof -
  have len: "64 \<le> length (he_packet el)" using assms(3)
    by (auto simp: handshake_ok_def MessageInitiationSize_def MessageResponseSize_def MessageCookieReplySize_def)
  have "\<exists>ok r. Allow (limiter d) (DstIP (he_endpoint el)) (now e) = Some (ok, r)"
    using gc_alive_step [OF soundD(5) [OF assms(1,2)], of "AllowEv (DstIP (he_endpoint el)) (now e)"] by auto
  moreover have "limiter (fst (IsUnderLoad e d)) = limiter d" by (simp add: IsUnderLoad_def)
  ultimately show ?thesis using len
    by (auto simp: checkMacs_def CheckMAC1_def CheckMAC2_def blake2s_Size128_def Let_def case_prod_unfold split: option.splits bool.splits)
qed

definition sane :: "Device \<Rightarrow> bool" where
  "sane d \<longleftrightarrow> sound d \<and> index_inv d"

lemma NewDevice_mtu: "mtu (NewDevice None) = 1420"
  using workers.int32_small [of 1420]
  by (simp add: NewDevice_def DefaultMTU_def Let_def MaxContentSize_def MaxSegmentSize_def MessageTransportSize_def
      MessageTransportHeaderSize_def TagSize_def)

lemma sane_NewDevice: "0 \<le> mtu (NewDevice m) \<Longrightarrow> sane (NewDevice m)"
  using index_inv_NewDevice table_rel_empty
  by (auto simp: sane_def sound_def NewDevice_def zeroDevice_def contents_ok_def queues_ok_def queue_ok_def Let_def
      isClosed_def rl_Init_def zeroRatelimiter_def gc_alive_def)

lemma sane_reaches: "reaches C d0 d \<Longrightarrow> d0 = NewDevice m \<and> 0 \<le> mtu d0 \<or> sane d0 \<Longrightarrow> sane d"
  using sane_NewDevice workers.inv_reaches indices.inv_reaches unfolding sane_def by blast

lemma sane_handshakes: "sane d \<Longrightarrow> \<not> isClosed d \<Longrightarrow> RoutineHandshake C e d \<noteq> Panicked"
proof (cases "handshake_q d")
  case (Cons el more)
  assume d: "sane d" "\<not> isClosed d"
  have "handshake_ok el" using d Cons by (simp add: sane_def sound_def contents_ok_def)
  moreover have "set more \<subseteq> set (handshake_q d)" using Cons by auto
  then have "sound (d\<lparr>handshake_q := more\<rparr>)" using d by (intro workers.queueing) (auto simp: sane_def)
  ultimately have "checkMacs C e el (d\<lparr>handshake_q := more\<rparr>) \<noteq> None"
    using d(2) by (intro sound_macs) (simp_all add: isClosed_def)
  then show ?thesis using Cons by (auto simp: RoutineHandshake_def Let_def split: bool.splits)
qed (simp add: RoutineHandshake_def)





text \<open>
  C39. After \<open>Close\<close> a handshake worker can still panic: nothing waits for the workers, and \<open>Allow\<close> sends on the channel that the
  closed limiter has closed.  This happens to a queued message with good macs when the device is
  under load and the limiter's table is empty.
\<close>

theorem handshake_panics_after_close:
  assumes "rl_Close r = Some (limiter d)" "stopReset r = OpenChan" "rtable r = []"
    and "handshake_q d = el # waiting" "he_msgType el = MessageInitiationType \<or> he_msgType el = MessageResponseType"
    and "CheckMAC1 C (cookieChecker d) (he_packet el) = Some True"
    and "underLoadUntil d > UnixNano (now e)"
    and "CheckMAC2 C (cookieChecker d) (now e) (he_packet el) (DstToBytes (he_endpoint el)) = Some True"
  shows "RoutineHandshake C e d = Panicked"
proof -
  have lim: "stopReset (limiter d) = ClosedChan" "rtable (limiter d) = []"
    using assms(1-3) by (auto simp: rl_Close_def dest!: sym [of _ "limiter d"])
  have "MessageInitiationType \<noteq> MessageCookieReplyType" "MessageResponseType \<noteq> MessageCookieReplyType"
    by (simp_all add: MessageInitiationType_def MessageResponseType_def MessageCookieReplyType_def)
  moreover have "checkMacs C e el (d\<lparr>handshake_q := waiting\<rparr>) = None"
    using lim assms(6-8) by (simp add: checkMacs_def IsUnderLoad_def Allow_def Let_def)
  ultimately show ?thesis using assms(4,5) by (auto simp: RoutineHandshake_def Let_def)
qed

definition demo_closed :: Device where
  "demo_closed = (NewDevice None)\<lparr>dstate := deviceStateClosed, limiter := \<lparr>stopReset = ClosedChan, rtable = [], ticking = False\<rparr>,
     underLoadUntil := UnixNano 5 + 1, handshake_q := [\<lparr>he_msgType = MessageInitiationType, he_packet = replicate 148 0,
       he_endpoint = \<lparr>ep_addr = Addr4 [0, 0, 0, 0], ep_zone = [], ep_port = 0, ep_src = []\<rparr>\<rparr>]\<rparr>"

theorem handshake_panics_after_close_witness: "RoutineHandshake plain_crypto demo_env demo_closed = Panicked"
proof -
  let ?ep = "\<lparr>ep_addr = Addr4 [0, 0, 0, 0], ep_zone = [], ep_port = 0, ep_src = []\<rparr>"
  have 1: "CheckMAC1 plain_crypto (cookieChecker demo_closed) (replicate 148 0) = Some True"
    by (simp add: CheckMAC1_def demo_closed_def NewDevice_def zeroDevice_def zeroCookieChecker_def plain_crypto_def
        pad32_def slice_def blake2s_Size128_def Let_def zip_replicate flip: replicate_add)
  have "[0, 0, 0, 0, 0, 0 :: byte] = replicate 6 0" by code_simp
  then have "DstToBytes ?ep = replicate 6 0" by (simp add: DstToBytes_def ascii_def numeral_2_eq_2)
  then have 2: "CheckMAC2 plain_crypto (cookieChecker demo_closed) (now demo_env) (replicate 148 0) (DstToBytes ?ep) = Some True"
    by (simp add: CheckMAC2_def demo_closed_def NewDevice_def zeroDevice_def zeroCookieChecker_def plain_crypto_def demo_env_def
        pad32_def time_sub_def CookieRefreshTime_def Second_def maxDuration_def minDuration_def
        blake2s_Size128_def Let_def zip_replicate flip: replicate_add)
  show ?thesis
    using handshake_panics_after_close [of "\<lparr>stopReset = OpenChan, rtable = [], ticking = False\<rparr>" demo_closed
        "\<lparr>he_msgType = MessageInitiationType, he_packet = replicate 148 0, he_endpoint = ?ep\<rparr>" "[]" plain_crypto demo_env] 1 2
    by (simp add: demo_closed_def rl_Close_def demo_env_def)
qed

subsection \<open>Shutting down\<close>

text \<open>What stopping one peer leaves alone in the device and in the other peers.\<close>

definition stable where
  "stable d = (dstate d, bind_open d, limiter d, keyMap d, privateKey d, public_key d, allowedips d,
     \<lambda>q. isRunning (peer_store d q), \<lambda>q. persistentKeepaliveInterval (peer_store d q))"

lemma stable_rest:
  assumes "rest d' = rest d"
  shows "stable d' = stable d"
  by (simp add: stable_def restD [OF assms])

lemma stable_receiveElem: "receiveElem C e p el s = Some s' \<Longrightarrow> rest (rc_dev s') = rest (rc_dev s)"
  by (auto simp: receiveElem_def Let_def case_prod_unfold frame split: option.splits if_splits)

lemma stable_receiveElems: "receiveElems C e p els s = Some s' \<Longrightarrow> rest (rc_dev s') = rest (rc_dev s)"
  by (induction els arbitrary: s) (auto dest: stable_receiveElem split: option.splits)

lemma stable_receiveContainer:
  assumes "receiveContainer C e p els d = Ran d'"
  shows "stable d' = stable d"
proof -
  obtain s where s: "receiveElems C e p els \<lparr>rc_dev = d, rc_tail = None, rc_data = False, rc_rx = 0, rc_bufs = []\<rparr> = Some s"
    using assms by (auto simp: receiveContainer_def split: option.splits)
  have w: "stable (x\<lparr>written := b\<rparr>) = stable x" for x b by (simp add: stable_def)
  have r: "stable (rc_dev s) = stable d" using stable_receiveElems [OF s] by (intro stable_rest) simp
  have "stable (upd_peer p (\<lambda>pr. pr\<lparr>rxBytes := f pr\<rparr>) (rc_dev s)) = stable d" for f
    using r by (simp add: stable_def upd_simps fun_eq_iff)
  moreover have "stable (SetEndpointFromPacket ep p x) = stable x" "stable (keepKeyFreshReceiving C e p x) = stable x"
    "stable (timersAnyAuthenticatedPacketTraversal e p x) = stable x" "stable (timersAnyAuthenticatedPacketReceived p x) = stable x"
    "stable (timersDataReceived e p x) = stable x" for x ep by (rule stable_rest, simp add: frame)+
  ultimately show ?thesis using assms s by (auto simp: receiveContainer_def Let_def w split: option.splits if_splits)
qed

lemma stable_lock:
  "lockInbound C c d = Ran d' \<Longrightarrow> stable d' = stable d" "lockOutbound C c d = Ran d' \<Longrightarrow> stable d' = stable d"
  by (auto simp: lockInbound_def lockOutbound_def RoutineDecryption_def RoutineEncryption_def stable_def Let_def split: if_splits)

lemma stable_flushOutbound: "flushOutbound C cs d = Ran d' \<Longrightarrow> stable d' = stable d"
proof (induction cs arbitrary: d)
  case (Cons c cs)
  then obtain x where "lockOutbound C c d = Ran x" "flushOutbound C cs x = Ran d'" by auto
  then show ?case using Cons.IH [of x] stable_lock(2) by simp
qed simp

lemma stable_drainInbound: "drainInbound C e p cs d = Ran d' \<Longrightarrow> stable d' = stable d"
proof (induction cs arbitrary: d)
  case (Cons c cs)
  then obtain x y where r: "lockInbound C c d = Ran x" "drainInbound C e p cs y = Ran d'"
      "receiveContainer C e p (ic_elems (in_cont x c)) (upd_peer p (\<lambda>pr. pr\<lparr>inbound := cs\<rparr>) x) = Ran y"
    by auto
  have "stable (upd_peer p (\<lambda>pr. pr\<lparr>inbound := cs\<rparr>) x) = stable x" by (auto simp: stable_def upd_simps)
  then show ?case using Cons.IH [OF r(2)] stable_receiveContainer [OF r(3)] stable_lock(1) [OF r(1)] by simp
qed simp

lemma stable_ZeroAndFlushAll: "stable (ZeroAndFlushAll p d) = stable d"
proof -
  have "rest (upd_peer p (\<lambda>pr. pr\<lparr>keypairs := ks\<rparr>) x) = rest x" for ks x by (simp add: rest_upd_peer peer_rest_def)
  then have "rest (ZeroAndFlushAll p d) = rest d" by (simp add: ZeroAndFlushAll_def Let_def frame)
  then show ?thesis by (rule stable_rest)
qed

lemma position_in: "c \<in> set q \<Longrightarrow> position c q < length q"
  by (induction q) (auto simp: position_def)

lemma sound_lock:
  assumes "sound d"
  shows "\<exists>d'. lockInbound C c d = Ran d'" "\<exists>d'. lockOutbound C c d = Ran d'"
  using soundD(3) [OF assms] position_in [of c "decryption_q d"] position_in [of c "encryption_q d"]
    sound_decrypts [OF assms, of "position c (decryption_q d)" C] sound_encrypts [OF assms, of "position c (encryption_q d)" C]
  by (auto simp: lockInbound_def lockOutbound_def queues_ok_def queue_ok_def)

lemma sound_flushOutbound: "sound d \<Longrightarrow> \<exists>d'. flushOutbound C cs d = Ran d'"
proof (induction cs arbitrary: d)
  case (Cons c cs)
  then obtain x where "lockOutbound C c d = Ran x" using sound_lock(2) by blast
  then show ?case using Cons workers.inv_lock(2) by fastforce
qed simp

lemma sound_drainInbound: "sound d \<Longrightarrow> \<exists>d'. drainInbound C e p cs d = Ran d'"
proof (induction cs arbitrary: d)
  case (Cons c cs)
  then obtain x where x: "lockInbound C c d = Ran x" using sound_lock(1) by blast
  let ?x = "upd_peer p (\<lambda>pr. pr\<lparr>inbound := cs\<rparr>) x"
  have "sound ?x" using workers.inv_lock(1) [OF x Cons.prems] by (rule sound_cong) (simp_all add: upd_simps)
  moreover from this obtain y where y: "receiveContainer C e p (ic_elems (in_cont x c)) ?x = Ran y" using sound_container by blast
  ultimately have "sound y" using workers.inv_receiveContainer by blast
  then show ?case using Cons.IH [of y] x y by auto
qed simp

lemma ZeroAndFlushAll_clears:
  "keypairs (peer_store (ZeroAndFlushAll p d) p) = no_keypairs" "staged (peer_store (ZeroAndFlushAll p d) p) = []"
proof -
  have "flush q = []" for q by (induction q rule: flush.induct) simp_all
  then show "keypairs (peer_store (ZeroAndFlushAll p d) p) = no_keypairs" "staged (peer_store (ZeroAndFlushAll p d) p) = []"
    by (simp_all add: ZeroAndFlushAll_def FlushStagedPackets_def upd_handshake_def deleteIndex_def Let_def upd_simps)
qed

text \<open>\<open>stopped p d d'\<close>: peer \<open>p\<close> is stopped and without keys or staged packets, the device as it was.\<close>

definition stopped :: "peer_id \<Rightarrow> Device \<Rightarrow> Device \<Rightarrow> bool" where
  "stopped p d d' \<longleftrightarrow> dstate d' = dstate d \<and> bind_open d' = bind_open d \<and> limiter d' = limiter d \<and> keyMap d' = keyMap d \<and>
     privateKey d' = privateKey d \<and> public_key d' = public_key d \<and>
     (\<forall>q. isRunning (peer_store d' q) \<longleftrightarrow> q \<noteq> p \<and> isRunning (peer_store d q)) \<and>
     (isRunning (peer_store d p) \<longrightarrow> keypairs (peer_store d' p) = no_keypairs \<and> staged (peer_store d' p) = [])"

lemma Stop_completes:
  assumes "sound d"
  shows "\<exists>d'. Stop C e p d = Ran d' \<and> sound d' \<and> stopped p d d'"
proof (cases "isRunning (peer_store d p)")
  case True
  define d1 where "d1 = timersStop p (upd_peer p (\<lambda>pr. pr\<lparr>isRunning := False\<rparr>) d)"
  have s: "sound d1" by (rule workers.unseen [OF assms]) (simp add: d1_def view_frame view_peer peer_view_def)
  have st: "stable d1 = stable (upd_peer p (\<lambda>pr. pr\<lparr>isRunning := False\<rparr>) d)"
    unfolding d1_def by (rule stable_rest) (simp add: frame)
  obtain x where x: "drainInbound C e p (inbound (peer_store d1 p)) d1 = Ran x" using sound_drainInbound [OF s] by blast
  let ?x = "upd_peer p (\<lambda>pr. pr\<lparr>outbound := []\<rparr>) x"
  have "sound ?x" using workers.inv_drainInbound [OF s x] by (rule sound_cong) (simp_all add: upd_simps)
  then obtain y where y: "flushOutbound C (outbound (peer_store x p)) ?x = Ran y" using sound_flushOutbound by blast
  have r: "Stop C e p d = Ran (ZeroAndFlushAll p y)"
    using True x y by (simp add: Stop_def Let_def d1_def [symmetric] flushOutboundQueue_def)
  have "stable ?x = stable x" by (auto simp: stable_def upd_simps)
  then have "stable (ZeroAndFlushAll p y) = stable d1"
    using stable_ZeroAndFlushAll stable_flushOutbound [OF y] stable_drainInbound [OF x] by simp
  then have "stopped p d (ZeroAndFlushAll p y)"
    using st ZeroAndFlushAll_clears by (auto simp: stopped_def stable_def upd_simps fun_eq_iff)
  then show ?thesis using r workers.inv_Stop [OF assms r] by blast
qed (use assms in \<open>auto simp: Stop_def stopped_def\<close>)

text \<open>Stopping all peers in a list: those in it no longer run.\<close>

definition halted :: "Device \<Rightarrow> peer_id set \<Rightarrow> Device \<Rightarrow> bool" where
  "halted d ps d' \<longleftrightarrow> dstate d' = dstate d \<and> bind_open d' = bind_open d \<and> limiter d' = limiter d \<and>
     privateKey d' = privateKey d \<and> public_key d' = public_key d \<and>
     (\<forall>q. isRunning (peer_store d' q) \<longleftrightarrow> q \<notin> ps \<and> isRunning (peer_store d q))"

lemma halted_stopped: "halted d ps x \<Longrightarrow> stopped p x y \<Longrightarrow> halted d (insert p ps) y"
  by (auto simp: halted_def stopped_def)

lemma Stop_all:
  "sound x \<Longrightarrow> halted d ps x \<Longrightarrow> \<exists>d'. forPeers (\<lambda>(_, p). Stop C (es p) p) kps x = Ran d' \<and> sound d' \<and>
     halted d (ps \<union> snd ` set kps) d' \<and> keyMap d' = keyMap x"
proof (induction kps arbitrary: x ps)
  case (Cons kp kps)
  obtain key p where kp: "kp = (key, p)" by fastforce
  obtain y where y: "Stop C (es p) p x = Ran y" "sound y" "stopped p x y" using Stop_completes [OF Cons.prems(1)] by blast
  from Cons.IH [OF y(2) halted_stopped [OF Cons.prems(2) y(3)]] show ?case
    using y kp by (auto simp: stopped_def)
qed (simp add: halted_def)

lemma remove_all:
  "sound x \<Longrightarrow> halted d ps x \<Longrightarrow> \<exists>d'. forPeers (\<lambda>(key, p). removePeerLocked C (es p) p key) kps x = Ran d' \<and> sound d' \<and>
     halted d (ps \<union> snd ` set kps) d'"
proof (induction kps arbitrary: x ps)
  case (Cons kp kps)
  obtain key p where kp: "kp = (key, p)" by fastforce
  let ?x = "x\<lparr>allowedips := RemoveByPeer (allowedips x) p\<rparr>"
  have "sound ?x" using workers.routing [OF Cons.prems(1), of "OpRemoveByPeer p"] by (simp add: table_op_def op_valid_def)
  then obtain y where y: "Stop C (es p) p ?x = Ran y" "sound y" "stopped p ?x y" using Stop_completes by blast
  let ?y = "y\<lparr>keyMap := filter (\<lambda>(k, _). k \<noteq> key) (keyMap y)\<rparr>"
  have "sound ?y" using y(2) by (rule sound_cong) simp_all
  moreover have "halted d (insert p ps) ?y" using Cons.prems(2) y(3) by (auto simp: halted_def stopped_def)
  moreover have "removePeerLocked C (es p) p key x = Ran ?y" using y(1) by (simp add: removePeerLocked_def)
  ultimately show ?case using Cons.IH [of ?y "insert p ps"] kp by auto
qed simp



end
