(* ===== verification/Config_Lines.thy ===== *)
theory Config_Lines
  imports Workers
begin

text \<open>
  Properties of the configuration protocol (device/uapi.go): what \<open>IpcGetOperation\<close> prints, the handlers of
  \<open>IpcSetOperation\<close> read back; errors and what they leave behind.
\<close>

subsection \<open>Reading back what was printed\<close>

lemma ParseUint_digits: "n < 2 ^ w \<Longrightarrow> ParseUint (digits n) w = Some n"
  by (simp add: ParseUint_def)

lemma show4_no_sign: "hd (show4 b) \<noteq> CHR ''-'' \<and> show4 b \<noteq> []"
proof -
  have "hd (show4 b) = hd (digits (unat (b ! 0)))" by (simp add: show4_def)
  then show ?thesis using digits_range [of "hd (digits (unat (b ! 0)))" "unat (b ! 0)"]
    by (auto simp: show4_def)
qed


text \<open>The peer of the demo device under configuration.\<close>

definition demo_set :: ipcSetPeer where
  "demo_set = new_ipcSetPeer\<lparr>sp_Peer := Some 0\<rparr>"

lemma demo_insert: "\<exists>t. AllowedIPs_Insert (allowedips demo_device) (Addr4 [10, 1, 0, 0], int 16) 0 = Some t"
proof -
  let ?op = "OpInsert (Addr4 [10, 0, 0, 0], 8) (0 :: peer_id)" and ?op' = "OpInsert (Addr4 [10, 1, 0, 0], 16) (0 :: peer_id)"
  have v: "op_valid ?op" "op_valid ?op'" by (simp_all add: op_valid_def valid_prefix_def)
  obtain t m where t: "table_op ?op emptyAllowedIPs = Some t" "table_rel t m"
    using at.op_rel [OF at.empty_rel v(1)] by blast
  have "demo_table = t" using t(1) by (simp add: demo_table_def table_op_def)
  then show ?thesis using at.op_rel [OF t(2) v(2)] by (auto simp: table_op_def demo_device_sel)
qed


subsection \<open>Errors\<close>

lemma loadExactHex_error: "loadExactHex dst s = (k, Some e) \<Longrightarrow> k = dst"
  by (auto simp: loadExactHex_def split: sum.splits if_splits)

lemma set_field_same: "(\<And>pr. pr = get_peer peer d \<Longrightarrow> f pr = pr) \<Longrightarrow> set_field peer f d = (d, peer)"
  by (cases "sp_Peer peer"; cases "sp_dummy peer") (simp_all add: set_field_def get_peer_def upd_peer_def)



text \<open>
  C40. The keepalive flag of one peer leaks to the next: \<open>handlePublicKeyLine\<close> does not reset \<open>pkaOn\<close>.  After a
  peer whose persistent keepalive was turned on, the next peer of the same configuration
  is sent an immediate keepalive too, though its own interval was not touched.
\<close>

theorem keepalive_flag_leaks:
  assumes "handlePublicKeyLine C peer value d = (d', peer', None)" "sp_pkaOn peer" "sp_Peer peer' = Some q"
    and "\<not> sp_dummy peer'" "\<not> sp_created peer'" "isUp d'"
  shows "handlePostConfig C es peer' d' =
    andThen (Start C (es q) q d') (\<lambda>d. Ran (SendStagedPackets C (es q) q (SendKeepalive C (es q) q d)))"
proof -
  have "sp_pkaOn peer'" using assms(1,2)
    by (auto simp: handlePublicKeyLine_def Let_def split: if_splits prod.splits option.splits sum.splits)
  then show ?thesis using assms by (simp add: handlePostConfig_def)
qed

definition demo_two :: Device where
  "demo_two = demo_device\<lparr>public_key := replicate 32 1, keyMap := [(replicate 32 2, 1)]\<rparr>"

theorem keepalive_flag_leaks_witness:
  "\<exists>peer'. handlePublicKeyLine plain_crypto (demo_set\<lparr>sp_pkaOn := True\<rparr>) (hexEncode (replicate 32 2)) demo_two = (demo_two, peer', None) \<and>
     handlePostConfig plain_crypto (\<lambda>_. demo_env) peer' demo_two =
       andThen (Start plain_crypto demo_env 1 demo_two)
         (\<lambda>d. Ran (SendStagedPackets plain_crypto demo_env 1 (SendKeepalive plain_crypto demo_env 1 d)))"
proof -
  let ?peer = "demo_set\<lparr>sp_pkaOn := True, sp_dummy := False, sp_Peer := Some 1, sp_created := False\<rparr>"
  have "replicate 32 (1 :: byte) \<noteq> replicate 32 2" by (simp add: replicate_eq_replicate)
  then have "handlePublicKeyLine plain_crypto (demo_set\<lparr>sp_pkaOn := True\<rparr>) (hexEncode (replicate 32 2)) demo_two = (demo_two, ?peer, None)"
    by (simp add: handlePublicKeyLine_def PublicKey_FromHex_def loadExactHex_roundtrip demo_two_def LookupPeer_def
        key_Equals_def demo_set_def new_ipcSetPeer_def)
  moreover from this have "handlePostConfig plain_crypto (\<lambda>_. demo_env) ?peer demo_two =
      andThen (Start plain_crypto demo_env 1 demo_two)
        (\<lambda>d. Ran (SendStagedPackets plain_crypto demo_env 1 (SendKeepalive plain_crypto demo_env 1 d)))"
    by (rule keepalive_flag_leaks) (simp_all add: demo_two_def demo_device_sel isUp_def demo_device_def)
  ultimately show ?thesis by blast
qed

subsection \<open>Every configuration text is processed to the end\<close>

lemma sound_flushInbound: "sound d \<Longrightarrow> \<exists>d'. flushInbound C cs d = Ran d'"
proof (induction cs arbitrary: d)
  case (Cons c cs)
  then obtain x where "lockInbound C c d = Ran x" using sound_lock(1) by blast
  then show ?case using Cons workers.inv_lock(1) by fastforce
qed simp

lemma Start_completes:
  assumes "sound d"
  shows "\<exists>d'. Start C e p d = Ran d' \<and> sound d'"
proof -
  define d1 where "d1 = timersStart p (upd_handshake p (\<lambda>h. h\<lparr>hs_lastSentHandshake := now e - (RekeyTimeout + Second)\<rparr>) d)"
  have "sound d1" by (rule workers.unseen [OF assms]) (simp add: d1_def view_frame)
  then have "sound (upd_peer p (\<lambda>pr. pr\<lparr>inbound := []\<rparr>) d1)" by (rule sound_cong) (simp_all add: upd_simps)
  then obtain x where x: "flushInboundQueue C p d1 = Ran x" "sound x"
    using sound_flushInbound workers.inv_flush(1) unfolding flushInboundQueue_def by blast
  have "sound (upd_peer p (\<lambda>pr. pr\<lparr>outbound := []\<rparr>) x)" using x(2) by (rule sound_cong) (simp_all add: upd_simps)
  then obtain y where "flushOutboundQueue C p x = Ran y"
    using sound_flushOutbound unfolding flushOutboundQueue_def by blast
  then have "\<exists>d'. Start C e p d = Ran d'" using x by (simp add: Start_def Let_def d1_def)
  then show ?thesis using workers.inv_Start [OF assms] by blast
qed

lemma removePeerLocked_completes: "sound d \<Longrightarrow> \<exists>d'. removePeerLocked C e p key d = Ran d' \<and> sound d'"
  using remove_all [of d d "{}" C "\<lambda>_. e" "[(key, p)]"] by (auto simp: halted_def split: outcome.splits)

lemma RemovePeer_completes: "sound d \<Longrightarrow> \<exists>d'. RemovePeer C e key d = Ran d'"
  unfolding RemovePeer_def using removePeerLocked_completes by (cases "map_of (keyMap d) key") (simp, metis option.simps(5))

lemma RemoveAllPeers_completes: "sound d \<Longrightarrow> \<exists>d'. RemoveAllPeers C es d = Ran d'"
  using remove_all [of d d "{}" C es "keyMap d"] by (auto simp: RemoveAllPeers_def halted_def)

lemma forPeers_completes:
  assumes "\<And>kp x. sound x \<Longrightarrow> \<exists>y. f kp x = Ran y \<and> sound y"
  shows "sound d \<Longrightarrow> \<exists>d'. forPeers f kps d = Ran d'"
proof (induction kps arbitrary: d)
  case (Cons kp kps)
  then obtain x where "f kp d = Ran x" "sound x" using assms by blast
  then show ?case using Cons.IH by simp
qed simp

lemma SetPrivateKey_completes: "sound d \<Longrightarrow> \<exists>d'. SetPrivateKey C es sk d = Ran d'"
proof -
  assume s: "sound d"
  let ?f = "\<lambda>(key, p) d. if key_Equals (hs_remoteStatic (hs_of d p)) (publicKey C sk)
      then removePeerLocked C (es p) p key d else Ran d"
  have "\<exists>x. forPeers ?f (keyMap d) d = Ran x"
    using s by (rule forPeers_completes [rotated]) (auto simp: removePeerLocked_completes split: prod.splits)
  then show ?thesis by (auto simp: SetPrivateKey_def Let_def)
qed

lemma handlePostConfig_completes: "sound d \<Longrightarrow> \<exists>d'. handlePostConfig C es peer d = Ran d' \<and> sound d'"
proof -
  assume s: "sound d"
  have "sound (upd_peer p (\<lambda>pr. pr\<lparr>disableRoaming := f pr\<rparr>) d)" for p f
    using s by (rule sound_cong) (simp_all add: upd_simps)
  then have "\<exists>d'. handlePostConfig C es peer d = Ran d'"
    using Start_completes s unfolding handlePostConfig_def Let_def by (auto split: option.split) fastforce+
  then show ?thesis using workers.inv_handlePostConfig [OF s] by blast
qed

lemma handleDeviceLine_completes: "sound d \<Longrightarrow> \<exists>y err. handleDeviceLine C es ne key v d = Ran (y, err) \<and> sound y"
proof -
  assume s: "sound d"
  have "\<exists>r. handleDeviceLine C es ne key v d = Ran r"
    using SetPrivateKey_completes [OF s] RemoveAllPeers_completes [OF s]
    by (auto simp: handleDeviceLine_def Let_def case_prod_unfold split: option.split prod.split)
  then show ?thesis using workers.inv_handleDeviceLine [OF s] by (metis surj_pair)
qed

text \<open>While lines of a peer are read, there is a peer or a placeholder.\<close>

definition has_peer :: "ipcSetPeer \<Rightarrow> bool" where
  "has_peer peer \<longleftrightarrow> sp_dummy peer \<or> sp_Peer peer \<noteq> None"

lemma handlePublicKeyLine_peer: "handlePublicKeyLine C peer v d = (d', peer', None) \<Longrightarrow> has_peer peer'"
  by (auto simp: handlePublicKeyLine_def has_peer_def Let_def split: if_splits prod.splits option.splits sum.splits)

lemma set_field_peer: "has_peer (snd (set_field peer f d)) = has_peer peer"
  by (auto simp: has_peer_def set_field_def split: option.split)

lemma handlePeerLine_completes:
  assumes s: "sound d" and p: "has_peer peer"
  shows "\<exists>y peer' err. handlePeerLine C es peer key v d = Ran (y, peer', err) \<and> sound y \<and> has_peer peer'"
proof -
  have ins: "\<exists>t. AllowedIPs_Insert (allowedips d) pfx q = Some t" "\<exists>t. AllowedIPs_Remove (allowedips d) pfx q = Some t"
    if "ParsePrefix w = Some pfx" for w pfx q
    using soundD(4) [OF s] at.op_rel [of "allowedips d" _ "OpInsert pfx q"] at.op_rel [of "allowedips d" _ "OpRemove pfx q"]
      ParsePrefix_valid [OF that] by (auto simp: op_valid_def table_op_def)
  have rm: "\<exists>x. removeSetPeer C es peer d = Ran x" if "\<not> sp_dummy peer"
    using that p RemovePeer_completes [OF s] by (auto simp: removeSetPeer_def has_peer_def)
  let ?R = "\<lambda>r. \<exists>y peer' err. r = Ran (y, peer', err) \<and> has_peer peer'"
  have field: "?R (let (d, peer) = set_field peer f d in Ran (d, peer, err))"
    "?R (let (d, peer) = set_field peer f d in Ran (d, peer\<lparr>sp_pkaOn := on\<rparr>, err))" for f err on
    using p set_field_peer [of peer f d] by (simp_all add: Let_def case_prod_unfold has_peer_def)
  consider "key = ''update_only''" | "key = ''remove''" | "key = ''preshared_key''" | "key = ''endpoint''"
    | "key = ''persistent_keepalive_interval''" | "key = ''replace_allowed_ips''" | "key = ''allowed_ip''"
    | (other) "\<not> (key = ''update_only'' \<or> key = ''remove'' \<or> key = ''preshared_key'' \<or> key = ''endpoint'' \<or>
        key = ''persistent_keepalive_interval'' \<or> key = ''replace_allowed_ips'' \<or> key = ''allowed_ip'')" by argo
  then have "?R (handlePeerLine C es peer key v d)"
  proof cases
    case 1
    then show ?thesis using p rm by (cases "sp_created peer \<and> \<not> sp_dummy peer") (force simp: handlePeerLine_def has_peer_def)+
  next
    case 2
    show ?thesis
    proof (cases "sp_dummy peer")
      case False
      then obtain x where "removeSetPeer C es peer d = Ran x" using rm by blast
      then show ?thesis using 2 False p by (simp add: handlePeerLine_def has_peer_def Let_def)
    qed (use 2 p in \<open>simp add: handlePeerLine_def has_peer_def Let_def\<close>)
  next
    case 3
    then show ?thesis using field(1) by (simp add: handlePeerLine_def case_prod_unfold Let_def)
  next
    case 4
    then show ?thesis using p field(1) [of "\<lambda>pr. pr\<lparr>endpoint_val := ParseEndpoint v\<rparr>" None]
      by (cases "ParseEndpoint v") (simp_all add: handlePeerLine_def)
  next
    case 5
    then show ?thesis using p field(2) [of "\<lambda>pr. pr\<lparr>persistentKeepaliveInterval := word_of_nat (the (ParseUint v 16))\<rparr>"]
      by (cases "ParseUint v 16") (simp_all add: handlePeerLine_def Let_def)
  next
    case 6
    then show ?thesis using p by (simp add: handlePeerLine_def split: option.split)
  next
    case 7
    define add where "add \<longleftrightarrow> \<not> (v \<noteq> [] \<and> hd v = CHR ''-'')"
    define w where "w = (if add then v else tl v)"
    have eq: "handlePeerLine C es peer key v d = (case ParsePrefix w of None \<Rightarrow> Ran (d, peer, Some IpcErrorInvalid)
      | Some pfx \<Rightarrow> (case (if sp_dummy peer then None else sp_Peer peer) of None \<Rightarrow> Ran (d, peer, None)
          | Some p \<Rightarrow> (case (if add then AllowedIPs_Insert (allowedips d) pfx p else AllowedIPs_Remove (allowedips d) pfx p) of
              None \<Rightarrow> Panicked | Some t \<Rightarrow> Ran (d\<lparr>allowedips := t\<rparr>, peer, None))))"
      unfolding handlePeerLine_def Let_def w_def add_def using 7 by simp
    show ?thesis
    proof (cases "ParsePrefix w")
      case (Some pfx)
      show ?thesis
      proof (cases "if sp_dummy peer then None else sp_Peer peer")
        case q: (Some q)
        obtain t where "(if add then AllowedIPs_Insert (allowedips d) pfx q else AllowedIPs_Remove (allowedips d) pfx q) = Some t"
          using ins [OF Some, of q] by (cases add) auto
        then show ?thesis using p unfolding eq Some q by simp
      qed (use p eq Some in simp)
    qed (use p eq in simp)
  next
    case other
    then show ?thesis using p by (simp add: handlePeerLine_def Let_def)
  qed
  then show ?thesis using workers.inv_handlePeerLine [OF s] by blast
qed

lemma ipcSetLines_completes:
  "sound d \<Longrightarrow> dc \<or> has_peer peer \<Longrightarrow> \<exists>d' err. ipcSetLines C es ne lines dc peer d = Ran (d', err)"
proof (induction lines arbitrary: dc peer d)
  case Nil
  then show ?case using handlePostConfig_completes [OF Nil.prems(1), of C es peer] by auto
next
  case (Cons raw lines)
  obtain x where x: "handlePostConfig C es peer d = Ran x" "sound x" using handlePostConfig_completes [OF Cons.prems(1)] by blast
  show ?case
  proof (cases "length raw > maxLine \<or> dropCR raw = [] \<or> Cut CHR ''='' (dropCR raw) = None")
    case True
    then show ?thesis using x(1) by (auto simp: Let_def)
  next
    case False
    then obtain key v where kv: "Cut CHR ''='' (dropCR raw) = Some (key, v)" by auto
    consider (pk) "key = ''public_key''" | (dev) "key \<noteq> ''public_key''" dc | (peer) "key \<noteq> ''public_key''" "\<not> dc" by blast
    then show ?thesis
    proof cases
      case pk
      obtain y q eo where y: "handlePublicKeyLine C peer v x = (y, q, eo)" by (cases "handlePublicKeyLine C peer v x") auto
      have "sound y" using workers.inv_handlePublicKeyLine [OF x(2)] y by blast
      moreover have "eo = None \<Longrightarrow> has_peer q" using handlePublicKeyLine_peer y by blast
      ultimately show ?thesis using Cons.IH [of y False q] False kv pk x(1) y by (cases eo) (auto simp: Let_def)
    next
      case dev
      obtain y eo where y: "handleDeviceLine C es ne key v d = Ran (y, eo)" "sound y"
        using handleDeviceLine_completes [OF Cons.prems(1)] by blast
      then show ?thesis using Cons.IH [of y True peer] False kv dev by (cases eo) (auto simp: Let_def)
    next
      case peer
      obtain y q eo where y: "handlePeerLine C es peer key v d = Ran (y, q, eo)" "sound y" "has_peer q"
        using handlePeerLine_completes [OF Cons.prems(1)] Cons.prems(2) peer(2) by blast
      then show ?thesis using Cons.IH [of y False q] False kv peer by (cases eo) (auto simp: Let_def)
    qed
  qed
qed



end
