(* ===== verification/Key_Utils.thy ===== *)
theory Key_Utils
  imports Stun Config_Lines
begin

text \<open>
  z/utils/config.go, z/utils/key_utils.go and z/models/models.go: the keys of a device, their publication
  with the public endpoint, and the configuration text generated for \<open>IpcSetOperation\<close>.  SHA-256 and
  Curve25519 are parameters; the database is a log of updates and an answer per poll; a key file is what
  \<open>json.Unmarshal\<close> makes of it.  Strings are ASCII.
\<close>

subsection \<open>Base64\<close>

text \<open>\<open>base64.StdEncoding\<close>: line breaks are ignored, padding is required, the unused bits of the last
  digit are not checked.\<close>

definition b64alphabet :: string where
  "b64alphabet = ''ABCDEFGHIJKLMNOPQRSTUVWXYZabcdefghijklmnopqrstuvwxyz0123456789+/''"

definition b64digit :: "nat \<Rightarrow> char" where
  "b64digit n = b64alphabet ! (n mod 64)"

definition b64value :: "char \<Rightarrow> nat option" where
  "b64value c = map_of (zip b64alphabet [0..<64]) c"

fun EncodeToString :: "bytes \<Rightarrow> string" where
  "EncodeToString [] = []"
| "EncodeToString [a] = [b64digit (unat a div 4), b64digit (unat a mod 4 * 16), CHR ''='', CHR ''='']"
| "EncodeToString [a, b] = [b64digit (unat a div 4), b64digit (unat a mod 4 * 16 + unat b div 16),
     b64digit (unat b mod 16 * 4), CHR ''='']"
| "EncodeToString (a # b # c # r) = [b64digit (unat a div 4), b64digit (unat a mod 4 * 16 + unat b div 16),
     b64digit (unat b mod 16 * 4 + unat c div 64), b64digit (unat c mod 64)] @ EncodeToString r"

fun b64quads :: "string \<Rightarrow> bytes option" where
  "b64quads [] = Some []"
| "b64quads (c0 # c1 # c2 # c3 # s) = do {
     x0 \<leftarrow> b64value c0;
     x1 \<leftarrow> b64value c1;
     if c2 = CHR ''='' then
       if c3 = CHR ''='' \<and> s = [] then Some [word_of_nat (x0 * 4 + x1 div 16)] else None
     else do {
       x2 \<leftarrow> b64value c2;
       if c3 = CHR ''='' then
         if s = [] then Some [word_of_nat (x0 * 4 + x1 div 16), word_of_nat (x1 mod 16 * 16 + x2 div 4)] else None
       else do {
         x3 \<leftarrow> b64value c3;
         r \<leftarrow> b64quads s;
         Some ([word_of_nat (x0 * 4 + x1 div 16), word_of_nat (x1 mod 16 * 16 + x2 div 4),
           word_of_nat (x2 mod 4 * 64 + x3)] @ r)}}}"
| "b64quads _ = None"

definition DecodeString :: "string \<Rightarrow> bytes option" where
  "DecodeString s = b64quads (filter (\<lambda>c. c \<noteq> CHR 0x0A \<and> c \<noteq> CHR 0x0D) s)"

subsection \<open>Models\<close>

text \<open>A decoded JSON value, as far as the code looks at it; a float is \<open>mantissa * 2 ^ exponent\<close>.\<close>

datatype json = JString string | JFloat int int | JInt int | JBool bool | JOther

record SignalingPeer =
  UID :: string
  PublicIP :: string
  PublicPort :: int
  WireguardPublicKey :: string
  DeviceName :: string
  Online :: bool
  NetworkType :: string
  UpdatedAt :: int
  LastSeen :: int
  ProtocolVersion :: int

definition ToMap :: "SignalingPeer \<Rightarrow> (string \<times> json) list" where
  "ToMap p = [(''uid'', JString (UID p)), (''publicIp'', JString (PublicIP p)), (''publicPort'', JInt (PublicPort p)),
     (''wireguardPublicKey'', JString (WireguardPublicKey p)), (''deviceName'', JString (DeviceName p)),
     (''online'', JBool (Online p)), (''networkType'', JString (NetworkType p)), (''updatedAt'', JInt (UpdatedAt p)),
     (''lastSeen'', JInt (LastSeen p)), (''protocolVersion'', JInt (ProtocolVersion p)), (''hello'', JString ''world'')]"

record WireGuardPeer =
  EndpointIP :: string
  EndpointPort :: int
  PeerPublicKey :: string
  MyPrivateKey :: string
  MyAddress :: string

subsection \<open>The configuration\<close>

definition base64ToHex :: "string \<Rightarrow> string option" where
  "base64ToHex s = map_option hexEncode (DecodeString s)"

definition isSpace :: "char \<Rightarrow> bool" where
  "isSpace c \<longleftrightarrow> c \<in> {CHR '' '', CHR 0x09, CHR 0x0A, CHR 0x0B, CHR 0x0C, CHR 0x0D}"

definition TrimSpace :: "string \<Rightarrow> string" where
  "TrimSpace s = rev (dropWhile isSpace (rev (dropWhile isSpace s)))"

definition allowedLines :: "string \<Rightarrow> string" where
  "allowedLines allowedIPs =
     concat (map (\<lambda>a. let a = TrimSpace a in if a \<noteq> [] then sendf ''allowed_ip'' a else []) (Split CHR '','' allowedIPs))"

definition GenerateWithPresharedKey :: "WireGuardPeer \<Rightarrow> string \<Rightarrow> string \<Rightarrow> int \<Rightarrow> string \<Rightarrow> string" where
  "GenerateWithPresharedKey peer dns allowedIPs keepalive presharedKey =
     (let allowedIPs = (if allowedIPs = [] then ''0.0.0.0/0'' else allowedIPs);
          keepalive = (if keepalive = 0 then 5 else keepalive)
      in case (base64ToHex (MyPrivateKey peer), base64ToHex (PeerPublicKey peer)) of
           (Some priv, Some pub) \<Rightarrow>
             sendf ''private_key'' priv @
             sendf ''replace_peers'' ''true'' @
             sendf ''public_key'' pub @
             (if presharedKey \<noteq> [] then sendf ''preshared_key'' presharedKey else []) @
             sendf ''endpoint'' (EndpointIP peer @ '':'' @ show_int (EndpointPort peer)) @
             sendf ''replace_allowed_ips'' ''true'' @
             allowedLines allowedIPs @
             sendf ''persistent_keepalive_interval'' (show_int 15)
         | _ \<Rightarrow> [])"

definition Generate :: "WireGuardPeer \<Rightarrow> string \<Rightarrow> string \<Rightarrow> int \<Rightarrow> string" where
  "Generate peer dns allowedIPs keepalive =
     GenerateWithPresharedKey peer dns allowedIPs keepalive []"

type_synonym hash = "bytes \<Rightarrow> bytes"

definition ascii :: "string \<Rightarrow> bytes" where
  "ascii s = map (\<lambda>c. word_of_nat (of_char c)) s"

definition derivePresharedKey :: "hash \<Rightarrow> string \<Rightarrow> string \<Rightarrow> string" where
  "derivePresharedKey sha256 pair secret =
     (if secret = [] then []
      else hexEncode (sha256 (ascii (''orbitx/wireguard/psk/'' @ pair @ ''/'' @ secret))))"

subsection \<open>Keys\<close>

record Keys =
  PrivateKey :: string
  PublicKey :: string

datatype key_file = KeyFile Keys | BadFile

text \<open>\<open>ku_started\<close> are the configurations given to \<open>OnStartVPN\<close>, \<open>ku_updates\<close> the updates sent to
  the database; \<open>ku_files\<close> is the file system.\<close>

record KeyUtils =
  ku_isHost :: bool
  ku_privateKey :: string
  ku_publicKey :: string
  ku_stunClient :: StunClient
  ku_uuid :: string
  ku_deviceName :: string
  ku_peer :: "SignalingPeer option"
  ku_current :: "SignalingPeer option"
  ku_keysPath :: string
  ku_secret :: string
  ku_OnStartVPN :: bool
  ku_files :: "string \<rightharpoonup> key_file"
  ku_started :: "string list"
  ku_updates :: "(string \<times> (string \<times> json) list) list"

datatype key_error = RandError | WriteError

definition NewKeyUtils :: "bool \<Rightarrow> string \<Rightarrow> string \<Rightarrow> string \<Rightarrow> (string \<rightharpoonup> key_file) \<Rightarrow> KeyUtils" where
  "NewKeyUtils isHost deviceName uuid keysPath files =
     \<lparr>ku_isHost = isHost, ku_privateKey = [], ku_publicKey = [], ku_stunClient = NewStunClient, ku_uuid = uuid,
      ku_deviceName = deviceName, ku_peer = None, ku_current = None, ku_keysPath = keysPath, ku_secret = [],
      ku_OnStartVPN = False, ku_files = files, ku_started = [], ku_updates = []\<rparr>"

definition SetPresharedSecret :: "string \<Rightarrow> KeyUtils \<Rightarrow> KeyUtils" where
  "SetPresharedSecret secret k = k\<lparr>ku_secret := secret\<rparr>"

definition role :: "bool \<Rightarrow> string" where
  "role isHost = (if isHost then ''master'' else ''slave'')"

definition keysFile :: "KeyUtils \<Rightarrow> string" where
  "keysFile k = (if ku_keysPath k = [] then ''orbitx_keys.json'' else ku_keysPath k)"

text \<open>The masks of \<open>deriveAndSaveKey\<close> are those of \<open>clamp\<close>.\<close>

definition deriveAndSaveKey :: "crypto \<Rightarrow> hash \<Rightarrow> bool \<Rightarrow> KeyUtils \<Rightarrow> KeyUtils \<times> key_error option" where
  "deriveAndSaveKey C sha256 write_ok k =
     (let seed = sha256 (ascii (''orbitx/wireguard/private/'' @ ku_uuid k @ ''/'' @ role (ku_isHost k) @ ''/'' @ ku_secret k));
          seed = seed[0 := seed ! 0 AND 248];
          seed = seed[31 := seed ! 31 AND 127];
          seed = seed[31 := seed ! 31 OR 64];
          public = ScalarBaseMult C seed;
          k = k\<lparr>ku_privateKey := EncodeToString seed, ku_publicKey := EncodeToString public\<rparr>
      in if write_ok
         then (k\<lparr>ku_files := (ku_files k)(keysFile k \<mapsto> KeyFile \<lparr>PrivateKey = ku_privateKey k, PublicKey = ku_publicKey k\<rparr>)\<rparr>, None)
         else (k, Some WriteError))"

definition generateKey :: "crypto \<Rightarrow> bytes option \<Rightarrow> key_error + string \<times> string" where
  "generateKey C rand =
     (case rand of
        None \<Rightarrow> Inl RandError
      | Some priv \<Rightarrow> Inr (EncodeToString priv, EncodeToString (ScalarBaseMult C priv)))"

definition saveOrGetKey :: "crypto \<Rightarrow> bytes option \<Rightarrow> bool \<Rightarrow> KeyUtils \<Rightarrow> KeyUtils \<times> key_error option" where
  "saveOrGetKey C rand write_ok k =
     (case ku_files k (keysFile k) of
        Some (KeyFile ks) \<Rightarrow> (k\<lparr>ku_privateKey := PrivateKey ks, ku_publicKey := PublicKey ks\<rparr>, None)
      | _ \<Rightarrow>
          (case generateKey C rand of
             Inl err \<Rightarrow> (k, Some err)
           | Inr (priv, pub) \<Rightarrow>
               let k = k\<lparr>ku_privateKey := priv, ku_publicKey := pub\<rparr>
               in (if write_ok
                   then k\<lparr>ku_files := (ku_files k)(keysFile k \<mapsto> KeyFile \<lparr>PrivateKey = priv, PublicKey = pub\<rparr>)\<rparr>
                   else k, None)))"

definition Init_keys :: "crypto \<Rightarrow> hash \<Rightarrow> bytes option \<Rightarrow> bool \<Rightarrow> KeyUtils \<Rightarrow> KeyUtils \<times> key_error option" where
  "Init_keys C sha256 rand write_ok k =
     (if ku_secret k \<noteq> [] then deriveAndSaveKey C sha256 write_ok k else saveOrGetKey C rand write_ok k)"

subsection \<open>Publishing and configuring\<close>

definition Rerun :: "hash \<Rightarrow> KeyUtils \<Rightarrow> KeyUtils" where
  "Rerun sha256 k =
     (case (ku_peer k, ku_current k) of
        (Some p, Some _) \<Rightarrow>
          if ku_privateKey k = [] then k
          else if PublicIP p = [] \<or> PublicPort p \<le> 0 \<or> WireguardPublicKey p = [] then k
          else
            let internalIP = (if ku_isHost k then ''10.0.0.1'' else ''10.0.0.2'');
                config = GenerateWithPresharedKey
                  \<lparr>EndpointIP = PublicIP p, EndpointPort = PublicPort p, PeerPublicKey = WireguardPublicKey p,
                   MyPrivateKey = ku_privateKey k, MyAddress = internalIP @ ''/32''\<rparr>
                  ''1.1.1.1'' ''10.0.0.1/32,10.0.0.2/32'' 25 (derivePresharedKey sha256 (ku_uuid k) (ku_secret k))
            in if config = [] then k
               else if ku_OnStartVPN k then k\<lparr>ku_started := ku_started k @ [config]\<rparr> else k
      | _ \<Rightarrow> k)"

text \<open>The callback that \<open>StartVPNShared\<close> registers with the STUN client.\<close>

definition endpointChanged :: "hash \<Rightarrow> int \<Rightarrow> bytes \<Rightarrow> nat \<Rightarrow> bool \<Rightarrow> KeyUtils \<Rightarrow> KeyUtils" where
  "endpointChanged sha256 nowMilli address port changed k =
     (if \<not> changed then k
      else
        let cur = \<lparr>UID = ku_deviceName k, PublicIP = show4 address, PublicPort = int port,
              WireguardPublicKey = ku_publicKey k, DeviceName = ku_deviceName k, Online = True,
              NetworkType = ''Go-Client'', UpdatedAt = nowMilli, LastSeen = nowMilli, ProtocolVersion = 1\<rparr>;
            k = k\<lparr>ku_current := Some cur\<rparr>
        in if ku_uuid k = [] then k
           else Rerun sha256 (k\<lparr>ku_updates :=
             ku_updates k @ [(''pairings/'' @ ku_uuid k @ ''/'' @ role (ku_isHost k), ToMap cur)]\<rparr>))"

text \<open>\<open>StartVPNShared\<close> ignores an error of \<open>StartShared\<close>; a STUN packet the bind reports is processed and
  the calls of the callback it causes are made.\<close>

definition StartVPNShared :: "bool \<Rightarrow> bytes option \<Rightarrow> bool \<Rightarrow> KeyUtils \<Rightarrow> KeyUtils option" where
  "StartVPNShared resolved rand write_ok k = do {
     (c, _) \<leftarrow> StartShared resolved True rand write_ok (ku_stunClient k);
     Some (k\<lparr>ku_stunClient := c\<rparr>)}"

definition onStunPacket :: "hash \<Rightarrow> int \<Rightarrow> bytes \<Rightarrow> KeyUtils \<Rightarrow> KeyUtils option" where
  "onStunPacket sha256 nowMilli packet k = do {
     c \<leftarrow> ProcessPacket packet (ku_stunClient k);
     let calls = drop (length (sc_calls (ku_stunClient k))) (sc_calls c);
     Some (fold (\<lambda>(address, port, changed). endpointChanged sha256 nowMilli address port changed) calls
       (k\<lparr>ku_stunClient := c\<rparr>))}"

definition getString :: "(string \<times> json) list \<Rightarrow> string \<Rightarrow> string" where
  "getString m key = (case map_of m key of Some (JString v) \<Rightarrow> v | _ \<Rightarrow> [])"

text \<open>\<open>int(v)\<close> of a float drops the fraction.\<close>

definition truncate_float :: "int \<Rightarrow> int \<Rightarrow> int" where
  "truncate_float mant expo =
     (if 0 \<le> expo then mant * 2 ^ nat expo else sgn mant * (\<bar>mant\<bar> div 2 ^ nat (- expo)))"

definition getInt :: "(string \<times> json) list \<Rightarrow> string \<Rightarrow> int" where
  "getInt m key = (case map_of m key of
     Some (JFloat mant expo) \<Rightarrow> truncate_float mant expo | Some (JInt v) \<Rightarrow> v | _ \<Rightarrow> 0)"

definition getBool :: "(string \<times> json) list \<Rightarrow> string \<Rightarrow> bool" where
  "getBool m key = (case map_of m key of Some (JBool v) \<Rightarrow> v | _ \<Rightarrow> False)"

definition zeroSignalingPeer :: SignalingPeer where
  "zeroSignalingPeer = \<lparr>UID = [], PublicIP = [], PublicPort = 0, WireguardPublicKey = [], DeviceName = [], Online = False,
     NetworkType = [], UpdatedAt = 0, LastSeen = 0, ProtocolVersion = 0\<rparr>"

definition peerOf :: "(string \<times> json) list \<Rightarrow> SignalingPeer" where
  "peerOf data = zeroSignalingPeer\<lparr>UID := getString data ''uid'', PublicIP := getString data ''publicIp'',
     PublicPort := getInt data ''publicPort'', WireguardPublicKey := getString data ''wireguardPublicKey'',
     DeviceName := getString data ''deviceName'', Online := getBool data ''online'',
     NetworkType := getString data ''networkType''\<rparr>"

text \<open>One tick of \<open>StartPeerListener\<close>; the answer is \<open>None\<close> for an error of the database or no data.\<close>

definition pollPeer :: "hash \<Rightarrow> (string \<times> json) list option \<Rightarrow> KeyUtils \<Rightarrow> KeyUtils" where
  "pollPeer sha256 answer k =
     (case answer of
        None \<Rightarrow> k
      | Some data \<Rightarrow>
          let previous = (case ku_peer k of None \<Rightarrow> zeroSignalingPeer | Some p \<Rightarrow> p);
              peer = peerOf data;
              k = k\<lparr>ku_peer := Some peer\<rparr>;
              changed = PublicIP previous = [] \<or> PublicIP peer \<noteq> PublicIP previous \<or>
                PublicPort peer \<noteq> PublicPort previous \<or> WireguardPublicKey peer \<noteq> WireguardPublicKey previous
          in if changed then Rerun sha256 k else k)"

end
