(* ===== verification/Key_Config.thy ===== *)
theory Key_Config
  imports Key_Utils
begin

text \<open>
  What the generated configuration does: the text of \<open>GenerateWithPresharedKey\<close>, read by
  \<open>IpcSetOperation\<close> on a device in any reachable state, is applied without an error.
\<close>

subsection \<open>Base64 round trip\<close>

lemma b64value_digit [simp]: "b64value (b64digit n) = Some (n mod 64)"
proof -
  have d: "distinct b64alphabet" by code_simp
  have l: "length b64alphabet = 64" by code_simp
  have "map_of (zip b64alphabet [0..<64]) (b64alphabet ! k) = Some ([0..<64] ! k)" if "k < 64" for k
    using that d l by (intro map_of_zip_nth) simp_all
  then show ?thesis by (simp add: b64value_def b64digit_def)
qed

lemma b64digit_in: "b64digit n \<in> set b64alphabet"
proof -
  have "length b64alphabet = 64" by code_simp
  then show ?thesis unfolding b64digit_def by (intro nth_mem) simp
qed

lemma b64digit_no [simp]: "b64digit n \<noteq> CHR ''=''" "b64digit n \<noteq> CHR 0x0A" "b64digit n \<noteq> CHR 0x0D"
proof -
  have "CHR ''='' \<notin> set b64alphabet" "CHR 0x0A \<notin> set b64alphabet" "CHR 0x0D \<notin> set b64alphabet" by code_simp+
  then show "b64digit n \<noteq> CHR ''=''" "b64digit n \<noteq> CHR 0x0A" "b64digit n \<noteq> CHR 0x0D" using b64digit_in [of n] by metis+
qed

lemma b64_parts:
  fixes a :: byte
  shows "unat a div 4 < 64" "unat a div 16 < 16" "unat a div 64 < 4"
  using unat_byte_lt [of a] by (intro less_mult_imp_div_less; simp)+

lemma b64_join:
  "r < 16 \<Longrightarrow> (k * 16 + r) div 16 = (k :: nat)" "r < 16 \<Longrightarrow> (k * 16 + r) mod 16 = (r :: nat)"
  "r < 4 \<Longrightarrow> (k * 4 + r) div 4 = (k :: nat)" "r < 4 \<Longrightarrow> (k * 4 + r) mod 4 = (r :: nat)"
  by simp_all

lemma b64_small:
  "r < 16 \<Longrightarrow> (n mod 4 * 16 + r) mod 64 = n mod 4 * 16 + (r :: nat)"
  "r < 4 \<Longrightarrow> (n mod 16 * 4 + r) mod 64 = n mod 16 * 4 + (r :: nat)"
proof -
  have "n mod 4 \<le> 3" "n mod 16 \<le> 15" by simp_all
  then show "r < 16 \<Longrightarrow> (n mod 4 * 16 + r) mod 64 = n mod 4 * 16 + r" "r < 4 \<Longrightarrow> (n mod 16 * 4 + r) mod 64 = n mod 16 * 4 + r"
    by (intro mod_less; linarith)+
qed

lemmas b64_arith = b64_parts b64_join b64_small b64_small [where r = 0, simplified] b64_join [where r = 0, simplified]

lemma b64quads_encode: "b64quads (EncodeToString b) = Some b"
  by (induction b rule: EncodeToString.induct)
    (simp_all add: b64_arith mod_less del: of_nat_add of_nat_mult)

lemma encode_clean: "filter (\<lambda>c. c \<noteq> CHR 0x0A \<and> c \<noteq> CHR 0x0D) (EncodeToString b) = EncodeToString b"
  by (induction b rule: EncodeToString.induct) simp_all

lemma base64_roundtrip: "DecodeString (EncodeToString b) = Some b"
  by (simp add: DecodeString_def encode_clean b64quads_encode)

lemma EncodeToString_nonempty: "b \<noteq> [] \<Longrightarrow> EncodeToString b \<noteq> []"
  by (cases b rule: EncodeToString.cases) simp_all

subsection \<open>Lines\<close>

definition line_text :: "string \<times> string \<Rightarrow> string" where
  "line_text kv = fst kv @ ''='' @ snd kv"

text \<open>A line the scanner gives back as it is: no line break in it, no carriage return at its end.\<close>

definition plain_line :: "string \<times> string \<Rightarrow> bool" where
  "plain_line kv \<longleftrightarrow> CHR ''='' \<notin> set (fst kv) \<and> CHR 0x0A \<notin> set (fst kv) \<and> CHR 0x0A \<notin> set (snd kv) \<and>
     CHR 0x0D \<notin> set (snd kv) \<and> length (fst kv) + length (snd kv) < 65535"

lemma sendf_line: "sendf k v = line_text (k, v) @ [CHR 0x0A]"
  by (simp add: sendf_def line_text_def)

lemma scanLines_lines:
  "\<forall>kv \<in> set kvs. plain_line kv \<Longrightarrow> scanLines (concat (map (\<lambda>(k, v). sendf k v) kvs)) = map line_text kvs"
proof -
  assume p: "\<forall>kv \<in> set kvs. plain_line kv"
  have "Split CHR 0x0A (concat (map (\<lambda>(k, v). sendf k v) kvs)) = map line_text kvs @ [[]]"
    using p
  proof (induction kvs)
    case (Cons kv kvs)
    have "CHR 0x0A \<notin> set (line_text kv)" using Cons.prems by (auto simp: plain_line_def line_text_def)
    then have "Split CHR 0x0A (line_text kv @ CHR 0x0A # concat (map (\<lambda>(k, v). sendf k v) kvs)) =
        line_text kv # Split CHR 0x0A (concat (map (\<lambda>(k, v). sendf k v) kvs))" by (rule Split_append)
    then show ?case using Cons by (cases kv) (simp add: sendf_line split_def)
  qed simp
  then show ?thesis by (simp add: scanLines_def)
qed

lemma plain_lineD:
  assumes "plain_line kv"
  shows "\<not> length (line_text kv) > maxLine" "dropCR (line_text kv) = line_text kv" "line_text kv \<noteq> []"
    "Cut CHR ''='' (line_text kv) = Some kv"
proof -
  show "\<not> length (line_text kv) > maxLine" "line_text kv \<noteq> []" using assms by (auto simp: plain_line_def line_text_def maxLine_def)
  show "Cut CHR ''='' (line_text kv) = Some kv"
    using assms Cut_append [of "CHR ''=''" "fst kv" "snd kv"] by (simp add: plain_line_def line_text_def)
  have "last (line_text kv) \<noteq> CHR 0x0D"
    using assms by (cases "snd kv = []") (auto simp: plain_line_def line_text_def dest: last_in_set)
  then show "dropCR (line_text kv) = line_text kv" by (simp add: dropCR_def)
qed

lemma length_digits: "n < 10 ^ Suc k \<Longrightarrow> length (digits n) \<le> Suc k"
proof (induction k arbitrary: n)
  case (Suc k)
  show ?case
  proof (cases "n < 10")
    case False
    have "length (digits (n div 10)) \<le> Suc k" using Suc.prems by (intro Suc.IH) (simp add: div_less_iff_less_mult)
    then show ?thesis using False by (subst digits.simps) simp
  qed (subst digits.simps, simp)
qed (subst digits.simps, simp)

lemma digits_plain: "CHR 0x0A \<notin> set (digits n)" "CHR 0x0D \<notin> set (digits n)"
  using digits_range [of "CHR 0x0A" n] digits_range [of "CHR 0x0D" n] by auto

lemma hexDigits_plain: "CHR 0x0A \<notin> set (hexEncode b)" "CHR 0x0D \<notin> set (hexEncode b)"
proof -
  have h: "CHR 0x0A \<notin> set hexDigits" "CHR 0x0D \<notin> set hexDigits" "length hexDigits = 16" by code_simp+
  have lt: "unat (drop_bit 4 x) < 16" "unat (x AND 0xf) < 16" for x :: byte using nibble_lt by auto
  then have "hexDigits ! unat (drop_bit 4 x) \<in> set hexDigits" "hexDigits ! unat (x AND 0xf) \<in> set hexDigits" for x :: byte
    using h(3) by auto
  then show "CHR 0x0A \<notin> set (hexEncode b)" "CHR 0x0D \<notin> set (hexEncode b)"
    using h(1,2) by (auto simp: hexEncode_def)
qed

lemma length_hexEncode: "length (hexEncode b) = 2 * length b"
  by (induction b) (simp_all add: hexEncode_def)

lemma endpoint_plain: "plain_line (''endpoint'', showAddrPort (Addr4 ip) [] port)"
proof -
  have d: "length (digits (unat (b :: byte))) \<le> 3" for b
    using unat_byte_lt [of b] length_digits [of "unat b" 2] by (simp del: unat_byte_lt)
  have "unat port < 65536" using unsigned_less [of port, where ?'a = nat] by simp
  then have "length (digits (unat port)) \<le> 5" using length_digits [of "unat port" 4] by simp
  then show ?thesis using d [of "ip ! 0"] d [of "ip ! 1"] d [of "ip ! 2"] d [of "ip ! 3"]
    by (simp add: plain_line_def showAddrPort_def show4_def digits_plain)
qed

subsection \<open>Running the lines\<close>

lemma run_peer_line:
  assumes "plain_line (k, v)" "k \<noteq> ''public_key''" "handlePeerLine C es peer k v d = Ran (d', peer', None)"
  shows "ipcSetLines C es ne (line_text (k, v) # ls) False peer d = ipcSetLines C es ne ls False peer' d'"
  using assms(2,3) plain_lineD [OF assms(1)] by (simp add: Let_def)

lemma run_device_line:
  assumes "plain_line (k, v)" "k \<noteq> ''public_key''" "handleDeviceLine C es ne k v d = Ran (d', None)"
  shows "ipcSetLines C es ne (line_text (k, v) # ls) True peer d = ipcSetLines C es ne ls True peer d'"
  using assms(2,3) plain_lineD [OF assms(1)] by (simp add: Let_def)

lemma run_public_key:
  assumes "plain_line (''public_key'', v)" "handlePostConfig C es peer d = Ran x"
    "handlePublicKeyLine C peer v x = (d', peer', None)"
  shows "ipcSetLines C es ne (line_text (''public_key'', v) # ls) dc peer d = ipcSetLines C es ne ls False peer' d'"
  using assms(2,3) plain_lineD [OF assms(1)] by (simp add: Let_def)

text \<open>The lines for one peer from its endpoint on.\<close>

definition peer_lines :: "bytes \<Rightarrow> u16 \<Rightarrow> (string \<times> string) list" where
  "peer_lines ip port = [(''endpoint'', showAddrPort (Addr4 ip) [] port), (''replace_allowed_ips'', ''true''),
     (''allowed_ip'', ''10.0.0.1/32''), (''allowed_ip'', ''10.0.0.2/32''), (''persistent_keepalive_interval'', ''15'')]"

lemma peer_lines_plain: "kv \<in> set (peer_lines ip port) \<Longrightarrow> plain_line kv"
  using endpoint_plain by (auto simp: peer_lines_def plain_line_def)

lemma internal_prefixes:
  "ParsePrefix ''10.0.0.1/32'' = Some (Addr4 [10, 0, 0, 1], 32)" "ParsePrefix ''10.0.0.2/32'' = Some (Addr4 [10, 0, 0, 2], 32)"
proof -
  have "showPrefix (Addr4 [10, 0, 0, 1], int 32) = ''10.0.0.1/32''" "showPrefix (Addr4 [10, 0, 0, 2], int 32) = ''10.0.0.2/32''"
    by code_simp+
  then show "ParsePrefix ''10.0.0.1/32'' = Some (Addr4 [10, 0, 0, 1], 32)" "ParsePrefix ''10.0.0.2/32'' = Some (Addr4 [10, 0, 0, 2], 32)"
    using ipv4_text_roundtrip [of "[10, 0, 0, 1]" 32] ipv4_text_roundtrip [of "[10, 0, 0, 2]" 32] by simp_all
qed

lemma run_peer_lines:
  assumes peer: "sp_Peer peer = Some p" "\<not> sp_dummy peer" and ip: "length ip = 4"
    and t1: "AllowedIPs_Insert (RemoveByPeer (allowedips d) p) (Addr4 [10, 0, 0, 1], 32) p = Some t1"
    and t2: "AllowedIPs_Insert t1 (Addr4 [10, 0, 0, 2], 32) p = Some t2"
  shows "\<exists>peer' f. ipcSetLines C es ne (map line_text (peer_lines ip port)) False peer d =
      andThen (handlePostConfig C es peer' (upd_peer p (\<lambda>pr. pr\<lparr>persistentKeepaliveInterval := 15\<rparr>)
        ((upd_peer p f d)\<lparr>allowedips := t2\<rparr>))) (\<lambda>d. Ran (d, None)) \<and>
    sp_Peer peer' = Some p \<and> \<not> sp_dummy peer' \<and> (\<forall>pr. \<exists>e. f pr = pr\<lparr>endpoint_val := e\<rparr>)"
proof -
  let ?ep = "\<lparr>ep_addr = Addr4 ip, ep_zone = [], ep_port = port, ep_src = []\<rparr>"
  let ?f = "\<lambda>pr. pr\<lparr>endpoint_val := Some ?ep\<rparr>"
  let ?d1 = "upd_peer p ?f d"
  have a: "allowedips ?d1 = allowedips d" by (simp add: upd_simps)
  have l1: "handlePeerLine C es peer ''endpoint'' (showAddrPort (Addr4 ip) [] port) d = Ran (?d1, peer, None)"
    using peer ipv4_text_roundtrip [OF ip, of 32 port] by (simp add: handlePeerLine_def ParseEndpoint_def set_field_def)
  have l2: "handlePeerLine C es peer ''replace_allowed_ips'' ''true'' ?d1 =
      Ran (?d1\<lparr>allowedips := RemoveByPeer (allowedips d) p\<rparr>, peer, None)"
    using peer a by (simp add: handlePeerLine_def)
  have l3: "handlePeerLine C es peer ''allowed_ip'' ''10.0.0.1/32'' (?d1\<lparr>allowedips := RemoveByPeer (allowedips d) p\<rparr>) =
      Ran (?d1\<lparr>allowedips := t1\<rparr>, peer, None)"
    using peer t1 by (simp add: handlePeerLine_def Let_def internal_prefixes)
  have l4: "handlePeerLine C es peer ''allowed_ip'' ''10.0.0.2/32'' (?d1\<lparr>allowedips := t1\<rparr>) = Ran (?d1\<lparr>allowedips := t2\<rparr>, peer, None)"
    using peer t2 by (simp add: handlePeerLine_def Let_def internal_prefixes)
  have u: "ParseUint ''15'' 16 = Some 15" by (simp add: ParseUint_def)
  obtain peer' where l5: "handlePeerLine C es peer ''persistent_keepalive_interval'' ''15'' (?d1\<lparr>allowedips := t2\<rparr>) =
      Ran (upd_peer p (\<lambda>pr. pr\<lparr>persistentKeepaliveInterval := 15\<rparr>) (?d1\<lparr>allowedips := t2\<rparr>), peer', None)"
      "sp_Peer peer' = Some p" "\<not> sp_dummy peer'"
    using peer u by (auto simp: handlePeerLine_def set_field_def)
  have p: "plain_line (''endpoint'', showAddrPort (Addr4 ip) [] port)" "plain_line (''replace_allowed_ips'', ''true'')"
    "plain_line (''allowed_ip'', ''10.0.0.1/32'')" "plain_line (''allowed_ip'', ''10.0.0.2/32'')"
    "plain_line (''persistent_keepalive_interval'', ''15'')"
    by (rule peer_lines_plain [of _ ip port], simp add: peer_lines_def)+
  have k: "''endpoint'' \<noteq> ''public_key''" "''replace_allowed_ips'' \<noteq> ''public_key''" "''allowed_ip'' \<noteq> ''public_key''"
    "''persistent_keepalive_interval'' \<noteq> ''public_key''" by simp_all
  have "ipcSetLines C es ne (map line_text (peer_lines ip port)) False peer d =
      ipcSetLines C es ne [] False peer' (upd_peer p (\<lambda>pr. pr\<lparr>persistentKeepaliveInterval := 15\<rparr>) (?d1\<lparr>allowedips := t2\<rparr>))"
    unfolding peer_lines_def list.map
    by (simp only: run_peer_line [OF p(1) k(1) l1] run_peer_line [OF p(2) k(2) l2] run_peer_line [OF p(3) k(3) l3]
        run_peer_line [OF p(4) k(3) l4] run_peer_line [OF p(5) k(4) l5(1)])
  then show ?thesis using l5(2,3) by (intro exI [of _ peer'] exI [of _ ?f]) auto
qed

subsection \<open>What configuring keeps\<close>

definition settings where
  "settings d = (dstate d, keyMap d, privateKey d, public_key d, allowedips d,
     \<lambda>q. persistentKeepaliveInterval (peer_store d q))"

lemma settings_rest:
  assumes "rest d' = rest d"
  shows "settings d' = settings d"
  by (simp add: settings_def restD [OF assms])

lemma settings_stable: "stable d' = stable d \<Longrightarrow> settings d' = settings d"
  by (simp add: settings_def stable_def)

lemma stable_flushInbound: "flushInbound C cs d = Ran d' \<Longrightarrow> stable d' = stable d"
proof (induction cs arbitrary: d)
  case (Cons c cs)
  then obtain x where "lockInbound C c d = Ran x" "flushInbound C cs x = Ran d'" by auto
  then show ?case using Cons.IH [of x] stable_lock(1) by simp
qed simp

lemma settings_upd:
  assumes "\<And>pr. persistentKeepaliveInterval (f pr) = persistentKeepaliveInterval pr"
  shows "settings (upd_peer p f d) = settings d"
  by (auto simp: settings_def upd_simps assms)

lemma settings_Start: "Start C e p d = Ran d' \<Longrightarrow> settings d' = settings d"
proof -
  assume r: "Start C e p d = Ran d'"
  define d1 where "d1 = timersStart p (upd_handshake p (\<lambda>h. h\<lparr>hs_lastSentHandshake := now e - (RekeyTimeout + Second)\<rparr>) d)"
  have s1: "settings d1 = settings d" unfolding d1_def by (rule settings_rest) (simp add: frame)
  consider "d' = d" | x y where "flushInboundQueue C p d1 = Ran x" "flushOutboundQueue C p x = Ran y"
      "d' = upd_peer p (\<lambda>pr. pr\<lparr>isRunning := True\<rparr>) y"
    using r by (auto simp: Start_def Let_def d1_def split: if_splits outcome.splits)
  then show ?thesis
  proof cases
    case (2 x y)
    have "settings x = settings d1" using 2(1) settings_stable [OF stable_flushInbound]
      by (auto simp: flushInboundQueue_def settings_upd)
    moreover have "settings y = settings x" using 2(2) settings_stable [OF stable_flushOutbound]
      by (auto simp: flushOutboundQueue_def settings_upd)
    ultimately show ?thesis using s1 2(3) by (simp add: settings_upd)
  qed simp
qed

lemma settings_postConfig: "handlePostConfig C es peer d = Ran d' \<Longrightarrow> settings d' = settings d"
proof -
  assume r: "handlePostConfig C es peer d = Ran d'"
  have st: "settings (SendStagedPackets C e p x) = settings x" "settings (SendKeepalive C e p x) = settings x" for e p x
    by (rule settings_rest, simp add: frame)+
  show ?thesis
  proof (cases "sp_dummy peer \<or> sp_Peer peer = None")
    case True
    then show ?thesis using r by (cases "sp_dummy peer") (auto simp: handlePostConfig_def)
  next
    case False
    then obtain p where p: "sp_Peer peer = Some p" "\<not> sp_dummy peer" by auto
    define x where "x = (if sp_created peer
      then upd_peer p (\<lambda>pr. pr\<lparr>disableRoaming := brokenRoaming d \<and> endpoint_val pr \<noteq> None\<rparr>) d else d)"
    have x: "settings x = settings d" by (simp add: x_def settings_upd)
    consider "d' = x" | y where "Start C (es p) p x = Ran y"
        "d' = SendStagedPackets C (es p) p (if sp_pkaOn peer then SendKeepalive C (es p) p y else y)"
    proof (cases "isUp x")
      case False
      then have "d' = x" using r p by (simp add: handlePostConfig_def Let_def x_def)
      then show ?thesis using that by blast
    next
      case True
      then have "andThen (Start C (es p) p x) (\<lambda>y. Ran (SendStagedPackets C (es p) p
          (if sp_pkaOn peer then SendKeepalive C (es p) p y else y))) = Ran d'"
        using r p by (simp add: handlePostConfig_def Let_def x_def)
      then show ?thesis using that by (cases "Start C (es p) p x") auto
    qed
    then show ?thesis
    proof cases
      case (2 y)
      then show ?thesis using settings_Start [OF 2(1)] x by (simp add: st)
    qed (simp add: x)
  qed
qed

lemma halted_self: "halted d {} d"
  by (simp add: halted_def)

lemma settings_removal:
  assumes "sound x" "dstate x = dstate d" "privateKey x = privateKey d" "public_key x = public_key d"
  shows "\<exists>d'. forPeers (\<lambda>(key, p) y. if f p y then removePeerLocked C (es p) p key y else Ran y) kps x = Ran d' \<and> sound d' \<and>
    dstate d' = dstate d \<and> privateKey d' = privateKey d \<and> public_key d' = public_key d"
  using assms
proof (induction kps arbitrary: x)
  case (Cons kp kps)
  obtain key p where kp: "kp = (key, p)" by fastforce
  obtain y where y: "removePeerLocked C (es p) p key x = Ran y" "sound y" "halted x {p} y"
    using remove_all [OF Cons.prems(1) halted_self, of C es "[(key, p)]"] by (auto split: outcome.splits)
  have "\<exists>z. (if f p x then removePeerLocked C (es p) p key x else Ran x) = Ran z \<and> sound z \<and>
      dstate z = dstate d \<and> privateKey z = privateKey d \<and> public_key z = public_key d"
    using y Cons.prems by (auto simp: halted_def)
  then show ?case using Cons.IH kp by auto
qed simp

lemma fold_keeps:
  assumes "\<And>kp y. g (f kp y) = g y"
  shows "g (fold f kps y) = g y"
  by (induction kps arbitrary: y) (simp_all add: assms)

lemma ExpireCurrentKeypairs_keeps:
  "dstate (ExpireCurrentKeypairs e p d) = dstate d" "privateKey (ExpireCurrentKeypairs e p d) = privateKey d"
  "public_key (ExpireCurrentKeypairs e p d) = public_key d"
  by (simp_all add: ExpireCurrentKeypairs_def Let_def upd_simps upd_handshake_def upd_keypair_def deleteIndex_def split: option.split)

text \<open>The device's keys after a private key was set; setting the same key again changes nothing.\<close>

lemma SetPrivateKey_keys:
  assumes "sound d"
  shows "\<exists>d'. SetPrivateKey C es sk d = Ran d' \<and> sound d' \<and> dstate d' = dstate d \<and> privateKey d' = sk \<and>
    public_key d' \<in> {public_key d, publicKey C sk}"
proof (cases "key_Equals sk (privateKey d)")
  case True
  then show ?thesis using assms by (auto simp: SetPrivateKey_def key_Equals_def)
next
  case False
  let ?rm = "forPeers (\<lambda>(key, p) y. if key_Equals (hs_remoteStatic (hs_of y p)) (publicKey C sk)
      then removePeerLocked C (es p) p key y else Ran y) (keyMap d) d"
  obtain x where x: "?rm = Ran x" "dstate x = dstate d"
    using settings_removal [OF assms refl refl refl, of "\<lambda>p y. key_Equals (hs_remoteStatic (hs_of y p)) (publicKey C sk)" C es "keyMap d"]
    by blast
  let ?y = "x\<lparr>privateKey := sk, public_key := publicKey C sk, cookieChecker := CookieChecker_Init C (cookieChecker x) (publicKey C sk)\<rparr>"
  let ?z = "fold (\<lambda>(_, p) d. upd_handshake p (\<lambda>h. h\<lparr>hs_precomputedStaticStatic :=
      fst (sharedSecret C (privateKey d) (hs_remoteStatic h))\<rparr>) d) (keyMap ?y) ?y"
  let ?w = "fold (\<lambda>(_, p). ExpireCurrentKeypairs (es p) p) (keyMap ?z) ?z"
  have r: "SetPrivateKey C es sk d = Ran ?w" using False x(1) by (simp add: SetPrivateKey_def Let_def)
  let ?g = "\<lambda>d. (dstate d, privateKey d, public_key d)"
  have "?g (fold (\<lambda>(_, p). ExpireCurrentKeypairs (es p) p) kps x) = ?g x" for kps :: "(bytes \<times> peer_id) list" and x
    by (rule fold_keeps [where g = ?g and f = "\<lambda>(_, p). ExpireCurrentKeypairs (es p) p"])
      (simp add: ExpireCurrentKeypairs_keeps split: prod.split)
  then have gw: "?g ?w = ?g ?z" by blast
  have "?g ?z = ?g ?y"
    by (rule fold_keeps [where g = ?g and f = "\<lambda>(_, p) d. upd_handshake p (\<lambda>h. h\<lparr>hs_precomputedStaticStatic :=
      fst (sharedSecret C (privateKey d) (hs_remoteStatic h))\<rparr>) d"]) (simp add: upd_handshake_def upd_simps split: prod.split)
  then have "dstate ?w = dstate d \<and> privateKey ?w = sk \<and> public_key ?w = publicKey C sk" using gw x(2) by simp
  then show ?thesis using r workers.inv_SetPrivateKey [OF assms r] by blast
qed

lemma RemoveAllPeers_keys:
  assumes "sound d"
  shows "\<exists>d'. RemoveAllPeers C es d = Ran d' \<and> sound d' \<and> dstate d' = dstate d \<and> privateKey d' = privateKey d \<and>
    public_key d' = public_key d \<and> keyMap d' = []"
proof -
  obtain x where x: "forPeers (\<lambda>(key, p). removePeerLocked C (es p) p key) (keyMap d) d = Ran x" "sound x"
      "halted d ({} \<union> snd ` set (keyMap d)) x"
    using remove_all [OF assms halted_self, of C es "keyMap d"] by blast
  have r: "RemoveAllPeers C es d = Ran (x\<lparr>keyMap := []\<rparr>)" using x(1) by (simp add: RemoveAllPeers_def)
  moreover have "sound (x\<lparr>keyMap := []\<rparr>)" using x(2) by (rule sound_cong) simp_all
  ultimately show ?thesis using x(3) by (simp add: halted_def)
qed

subsection \<open>The whole configuration\<close>

lemma longest_full: "f bits = Some x \<Longrightarrow> longest f bits = Some x"
  by (simp add: longest_def)

lemma internal_routes:
  assumes "table_rel t m"
  shows "\<exists>t1 t2. AllowedIPs_Insert (RemoveByPeer t p) (Addr4 [10, 0, 0, 1], 32) p = Some t1 \<and>
    AllowedIPs_Insert t1 (Addr4 [10, 0, 0, 2], 32) p = Some t2 \<and>
    AllowedIPs_Lookup t2 [10, 0, 0, 1] = Some (Some p) \<and> AllowedIPs_Lookup t2 [10, 0, 0, 2] = Some (Some p)"
proof -
  have v: "valid_prefix (Addr4 [10, 0, 0, 1], 32)" "valid_prefix (Addr4 [10, 0, 0, 2], 32)" by (simp_all add: valid_prefix_def)
  obtain t1 where t1: "AllowedIPs_Insert (RemoveByPeer t p) (Addr4 [10, 0, 0, 1], 32) p = Some t1"
      "table_rel t1 ((\<lambda>k. if m k = Some p then None else m k)(pkey_of (Addr4 [10, 0, 0, 1], 32) \<mapsto> p))"
    using Insert_refines [OF RemoveByPeer_refines [OF assms] v(1)] by blast
  obtain t2 where t2: "AllowedIPs_Insert t1 (Addr4 [10, 0, 0, 2], 32) p = Some t2"
      "table_rel t2 ((\<lambda>k. if m k = Some p then None else m k)(pkey_of (Addr4 [10, 0, 0, 1], 32) \<mapsto> p,
         pkey_of (Addr4 [10, 0, 0, 2], 32) \<mapsto> p))"
    using Insert_refines [OF t1(2) v(2)] by blast
  have k: "pkey_of (Addr4 ip, 32) = (False, ipbits ip)" if "length ip = 4" for ip using that by (simp add: pkey_of_def)
  have "AllowedIPs_Lookup t2 ip = Some (Some p)" if "ip = [10, 0, 0, 1] \<or> ip = [10, 0, 0, 2]" for ip
  proof -
    have "length ip = 4" using that by auto
    moreover from this have "spec_lookup ((\<lambda>k. if m k = Some p then None else m k)(pkey_of (Addr4 [10, 0, 0, 1], 32) \<mapsto> p,
         pkey_of (Addr4 [10, 0, 0, 2], 32) \<mapsto> p)) ip = Some p"
      unfolding spec_lookup_def by (intro longest_full) (use that k in auto)
    ultimately show ?thesis using Lookup_refines [OF t2(2), of ip] by simp
  qed
  then show ?thesis using t1(1) t2(1) by blast
qed

text \<open>A new peer on an open device without peers.\<close>

lemma first_peer:
  assumes "\<not> isClosed d" "keyMap d = []" "length pub = 32" "public_key d \<noteq> pub"
  shows "\<exists>d' peer. handlePublicKeyLine C new_ipcSetPeer (hexEncode pub) d = (d', peer, None) \<and>
    sp_Peer peer = Some (next_peer d) \<and> \<not> sp_dummy peer \<and> keyMap d' = [(pub, next_peer d)] \<and> dstate d' = dstate d \<and>
    privateKey d' = privateKey d \<and> allowedips d' = allowedips d \<and> length (hs_presharedKey (hs_of d' (next_peer d))) = 32"
proof -
  have "PublicKey_FromHex (replicate 32 0) (hexEncode pub) = (pub, None)"
    using assms(3) by (simp add: PublicKey_FromHex_def loadExactHex_roundtrip)
  then show ?thesis using assms
    by (simp add: handlePublicKeyLine_def new_ipcSetPeer_def LookupPeer_def NewPeer_def Let_def MaxPeers_def key_Equals_def
        hs_of_def zeroPeer_def zeroHandshake_def timersInit_def split: prod.splits)
qed

definition psk_line :: "bytes option \<Rightarrow> (string \<times> string) list" where
  "psk_line psk = (case psk of None \<Rightarrow> [] | Some k \<Rightarrow> [(''preshared_key'', hexEncode k)])"

definition config_lines :: "bytes \<Rightarrow> bytes \<Rightarrow> bytes option \<Rightarrow> bytes \<Rightarrow> u16 \<Rightarrow> (string \<times> string) list" where
  "config_lines priv pub psk ip port =
     [(''private_key'', hexEncode priv), (''replace_peers'', ''true''), (''public_key'', hexEncode pub)] @
     psk_line psk @ peer_lines ip port"

lemma hex_plain: "length b = 32 \<Longrightarrow> CHR ''='' \<notin> set k \<Longrightarrow> CHR 0x0A \<notin> set k \<Longrightarrow> length k < 100 \<Longrightarrow> plain_line (k, hexEncode b)"
  by (simp add: plain_line_def hexDigits_plain length_hexEncode)

lemma config_lines_plain:
  assumes "length priv = 32" "length pub = 32" "\<forall>k. psk = Some k \<longrightarrow> length k = 32"
  shows "\<forall>kv \<in> set (config_lines priv pub psk ip port). plain_line kv"
  using assms hex_plain peer_lines_plain
  by (auto simp: config_lines_def psk_line_def plain_line_def [of "(''replace_peers'', _)"] split: option.splits)

lemma run_psk_line:
  assumes "sp_Peer peer = Some p" "\<not> sp_dummy peer" "\<forall>k. psk = Some k \<longrightarrow> length k = 32" "length (hs_presharedKey (hs_of d p)) = 32"
  shows "\<exists>f. ipcSetLines C es ne (map line_text (psk_line psk) @ ls) False peer d = ipcSetLines C es ne ls False peer (upd_handshake p f d)"
proof (cases psk)
  case None
  have "upd_handshake p (\<lambda>h. h) d = d" by (simp add: upd_handshake_def upd_peer_def)
  then show ?thesis using None by (intro exI [of _ "\<lambda>h. h"]) (simp add: psk_line_def)
next
  case (Some k)
  have l: "handlePeerLine C es peer ''preshared_key'' (hexEncode k) d = Ran (upd_handshake p (\<lambda>h. h\<lparr>hs_presharedKey := k\<rparr>) d, peer, None)"
    using assms Some loadExactHex_roundtrip [of k "hs_presharedKey (hs_of d p)"]
    by (simp add: handlePeerLine_def PresharedKey_FromHex_def get_peer_def set_field_def hs_of_def upd_handshake_def upd_peer_def)
  have "plain_line (''preshared_key'', hexEncode k)" using assms(3) Some by (intro hex_plain) simp_all
  then show ?thesis using run_peer_line [OF _ _ l] Some by (auto simp: psk_line_def)
qed

definition device_key :: "bytes \<Rightarrow> bytes" where
  "device_key priv = (if key_IsZero priv then priv else clamp priv)"

text \<open>What the configuration establishes on the device, for the peer \<open>q\<close>.\<close>

definition configured :: "bytes \<Rightarrow> bytes \<Rightarrow> peer_id \<Rightarrow> Device \<Rightarrow> bool" where
  "configured sk pub q d \<longleftrightarrow> privateKey d = sk \<and> keyMap d = [(pub, q)] \<and> persistentKeepaliveInterval (peer_store d q) = 15 \<and>
     AllowedIPs_Lookup (allowedips d) [10, 0, 0, 1] = Some (Some q) \<and> AllowedIPs_Lookup (allowedips d) [10, 0, 0, 2] = Some (Some q)"

lemma run_device_part:
  assumes s: "sound d" and len: "length priv = 32"
  shows "\<exists>d'. ipcSetLines C es ne (map line_text [(''private_key'', hexEncode priv), (''replace_peers'', ''true'')] @ ls) True peer d =
      ipcSetLines C es ne ls True peer d' \<and> sound d' \<and> dstate d' = dstate d \<and> privateKey d' = device_key priv \<and>
    public_key d' \<in> {public_key d, publicKey C (device_key priv)} \<and> keyMap d' = []"
proof -
  obtain d1 where d1: "SetPrivateKey C es (device_key priv) d = Ran d1" "sound d1" "dstate d1 = dstate d"
      "privateKey d1 = device_key priv" "public_key d1 \<in> {public_key d, publicKey C (device_key priv)}"
    using SetPrivateKey_keys [OF s] by blast
  obtain d2 where d2: "RemoveAllPeers C es d1 = Ran d2" "sound d2" "dstate d2 = dstate d1" "privateKey d2 = privateKey d1"
      "public_key d2 = public_key d1" "keyMap d2 = []"
    using RemoveAllPeers_keys [OF d1(2)] by blast
  have "FromMaybeZeroHex (replicate 32 0) (hexEncode priv) = (device_key priv, None)"
    using len by (simp add: FromMaybeZeroHex_def loadExactHex_roundtrip device_key_def)
  then have l1: "handleDeviceLine C es ne ''private_key'' (hexEncode priv) d = Ran (d1, None)"
    using d1(1) by (simp add: handleDeviceLine_def)
  have l2: "handleDeviceLine C es ne ''replace_peers'' ''true'' d1 = Ran (d2, None)" using d2(1) by (simp add: handleDeviceLine_def)
  have p: "plain_line (''private_key'', hexEncode priv)" "plain_line (''replace_peers'', ''true'')"
    using hex_plain [OF len, of "''private_key''"] by (simp_all add: plain_line_def [of "(''replace_peers'', _)"])
  have k: "''private_key'' \<noteq> ''public_key''" "''replace_peers'' \<noteq> ''public_key''" by simp_all
  have "ipcSetLines C es ne (map line_text [(''private_key'', hexEncode priv), (''replace_peers'', ''true'')] @ ls) True peer d =
      ipcSetLines C es ne ls True peer d2"
    by (simp only: list.map append_Cons append_Nil run_device_line [OF p(1) k(1) l1] run_device_line [OF p(2) k(2) l2])
  then show ?thesis using d1 d2 by auto
qed

lemma run_peer_part:
  assumes s: "sound d" "\<not> isClosed d" "keyMap d = []" and len: "length pub = 32" "\<forall>k. psk = Some k \<longrightarrow> length k = 32" "length ip = 4"
    and own: "public_key d \<noteq> pub"
  shows "\<exists>d' q. ipcSetLines C es ne (map line_text ((''public_key'', hexEncode pub) # psk_line psk @ peer_lines ip port)) True new_ipcSetPeer d =
    Ran (d', None) \<and> configured (privateKey d) pub q d'"
proof -
  let ?q = "next_peer d" and ?ls = "map line_text (psk_line psk) @ map line_text (peer_lines ip port)"
  obtain x peer where x: "handlePublicKeyLine C new_ipcSetPeer (hexEncode pub) d = (x, peer, None)" "sp_Peer peer = Some ?q"
      "\<not> sp_dummy peer" "keyMap x = [(pub, ?q)]" "privateKey x = privateKey d"
      "allowedips x = allowedips d" "length (hs_presharedKey (hs_of x ?q)) = 32"
    using first_peer [OF s(2,3) len(1) own] by blast
  have sx: "sound x" using workers.inv_handlePublicKeyLine [OF s(1)] x(1) by blast
  have "handlePostConfig C es new_ipcSetPeer d = Ran d" by (simp add: handlePostConfig_def new_ipcSetPeer_def)
  then have r1: "ipcSetLines C es ne (line_text (''public_key'', hexEncode pub) # ?ls) True new_ipcSetPeer d = ipcSetLines C es ne ?ls False peer x"
    using run_public_key [OF _ _ x(1)] hex_plain [OF len(1), of "''public_key''"] by simp
  obtain f where r2: "ipcSetLines C es ne ?ls False peer x = ipcSetLines C es ne (map line_text (peer_lines ip port)) False peer (upd_handshake ?q f x)"
    using run_psk_line [OF x(2,3) len(2) x(7)] by blast
  let ?x = "upd_handshake ?q f x"
  have ax: "allowedips ?x = allowedips d" "keyMap ?x = keyMap x" "privateKey ?x = privateKey x"
    using x(6) by (simp_all add: upd_handshake_def upd_simps)
  obtain m where m: "table_rel (allowedips ?x) m" using s(1) ax(1) by (auto simp: sound_def)
  obtain t1 t2 where t: "AllowedIPs_Insert (RemoveByPeer (allowedips ?x) ?q) (Addr4 [10, 0, 0, 1], 32) ?q = Some t1"
      "AllowedIPs_Insert t1 (Addr4 [10, 0, 0, 2], 32) ?q = Some t2"
      "AllowedIPs_Lookup t2 [10, 0, 0, 1] = Some (Some ?q)" "AllowedIPs_Lookup t2 [10, 0, 0, 2] = Some (Some ?q)"
    using internal_routes [OF m, of ?q] by blast
  obtain peer' h where r3: "ipcSetLines C es ne (map line_text (peer_lines ip port)) False peer ?x =
      andThen (handlePostConfig C es peer' (upd_peer ?q (\<lambda>pr. pr\<lparr>persistentKeepaliveInterval := 15\<rparr>)
        ((upd_peer ?q h ?x)\<lparr>allowedips := t2\<rparr>))) (\<lambda>d. Ran (d, None))"
    using run_peer_lines [OF x(2,3) len(3) t(1,2)] by blast
  let ?y = "upd_peer ?q (\<lambda>pr. pr\<lparr>persistentKeepaliveInterval := 15\<rparr>) ((upd_peer ?q h ?x)\<lparr>allowedips := t2\<rparr>)"
  obtain d' err where "ipcSetLines C es ne (line_text (''public_key'', hexEncode pub) # ?ls) True new_ipcSetPeer d = Ran (d', err)"
    using ipcSetLines_completes [OF s(1)] by blast
  then have z: "handlePostConfig C es peer' ?y = Ran d'" "err = None"
    unfolding r1 r2 r3 by (auto split: outcome.splits)
  then have "settings d' = settings ?y" using settings_postConfig by blast
  moreover have "keyMap ?y = [(pub, ?q)]" "privateKey ?y = privateKey d" "allowedips ?y = t2" "persistentKeepaliveInterval (peer_store ?y ?q) = 15"
    using ax x(4,5) by (simp_all add: upd_simps)
  ultimately have "configured (privateKey d) pub ?q d'" using t(3,4)
    unfolding configured_def settings_def by (auto simp: fun_eq_iff)
  then show ?thesis using r1 r2 r3 z by auto
qed

lemma run_config:
  assumes "sound d" "\<not> isClosed d" "length priv = 32" "length pub = 32" "\<forall>k. psk = Some k \<longrightarrow> length k = 32" "length ip = 4"
    "pub \<noteq> public_key d" "pub \<noteq> publicKey C (device_key priv)"
  shows "\<exists>d' q. IpcSetOperation C es ne (concat (map (\<lambda>(k, v). sendf k v) (config_lines priv pub psk ip port))) d = Ran (d', None) \<and>
    configured (device_key priv) pub q d'"
proof -
  let ?rest = "(''public_key'', hexEncode pub) # psk_line psk @ peer_lines ip port"
  obtain d1 where d1: "ipcSetLines C es ne (map line_text [(''private_key'', hexEncode priv), (''replace_peers'', ''true'')] @
        map line_text ?rest) True new_ipcSetPeer d = ipcSetLines C es ne (map line_text ?rest) True new_ipcSetPeer d1"
      "sound d1" "dstate d1 = dstate d" "privateKey d1 = device_key priv"
      "public_key d1 \<in> {public_key d, publicKey C (device_key priv)}" "keyMap d1 = []"
    using run_device_part [OF assms(1,3)] by blast
  have "\<not> isClosed d1" using assms(2) d1(3) by (simp add: isClosed_def)
  then have "\<exists>d' q. ipcSetLines C es ne (map line_text ?rest) True new_ipcSetPeer d1 = Ran (d', None) \<and> configured (device_key priv) pub q d'"
    using run_peer_part [OF d1(2) _ d1(6) assms(4-6)] d1(4,5) assms(7,8) by auto
  moreover have "scanLines (concat (map (\<lambda>(k, v). sendf k v) (config_lines priv pub psk ip port))) =
      map line_text [(''private_key'', hexEncode priv), (''replace_peers'', ''true'')] @ map line_text ?rest"
    using scanLines_lines [OF config_lines_plain [OF assms(3-5)]] by (simp add: config_lines_def)
  ultimately show ?thesis using d1(1) by (simp only: IpcSetOperation_def)
qed

text \<open>The text \<open>Rerun\<close> generates has these lines.\<close>

lemma Rerun_config:
  assumes "ku_privateKey k = EncodeToString priv" "length priv = 32" "ku_current k \<noteq> None" "ku_OnStartVPN k"
    "ku_peer k = Some p" "WireguardPublicKey p = EncodeToString pub" "length pub = 32"
    "PublicIP p = show4 ip" "PublicPort p = int (unat port)" "port \<noteq> 0" and sha: "\<forall>m. length (sha256 m) = 32"
  shows "\<exists>psk. ku_started (Rerun sha256 k) = ku_started k @ [concat (map (\<lambda>(k, v). sendf k v) (config_lines priv pub psk ip port))] \<and>
    (\<forall>s. psk = Some s \<longrightarrow> length s = 32)"
proof -
  let ?h = "sha256 (ascii (''orbitx/wireguard/psk/'' @ ku_uuid k @ ''/'' @ ku_secret k))"
  define psk where "psk = (if ku_secret k = [] then None else Some ?h)"
  have al: "allowedLines ''10.0.0.1/32,10.0.0.2/32'' = sendf ''allowed_ip'' ''10.0.0.1/32'' @ sendf ''allowed_ip'' ''10.0.0.2/32''"
    by code_simp
  have ka: "show_int 15 = ''15''" by code_simp
  have pt: "show4 ip @ CHR '':'' # show_int (uint port) = showAddrPort (Addr4 ip) [] port"
    by (simp add: showAddrPort_def show_int_def nat_uint_eq)
  have "priv \<noteq> []" "pub \<noteq> []" using assms(2,7) by auto
  then have ne: "EncodeToString priv \<noteq> []" "EncodeToString pub \<noteq> []" "show4 ip \<noteq> []"
    using EncodeToString_nonempty show4_no_sign by auto
  have "hexEncode ?h \<noteq> []" using length_hexEncode [of ?h] sha by auto
  then have psk: "(if derivePresharedKey sha256 (ku_uuid k) (ku_secret k) \<noteq> []
      then sendf ''preshared_key'' (derivePresharedKey sha256 (ku_uuid k) (ku_secret k)) else []) =
    concat (map (\<lambda>(k, v). sendf k v) (psk_line psk))"
    by (simp add: derivePresharedKey_def psk_def psk_line_def)
  have gen: "GenerateWithPresharedKey \<lparr>EndpointIP = show4 ip, EndpointPort = uint port, PeerPublicKey = EncodeToString pub,
        MyPrivateKey = EncodeToString priv, MyAddress = a\<rparr> dns ''10.0.0.1/32,10.0.0.2/32'' n
      (derivePresharedKey sha256 (ku_uuid k) (ku_secret k)) =
    concat (map (\<lambda>(k, v). sendf k v) (config_lines priv pub psk ip port))" for a dns n
    unfolding GenerateWithPresharedKey_def base64ToHex_def Let_def
    by (simp add: base64_roundtrip al ka pt psk config_lines_def peer_lines_def)
  define config where "config = concat (map (\<lambda>(k, v). sendf k v) (config_lines priv pub psk ip port))"
  have "config \<noteq> []" by (simp add: config_def config_lines_def sendf_def)
  moreover have "0 < uint port" using assms(10) uint_0_iff [of port] uint_ge_0 [of port] by linarith
  moreover obtain y where "ku_current k = Some y" using assms(3) by blast
  ultimately have "ku_started (Rerun sha256 k) = ku_started k @ [config]"
    using assms(1,4,5,6,8,9) ne by (simp add: Rerun_def Let_def gen config_def [symmetric])
  then show ?thesis using sha by (intro exI [of _ psk]) (auto simp: psk_def config_def)
qed


text \<open>A slave that has learned of its master, and a device that has just been created.\<close>

definition example_master :: SignalingPeer where
  "example_master = zeroSignalingPeer\<lparr>PublicIP := show4 [203, 0, 113, 7], PublicPort := 51820,
     WireguardPublicKey := EncodeToString (replicate 32 9)\<rparr>"

definition example_keys :: KeyUtils where
  "example_keys = (NewKeyUtils False ''phone'' ''pair'' [] Map.empty)\<lparr>ku_privateKey := EncodeToString (replicate 32 8),
     ku_secret := ''secret'', ku_OnStartVPN := True, ku_current := Some zeroSignalingPeer, ku_peer := Some example_master\<rparr>"


text \<open>The key derived from a shared secret is clamped, so that the device uses it as it is.\<close>

lemma derived_key:
  assumes "\<And>m. length (sha256 m) = 32"
  shows "\<exists>priv. ku_privateKey (fst (deriveAndSaveKey C sha256 w k)) = EncodeToString priv \<and> length priv = 32 \<and> clamp priv = priv \<and>
    ku_publicKey (fst (deriveAndSaveKey C sha256 w k)) = EncodeToString (ScalarBaseMult C priv)"
proof -
  let ?s = "sha256 (ascii (''orbitx/wireguard/private/'' @ ku_uuid k @ ''/'' @ role (ku_isHost k) @ ''/'' @ ku_secret k))"
  have "deriveAndSaveKey C sha256 w k = (let seed = clamp ?s; public = ScalarBaseMult C seed;
          k = k\<lparr>ku_privateKey := EncodeToString seed, ku_publicKey := EncodeToString public\<rparr>
      in if w
         then (k\<lparr>ku_files := (ku_files k)(keysFile k \<mapsto> KeyFile \<lparr>PrivateKey = ku_privateKey k, PublicKey = ku_publicKey k\<rparr>)\<rparr>, None)
         else (k, Some WriteError))"
    using assms [of "ascii (''orbitx/wireguard/private/'' @ ku_uuid k @ ''/'' @ role (ku_isHost k) @ ''/'' @ ku_secret k)"]
    by (simp add: deriveAndSaveKey_def clamp_def Let_def)
  then show ?thesis using assms clamp_idem by (intro exI [of _ "clamp ?s"]) (simp add: Let_def)
qed

text \<open>A message from the server that only moves the port leaves the published endpoint as it was.\<close>

lemma port_change_not_published:
  assumes "length head = 4" "length tid = 12" "length ip = 4"
    "\<forall>a \<in> set attrs. fst a \<noteq> XorMappedAddress \<and> length (snd a) < 2 ^ 16"
    and "sc_publicAddress (ku_stunClient k) = Some ip" "sc_onEndpointChanged (ku_stunClient k)"
  shows "\<exists>k'. onStunPacket sha256 t (stun_message head tid attrs ip port after) k = Some k' \<and>
    sc_publicPort (ku_stunClient k') = unat port \<and> ku_current k' = ku_current k \<and> ku_updates k' = ku_updates k"
  using parse_message [OF assms(1-4), of port after] assms(5,6)
  by (simp add: onStunPacket_def ProcessPacket_def publish_def Let_def endpointChanged_def)

end
