(* ===== verification/Spec2Isabelle.thy ===== *)
theory Spec2Isabelle
  imports Noise_Agreement Gro_Conserve Bind_Offload Win_Bind Pools Key_Config
begin

text \<open>
  A verification development for the orbitx VPN (src/wireguard-go), an implementation of WireGuard in Go.

  \<^bold>\<open>The program.\<close>  A \<^emph>\<open>device\<close> (device/device.go) moves IP packets between a TUN device and UDP sockets (the \<^emph>\<open>bind\<close>).  It
  holds \<^emph>\<open>peers\<close> (device/peer.go), found by public key, by the index a datagram carries (device/indextable.go) or by
  the inner address (device/allowedips.go).  Each peer runs a Noise handshake (device/noise-protocol.go, with the macs
  and cookies of device/cookie.go) that derives short-lived \<^emph>\<open>keypairs\<close>.  Packets read from the TUN device are staged,
  given a nonce of the current keypair, encrypted by parallel workers and sent in order (device/send.go); datagrams
  are classified, decrypted in parallel and, in order, checked against the replay window (replay/replay.go) and the
  peer's allowed addresses before they are written (device/receive.go).  Five timers per peer (device/timers.go) drive
  retries, keepalives and the erasure of keys.  A text protocol (device/uapi.go) configures all of it.  Below the device, the
  Linux TUN driver segments and coalesces packets (tun/offload_linux.go, tun/tun_linux.go) and the bind joins, splits and
  filters datagrams (conn/).  Beside it, a STUN client (z/stun/client.go) learns the public endpoint, and the key
  utilities (z/utils) derive keys, publish the endpoint and generate the configuration for a peer.

  \<^bold>\<open>Theories and sources.\<close>
  \<^item> \<open>Prelude\<close>: bytes, slices, byte orders, machine integers, Go's time arithmetic.
  \<^item> \<open>Replay\<close> (replay/replay.go), \<open>Ratelimiter\<close> (ratelimiter/ratelimiter.go), \<open>Tai64n\<close> (tai64n/tai64n.go), \<open>Checksum\<close>
    (tun/checksum.go): self-contained packages.
  \<^item> \<open>Noise_Types\<close> (device/noise-types.go, noise-helpers.go), \<open>Messages\<close> (the message codecs of noise-protocol.go),
    \<open>Cookie\<close> (cookie.go), \<open>Index_Table\<close> (indextable.go), \<open>Allowed_IPs\<close> and \<open>Allowed_Table\<close> (allowedips.go).
  \<^item> \<open>Device_State\<close>: the structs of device.go, peer.go, keypair.go and the queue elements; \<open>Noise_Protocol\<close>: handshake and
    key rotation; \<open>Timers\<close>; \<open>Send\<close>; \<open>Receive\<close>; \<open>Peers\<close> (peer.go, the expiry functions of timers.go, the draining of channels.go);
    \<open>Device_Ops\<close> (device.go, tun.go, mobilequirks.go); \<open>Netip\<close> (the functions of Go's net/netip, strconv, strings and bufio
    that uapi.go calls); \<open>Uapi\<close> (uapi.go).
  \<^item> \<open>Slices\<close> (Go slices with capacity and checked access), \<open>Gso\<close> (segmentation in offload_linux.go and \<open>handleVirtioRead\<close>), \<open>Gro\<close> and
    \<open>Gro_Conserve\<close> (coalescing in offload_linux.go, \<open>Write\<close>), \<open>Udp_Offload\<close> and \<open>Udp_Batches\<close> (conn/bind_std.go, gso_linux.go,
    sticky_linux.go), \<open>Std_Bind\<close> (\<open>Open\<close>, \<open>Close\<close> and \<open>Send\<close> of bind_std.go), \<open>Bind_Receive\<close> and \<open>Bind_Offload\<close>
    (\<open>receiveIP\<close> without and with receive offload), \<open>Win_Bind\<close> (bind_windows.go), \<open>Ref_Queues\<close> and \<open>Pools\<close>
    (channels.go, pools.go and the queueconstants files), \<open>Stun\<close> (z/stun/client.go), \<open>Key_Utils\<close> and \<open>Key_Config\<close> (z/utils, z/models).
  \<^item> \<open>Noise_Agreement\<close>, \<open>Frames\<close>, \<open>Transport\<close>, \<open>Delivery\<close>, \<open>Device_Run\<close>, \<open>Device_Steps\<close>, \<open>Nonces\<close>, \<open>Workers\<close>, \<open>Config_Lines\<close>: proofs about
    the composition.

  \<^bold>\<open>State and operations.\<close>  A struct is a record with the source's field names, an enumeration a datatype.  Pointers are
  identities: peers, keypairs and queue containers are numbers naming entries of the device's stores, so that sharing
  is visible.  An operation takes the state and returns it; an error is a value, a panic is \<open>None\<close> or \<open>Panicked\<close>, and
  an operation that would wait returns \<open>Blocked\<close>.  What an operation reads from outside (the clock, random bytes,
  answers of the bind and of the TUN device) is a parameter \<open>env\<close> or \<open>net_env\<close>; one reading of the clock serves one
  operation.  Cryptographic primitives are the parameter \<open>crypto\<close>; \<open>crypto_ok\<close> states what is relied on (sizes, that opening
  inverts sealing, that Diffie-Hellman commutes), and \<open>plain_crypto\<close> is an instance.

  \<^bold>\<open>Concurrency.\<close>  Each loop body of a goroutine is one function; \<open>dev_step\<close> (theory \<open>Device_Steps\<close>) has a rule for an iteration of each
  goroutine, each timer, each tick and each call of the interface, with any environment, and \<open>reaches\<close> its runs.  An iteration is one
  step; the parallelism of workers shows in the choice of the container they finish.  Inside \<open>NewIndexForHandshake\<close>, which
  takes its lock twice, other goroutines' changes are a parameter.  Maps that Go ranges over in random order are association
  lists visited in theirs.

  \<^bold>\<open>What is shown.\<close>  The two sides of a handshake agree on keys; marshalling and hexadecimal keys round-trip; the replay window is
  exactly the abstract window; the trie is longest-prefix match on the map its operations build; the limiter admits no more than its
  rate; checksums are the RFC's; a cookie exchange ends in accepted macs and expires.  Across components: a packet
  sent arrives unchanged; a nonce is never used twice and a packet delivered at most once, in every run; workers never panic;
  \<open>Close\<close> and \<open>IpcSetOperation\<close> always return; the generated configuration is accepted by every open device.  Segments carry exactly the
  packet they were cut from; coalescing conserves every byte of every TCP flow; what the bind
  sends, joined or not, are the datagrams it was given; what it reports is what arrived, and a STUN packet ahead of a datagram breaks that for the device.  The rings of the Windows bind
  are bounded queues and never overrun; the wait pool keeps its bound and loses no wake-up; a worker queue is closed after its last writer.  The properties of runs rest on the locale \<open>device_invariant\<close>: its laws name the
  few operations that change keys, queues or routes, its lemmas carry an invariant through every step, and each
  invariant is an interpretation.

  \<^bold>\<open>Bounds and fuel.\<close>  No definition has fuel.  Loops that do not recurse on data (\<open>stage\<close>, \<open>sendStaged\<close>, \<open>groups6\<close>) have
  termination proofs; the random retry of \<open>NewIndexForHandshake\<close> recurses on the list of draws.  Counters, indices, lengths and
  tokens have the width of the source.  Identities of keypairs and containers are unbounded, as memory addresses are fresh.

  \<^bold>\<open>Not modelled.\<close>  The device's own calls of the pools (memory is not recycled in the model; the pool and the counted
  queues are verified on their own); logging; socket options and system calls; creating TUN devices and the userspace network stack, which wrap
  kernel or third-party interfaces; IPC sockets; process start-up and foreign-function exports.
\<close>

end
